(* ===== verification/SVGA_Prelude.thy ===== *)
theory SVGA_Prelude
  imports Main "HOL-Library.Word" "HOL-Library.Monad_Syntax" "HOL-Library.Sublist"
begin

unbundle bit_operations_syntax

text \<open>
  Shared vocabulary of the development: the machine integer types of the C++ sources, the
  \<open>IOReturn\<close> codes the driver returns, and the generic lemmas on words and lists that the
  component theories use.
\<close>

section \<open>Machine integers\<close>

type_synonym u8 = "8 word"
type_synonym u16 = "16 word"
type_synonym u32 = "32 word"
type_synonym u64 = "64 word"

text \<open>
  The \<open>IOReturn\<close> codes of IOKit that occur in the modelled functions.  Only their identity
  matters to the driver, so they are the constructors of a datatype.
\<close>

datatype IOReturn =
    kIOReturnSuccess | kIOReturnError | kIOReturnNoMemory | kIOReturnNoResources
  | kIOReturnBadArgument | kIOReturnBadMedia | kIOReturnInternalError | kIOReturnNotAligned
  | kIOReturnNoDevice | kIOReturnUnsupported | kIOReturnNotReady | kIOReturnDeviceError
  | kIOReturnUnderrun | kIOReturnOverrun | kIOReturnNotFound | kIOReturnNotPrivileged
  | kIOReturnUnsupportedMode

section \<open>Words and naturals\<close>

lemma unat_u32_less: "unat (x :: u32) < 2 ^ 32"
  using unsigned_less [of x] by simp

lemma unat_ucast_up [simp]: "unat (ucast (x :: u32) :: u64) = unat x"
  using unat_u32_less [of x] by (simp add: unsigned_ucast_eq take_bit_nat_eq_self)

lemma unat_add_small:
  "unat a + unat b < 2 ^ LENGTH('a) \<Longrightarrow> unat (a + b :: 'a :: len word) = unat a + unat b"
  by (simp add: unat_word_ariths)

lemma unat_sub_small:
  "b \<le> a \<Longrightarrow> unat (a - b :: 'a :: len word) = unat a - unat b"
  by (rule unat_sub)

lemma unat_of_nat_small:
  "n < 2 ^ LENGTH('a) \<Longrightarrow> unat (of_nat n :: 'a :: len word) = n"
  by (simp add: unat_of_nat take_bit_nat_eq_self)

lemma ucast_down_nat: "ucast (of_nat m :: u64) = (of_nat m :: u32)"
  by (simp add: word_unat_eq_iff unsigned_ucast_eq unat_of_nat take_bit_eq_mod mod_mod_cancel)

section \<open>Intervals of naturals\<close>

lemma upt_split: "a \<le> b \<Longrightarrow> b \<le> c \<Longrightarrow> [a..<c] = [a..<b] @ [b..<c]"
  by (metis le_add_diff_inverse upt_add_eq_append)

lemma upt_shift: "map (\<lambda>j. a + j) [i..<n] = [a + i..<a + n :: nat]"
  by (intro nth_equalityI) auto

lemma upt_Suc_0: "[0..<Suc n] = 0 # map Suc [0..<n]"
  by (simp add: map_Suc_upt upt_conv_Cons del: upt_Suc)

lemma word_mod_4: "bytes mod 4 = 0 \<longleftrightarrow> 4 dvd unat (bytes :: u64)"
  using unat_mod_distrib [of bytes 4] by (simp add: dvd_eq_mod_eq_0 word_unat_eq_iff)

end
