(* ===== verification/SVGA_Regs.thy ===== *)
theory SVGA_Regs
  imports SVGA_Prelude
begin

text \<open>
  The constants of the SVGA device interface (\<open>src/ceinclude/svga_reg.h\<close>) that the driver
  uses: device register numbers, indices of the registers at the start of FIFO memory,
  capability masks and the identifiers of the two-dimensional FIFO commands.  They are
  abbreviations, so that the simplifier computes with the numerals themselves.
\<close>

section \<open>Device registers and ports\<close>

abbreviation (input) SVGA_INDEX_PORT :: u16 where "SVGA_INDEX_PORT \<equiv> 0"
abbreviation (input) SVGA_VALUE_PORT :: u16 where "SVGA_VALUE_PORT \<equiv> 1"

abbreviation (input) SVGA_REG_ID :: u32 where "SVGA_REG_ID \<equiv> 0"
abbreviation (input) SVGA_REG_ENABLE :: u32 where "SVGA_REG_ENABLE \<equiv> 1"
abbreviation (input) SVGA_REG_WIDTH :: u32 where "SVGA_REG_WIDTH \<equiv> 2"
abbreviation (input) SVGA_REG_HEIGHT :: u32 where "SVGA_REG_HEIGHT \<equiv> 3"
abbreviation (input) SVGA_REG_MAX_WIDTH :: u32 where "SVGA_REG_MAX_WIDTH \<equiv> 4"
abbreviation (input) SVGA_REG_MAX_HEIGHT :: u32 where "SVGA_REG_MAX_HEIGHT \<equiv> 5"
abbreviation (input) SVGA_REG_BITS_PER_PIXEL :: u32 where "SVGA_REG_BITS_PER_PIXEL \<equiv> 7"
abbreviation (input) SVGA_REG_BYTES_PER_LINE :: u32 where "SVGA_REG_BYTES_PER_LINE \<equiv> 12"
abbreviation (input) SVGA_REG_FB_OFFSET :: u32 where "SVGA_REG_FB_OFFSET \<equiv> 14"
abbreviation (input) SVGA_REG_VRAM_SIZE :: u32 where "SVGA_REG_VRAM_SIZE \<equiv> 15"
abbreviation (input) SVGA_REG_FB_SIZE :: u32 where "SVGA_REG_FB_SIZE \<equiv> 16"
abbreviation (input) SVGA_REG_CAPABILITIES :: u32 where "SVGA_REG_CAPABILITIES \<equiv> 17"
abbreviation (input) SVGA_REG_MEM_SIZE :: u32 where "SVGA_REG_MEM_SIZE \<equiv> 19"
abbreviation (input) SVGA_REG_CONFIG_DONE :: u32 where "SVGA_REG_CONFIG_DONE \<equiv> 20"
abbreviation (input) SVGA_REG_SYNC :: u32 where "SVGA_REG_SYNC \<equiv> 21"
abbreviation (input) SVGA_REG_BUSY :: u32 where "SVGA_REG_BUSY \<equiv> 22"
abbreviation (input) SVGA_REG_CURSOR_ID :: u32 where "SVGA_REG_CURSOR_ID \<equiv> 24"
abbreviation (input) SVGA_REG_CURSOR_X :: u32 where "SVGA_REG_CURSOR_X \<equiv> 25"
abbreviation (input) SVGA_REG_CURSOR_Y :: u32 where "SVGA_REG_CURSOR_Y \<equiv> 26"
abbreviation (input) SVGA_REG_CURSOR_ON :: u32 where "SVGA_REG_CURSOR_ON \<equiv> 27"
abbreviation (input) SVGA_REG_HOST_BITS_PER_PIXEL :: u32 where "SVGA_REG_HOST_BITS_PER_PIXEL \<equiv> 28"
abbreviation (input) SVGA_REG_DISPLAY_ID :: u32 where "SVGA_REG_DISPLAY_ID \<equiv> 35"
abbreviation (input) SVGA_REG_GMR_ID :: u32 where "SVGA_REG_GMR_ID \<equiv> 41"
abbreviation (input) SVGA_REG_GMR_DESCRIPTOR :: u32 where "SVGA_REG_GMR_DESCRIPTOR \<equiv> 42"
abbreviation (input) SVGA_REG_GMR_MAX_IDS :: u32 where "SVGA_REG_GMR_MAX_IDS \<equiv> 43"
abbreviation (input) SVGA_REG_GMR_MAX_DESCRIPTOR_LENGTH :: u32
  where "SVGA_REG_GMR_MAX_DESCRIPTOR_LENGTH \<equiv> 44"
abbreviation (input) SVGA_REG_TRACES :: u32 where "SVGA_REG_TRACES \<equiv> 45"
abbreviation (input) SVGA_REG_GMRS_MAX_PAGES :: u32 where "SVGA_REG_GMRS_MAX_PAGES \<equiv> 46"
abbreviation (input) SVGA_REG_MEMORY_SIZE :: u32 where "SVGA_REG_MEMORY_SIZE \<equiv> 47"

abbreviation (input) SVGA_ID_2 :: u32 where "SVGA_ID_2 \<equiv> 0x90000002"
abbreviation (input) SVGA_ID_INVALID :: u32 where "SVGA_ID_INVALID \<equiv> 0xFFFFFFFF"
abbreviation (input) SVGA_REG_TOP :: nat where "SVGA_REG_TOP \<equiv> 48"
abbreviation (input) SVGA_FB_MAX_TRACEABLE_SIZE :: nat where "SVGA_FB_MAX_TRACEABLE_SIZE \<equiv> 0x1000000"

section \<open>Device capabilities\<close>

abbreviation (input) SVGA_CAP_EXTENDED_FIFO :: u32 where "SVGA_CAP_EXTENDED_FIFO \<equiv> 0x00008000"
abbreviation (input) SVGA_CAP_GMR :: u32 where "SVGA_CAP_GMR \<equiv> 0x00100000"
abbreviation (input) SVGA_CAP_TRACES :: u32 where "SVGA_CAP_TRACES \<equiv> 0x00200000"
abbreviation (input) SVGA_CAP_GMR2 :: u32 where "SVGA_CAP_GMR2 \<equiv> 0x00400000"

section \<open>FIFO registers (dword indices into FIFO memory)\<close>

abbreviation (input) SVGA_FIFO_MIN :: nat where "SVGA_FIFO_MIN \<equiv> 0"
abbreviation (input) SVGA_FIFO_MAX :: nat where "SVGA_FIFO_MAX \<equiv> 1"
abbreviation (input) SVGA_FIFO_NEXT_CMD :: nat where "SVGA_FIFO_NEXT_CMD \<equiv> 2"
abbreviation (input) SVGA_FIFO_STOP :: nat where "SVGA_FIFO_STOP \<equiv> 3"
abbreviation (input) SVGA_FIFO_CAPABILITIES :: nat where "SVGA_FIFO_CAPABILITIES \<equiv> 4"
abbreviation (input) SVGA_FIFO_FENCE :: nat where "SVGA_FIFO_FENCE \<equiv> 6"
abbreviation (input) SVGA_FIFO_3D_HWVERSION :: nat where "SVGA_FIFO_3D_HWVERSION \<equiv> 7"
abbreviation (input) SVGA_FIFO_CURSOR_ON :: nat where "SVGA_FIFO_CURSOR_ON \<equiv> 9"
abbreviation (input) SVGA_FIFO_CURSOR_X :: nat where "SVGA_FIFO_CURSOR_X \<equiv> 10"
abbreviation (input) SVGA_FIFO_CURSOR_Y :: nat where "SVGA_FIFO_CURSOR_Y \<equiv> 11"
abbreviation (input) SVGA_FIFO_CURSOR_COUNT :: nat where "SVGA_FIFO_CURSOR_COUNT \<equiv> 12"
abbreviation (input) SVGA_FIFO_RESERVED :: nat where "SVGA_FIFO_RESERVED \<equiv> 14"
abbreviation (input) SVGA_FIFO_CURSOR_SCREEN_ID :: nat where "SVGA_FIFO_CURSOR_SCREEN_ID \<equiv> 15"
abbreviation (input) SVGA_FIFO_3D_HWVERSION_REVISED :: nat where "SVGA_FIFO_3D_HWVERSION_REVISED \<equiv> 17"
abbreviation (input) SVGA_FIFO_3D_CAPS :: nat where "SVGA_FIFO_3D_CAPS \<equiv> 32"
abbreviation (input) SVGA_FIFO_3D_CAPS_LAST :: nat where "SVGA_FIFO_3D_CAPS_LAST \<equiv> 287"
abbreviation (input) SVGA_FIFO_GUEST_3D_HWVERSION :: nat where "SVGA_FIFO_GUEST_3D_HWVERSION \<equiv> 288"
abbreviation (input) SVGA_FIFO_BUSY :: nat where "SVGA_FIFO_BUSY \<equiv> 290"
abbreviation (input) SVGA_FIFO_NUM_REGS :: nat where "SVGA_FIFO_NUM_REGS \<equiv> 291"

abbreviation (input) SVGA_FIFO_CAP_FENCE :: u32 where "SVGA_FIFO_CAP_FENCE \<equiv> 1"
abbreviation (input) SVGA_FIFO_CAP_CURSOR_BYPASS_3 :: u32 where "SVGA_FIFO_CAP_CURSOR_BYPASS_3 \<equiv> 16"
abbreviation (input) SVGA_FIFO_CAP_RESERVE :: u32 where "SVGA_FIFO_CAP_RESERVE \<equiv> 64"
abbreviation (input) SVGA_FIFO_CAP_SCREEN_OBJECT :: u32 where "SVGA_FIFO_CAP_SCREEN_OBJECT \<equiv> 128"
abbreviation (input) SVGA_FIFO_CAP_3D_HWVERSION_REVISED :: u32
  where "SVGA_FIFO_CAP_3D_HWVERSION_REVISED \<equiv> 256"
abbreviation (input) SVGA_FIFO_CAP_SCREEN_OBJECT_2 :: u32 where "SVGA_FIFO_CAP_SCREEN_OBJECT_2 \<equiv> 512"

section \<open>Two-dimensional FIFO commands\<close>

abbreviation (input) SVGA_CMD_UPDATE :: u32 where "SVGA_CMD_UPDATE \<equiv> 1"
abbreviation (input) SVGA_CMD_RECT_COPY :: u32 where "SVGA_CMD_RECT_COPY \<equiv> 3"
abbreviation (input) SVGA_CMD_DEFINE_ALPHA_CURSOR :: u32 where "SVGA_CMD_DEFINE_ALPHA_CURSOR \<equiv> 22"
abbreviation (input) SVGA_CMD_FRONT_ROP_FILL :: u32 where "SVGA_CMD_FRONT_ROP_FILL \<equiv> 29"
abbreviation (input) SVGA_CMD_FENCE :: u32 where "SVGA_CMD_FENCE \<equiv> 30"
abbreviation (input) SVGA_CMD_ESCAPE :: u32 where "SVGA_CMD_ESCAPE \<equiv> 33"
abbreviation (input) SVGA_CMD_DEFINE_SCREEN :: u32 where "SVGA_CMD_DEFINE_SCREEN \<equiv> 34"
abbreviation (input) SVGA_CMD_DESTROY_SCREEN :: u32 where "SVGA_CMD_DESTROY_SCREEN \<equiv> 35"
abbreviation (input) SVGA_CMD_DEFINE_GMRFB :: u32 where "SVGA_CMD_DEFINE_GMRFB \<equiv> 36"
abbreviation (input) SVGA_CMD_BLIT_GMRFB_TO_SCREEN :: u32 where "SVGA_CMD_BLIT_GMRFB_TO_SCREEN \<equiv> 37"
abbreviation (input) SVGA_CMD_BLIT_SCREEN_TO_GMRFB :: u32 where "SVGA_CMD_BLIT_SCREEN_TO_GMRFB \<equiv> 38"
abbreviation (input) SVGA_CMD_ANNOTATION_FILL :: u32 where "SVGA_CMD_ANNOTATION_FILL \<equiv> 39"
abbreviation (input) SVGA_CMD_ANNOTATION_COPY :: u32 where "SVGA_CMD_ANNOTATION_COPY \<equiv> 40"
abbreviation (input) SVGA_CMD_DEFINE_GMR2 :: u32 where "SVGA_CMD_DEFINE_GMR2 \<equiv> 41"
abbreviation (input) SVGA_CMD_REMAP_GMR2 :: u32 where "SVGA_CMD_REMAP_GMR2 \<equiv> 42"

abbreviation (input) SVGA_ROP_COPY :: u32 where "SVGA_ROP_COPY \<equiv> 3"
abbreviation (input) SVGA_ESCAPE_NSID_CECL :: u32 where "SVGA_ESCAPE_NSID_CECL \<equiv> 0"
abbreviation (input) SVGA_ESCAPE_CECL_VIDEO_SET_REGS :: u32
  where "SVGA_ESCAPE_CECL_VIDEO_SET_REGS \<equiv> 0x00020001"
abbreviation (input) SVGA_ESCAPE_CECL_VIDEO_FLUSH :: u32
  where "SVGA_ESCAPE_CECL_VIDEO_FLUSH \<equiv> 0x00020002"

end
