(* ===== verification/SVGA_Device.thy ===== *)
theory SVGA_Device
  imports SVGA_Regs
begin

text \<open>
  The class \<open>SVGADevice\<close> (\<open>src/FB/SVGADevice.cpp\<close>, \<open>src/FB/SVGADevice.h\<close>): register
  access through the index and value ports, start-up, the command FIFO (reserve and commit,
  with the bounce buffer), fences, the cursor, mode setting, the video overlay escapes and the
  framebuffer commands.

  FIFO memory and the bounce buffer are arrays of dwords; a byte offset of the C++ code is an
  index after division by four.  The hardware behind the ports is not part of the repository:
  the record fields \<open>outl_port\<close> and \<open>inl_port\<close> give its reaction to an \<open>outl\<close> or
  \<open>inl\<close> instruction on the host's own state and on FIFO memory, which host and guest share.
  A loop that waits for the host is a \<open>partial_function (option)\<close>: \<open>None\<close> is a wait
  that never ends.  Logging has no effect on the state and is left out.
\<close>

section \<open>State\<close>

type_synonym fifo_mem = "nat \<Rightarrow> u32"

datatype fptr = FifoAt nat | BounceAt nat

record 'h SVGADevice =
  m_provider :: bool
  m_bar0_map :: bool
  m_bar2_map :: bool
  m_fifo_ptr :: bool
  m_cursor_ptr :: "fptr option"
  m_fifo_size :: u32
  m_bounce_buffer :: bool
  m_using_bounce_buffer :: bool
  m_reserved_size :: u64
  m_next_fence :: u32
  m_capabilities :: u32
  m_width :: u32
  m_height :: u32
  m_pitch :: u32
  m_max_width :: u32
  m_max_height :: u32
  m_max_gmr_ids :: u32
  m_max_gmr_descriptor_length :: u32
  m_max_gmr_pages :: u32
  m_total_memory :: u32
  m_fb_offset :: u32
  m_vram_size :: u32
  m_fb_size :: u32
  m_io_base :: u16
  fifo :: fifo_mem
  bounce :: fifo_mem
  host :: 'h
  outl_port :: "u16 \<Rightarrow> u32 \<Rightarrow> 'h \<times> fifo_mem \<Rightarrow> 'h \<times> fifo_mem"
  inl_port :: "u16 \<Rightarrow> 'h \<times> fifo_mem \<Rightarrow> u32 \<times> 'h \<times> fifo_mem"

abbreviation (input) BOUNCE_BUFFER_SIZE :: u64 where "BOUNCE_BUFFER_SIZE \<equiv> 0x10000"

text \<open>Stores through a pointer that \<open>FIFOReserve\<close> returned, dword by dword.\<close>

definition write_words :: "nat \<Rightarrow> u32 list \<Rightarrow> fifo_mem \<Rightarrow> fifo_mem" where
  "write_words k ws f = (\<lambda>i. if k \<le> i \<and> i < k + length ws then ws ! (i - k) else f i)"

fun fptr_add :: "fptr \<Rightarrow> nat \<Rightarrow> fptr" where
  "fptr_add (FifoAt k) n = FifoAt (k + n)"
| "fptr_add (BounceAt k) n = BounceAt (k + n)"

fun poke :: "fptr \<Rightarrow> u32 list \<Rightarrow> 'h SVGADevice \<Rightarrow> 'h SVGADevice" where
  "poke (FifoAt k) ws s = s\<lparr>fifo := write_words k ws (fifo s)\<rparr>"
| "poke (BounceAt k) ws s = s\<lparr>bounce := write_words k ws (bounce s)\<rparr>"

section \<open>Register access and start-up\<close>

definition count_bits :: "u32 \<Rightarrow> u32" where
  "count_bits mask0 =
     (let mask1 = drop_bit 1 (mask0 AND 0xAAAAAAAA) + (mask0 AND 0x55555555);
          mask2 = drop_bit 2 (mask1 AND 0xCCCCCCCC) + (mask1 AND 0x33333333);
          mask3 = drop_bit 4 (mask2 AND 0xF0F0F0F0) + (mask2 AND 0x0F0F0F0F);
          mask4 = drop_bit 8 (mask3 AND 0xFF00FF00) + (mask3 AND 0x00FF00FF)
      in drop_bit 16 (mask4 AND 0xFFFF0000) + (mask4 AND 0x0000FFFF))"

definition ReadReg :: "u32 \<Rightarrow> 'h SVGADevice \<Rightarrow> u32 \<times> 'h SVGADevice" where
  "ReadReg index s =
     (let m1 = outl_port s (m_io_base s + SVGA_INDEX_PORT) index (host s, fifo s);
          (v, h2, f2) = inl_port s (m_io_base s + SVGA_VALUE_PORT) m1
      in (v, s\<lparr>host := h2, fifo := f2\<rparr>))"

definition WriteReg :: "u32 \<Rightarrow> u32 \<Rightarrow> 'h SVGADevice \<Rightarrow> 'h SVGADevice" where
  "WriteReg index v s =
     (let m1 = outl_port s (m_io_base s + SVGA_INDEX_PORT) index (host s, fifo s);
          (h2, f2) = outl_port s (m_io_base s + SVGA_VALUE_PORT) v m1
      in s\<lparr>host := h2, fifo := f2\<rparr>)"

definition FIFOFull :: "'h SVGADevice \<Rightarrow> 'h SVGADevice" where
  "FIFOFull s = snd (ReadReg SVGA_REG_BUSY (WriteReg SVGA_REG_SYNC 1 s))"

definition SVGADevice_Init :: "'h SVGADevice \<Rightarrow> bool \<times> 'h SVGADevice" where
  "SVGADevice_Init s =
     (True, s\<lparr>m_provider := False, m_bar0_map := False, m_bar2_map := False,
              m_fifo_ptr := False, m_cursor_ptr := None, m_bounce_buffer := False,
              m_next_fence := 1, m_capabilities := 0\<rparr>)"

definition SVGADevice_Cleanup :: "'h SVGADevice \<Rightarrow> 'h SVGADevice" where
  "SVGADevice_Cleanup s =
     s\<lparr>m_provider := False, m_bar0_map := False, m_bar2_map := False, m_fifo_ptr := False,
       m_bounce_buffer := False, m_capabilities := 0\<rparr>"

definition HasCapability :: "u32 \<Rightarrow> 'h SVGADevice \<Rightarrow> bool" where
  "HasCapability msk s \<longleftrightarrow> m_capabilities s AND msk \<noteq> 0"

definition SVGADevice_Disable :: "'h SVGADevice \<Rightarrow> 'h SVGADevice" where
  "SVGADevice_Disable s = WriteReg SVGA_REG_ENABLE 0 s"

section \<open>The command FIFO\<close>

definition IsFIFORegValid :: "u32 \<Rightarrow> 'h SVGADevice \<Rightarrow> bool" where
  "IsFIFORegValid reg s \<longleftrightarrow> fifo s SVGA_FIFO_MIN > push_bit 2 reg"

definition HasFIFOCap :: "u32 \<Rightarrow> 'h SVGADevice \<Rightarrow> bool" where
  "HasFIFOCap msk s \<longleftrightarrow> fifo s SVGA_FIFO_CAPABILITIES AND msk \<noteq> 0"

definition set_fifo :: "nat \<Rightarrow> u32 \<Rightarrow> 'h SVGADevice \<Rightarrow> 'h SVGADevice" where
  "set_fifo i v s = s\<lparr>fifo := (fifo s)(i := v)\<rparr>"

definition FIFOInit :: "'h SVGADevice \<Rightarrow> bool \<times> 'h SVGADevice" where
  "FIFOInit s =
     (if \<not> HasCapability SVGA_CAP_EXTENDED_FIFO s then (False, s)
      else
        let s = set_fifo SVGA_FIFO_MIN (of_nat (SVGA_FIFO_NUM_REGS * 4)) s;
            s = set_fifo SVGA_FIFO_MAX (m_fifo_size s) s;
            s = set_fifo SVGA_FIFO_NEXT_CMD (fifo s SVGA_FIFO_MIN) s;
            s = set_fifo SVGA_FIFO_STOP (fifo s SVGA_FIFO_MIN) s;
            s = WriteReg SVGA_REG_CONFIG_DONE 1 s;
            fifo_capabilities = fifo s SVGA_FIFO_CAPABILITIES
        in if fifo_capabilities AND SVGA_FIFO_CAP_CURSOR_BYPASS_3 = 0 then (False, s)
           else if fifo_capabilities AND SVGA_FIFO_CAP_RESERVE = 0 then (False, s)
           else (True, s\<lparr>m_reserved_size := 0, m_using_bounce_buffer := False\<rparr>))"

text \<open>
  What \<open>Start\<close> asks of IOKit: the physical address of BAR 0 if the device has it, whether
  BAR 2 exists, could be mapped and has a virtual address, and whether \<open>IOMalloc\<close> of the
  bounce buffer succeeded.
\<close>

record pci_env =
  bar0_address :: "u64 option"
  bar2_present :: bool
  bar2_mapped :: bool
  bar2_va :: bool
  bounce_malloc :: bool

definition read_modes :: "'h SVGADevice \<Rightarrow> 'h SVGADevice" where
  "read_modes s =
     (let (v, s) = ReadReg SVGA_REG_FB_OFFSET s; s = s\<lparr>m_fb_offset := v\<rparr>;
          (v, s) = ReadReg SVGA_REG_FB_SIZE s; s = s\<lparr>m_fb_size := v\<rparr>;
          (v, s) = ReadReg SVGA_REG_VRAM_SIZE s; s = s\<lparr>m_vram_size := v\<rparr>;
          (v, s) = ReadReg SVGA_REG_MAX_WIDTH s; s = s\<lparr>m_max_width := v\<rparr>;
          (v, s) = ReadReg SVGA_REG_MAX_HEIGHT s; s = s\<lparr>m_max_height := v\<rparr>;
          (host_bpp, s) = ReadReg SVGA_REG_HOST_BITS_PER_PIXEL s;
          (guest_bpp, s) = ReadReg SVGA_REG_BITS_PER_PIXEL s;
          (v, s) = ReadReg SVGA_REG_WIDTH s; s = s\<lparr>m_width := v\<rparr>;
          (v, s) = ReadReg SVGA_REG_HEIGHT s; s = s\<lparr>m_height := v\<rparr>;
          (v, s) = ReadReg SVGA_REG_BYTES_PER_LINE s; s = s\<lparr>m_pitch := v\<rparr>
      in s)"

definition read_gmr_limits :: "'h SVGADevice \<Rightarrow> 'h SVGADevice" where
  "read_gmr_limits s =
     (let s = (if HasCapability SVGA_CAP_GMR s then
                 let (v, s) = ReadReg SVGA_REG_GMR_MAX_IDS s; s = s\<lparr>m_max_gmr_ids := v\<rparr>;
                     (v, s) = ReadReg SVGA_REG_GMR_MAX_DESCRIPTOR_LENGTH s
                 in s\<lparr>m_max_gmr_descriptor_length := v\<rparr>
               else s)
      in if HasCapability SVGA_CAP_GMR2 s then
           let (v, s) = ReadReg SVGA_REG_GMRS_MAX_PAGES s; s = s\<lparr>m_max_gmr_pages := v\<rparr>;
               (v, s) = ReadReg SVGA_REG_MEMORY_SIZE s
           in s\<lparr>m_total_memory := v\<rparr>
         else s)"

definition Start_fifo :: "pci_env \<Rightarrow> 'h SVGADevice \<Rightarrow> bool \<times> 'h SVGADevice" where
  "Start_fifo env s =
     (let (ok, s) = FIFOInit s
      in if \<not> ok then (False, SVGADevice_Cleanup s)
         else
           let s = (if HasCapability SVGA_CAP_TRACES s then WriteReg SVGA_REG_TRACES 1 s else s)
           in if \<not> bounce_malloc env then (False, SVGADevice_Cleanup s)
              else (True, s\<lparr>m_bounce_buffer := True, m_cursor_ptr := None\<rparr>))"

definition SVGADevice_Start :: "pci_env \<Rightarrow> 'h SVGADevice \<Rightarrow> bool \<times> 'h SVGADevice" where
  "SVGADevice_Start env s =
     (let s = s\<lparr>m_provider := True, m_bounce_buffer := False\<rparr>
      in case bar0_address env of
        None \<Rightarrow> (False, SVGADevice_Cleanup s)
      | Some pa \<Rightarrow>
        (let s = s\<lparr>m_io_base := ucast pa\<rparr>;
             s = WriteReg SVGA_REG_ENABLE 0 s;
             s = WriteReg SVGA_REG_ID SVGA_ID_2 s;
             (reg_id, s) = ReadReg SVGA_REG_ID s
         in if reg_id \<noteq> SVGA_ID_2 then (False, SVGADevice_Cleanup s)
            else
              let s = WriteReg SVGA_REG_CONFIG_DONE 0 s;
                  s = WriteReg SVGA_REG_ENABLE 1 s;
                  (caps, s) = ReadReg SVGA_REG_CAPABILITIES s;
                  s = s\<lparr>m_capabilities := caps\<rparr>
              in if \<not> HasCapability SVGA_CAP_EXTENDED_FIFO s then (False, SVGADevice_Cleanup s)
                 else
                   let (sz, s) = ReadReg SVGA_REG_MEM_SIZE s;
                       s = s\<lparr>m_fifo_size := sz\<rparr>
                   in if \<not> bar2_present env \<or> \<not> bar2_mapped env
                      then (False, SVGADevice_Cleanup s)
                      else
                        let s = s\<lparr>m_bar2_map := True, m_fifo_ptr := bar2_va env\<rparr>
                        in if \<not> m_fifo_ptr s then (False, SVGADevice_Cleanup s)
                           else
                             let s = read_gmr_limits (read_modes s);
                                 s = WriteReg SVGA_REG_DISPLAY_ID 0 s
                             in Start_fifo env s))"

text \<open>
  \<open>FIFOReserve\<close>.  The loop reads \<open>SVGA_FIFO_STOP\<close> afresh in every round; the other FIFO
  registers were read before it.  \<open>None\<close> as the pointer is the C++ null pointer.
\<close>

definition reserve_in_place ::
  "u32 \<Rightarrow> bool \<Rightarrow> u64 \<Rightarrow> 'h SVGADevice \<Rightarrow> fptr option \<times> 'h SVGADevice" where
  "reserve_in_place next_cmd reservable bytes s =
     (if reservable \<or> bytes \<le> 4 then
        let s = s\<lparr>m_using_bounce_buffer := False\<rparr>;
            s = (if reservable then set_fifo SVGA_FIFO_RESERVED (ucast bytes) s else s)
        in (Some (FifoAt (unat next_cmd div 4)), s)
      else (Some (BounceAt 0), s\<lparr>m_using_bounce_buffer := True\<rparr>))"

partial_function (option) FIFOReserve_loop ::
  "u32 \<Rightarrow> u32 \<Rightarrow> u32 \<Rightarrow> bool \<Rightarrow> u64 \<Rightarrow> 'h SVGADevice \<Rightarrow> (fptr option \<times> 'h SVGADevice) option"
  where
  "FIFOReserve_loop mx mn next_cmd reservable bytes s =
     (let stop = fifo s SVGA_FIFO_STOP
      in if next_cmd \<ge> stop then
           if ucast next_cmd + bytes < ucast mx \<or>
              (ucast next_cmd + bytes = ucast mx \<and> stop > mn)
           then Some (reserve_in_place next_cmd reservable bytes s)
           else if ucast ((mx - next_cmd) + (stop - mn)) \<le> bytes
           then FIFOReserve_loop mx mn next_cmd reservable bytes (FIFOFull s)
           else Some (Some (BounceAt 0), s\<lparr>m_using_bounce_buffer := True\<rparr>)
         else
           if ucast next_cmd + bytes < ucast stop
           then Some (reserve_in_place next_cmd reservable bytes s)
           else FIFOReserve_loop mx mn next_cmd reservable bytes (FIFOFull s))"

definition FIFOReserve :: "u64 \<Rightarrow> 'h SVGADevice \<Rightarrow> (fptr option \<times> 'h SVGADevice) option" where
  "FIFOReserve bytes s =
     (let mx = fifo s SVGA_FIFO_MAX;
          mn = fifo s SVGA_FIFO_MIN;
          next_cmd = fifo s SVGA_FIFO_NEXT_CMD;
          reservable = HasFIFOCap SVGA_FIFO_CAP_RESERVE s
      in if bytes > BOUNCE_BUFFER_SIZE \<or> bytes > ucast (mx - mn) then Some (None, s)
         else if bytes mod 4 \<noteq> 0 then Some (None, s)
         else if m_reserved_size s \<noteq> 0 then Some (None, s)
         else FIFOReserve_loop mx mn next_cmd reservable bytes (s\<lparr>m_reserved_size := bytes\<rparr>))"

definition FIFOReserveCmd ::
  "u32 \<Rightarrow> u64 \<Rightarrow> 'h SVGADevice \<Rightarrow> (fptr option \<times> 'h SVGADevice) option" where
  "FIFOReserveCmd cmd_type bytes s =
     do {
       (cmd, s) \<leftarrow> FIFOReserve (bytes + 4) s;
       case cmd of
         None \<Rightarrow> Some (None, s)
       | Some p \<Rightarrow> Some (Some (fptr_add p 1), poke p [cmd_type] s)
     }"

definition FIFOReserveEscape ::
  "u32 \<Rightarrow> u64 \<Rightarrow> 'h SVGADevice \<Rightarrow> (fptr option \<times> 'h SVGADevice) option" where
  "FIFOReserveEscape nsid bytes s =
     (let padded_bytes = (bytes + 3) AND NOT 3 in
      do {
        (header, s) \<leftarrow> FIFOReserve (padded_bytes + 12) s;
        case header of
          None \<Rightarrow> Some (None, s)
        | Some p \<Rightarrow> Some (Some (fptr_add p 3), poke p [SVGA_CMD_ESCAPE, nsid, ucast bytes] s)
      })"

text \<open>
  \<open>FIFOCommit\<close>.  Without \<open>SVGA_FIFO_CAP_RESERVE\<close> the bounce buffer is copied dword by
  dword and \<open>SVGA_FIFO_NEXT_CMD\<close> follows every store; \<open>n\<close> is the number of dwords left
  and \<open>k\<close> the index of the next dword in the bounce buffer.
\<close>

fun commit_dwords ::
  "u32 \<Rightarrow> u32 \<Rightarrow> nat \<Rightarrow> nat \<Rightarrow> u32 \<Rightarrow> 'h SVGADevice \<Rightarrow> u32 \<times> 'h SVGADevice" where
  "commit_dwords mx mn 0 k next_cmd s = (next_cmd, s)"
| "commit_dwords mx mn (Suc n) k next_cmd s =
     (let s = set_fifo (unat next_cmd div 4) (bounce s k) s;
          next_cmd = next_cmd + 4;
          next_cmd = (if next_cmd = mx then mn else next_cmd);
          s = set_fifo SVGA_FIFO_NEXT_CMD next_cmd s
      in commit_dwords mx mn n (Suc k) next_cmd s)"

definition advance_next :: "u64 \<Rightarrow> u32 \<Rightarrow> u32 \<Rightarrow> u32 \<Rightarrow> 'h SVGADevice \<Rightarrow> 'h SVGADevice" where
  "advance_next bytes mx mn next_cmd s =
     (let next_cmd = next_cmd + ucast bytes;
          next_cmd = (if next_cmd \<ge> mx then next_cmd - (mx - mn) else next_cmd)
      in set_fifo SVGA_FIFO_NEXT_CMD next_cmd s)"

definition copy_bounce :: "u64 \<Rightarrow> u32 \<Rightarrow> u32 \<Rightarrow> u32 \<Rightarrow> 'h SVGADevice \<Rightarrow> 'h SVGADevice" where
  "copy_bounce bytes mx mn next_cmd s =
     (let chunk_size = mx - next_cmd;
          chunk_size = (if bytes < ucast chunk_size then ucast bytes else chunk_size);
          s = set_fifo SVGA_FIFO_RESERVED (ucast bytes) s;
          chunk = unat chunk_size div 4;
          rest = unat (bytes - ucast chunk_size) div 4;
          f1 = write_words (unat next_cmd div 4) (map (bounce s) [0..<chunk]) (fifo s);
          f2 = write_words (unat mn div 4) (map (bounce s) [chunk..<chunk + rest]) f1
      in s\<lparr>fifo := f2\<rparr>)"

definition FIFOCommit :: "u64 \<Rightarrow> 'h SVGADevice \<Rightarrow> 'h SVGADevice" where
  "FIFOCommit bytes s =
     (let next_cmd = fifo s SVGA_FIFO_NEXT_CMD;
          mx = fifo s SVGA_FIFO_MAX;
          mn = fifo s SVGA_FIFO_MIN;
          reservable = HasFIFOCap SVGA_FIFO_CAP_RESERVE s
      in if bytes mod 4 \<noteq> 0 then s
         else if m_reserved_size s = 0 then s
         else
           let s = s\<lparr>m_reserved_size := 0\<rparr>;
               s = (if m_using_bounce_buffer s then
                      if reservable then copy_bounce bytes mx mn next_cmd s
                      else snd (commit_dwords mx mn (unat bytes div 4) 0 next_cmd s)
                    else s);
               s = (if \<not> m_using_bounce_buffer s \<or> reservable
                    then advance_next bytes mx mn next_cmd s else s)
           in if reservable then set_fifo SVGA_FIFO_RESERVED 0 s else s)"

definition FIFOCommitAll :: "'h SVGADevice \<Rightarrow> 'h SVGADevice" where
  "FIFOCommitAll s = FIFOCommit (m_reserved_size s) s"

section \<open>Fences\<close>

text \<open>\<open>HasFencePassedUnguarded\<close>: a signed comparison of the wrapped difference.\<close>

definition HasFencePassedUnguarded :: "fifo_mem \<Rightarrow> u32 \<Rightarrow> bool" where
  "HasFencePassedUnguarded f fence \<longleftrightarrow> 0 \<le> sint (f SVGA_FIFO_FENCE - fence)"

definition InsertFence :: "'h SVGADevice \<Rightarrow> (u32 \<times> 'h SVGADevice) option" where
  "InsertFence s =
     (if \<not> HasFIFOCap SVGA_FIFO_CAP_FENCE s then Some (1, s)
      else
        let s = (if m_next_fence s = 0 then s\<lparr>m_next_fence := 1\<rparr> else s);
            fence = m_next_fence s;
            s = s\<lparr>m_next_fence := fence + 1\<rparr>
        in do {
             (cmd, s) \<leftarrow> FIFOReserve 8 s;
             case cmd of
               None \<Rightarrow> Some (0, s)
             | Some p \<Rightarrow> Some (fence, FIFOCommitAll (poke p [SVGA_CMD_FENCE, fence] s))
           })"

definition HasFencePassed :: "u32 \<Rightarrow> 'h SVGADevice \<Rightarrow> bool" where
  "HasFencePassed fence s \<longleftrightarrow>
     (if fence = 0 then True
      else if \<not> HasFIFOCap SVGA_FIFO_CAP_FENCE s then False
      else HasFencePassedUnguarded (fifo s) fence)"

partial_function (option) wait_busy :: "'h SVGADevice \<Rightarrow> 'h SVGADevice option" where
  "wait_busy s =
     (case ReadReg SVGA_REG_BUSY s of (v, s) \<Rightarrow> if v \<noteq> 0 then wait_busy s else Some s)"

partial_function (option) wait_fence :: "u32 \<Rightarrow> 'h SVGADevice \<Rightarrow> 'h SVGADevice option" where
  "wait_fence fence s =
     (if HasFencePassedUnguarded (fifo s) fence then Some s
      else case ReadReg SVGA_REG_BUSY s of (v, s) \<Rightarrow> if v \<noteq> 0 then wait_fence fence s else Some s)"

definition SyncToFence :: "u32 \<Rightarrow> 'h SVGADevice \<Rightarrow> 'h SVGADevice option" where
  "SyncToFence fence s =
     (if fence = 0 then Some s
      else if \<not> HasFIFOCap SVGA_FIFO_CAP_FENCE s then wait_busy (WriteReg SVGA_REG_SYNC 1 s)
      else if HasFencePassedUnguarded (fifo s) fence then Some s
      else wait_fence fence (WriteReg SVGA_REG_SYNC 1 s))"

definition RingDoorBell :: "'h SVGADevice \<Rightarrow> 'h SVGADevice" where
  "RingDoorBell s =
     (if IsFIFORegValid (of_nat SVGA_FIFO_BUSY) s then
        if fifo s SVGA_FIFO_BUSY = 0
        then WriteReg SVGA_REG_SYNC 1 (set_fifo SVGA_FIFO_BUSY 1 s)
        else s
      else WriteReg SVGA_REG_SYNC 1 s)"

definition SyncFIFO :: "'h SVGADevice \<Rightarrow> 'h SVGADevice option" where
  "SyncFIFO s = wait_busy (WriteReg SVGA_REG_SYNC 1 s)"

section \<open>Cursor and mode\<close>

text \<open>\<open>bypass_2\<close> is the option bit \<open>CE1_OPTION_FB_CURSOR_BYPASS_2\<close>.\<close>

definition setCursorState :: "bool \<Rightarrow> u32 \<Rightarrow> u32 \<Rightarrow> bool \<Rightarrow> 'h SVGADevice \<Rightarrow> 'h SVGADevice" where
  "setCursorState bypass_2 x y visible s =
     (if bypass_2 then
        let s = WriteReg SVGA_REG_CURSOR_ID 1 s;
            s = WriteReg SVGA_REG_CURSOR_X x s;
            s = WriteReg SVGA_REG_CURSOR_Y y s
        in WriteReg SVGA_REG_CURSOR_ON (if visible then 1 else 0) s
      else
        let s = set_fifo SVGA_FIFO_CURSOR_ON (if visible then 1 else 0) s;
            s = set_fifo SVGA_FIFO_CURSOR_X x s;
            s = set_fifo SVGA_FIFO_CURSOR_Y y s
        in set_fifo SVGA_FIFO_CURSOR_COUNT (fifo s SVGA_FIFO_CURSOR_COUNT + 1) s)"

definition setCursorState_screen ::
  "u32 \<Rightarrow> u32 \<Rightarrow> u32 \<Rightarrow> bool \<Rightarrow> 'h SVGADevice \<Rightarrow> 'h SVGADevice" where
  "setCursorState_screen screenId x y visible s =
     (let s = (if HasFIFOCap (SVGA_FIFO_CAP_SCREEN_OBJECT OR SVGA_FIFO_CAP_SCREEN_OBJECT_2) s
               then set_fifo SVGA_FIFO_CURSOR_SCREEN_ID screenId s else s);
          s = set_fifo SVGA_FIFO_CURSOR_ON (if visible then 1 else 0) s;
          s = set_fifo SVGA_FIFO_CURSOR_X x s;
          s = set_fifo SVGA_FIFO_CURSOR_Y y s
      in set_fifo SVGA_FIFO_CURSOR_COUNT (fifo s SVGA_FIFO_CURSOR_COUNT + 1) s)"

text \<open>
  \<open>BeginDefineAlphaCursor\<close> returns the place for the pixels, five dwords behind the start of
  the command; the product \<open>width * height * bytespp\<close> is computed in 32 bits.
\<close>

definition BeginDefineAlphaCursor ::
  "u32 \<Rightarrow> u32 \<Rightarrow> u32 \<Rightarrow> 'h SVGADevice \<Rightarrow> (fptr option \<times> 'h SVGADevice) option" where
  "BeginDefineAlphaCursor width height bytespp s =
     (let cmd_len = 20 + ucast (width * height * bytespp) in
      do {
        (cmd, s) \<leftarrow> FIFOReserveCmd SVGA_CMD_DEFINE_ALPHA_CURSOR cmd_len s;
        case cmd of
          None \<Rightarrow> Some (None, s)
        | Some p \<Rightarrow> Some (Some (fptr_add p 5), s\<lparr>m_cursor_ptr := Some p\<rparr>)
      })"

definition EndDefineAlphaCursor ::
  "u32 \<Rightarrow> u32 \<Rightarrow> u32 \<Rightarrow> u32 \<Rightarrow> u32 \<Rightarrow> 'h SVGADevice \<Rightarrow> bool \<times> 'h SVGADevice" where
  "EndDefineAlphaCursor width height bytespp hotspot_x hotspot_y s =
     (case m_cursor_ptr s of
        None \<Rightarrow> (False, s)
      | Some p \<Rightarrow>
          let s = poke p [1, hotspot_x, hotspot_y, width, height] s;
              cmd_len = 4 + 20 + ucast (width * height * bytespp);
              s = FIFOCommit cmd_len s
          in (True, s\<lparr>m_cursor_ptr := None\<rparr>))"

definition SetMode :: "u32 \<Rightarrow> u32 \<Rightarrow> u32 \<Rightarrow> 'h SVGADevice \<Rightarrow> 'h SVGADevice option" where
  "SetMode width height bpp s =
     do {
       s \<leftarrow> SyncFIFO s;
       let s = WriteReg SVGA_REG_WIDTH width s;
       let s = WriteReg SVGA_REG_HEIGHT height s;
       let s = WriteReg SVGA_REG_BITS_PER_PIXEL bpp s;
       let s = WriteReg SVGA_REG_ENABLE 1 s;
       let (v, s) = ReadReg SVGA_REG_BYTES_PER_LINE s;
       let s = s\<lparr>m_pitch := v\<rparr>;
       let (v, s) = ReadReg SVGA_REG_FB_SIZE s;
       Some (s\<lparr>m_fb_size := v, m_width := width, m_height := height\<rparr>)
     }"

section \<open>Framebuffer and video commands\<close>

text \<open>
  What every command does with the pointer of its reservation: return \<open>false\<close> on a null
  pointer, otherwise store its words there, commit everything and return \<open>true\<close>.
\<close>

fun fill_commit :: "u32 list \<Rightarrow> fptr option \<times> 'h SVGADevice \<Rightarrow> bool \<times> 'h SVGADevice" where
  "fill_commit ws (None, s) = (False, s)"
| "fill_commit ws (Some p, s) = (True, FIFOCommitAll (poke p ws s))"

definition UpdateFramebuffer ::
  "u32 \<Rightarrow> u32 \<Rightarrow> u32 \<Rightarrow> u32 \<Rightarrow> 'h SVGADevice \<Rightarrow> (bool \<times> 'h SVGADevice) option" where
  "UpdateFramebuffer x y width height s =
     map_option (fill_commit [x, y, width, height]) (FIFOReserveCmd SVGA_CMD_UPDATE 16 s)"

definition UpdateFullscreen :: "'h SVGADevice \<Rightarrow> (bool \<times> 'h SVGADevice) option" where
  "UpdateFullscreen s = UpdateFramebuffer 0 0 (m_width s) (m_height s) s"

text \<open>
  \<open>BeginVideoSetRegs\<close> leaves the pointer at the header of the escape; the items start two
  dwords behind it.  \<open>regs\<close> is the array of overlay registers.
\<close>

definition BeginVideoSetRegs ::
  "u32 \<Rightarrow> u64 \<Rightarrow> 'h SVGADevice \<Rightarrow> (fptr option \<times> 'h SVGADevice) option" where
  "BeginVideoSetRegs streamId numItems s =
     (let cmd_size = 16 - 8 + numItems * 8 in
      do {
        (cmd, s) \<leftarrow> FIFOReserveEscape SVGA_ESCAPE_NSID_CECL cmd_size s;
        case cmd of
          None \<Rightarrow> Some (None, s)
        | Some p \<Rightarrow> Some (Some (fptr_add p 2), poke p [SVGA_ESCAPE_CECL_VIDEO_SET_REGS, streamId] s)
      })"

fun range_items :: "(u32 \<Rightarrow> u32) \<Rightarrow> u32 \<Rightarrow> nat \<Rightarrow> u32 \<Rightarrow> u32 list" where
  "range_items regs minReg 0 i = []"
| "range_items regs minReg (Suc n) i =
     (i + minReg) # regs (i + minReg) # range_items regs minReg n (i + 1)"

definition VideoSetRegsInRange ::
  "u32 \<Rightarrow> (u32 \<Rightarrow> u32) \<Rightarrow> u32 \<Rightarrow> u32 \<Rightarrow> 'h SVGADevice \<Rightarrow> (bool \<times> 'h SVGADevice) option" where
  "VideoSetRegsInRange streamId regs minReg maxReg s =
     (let numRegs = maxReg - minReg + 1 in
      if minReg > maxReg then Some (True, s)
      else map_option (fill_commit (range_items regs minReg (unat numRegs) 0))
             (BeginVideoSetRegs streamId (ucast numRegs) s))"

function mask_items :: "(u32 \<Rightarrow> u32) \<Rightarrow> u32 \<Rightarrow> u32 \<Rightarrow> u32 list" where
  "mask_items regs i regMask =
     (if regMask = 0 then []
      else (if regMask AND 1 \<noteq> 0 then [i, regs i] else []) @
           mask_items regs (i + 1) (drop_bit 1 regMask))"
  by pat_completeness auto

termination mask_items
  by (relation "measure (\<lambda>(regs, i, regMask). unat regMask)")
    (auto simp: drop_bit_eq_div unat_div_distrib unat_gt_0)

declare mask_items.simps [simp del]

definition VideoSetRegsWithMask ::
  "u32 \<Rightarrow> (u32 \<Rightarrow> u32) \<Rightarrow> u32 \<Rightarrow> 'h SVGADevice \<Rightarrow> (bool \<times> 'h SVGADevice) option" where
  "VideoSetRegsWithMask streamId regs regMask s =
     (if regMask = 0 then Some (True, s)
      else map_option (fill_commit (mask_items regs 0 regMask))
             (BeginVideoSetRegs streamId (ucast (count_bits regMask)) s))"

definition VideoSetReg ::
  "u32 \<Rightarrow> u32 \<Rightarrow> u32 \<Rightarrow> 'h SVGADevice \<Rightarrow> (bool \<times> 'h SVGADevice) option" where
  "VideoSetReg streamId registerId v s =
     map_option (fill_commit [registerId, v]) (BeginVideoSetRegs streamId 1 s)"

definition VideoFlush :: "u32 \<Rightarrow> 'h SVGADevice \<Rightarrow> (bool \<times> 'h SVGADevice) option" where
  "VideoFlush streamId s =
     map_option (fill_commit [SVGA_ESCAPE_CECL_VIDEO_FLUSH, streamId])
       (FIFOReserveEscape SVGA_ESCAPE_NSID_CECL 8 s)"

section \<open>Added methods\<close>

text \<open>The out parameter of \<open>get3DHWVersion\<close> may be a null pointer.\<close>

definition get3DHWVersion :: "bool \<Rightarrow> 'h SVGADevice \<Rightarrow> u32 option" where
  "get3DHWVersion given s =
     (if \<not> given then None
      else if fifo s SVGA_FIFO_MIN \<le> of_nat (4 * SVGA_FIFO_GUEST_3D_HWVERSION) then None
      else if HasFIFOCap SVGA_FIFO_CAP_3D_HWVERSION_REVISED s
      then Some (fifo s SVGA_FIFO_3D_HWVERSION_REVISED)
      else Some (fifo s SVGA_FIFO_3D_HWVERSION))"

fun RegDump_loop :: "nat \<Rightarrow> u32 \<Rightarrow> 'h SVGADevice \<Rightarrow> u32 list \<times> 'h SVGADevice" where
  "RegDump_loop 0 i s = ([], s)"
| "RegDump_loop (Suc n) i s =
     (let (v, s) = ReadReg i s; (vs, s) = RegDump_loop n (i + 1) s in (v # vs, s))"

definition RegDump :: "'h SVGADevice \<Rightarrow> u32 list \<times> 'h SVGADevice" where
  "RegDump s = RegDump_loop SVGA_REG_TOP SVGA_REG_ID s"

text \<open>The caps block is given by its index in FIFO memory.\<close>

definition get3DCapsBlock :: "'h SVGADevice \<Rightarrow> nat option" where
  "get3DCapsBlock s =
     (if fifo s SVGA_FIFO_MIN \<le> of_nat (4 * SVGA_FIFO_3D_CAPS_LAST) then None
      else Some SVGA_FIFO_3D_CAPS)"

text \<open>Rectangles are passed as arrays of dwords in the order of the command's fields.\<close>

definition RectCopy :: "(nat \<Rightarrow> u32) \<Rightarrow> 'h SVGADevice \<Rightarrow> (bool \<times> 'h SVGADevice) option" where
  "RectCopy copyRect s =
     map_option (fill_commit (map copyRect [0..<6])) (FIFOReserveCmd SVGA_CMD_RECT_COPY 24 s)"

definition RectFill ::
  "u32 \<Rightarrow> (nat \<Rightarrow> u32) \<Rightarrow> 'h SVGADevice \<Rightarrow> (bool \<times> 'h SVGADevice) option" where
  "RectFill color rect s =
     map_option (fill_commit ([color] @ map rect [0..<4] @ [SVGA_ROP_COPY]))
       (FIFOReserveCmd SVGA_CMD_FRONT_ROP_FILL 24 s)"

definition UpdateFramebuffer2 ::
  "(nat \<Rightarrow> u32) \<Rightarrow> 'h SVGADevice \<Rightarrow> (bool \<times> 'h SVGADevice) option" where
  "UpdateFramebuffer2 rect s =
     map_option (fill_commit (map rect [0..<4])) (FIFOReserveCmd SVGA_CMD_UPDATE 16 s)"

definition defineGMR :: "u32 \<Rightarrow> u32 \<Rightarrow> 'h SVGADevice \<Rightarrow> bool \<times> 'h SVGADevice" where
  "defineGMR gmrId ppn s =
     (if \<not> HasCapability SVGA_CAP_GMR s then (False, s)
      else (True, WriteReg SVGA_REG_GMR_DESCRIPTOR ppn (WriteReg SVGA_REG_GMR_ID gmrId s)))"

definition defineGMR2 :: "u32 \<Rightarrow> u32 \<Rightarrow> 'h SVGADevice \<Rightarrow> (bool \<times> 'h SVGADevice) option" where
  "defineGMR2 gmrId numPages s =
     map_option (fill_commit [gmrId, numPages]) (FIFOReserveCmd SVGA_CMD_DEFINE_GMR2 8 s)"

text \<open>The suffix of \<open>remapGMR2\<close> is an array of dwords, or a null pointer.\<close>

definition remapGMR2 ::
  "u32 \<Rightarrow> u32 \<Rightarrow> u32 \<Rightarrow> u32 \<Rightarrow> (nat \<Rightarrow> u32) option \<Rightarrow> u64 \<Rightarrow> 'h SVGADevice \<Rightarrow>
   (bool \<times> 'h SVGADevice) option" where
  "remapGMR2 gmrId flags offsetPages numPages sfx suffixSize s =
     (if sfx = None \<and> suffixSize \<noteq> 0 then Some (False, s)
      else
        let body = (case sfx of None \<Rightarrow> [] | Some ws \<Rightarrow> map ws [0..<unat suffixSize div 4])
        in map_option (fill_commit ([gmrId, flags, offsetPages, numPages] @ body))
             (FIFOReserveCmd SVGA_CMD_REMAP_GMR2 (16 + suffixSize) s))"

end
