(* ===== verification/SVGA_Fifo.thy ===== *)
theory SVGA_Fifo
  imports SVGA_Device
begin

text \<open>
  The command FIFO as a queue.  \<open>ring_queue\<close> reads the dwords between \<open>SVGA_FIFO_STOP\<close>
  and \<open>SVGA_FIFO_NEXT_CMD\<close> out of FIFO memory; \<open>ring_wf\<close> is the well-formedness of the
  four ring registers.  The lemmas show that reserving, storing and committing appends exactly
  the stored dwords, whichever of the in-place and bounce-buffer paths is taken, that the wait
  for space ends under a host that makes progress, and that the ring stays well formed.
\<close>

section \<open>The ring and its contents\<close>

definition rmin :: "fifo_mem \<Rightarrow> nat" where "rmin f = unat (f SVGA_FIFO_MIN) div 4"
definition rmax :: "fifo_mem \<Rightarrow> nat" where "rmax f = unat (f SVGA_FIFO_MAX) div 4"
definition rnext :: "fifo_mem \<Rightarrow> nat" where "rnext f = unat (f SVGA_FIFO_NEXT_CMD) div 4"
definition rstop :: "fifo_mem \<Rightarrow> nat" where "rstop f = unat (f SVGA_FIFO_STOP) div 4"

lemmas ring_regs = rmin_def rmax_def rnext_def rstop_def

definition ring_wf :: "fifo_mem \<Rightarrow> bool" where
  "ring_wf f \<longleftrightarrow>
     4 dvd unat (f SVGA_FIFO_MIN) \<and> 4 dvd unat (f SVGA_FIFO_MAX) \<and>
     4 dvd unat (f SVGA_FIFO_NEXT_CMD) \<and> 4 dvd unat (f SVGA_FIFO_STOP) \<and>
     SVGA_FIFO_NUM_REGS \<le> rmin f \<and>
     rmin f \<le> rnext f \<and> rnext f < rmax f \<and> rmin f \<le> rstop f \<and> rstop f < rmax f \<and>
     4 * rmax f + 0x10000 \<le> 2 ^ 32"

text \<open>
  The last conjunct of \<open>ring_wf\<close> keeps the end of the FIFO one bounce buffer below 4 GiB, so
  that the 32-bit sum \<open>next_cmd + bytes\<close> of \<open>FIFOCommit\<close> does not wrap.
\<close>

definition ring_seg :: "nat \<Rightarrow> nat \<Rightarrow> nat \<Rightarrow> nat \<Rightarrow> nat list" where
  "ring_seg mn mx a b = (if a \<le> b then [a..<b] else [a..<mx] @ [mn..<b])"

definition ring_queue :: "fifo_mem \<Rightarrow> u32 list" where
  "ring_queue f = map f (ring_seg (rmin f) (rmax f) (rstop f) (rnext f))"

definition ring_size :: "fifo_mem \<Rightarrow> nat" where
  "ring_size f = rmax f - rmin f"

definition ring_free :: "fifo_mem \<Rightarrow> nat" where
  "ring_free f = ring_size f - length (ring_queue f)"

definition ring_pos :: "nat \<Rightarrow> nat \<Rightarrow> nat \<Rightarrow> nat" where
  "ring_pos mn mx k = (if k < mx then k else k - (mx - mn))"

lemma ring_wf_bytes:
  assumes "ring_wf f"
  shows "unat (f SVGA_FIFO_MIN) = 4 * rmin f" "unat (f SVGA_FIFO_MAX) = 4 * rmax f"
    "unat (f SVGA_FIFO_NEXT_CMD) = 4 * rnext f" "unat (f SVGA_FIFO_STOP) = 4 * rstop f"
  using assms by (auto simp: ring_wf_def ring_regs)

lemma length_ring_seg:
  "b < mx \<Longrightarrow> mn \<le> b \<Longrightarrow> a < mx \<Longrightarrow>
   length (ring_seg mn mx a b) = (if a \<le> b then b - a else (mx - a) + (b - mn))"
  by (simp add: ring_seg_def)

lemma ring_free_eq:
  assumes "ring_wf f"
  shows "ring_free f = (if rstop f \<le> rnext f then (rmax f - rnext f) + (rstop f - rmin f)
                        else rstop f - rnext f)"
  using assms
  by (auto simp: ring_free_def ring_size_def ring_queue_def length_ring_seg ring_wf_def)

lemma set_ring_seg:
  assumes "mn \<le> a" "mn \<le> b" "a < mx" "b < mx" "i \<in> set (ring_seg mn mx a b)"
  shows "mn \<le> i \<and> i < mx"
  using assms by (auto simp: ring_seg_def split: if_splits)

lemma map_ring_pos:
  assumes "mn \<le> a" "a < mx" "n \<le> mx - mn"
  shows "map (\<lambda>j. ring_pos mn mx (a + j)) [0..<n] =
         (if a + n < mx then [a..<a + n] else [a..<mx] @ [mn..<a + n - (mx - mn)])"
proof (cases "a + n < mx")
  case True
  then have "map (\<lambda>j. ring_pos mn mx (a + j)) [0..<n] = map (\<lambda>j. a + j) [0..<n]"
    by (simp add: ring_pos_def)
  with True show ?thesis by (simp add: upt_shift)
next
  case False
  let ?k = "mx - a"
  have split: "[0..<n] = [0..<?k] @ [?k..<n]"
    using False by (intro upt_split) auto
  have left: "map (\<lambda>j. ring_pos mn mx (a + j)) [0..<?k] = map (\<lambda>j. a + j) [0..<?k]"
    by (simp add: ring_pos_def)
  have right: "map (\<lambda>j. ring_pos mn mx (a + j)) [?k..<n] = [mn..<a + n - (mx - mn)]"
    using False assms by (intro nth_equalityI) (auto simp: ring_pos_def)
  show ?thesis
    using False assms unfolding split map_append left right by (simp add: upt_shift)
qed

text \<open>Appending \<open>n\<close> cells to a segment with more than \<open>n\<close> free cells behind it.\<close>

lemma ring_seg_append:
  assumes "mn \<le> a" "a < mx" "mn \<le> b" "b < mx"
    and free: "n < (if a \<le> b then (mx - b) + (a - mn) else a - b)"
  shows "ring_seg mn mx a (ring_pos mn mx (b + n)) =
         ring_seg mn mx a b @ map (\<lambda>j. ring_pos mn mx (b + j)) [0..<n]"
proof -
  have n: "n \<le> mx - mn" using assms by (auto split: if_splits)
  show ?thesis
  proof (cases "a \<le> b")
    case True
    show ?thesis
    proof (cases "b + n < mx")
      case c: True
      with True have "ring_seg mn mx a (ring_pos mn mx (b + n)) = [a..<b] @ [b..<b + n]"
        using upt_split [of a b "b + n"] by (simp add: ring_seg_def ring_pos_def)
      with True c show ?thesis
        using assms n by (simp add: map_ring_pos ring_seg_def)
    next
      case c: False
      then have "b + n - (mx - mn) < a" using assms True free by auto
      moreover have "[a..<mx] = [a..<b] @ [b..<mx]"
        using True assms by (intro upt_split) auto
      moreover have "ring_pos mn mx (b + n) = b + n - (mx - mn)"
        using c by (simp add: ring_pos_def)
      ultimately show ?thesis
        using True c assms n by (simp add: map_ring_pos ring_seg_def)
    qed
  next
    case False
    then have "b + n < mx" "b + n < a" using free assms by auto
    moreover from this have "ring_pos mn mx (b + n) = b + n" by (simp add: ring_pos_def)
    ultimately show ?thesis
      using False assms n upt_split [of mn b "b + n"] by (simp add: map_ring_pos ring_seg_def)
  qed
qed

text \<open>
  Storing \<open>ws\<close> behind the queue and moving \<open>SVGA_FIFO_NEXT_CMD\<close> past it.  The memory
  \<open>g\<close> is any memory that differs from \<open>f\<close> in the registers no ring operation reads, in the
  stored cells and in \<open>SVGA_FIFO_NEXT_CMD\<close>.
\<close>

lemma ring_append:
  assumes wf: "ring_wf f" and free: "length ws < ring_free f"
    and regs: "g SVGA_FIFO_MIN = f SVGA_FIFO_MIN" "g SVGA_FIFO_MAX = f SVGA_FIFO_MAX"
      "g SVGA_FIFO_STOP = f SVGA_FIFO_STOP"
    and nxt: "unat (g SVGA_FIFO_NEXT_CMD) = 4 * ring_pos (rmin f) (rmax f) (rnext f + length ws)"
    and new: "\<And>j. j < length ws \<Longrightarrow> g (ring_pos (rmin f) (rmax f) (rnext f + j)) = ws ! j"
    and old: "\<And>i. i \<in> set (ring_seg (rmin f) (rmax f) (rstop f) (rnext f)) \<Longrightarrow> g i = f i"
  shows "ring_wf g \<and> ring_queue g = ring_queue f @ ws \<and> ring_size g = ring_size f"
proof -
  let ?mn = "rmin f" and ?mx = "rmax f" and ?st = "rstop f" and ?nx = "rnext f"
  let ?n = "length ws"
  have b: "?mn \<le> ?st" "?st < ?mx" "?mn \<le> ?nx" "?nx < ?mx"
    using wf by (auto simp: ring_wf_def)
  have fr: "?n < (if ?st \<le> ?nx then (?mx - ?nx) + (?st - ?mn) else ?st - ?nx)"
    using free wf by (simp add: ring_free_eq)
  have g: "rmin g = ?mn" "rmax g = ?mx" "rstop g = ?st"
    "rnext g = ring_pos ?mn ?mx (?nx + ?n)"
    using regs nxt by (simp_all add: ring_regs)
  have seg: "ring_seg ?mn ?mx ?st (rnext g) =
      ring_seg ?mn ?mx ?st ?nx @ map (\<lambda>j. ring_pos ?mn ?mx (?nx + j)) [0..<?n]"
    unfolding g using b fr by (rule ring_seg_append)
  have "map g (map (\<lambda>j. ring_pos ?mn ?mx (?nx + j)) [0..<?n]) = map (\<lambda>j. ws ! j) [0..<?n]"
    using new by simp
  then have "ring_queue g = ring_queue f @ ws"
    using old seg by (simp add: ring_queue_def g map_nth)
  moreover have "?mn \<le> rnext g" "rnext g < ?mx"
    using b fr by (auto simp: g ring_pos_def split: if_splits)
  then have "ring_wf g"
    using wf g regs nxt by (auto simp: ring_wf_def)
  ultimately show ?thesis using g by (simp add: ring_size_def)
qed

section \<open>What the host may do\<close>

text \<open>
  The documented contract of the device (comments of \<open>svga_reg.h\<close>): it consumes commands in
  order, so it only moves \<open>SVGA_FIFO_STOP\<close> forward over whole dwords; it does not write the
  ring's bounds, \<open>SVGA_FIFO_NEXT_CMD\<close> or the command area.  Every other FIFO register
  (fence, busy flag, capabilities) may change.
\<close>

definition host_step :: "fifo_mem \<Rightarrow> fifo_mem \<Rightarrow> bool" where
  "host_step f g \<longleftrightarrow>
     g SVGA_FIFO_MIN = f SVGA_FIFO_MIN \<and> g SVGA_FIFO_MAX = f SVGA_FIFO_MAX \<and>
     g SVGA_FIFO_NEXT_CMD = f SVGA_FIFO_NEXT_CMD \<and>
     (\<forall>i \<ge> rmin f. g i = f i) \<and> ring_wf g \<and> suffix (ring_queue g) (ring_queue f)"

definition host_wf :: "'h SVGADevice \<Rightarrow> bool" where
  "host_wf s \<longleftrightarrow>
     (\<forall>p v h f. ring_wf f \<longrightarrow> host_step f (snd (outl_port s p v (h, f)))) \<and>
     (\<forall>p h f. ring_wf f \<longrightarrow> host_step f (snd (snd (inl_port s p (h, f)))))"

text \<open>
  Everything the FIFO operations leave alone: all driver fields but the reservation, and the
  hardware behind the ports.
\<close>

definition fifo_frame :: "'h SVGADevice \<Rightarrow> 'h SVGADevice \<Rightarrow> bool" where
  "fifo_frame s t \<longleftrightarrow>
     t = s\<lparr>m_using_bounce_buffer := m_using_bounce_buffer t, m_reserved_size := m_reserved_size t,
           fifo := fifo t, bounce := bounce t, host := host t\<rparr>"

lemma fifo_frame_refl [simp]: "fifo_frame s s"
  by (simp add: fifo_frame_def)

lemma fifo_frame_trans [trans]: "fifo_frame s t \<Longrightarrow> fifo_frame t u \<Longrightarrow> fifo_frame s u"
  by (cases s; cases t; cases u) (simp add: fifo_frame_def)

lemma fifo_frame_upd [simp]:
  "fifo_frame s (s\<lparr>m_using_bounce_buffer := b\<rparr>)" "fifo_frame s (s\<lparr>m_reserved_size := n\<rparr>)"
  "fifo_frame s (s\<lparr>fifo := f\<rparr>)" "fifo_frame s (s\<lparr>bounce := f\<rparr>)" "fifo_frame s (s\<lparr>host := h\<rparr>)"
  "fifo_frame s (s\<lparr>host := h, fifo := f\<rparr>)"
  by (simp_all add: fifo_frame_def)

lemma fifo_frame_fields:
  assumes "fifo_frame s t"
  shows "m_next_fence t = m_next_fence s" "m_capabilities t = m_capabilities s"
    "m_cursor_ptr t = m_cursor_ptr s" "host_wf t = host_wf s"
    "outl_port t = outl_port s" "inl_port t = inl_port s" "m_io_base t = m_io_base s"
  using assms by (cases s; cases t; simp add: fifo_frame_def host_wf_def)+

lemma host_step_refl [simp]: "ring_wf f \<Longrightarrow> host_step f f"
  by (simp add: host_step_def)

lemma host_step_trans: "host_step f g \<Longrightarrow> host_step g k \<Longrightarrow> host_step f k"
  unfolding host_step_def by (auto simp: rmin_def intro: suffix_order.trans)

lemma host_step_wf: "host_step f g \<Longrightarrow> ring_wf g"
  by (simp add: host_step_def)

lemma host_step_regs:
  "host_step f g \<Longrightarrow> rmin g = rmin f \<and> rmax g = rmax f \<and> rnext g = rnext f"
  by (simp add: host_step_def ring_regs)

lemma host_step_free: "host_step f g \<Longrightarrow> ring_free f \<le> ring_free g"
  by (auto simp: ring_free_def ring_size_def host_step_regs host_step_def rmin_def rmax_def
           dest: suffix_length_le)

section \<open>Register access is a step of the host\<close>

lemma ReadReg_shape:
  assumes "ring_wf (fifo s)" "host_wf s"
  obtains h f where "snd (ReadReg i s) = s\<lparr>host := h, fifo := f\<rparr>" "host_step (fifo s) f"
proof -
  obtain h1 f1 where o: "outl_port s (m_io_base s + SVGA_INDEX_PORT) i (host s, fifo s) = (h1, f1)"
    by fastforce
  then have 1: "host_step (fifo s) f1"
    using assms by (metis host_wf_def snd_conv)
  obtain v h2 f2 where n: "inl_port s (m_io_base s + SVGA_VALUE_PORT) (h1, f1) = (v, h2, f2)"
    by (metis prod.exhaust)
  then have 2: "host_step f1 f2"
    using assms host_step_wf [OF 1] by (metis host_wf_def snd_conv)
  have "snd (ReadReg i s) = s\<lparr>host := h2, fifo := f2\<rparr>"
    using o n by (simp add: ReadReg_def)
  then show ?thesis using host_step_trans [OF 1 2] that by blast
qed

lemma WriteReg_shape:
  assumes "ring_wf (fifo s)" "host_wf s"
  obtains h f where "WriteReg i v s = s\<lparr>host := h, fifo := f\<rparr>" "host_step (fifo s) f"
proof -
  obtain h1 f1 where o: "outl_port s (m_io_base s + SVGA_INDEX_PORT) i (host s, fifo s) = (h1, f1)"
    by fastforce
  then have 1: "host_step (fifo s) f1"
    using assms by (metis host_wf_def snd_conv)
  obtain h2 f2 where n: "outl_port s (m_io_base s + SVGA_VALUE_PORT) v (h1, f1) = (h2, f2)"
    by fastforce
  then have 2: "host_step f1 f2"
    using assms host_step_wf [OF 1] by (metis host_wf_def snd_conv)
  have "WriteReg i v s = s\<lparr>host := h2, fifo := f2\<rparr>"
    using o n by (simp add: WriteReg_def)
  then show ?thesis using host_step_trans [OF 1 2] that by blast
qed

lemma host_wf_upd [simp]:
  "host_wf (s\<lparr>host := h\<rparr>) = host_wf s" "host_wf (s\<lparr>fifo := f\<rparr>) = host_wf s"
  "host_wf (s\<lparr>host := h, fifo := f\<rparr>) = host_wf s"
  "host_wf (s\<lparr>bounce := f\<rparr>) = host_wf s" "host_wf (s\<lparr>m_reserved_size := n\<rparr>) = host_wf s"
  "host_wf (s\<lparr>m_using_bounce_buffer := b\<rparr>) = host_wf s"
  by (simp_all add: host_wf_def)

lemma FIFOFull_shape:
  assumes "ring_wf (fifo s)" "host_wf s"
  obtains h f where "FIFOFull s = s\<lparr>host := h, fifo := f\<rparr>" "host_step (fifo s) f"
proof -
  obtain h1 f1 where w: "WriteReg SVGA_REG_SYNC 1 s = s\<lparr>host := h1, fifo := f1\<rparr>"
    and 1: "host_step (fifo s) f1"
    using WriteReg_shape [OF assms] by metis
  let ?s1 = "s\<lparr>host := h1, fifo := f1\<rparr>"
  have "ring_wf (fifo ?s1)" "host_wf ?s1" using host_step_wf [OF 1] assms by simp_all
  then obtain h2 f2 where r: "snd (ReadReg SVGA_REG_BUSY ?s1) = ?s1\<lparr>host := h2, fifo := f2\<rparr>"
    and 2: "host_step (fifo ?s1) f2"
    by (rule ReadReg_shape)
  have "FIFOFull s = s\<lparr>host := h2, fifo := f2\<rparr>"
    using w r by (simp add: FIFOFull_def)
  then show ?thesis using host_step_trans [OF 1] 2 that by simp
qed

section \<open>Reserving space\<close>

lemma reserve_conds:
  fixes bytes :: u64
  assumes wf: "ring_wf f" and b: "unat bytes = 4 * n" and n: "n \<le> 0x4000"
  shows "f SVGA_FIFO_STOP \<le> f SVGA_FIFO_NEXT_CMD \<longleftrightarrow> rstop f \<le> rnext f"
    and "ucast (f SVGA_FIFO_NEXT_CMD) + bytes < ucast (f SVGA_FIFO_MAX) \<longleftrightarrow> rnext f + n < rmax f"
    and "ucast (f SVGA_FIFO_NEXT_CMD) + bytes = ucast (f SVGA_FIFO_MAX) \<longleftrightarrow> rnext f + n = rmax f"
    and "f SVGA_FIFO_MIN < f SVGA_FIFO_STOP \<longleftrightarrow> rmin f < rstop f"
    and "ucast (f SVGA_FIFO_NEXT_CMD) + bytes < ucast (f SVGA_FIFO_STOP) \<longleftrightarrow> rnext f + n < rstop f"
    and "rstop f \<le> rnext f \<Longrightarrow>
      ucast ((f SVGA_FIFO_MAX - f SVGA_FIFO_NEXT_CMD) + (f SVGA_FIFO_STOP - f SVGA_FIFO_MIN)) \<le> bytes
      \<longleftrightarrow> (rmax f - rnext f) + (rstop f - rmin f) \<le> n"
proof -
  note B = ring_wf_bytes [OF wf]
  have o: "rmin f \<le> rnext f" "rnext f < rmax f" "rmin f \<le> rstop f" "rstop f < rmax f"
    using wf by (auto simp: ring_wf_def)
  have mx: "4 * rmax f < 2 ^ 32" using unat_u32_less [of "f SVGA_FIFO_MAX"] B by simp
  have sum: "unat (ucast (f SVGA_FIFO_NEXT_CMD) + bytes) = 4 * (rnext f + n)"
    using B b n o mx by (subst unat_add_small) auto
  show "f SVGA_FIFO_STOP \<le> f SVGA_FIFO_NEXT_CMD \<longleftrightarrow> rstop f \<le> rnext f"
    and "f SVGA_FIFO_MIN < f SVGA_FIFO_STOP \<longleftrightarrow> rmin f < rstop f"
    using B by (simp_all add: word_le_nat_alt word_less_nat_alt)
  show "ucast (f SVGA_FIFO_NEXT_CMD) + bytes < ucast (f SVGA_FIFO_MAX) \<longleftrightarrow> rnext f + n < rmax f"
    and "ucast (f SVGA_FIFO_NEXT_CMD) + bytes < ucast (f SVGA_FIFO_STOP) \<longleftrightarrow> rnext f + n < rstop f"
    unfolding word_less_nat_alt unat_ucast_up sum B by arith+
  show "ucast (f SVGA_FIFO_NEXT_CMD) + bytes = ucast (f SVGA_FIFO_MAX) \<longleftrightarrow> rnext f + n = rmax f"
    unfolding word_unat_eq_iff unat_ucast_up sum B by arith
  assume le: "rstop f \<le> rnext f"
  have 1: "unat (f SVGA_FIFO_MAX - f SVGA_FIFO_NEXT_CMD) = 4 * rmax f - 4 * rnext f"
    and 2: "unat (f SVGA_FIFO_STOP - f SVGA_FIFO_MIN) = 4 * rstop f - 4 * rmin f"
    using B o by (subst unat_sub_small; simp add: word_le_nat_alt)+
  have "unat ((f SVGA_FIFO_MAX - f SVGA_FIFO_NEXT_CMD) + (f SVGA_FIFO_STOP - f SVGA_FIFO_MIN)) =
      4 * ((rmax f - rnext f) + (rstop f - rmin f))"
    using 1 2 le o mx by (subst unat_add_small) auto
  then show "ucast ((f SVGA_FIFO_MAX - f SVGA_FIFO_NEXT_CMD) +
        (f SVGA_FIFO_STOP - f SVGA_FIFO_MIN)) \<le> bytes
      \<longleftrightarrow> (rmax f - rnext f) + (rstop f - rmin f) \<le> n"
    unfolding word_le_nat_alt unat_ucast_up b by simp arith
qed

text \<open>A reservation of \<open>n\<close> dwords that has been granted at \<open>p\<close>.\<close>

definition reserved_at :: "fptr \<Rightarrow> nat \<Rightarrow> 'h SVGADevice \<Rightarrow> bool" where
  "reserved_at p n s \<longleftrightarrow>
     ring_wf (fifo s) \<and> host_wf s \<and> unat (m_reserved_size s) = 4 * n \<and> 0 < n \<and>
     n \<le> 0x4000 \<and> n < ring_free (fifo s) \<and>
     (case p of
        FifoAt k \<Rightarrow> \<not> m_using_bounce_buffer s \<and> k = rnext (fifo s) \<and>
                    rnext (fifo s) + n \<le> rmax (fifo s)
      | BounceAt k \<Rightarrow> m_using_bounce_buffer s \<and> k = 0)"

text \<open>The parts of memory that decide the ring: writes elsewhere below it do not matter.\<close>

lemma ring_reg_upd [simp]:
  assumes "ring_wf f" "i < SVGA_FIFO_NUM_REGS"
    "i \<notin> {SVGA_FIFO_MIN, SVGA_FIFO_MAX, SVGA_FIFO_NEXT_CMD, SVGA_FIFO_STOP}"
  shows "ring_wf (f(i := v))" "ring_queue (f(i := v)) = ring_queue f"
    "ring_free (f(i := v)) = ring_free f" "ring_size (f(i := v)) = ring_size f" "rnext (f(i := v)) = rnext f"
    "rmax (f(i := v)) = rmax f" "rmin (f(i := v)) = rmin f" "rstop (f(i := v)) = rstop f"
proof -
  show r: "rnext (f(i := v)) = rnext f" "rmax (f(i := v)) = rmax f" "rmin (f(i := v)) = rmin f"
    "rstop (f(i := v)) = rstop f"
    using assms by (auto simp: ring_regs)
  show "ring_wf (f(i := v))" using assms r by (auto simp: ring_wf_def)
  have "\<And>j. j \<in> set (ring_seg (rmin f) (rmax f) (rstop f) (rnext f)) \<Longrightarrow> j \<noteq> i"
    using assms set_ring_seg [of "rmin f" "rstop f" "rnext f" "rmax f"]
    by (fastforce simp: ring_wf_def)
  then show q: "ring_queue (f(i := v)) = ring_queue f"
    by (simp add: ring_queue_def r)
  show "ring_free (f(i := v)) = ring_free f" by (simp add: ring_free_def ring_size_def q r)
  show "ring_size (f(i := v)) = ring_size f" by (simp add: ring_size_def r)
qed

lemma reserve_in_place_post:
  assumes "ring_wf (fifo s)" "host_wf s" "unat bytes = 4 * n" "0 < n" "m_reserved_size s = bytes"
    "n \<le> 0x4000" "n < ring_free (fifo s)" "rnext (fifo s) + n \<le> rmax (fifo s)"
    "next_cmd = fifo s SVGA_FIFO_NEXT_CMD" "reserve_in_place next_cmd r bytes s = (q, t)"
  shows "\<exists>p. q = Some p \<and> reserved_at p n t \<and>
      ring_queue (fifo t) = ring_queue (fifo s) \<and> ring_size (fifo t) = ring_size (fifo s) \<and>
      fifo_frame s t"
  using assms
  by (auto simp: reserve_in_place_def reserved_at_def set_fifo_def rnext_def fifo_frame_def Let_def
      split: if_splits)

text \<open>
  What holds on entry to the reservation loop, and what it guarantees when it returns: a pointer
  to a granted reservation, of a queue from which the host may have consumed a prefix.
\<close>

definition reserve_pre :: "u32 \<Rightarrow> u32 \<Rightarrow> u32 \<Rightarrow> u64 \<Rightarrow> nat \<Rightarrow> 'h SVGADevice \<Rightarrow> bool" where
  "reserve_pre mx mn nx bytes n s \<longleftrightarrow>
     ring_wf (fifo s) \<and> host_wf s \<and> mx = fifo s SVGA_FIFO_MAX \<and> mn = fifo s SVGA_FIFO_MIN \<and>
     nx = fifo s SVGA_FIFO_NEXT_CMD \<and> m_reserved_size s = bytes \<and>
     unat bytes = 4 * n \<and> 0 < n \<and> n \<le> 0x4000"

definition reserve_post :: "nat \<Rightarrow> 'h SVGADevice \<Rightarrow> fptr option \<times> 'h SVGADevice \<Rightarrow> bool" where
  "reserve_post n s res \<longleftrightarrow>
     (\<exists>p. fst res = Some p \<and> reserved_at p n (snd res) \<and>
          suffix (ring_queue (fifo (snd res))) (ring_queue (fifo s)) \<and>
          ring_size (fifo (snd res)) = ring_size (fifo s) \<and> fifo_frame s (snd res))"

lemma reserve_pre_full:
  assumes "reserve_pre mx mn nx bytes n s"
  shows "reserve_pre mx mn nx bytes n (FIFOFull s)"
    and "reserve_post n (FIFOFull s) res \<Longrightarrow> reserve_post n s res"
    and "suffix (ring_queue (fifo (FIFOFull s))) (ring_queue (fifo s))"
proof -
  have wf: "ring_wf (fifo s)" "host_wf s" using assms by (auto simp: reserve_pre_def)
  obtain h f where t: "FIFOFull s = s\<lparr>host := h, fifo := f\<rparr>" and st: "host_step (fifo s) f"
    using FIFOFull_shape [OF wf] by metis
  show "reserve_pre mx mn nx bytes n (FIFOFull s)"
    using assms t st by (simp add: reserve_pre_def host_step_def)
  show sf: "suffix (ring_queue (fifo (FIFOFull s))) (ring_queue (fifo s))"
    using st t by (simp add: host_step_def)
  have "fifo_frame s (FIFOFull s)" "ring_size (fifo (FIFOFull s)) = ring_size (fifo s)"
    using t st host_step_regs [OF st] by (simp_all add: ring_size_def)
  then show "reserve_post n (FIFOFull s) res \<Longrightarrow> reserve_post n s res"
    unfolding reserve_post_def using sf by (metis fifo_frame_trans suffix_order.trans)
qed

lemma reserve_post_in_place:
  assumes "reserve_pre mx mn nx bytes n s" "n < ring_free (fifo s)"
    "rnext (fifo s) + n \<le> rmax (fifo s)"
  shows "reserve_post n s (reserve_in_place nx r bytes s)"
proof -
  obtain q t where qt: "reserve_in_place nx r bytes s = (q, t)" by fastforce
  show ?thesis
    using reserve_in_place_post [OF _ _ _ _ _ _ assms(2,3) _ qt] assms qt
    by (fastforce simp: reserve_pre_def reserve_post_def)
qed

lemma reserve_post_bounce:
  assumes "reserve_pre mx mn nx bytes n s" "n < ring_free (fifo s)"
  shows "reserve_post n s (Some (BounceAt 0), s\<lparr>m_using_bounce_buffer := True\<rparr>)"
  using assms by (simp add: reserve_pre_def reserve_post_def reserved_at_def)

lemma reserve_step:
  assumes pre: "reserve_pre mx mn nx bytes n s"
    and body: "(let stop = fifo s SVGA_FIFO_STOP
      in if nx \<ge> stop then
           if ucast nx + bytes < ucast mx \<or> (ucast nx + bytes = ucast mx \<and> stop > mn)
           then Some (reserve_in_place nx r bytes s)
           else if ucast ((mx - nx) + (stop - mn)) \<le> bytes then F
           else Some (Some (BounceAt 0), s\<lparr>m_using_bounce_buffer := True\<rparr>)
         else if ucast nx + bytes < ucast stop then Some (reserve_in_place nx r bytes s)
           else F) = Some res"
  shows "reserve_post n s res \<and> n < ring_free (fifo s) \<or> F = Some res \<and> ring_free (fifo s) \<le> n"
proof -
  have wf: "ring_wf (fifo s)" and b: "unat bytes = 4 * n" "n \<le> 0x4000"
    and eqs: "mx = fifo s SVGA_FIFO_MAX" "mn = fifo s SVGA_FIFO_MIN" "nx = fifo s SVGA_FIFO_NEXT_CMD"
    using pre by (auto simp: reserve_pre_def)
  note conds = reserve_conds [OF wf b, folded eqs]
  have bounds: "rnext (fifo s) < rmax (fifo s)" "rstop (fifo s) < rmax (fifo s)"
      "rmin (fifo s) \<le> rstop (fifo s)"
    using wf by (auto simp: ring_wf_def)
  show ?thesis
  proof (cases "rstop (fifo s) \<le> rnext (fifo s)")
    case True
    then have free: "ring_free (fifo s) =
        (rmax (fifo s) - rnext (fifo s)) + (rstop (fifo s) - rmin (fifo s))"
      using wf by (simp add: ring_free_eq)
    consider (a) "rnext (fifo s) + n < rmax (fifo s) \<or>
          (rnext (fifo s) + n = rmax (fifo s) \<and> rmin (fifo s) < rstop (fifo s))"
      | (b) "\<not> (rnext (fifo s) + n < rmax (fifo s) \<or>
          (rnext (fifo s) + n = rmax (fifo s) \<and> rmin (fifo s) < rstop (fifo s)))"
        "ring_free (fifo s) \<le> n"
      | (c) "\<not> (rnext (fifo s) + n < rmax (fifo s) \<or>
          (rnext (fifo s) + n = rmax (fifo s) \<and> rmin (fifo s) < rstop (fifo s)))"
        "n < ring_free (fifo s)"
      by linarith
    then show ?thesis
    proof cases
      case a
      then have "n < ring_free (fifo s)" "rnext (fifo s) + n \<le> rmax (fifo s)"
        using free bounds by auto
      moreover have "res = reserve_in_place nx r bytes s"
        using body True a conds by (simp add: Let_def)
      ultimately show ?thesis using reserve_post_in_place [OF pre] by blast
    next
      case b
      then show ?thesis using body True conds free by (auto simp: Let_def split: if_splits)
    next
      case c
      then have "res = (Some (BounceAt 0), s\<lparr>m_using_bounce_buffer := True\<rparr>)"
        using body True conds free by (auto simp: Let_def split: if_splits)
      then show ?thesis using reserve_post_bounce [OF pre c(2)] c(2) by blast
    qed
  next
    case False
    then have free: "ring_free (fifo s) = rstop (fifo s) - rnext (fifo s)"
      using wf by (simp add: ring_free_eq)
    show ?thesis
    proof (cases "rnext (fifo s) + n < rstop (fifo s)")
      case True
      then have "n < ring_free (fifo s)" "rnext (fifo s) + n \<le> rmax (fifo s)"
        using free bounds by auto
      moreover have "res = reserve_in_place nx r bytes s"
        using body True False conds by (simp add: Let_def)
      ultimately show ?thesis using reserve_post_in_place [OF pre] by blast
    next
      case nf: False
      then have "F = Some res" using body False conds by (simp add: Let_def)
      moreover have "ring_free (fifo s) \<le> n" using nf free by simp
      ultimately show ?thesis by simp
    qed
  qed
qed

lemma FIFOReserve_loop_post:
  assumes ret: "FIFOReserve_loop mx mn nx r bytes s = Some res"
    and pre: "reserve_pre mx mn nx bytes n s"
  shows "reserve_post n s res"
proof -
  have "reserve_pre mx mn nx bytes n s \<longrightarrow> reserve_post n s res"
  proof (rule FIFOReserve_loop.raw_induct [where P = "\<lambda>mx mn nx r bytes s res.
        reserve_pre mx mn nx bytes n s \<longrightarrow> reserve_post n s res", OF _ ret], rule impI)
    fix F :: "u32 \<Rightarrow> u32 \<Rightarrow> u32 \<Rightarrow> bool \<Rightarrow> u64 \<Rightarrow> 'a SVGADevice \<Rightarrow> (fptr option \<times> 'a SVGADevice) option"
    fix mx mn nx r bytes s res
    assume IH: "\<And>mx mn nx r bytes s res. F mx mn nx r bytes s = Some res \<Longrightarrow>
        reserve_pre mx mn nx bytes n s \<longrightarrow> reserve_post n s res"
      and body: "(let stop = fifo s SVGA_FIFO_STOP
        in if nx \<ge> stop then
             if ucast nx + bytes < ucast mx \<or> (ucast nx + bytes = ucast mx \<and> stop > mn)
             then Some (reserve_in_place nx r bytes s)
             else if ucast ((mx - nx) + (stop - mn)) \<le> bytes
             then F mx mn nx r bytes (FIFOFull s)
             else Some (Some (BounceAt 0), s\<lparr>m_using_bounce_buffer := True\<rparr>)
           else if ucast nx + bytes < ucast stop then Some (reserve_in_place nx r bytes s)
             else F mx mn nx r bytes (FIFOFull s)) = Some res"
      and pre: "reserve_pre mx mn nx bytes n s"
    from reserve_step [OF pre body] show "reserve_post n s res"
      using IH reserve_pre_full [OF pre] by blast
  qed
  with pre show ?thesis by blast
qed

section \<open>Committing\<close>

lemma write_words_in [simp]: "j < length ws \<Longrightarrow> write_words k ws f (k + j) = ws ! j"
  by (simp add: write_words_def)

lemma write_words_below [simp]: "i < k \<Longrightarrow> write_words k ws f i = f i"
  by (simp add: write_words_def)

lemma write_words_above: "k + length ws \<le> i \<Longrightarrow> write_words k ws f i = f i"
  by (simp add: write_words_def)

lemma ring_index:
  assumes "ring_wf f" "i \<in> set (ring_seg (rmin f) (rmax f) (rstop f) (rnext f))"
  shows "SVGA_FIFO_NUM_REGS \<le> i" "i < rmax f"
    "rnext f \<le> i \<Longrightarrow> rnext f + ring_free f \<le> i \<and> rnext f < rstop f"
    "i < rnext f \<Longrightarrow> rstop f \<le> rnext f \<Longrightarrow> rnext f + ring_free f \<le> i + (rmax f - rmin f)"
  using assms set_ring_seg [of "rmin f" "rstop f" "rnext f" "rmax f" i]
  by (auto simp: ring_wf_def ring_free_eq ring_seg_def split: if_splits)

text \<open>The cells behind the queue are not cells of the queue.\<close>

lemma ring_pos_fresh:
  assumes wf: "ring_wf f" and i: "i \<in> set (ring_seg (rmin f) (rmax f) (rstop f) (rnext f))"
    and j: "j < ring_free f"
  shows "ring_pos (rmin f) (rmax f) (rnext f + j) \<noteq> i"
  using assms
  by (auto simp: ring_pos_def ring_seg_def ring_free_eq ring_wf_def split: if_splits)

lemma ring_pos_reg:
  assumes "ring_wf f" "j \<le> ring_free f"
  shows "SVGA_FIFO_NUM_REGS \<le> ring_pos (rmin f) (rmax f) (rnext f + j)"
  using assms by (auto simp: ring_pos_def ring_free_eq ring_wf_def split: if_splits)

lemma advance_next_cmd:
  assumes wf: "ring_wf f" and n: "unat (bytes :: u64) = 4 * n" "n \<le> 0x4000" "n < ring_free f"
  shows "unat (let nx = f SVGA_FIFO_NEXT_CMD + ucast bytes
               in if nx \<ge> f SVGA_FIFO_MAX then nx - (f SVGA_FIFO_MAX - f SVGA_FIFO_MIN) else nx)
         = 4 * ring_pos (rmin f) (rmax f) (rnext f + n)"
proof -
  note B = ring_wf_bytes [OF wf]
  have o: "rmin f \<le> rnext f" "rnext f < rmax f" "4 * rmax f + 0x10000 \<le> 2 ^ 32"
    using wf by (auto simp: ring_wf_def)
  have c: "unat (ucast bytes :: u32) = 4 * n"
    using n by (simp add: unsigned_ucast_eq take_bit_nat_eq_self)
  have s: "unat (f SVGA_FIFO_NEXT_CMD + ucast bytes) = 4 * (rnext f + n)"
    using B c o n by (subst unat_add_small) auto
  have d: "unat (f SVGA_FIFO_MAX - f SVGA_FIFO_MIN) = 4 * rmax f - 4 * rmin f"
    using B o by (subst unat_sub_small) (auto simp: word_le_nat_alt)
  show ?thesis
  proof (cases "rnext f + n < rmax f")
    case True
    then have "\<not> f SVGA_FIFO_MAX \<le> f SVGA_FIFO_NEXT_CMD + ucast bytes"
      unfolding word_le_nat_alt s B by simp
    with True s show ?thesis by (simp add: ring_pos_def Let_def)
  next
    case False
    then have ge: "f SVGA_FIFO_MAX \<le> f SVGA_FIFO_NEXT_CMD + ucast bytes"
      unfolding word_le_nat_alt s B by simp
    have "f SVGA_FIFO_MAX - f SVGA_FIFO_MIN \<le> f SVGA_FIFO_NEXT_CMD + ucast bytes"
      unfolding word_le_nat_alt s d using False o by simp
    then have "unat (f SVGA_FIFO_NEXT_CMD + ucast bytes - (f SVGA_FIFO_MAX - f SVGA_FIFO_MIN)) =
        4 * (rnext f + n) - (4 * rmax f - 4 * rmin f)"
      using s d by (simp add: unat_sub_small)
    then show ?thesis using False ge o by (simp add: ring_pos_def Let_def)
  qed
qed

text \<open>The in-place path.\<close>

lemma commit_in_place:
  assumes wf: "ring_wf f" and n: "unat (bytes :: u64) = 4 * length ws" "length ws \<le> 0x4000"
    "length ws < ring_free f" and fit: "rnext f + length ws \<le> rmax f"
    and g: "g = (write_words (rnext f) ws f)(SVGA_FIFO_NEXT_CMD :=
        (let nx = f SVGA_FIFO_NEXT_CMD + ucast bytes
         in if nx \<ge> f SVGA_FIFO_MAX then nx - (f SVGA_FIFO_MAX - f SVGA_FIFO_MIN) else nx))"
  shows "ring_wf g \<and> ring_queue g = ring_queue f @ ws \<and> ring_size g = ring_size f"
proof (rule ring_append [OF wf n(3)])
  have r: "SVGA_FIFO_NUM_REGS \<le> rnext f" using wf by (simp add: ring_wf_def)
  show "g SVGA_FIFO_MIN = f SVGA_FIFO_MIN" "g SVGA_FIFO_MAX = f SVGA_FIFO_MAX"
    "g SVGA_FIFO_STOP = f SVGA_FIFO_STOP"
    using r by (simp_all add: g)
  show "unat (g SVGA_FIFO_NEXT_CMD) = 4 * ring_pos (rmin f) (rmax f) (rnext f + length ws)"
    unfolding g using advance_next_cmd [OF wf n] by simp
  show "g (ring_pos (rmin f) (rmax f) (rnext f + j)) = ws ! j" if "j < length ws" for j
    using that fit r by (simp add: g ring_pos_def)
  show "g i = f i" if i: "i \<in> set (ring_seg (rmin f) (rmax f) (rstop f) (rnext f))" for i
  proof -
    have "i < rnext f \<or> rnext f + length ws \<le> i"
      using ring_index(3) [OF wf i] n(3) by linarith
    then show ?thesis
      using ring_index(1) [OF wf i] by (auto simp: g write_words_above)
  qed
qed

text \<open>The two copies out of the bounce buffer, on both sides of the wrap.\<close>

lemma commit_bounce:
  fixes ws :: "u32 list"
  assumes wf: "ring_wf f" and n: "unat (bytes :: u64) = 4 * length ws" "length ws \<le> 0x4000"
    "length ws < ring_free f"
    and c: "c = min (length ws) (rmax f - rnext f)"
    and g: "g = (write_words (rmin f) (drop c ws) (write_words (rnext f) (take c ws) f))
        (SVGA_FIFO_NEXT_CMD :=
        (let nx = f SVGA_FIFO_NEXT_CMD + ucast bytes
         in if nx \<ge> f SVGA_FIFO_MAX then nx - (f SVGA_FIFO_MAX - f SVGA_FIFO_MIN) else nx))"
  shows "ring_wf g \<and> ring_queue g = ring_queue f @ ws \<and> ring_size g = ring_size f"
proof (rule ring_append [OF wf n(3)])
  have r: "SVGA_FIFO_NUM_REGS \<le> rmin f" "rmin f \<le> rnext f" "rnext f < rmax f"
    "rmin f \<le> rstop f"
    using wf by (auto simp: ring_wf_def)
  have fr: "length ws < (if rstop f \<le> rnext f then (rmax f - rnext f) + (rstop f - rmin f)
                        else rstop f - rnext f)"
    using n wf by (simp add: ring_free_eq)
  show "g SVGA_FIFO_MIN = f SVGA_FIFO_MIN" "g SVGA_FIFO_MAX = f SVGA_FIFO_MAX"
    "g SVGA_FIFO_STOP = f SVGA_FIFO_STOP"
    using r by (simp_all add: g)
  show "unat (g SVGA_FIFO_NEXT_CMD) = 4 * ring_pos (rmin f) (rmax f) (rnext f + length ws)"
    unfolding g using advance_next_cmd [OF wf n] by simp
  have b: "rmin f + (length ws - c) \<le> rnext f"
    using fr r c wf by (auto simp: min_def ring_wf_def split: if_splits)
  show "g (ring_pos (rmin f) (rmax f) (rnext f + j)) = ws ! j" if "j < length ws" for j
  proof (cases "rnext f + j < rmax f")
    case True
    then have "j < c" using that c by auto
    moreover have "SVGA_FIFO_NUM_REGS \<le> rnext f" using r by simp
    ultimately show ?thesis using True b c by (simp add: g ring_pos_def write_words_above)
  next
    case False
    then have p: "ring_pos (rmin f) (rmax f) (rnext f + j) = rmin f + (j - c)" "c \<le> j"
      using that c r by (auto simp: ring_pos_def)
    moreover have "write_words (rmin f) (drop c ws) (write_words (rnext f) (take c ws) f)
        (rmin f + (j - c)) = ws ! j"
      using that p(2) by (subst write_words_in) auto
    moreover have "rmin f + (j - c) \<noteq> SVGA_FIFO_NEXT_CMD" using r by simp
    ultimately show ?thesis unfolding g p(1) by (simp only: fun_upd_other not_False_eq_True)
  qed
  show "g i = f i" if i: "i \<in> set (ring_seg (rmin f) (rmax f) (rstop f) (rnext f))" for i
  proof -
    have "rmin f + (length ws - c) \<le> i \<and> (i < rnext f \<or> rnext f + c \<le> i)"
      using i fr r c wf by (auto simp: min_def ring_wf_def ring_seg_def split: if_splits)
    then show ?thesis
      using ring_index(1) [OF wf i] c by (auto simp: g write_words_above)
  qed
qed

text \<open>The dword-by-dword path of devices without \<open>SVGA_FIFO_CAP_RESERVE\<close>.\<close>

lemma commit_one:
  assumes wf: "ring_wf f" and free: "1 < ring_free f"
    and g: "g = (f(rnext f := w))(SVGA_FIFO_NEXT_CMD :=
        (let nx = f SVGA_FIFO_NEXT_CMD + 4 in if nx = f SVGA_FIFO_MAX then f SVGA_FIFO_MIN else nx))"
  shows "ring_wf g \<and> ring_queue g = ring_queue f @ [w] \<and> ring_size g = ring_size f"
proof (rule ring_append [OF wf])
  note B = ring_wf_bytes [OF wf]
  have r: "SVGA_FIFO_NUM_REGS \<le> rnext f" "rnext f < rmax f" "4 * rmax f + 0x10000 \<le> 2 ^ 32"
    "rmin f < rmax f"
    using wf by (auto simp: ring_wf_def)
  have s: "unat (f SVGA_FIFO_NEXT_CMD + 4) = 4 * (rnext f + 1)"
    using B r by (subst unat_add_small) auto
  then have "f SVGA_FIFO_NEXT_CMD + 4 = f SVGA_FIFO_MAX \<longleftrightarrow> rnext f + 1 = rmax f"
    unfolding word_unat_eq_iff s B by arith
  then show "unat (g SVGA_FIFO_NEXT_CMD) = 4 * ring_pos (rmin f) (rmax f) (rnext f + length [w])"
    using s B r by (auto simp: g ring_pos_def Let_def)
  show "length [w] < ring_free f" using free by simp
  show "g SVGA_FIFO_MIN = f SVGA_FIFO_MIN" "g SVGA_FIFO_MAX = f SVGA_FIFO_MAX"
    "g SVGA_FIFO_STOP = f SVGA_FIFO_STOP"
    using r by (simp_all add: g)
  show "g (ring_pos (rmin f) (rmax f) (rnext f + j)) = [w] ! j" if "j < length [w]" for j
    using that r by (simp add: g ring_pos_def)
  show "g i = f i" if i: "i \<in> set (ring_seg (rmin f) (rmax f) (rstop f) (rnext f))" for i
    using ring_index(1,3) [OF wf i] free by (auto simp: g)
qed

lemma commit_dwords_queue:
  assumes "ring_wf (fifo s)" "n < ring_free (fifo s)" "nx = fifo s SVGA_FIFO_NEXT_CMD"
    "mx = fifo s SVGA_FIFO_MAX" "mn = fifo s SVGA_FIFO_MIN"
    "commit_dwords mx mn n k nx s = (nx', t)"
  shows "\<exists>f. t = s\<lparr>fifo := f\<rparr> \<and> ring_wf f \<and>
      ring_queue f = ring_queue (fifo s) @ map (bounce s) [k..<k + n] \<and>
      ring_size f = ring_size (fifo s)"
  using assms
proof (induction n arbitrary: k nx s)
  case 0
  then show ?case by (intro exI [of _ "fifo s"]) simp
next
  case (Suc n)
  define nx1 where "nx1 = (let nx = nx + 4 in if nx = mx then mn else nx)"
  define g where "g = ((fifo s)(rnext (fifo s) := bounce s k))(SVGA_FIFO_NEXT_CMD := nx1)"
  have one: "ring_wf g \<and> ring_queue g = ring_queue (fifo s) @ [bounce s k] \<and>
      ring_size g = ring_size (fifo s)"
    using Suc.prems by (intro commit_one) (auto simp: g_def nx1_def)
  have rg: "rmin g = rmin (fifo s)" "rmax g = rmax (fifo s)" "mx = g SVGA_FIFO_MAX"
    "mn = g SVGA_FIFO_MIN" "nx1 = g SVGA_FIFO_NEXT_CMD"
    using Suc.prems(1,4,5) by (auto simp: ring_regs ring_wf_def g_def)
  have "n < ring_free g"
    using one Suc.prems(2) rg by (simp add: ring_free_def ring_size_def)
  moreover have "commit_dwords mx mn n (Suc k) nx1 (s\<lparr>fifo := g\<rparr>) = (nx', t)"
    using Suc.prems(3,6) by (simp add: Let_def set_fifo_def rnext_def g_def nx1_def)
  ultimately obtain f where "t = (s\<lparr>fifo := g\<rparr>)\<lparr>fifo := f\<rparr>" "ring_wf f"
    "ring_queue f = ring_queue g @ map (bounce s) [Suc k..<Suc k + n]" "ring_size f = ring_size g"
    using Suc.IH [of "s\<lparr>fifo := g\<rparr>" nx1 "Suc k"] one rg by auto
  then show ?case
    using one upt_conv_Cons [of k "k + Suc n"] by (intro exI [of _ f]) simp
qed

lemma bounce_poke: "map (write_words 0 ws b) [0..<length ws] = ws"
  by (intro nth_equalityI) (simp_all add: write_words_def)

lemma copy_bounce_words:
  assumes wf: "ring_wf f" and n: "unat (bytes :: u64) = 4 * length ws" "length ws \<le> 0x4000"
    and f: "fifo s = f" and b: "map (bounce s) [0..<length ws] = ws"
    and c: "c = min (length ws) (rmax f - rnext f)"
  shows "copy_bounce bytes (f SVGA_FIFO_MAX) (f SVGA_FIFO_MIN) (f SVGA_FIFO_NEXT_CMD) s =
      s\<lparr>fifo := write_words (rmin f) (drop c ws)
          (write_words (rnext f) (take c ws) (f(SVGA_FIFO_RESERVED := ucast bytes)))\<rparr>"
proof -
  note B = ring_wf_bytes [OF wf]
  have o: "rnext f < rmax f" "4 * rmax f + 0x10000 \<le> 2 ^ 32" using wf by (auto simp: ring_wf_def)
  have d: "unat (f SVGA_FIFO_MAX - f SVGA_FIFO_NEXT_CMD) = 4 * (rmax f - rnext f)"
    using B o by (subst unat_sub_small) (auto simp: word_le_nat_alt)
  have u: "unat (ucast bytes :: u32) = 4 * length ws"
    using n by (simp add: unsigned_ucast_eq take_bit_nat_eq_self)
  define chunk where "chunk = (if bytes < ucast (f SVGA_FIFO_MAX - f SVGA_FIFO_NEXT_CMD)
      then ucast bytes else f SVGA_FIFO_MAX - f SVGA_FIFO_NEXT_CMD)"
  have ch: "unat chunk = 4 * c"
    using d u n c by (auto simp: chunk_def word_less_nat_alt)
  have rest: "unat (bytes - ucast chunk) div 4 = length ws - c"
    using n c ch
    by (subst unat_sub_small) (auto simp: word_le_nat_alt simp flip: diff_mult_distrib2)
  have 1: "map (bounce s) [0..<c] = take c ws"
    using arg_cong [OF b, of "take c"] c by (simp add: take_map min_def split: if_splits)
  have 2: "map (bounce s) [c..<c + (length ws - c)] = drop c ws"
    using arg_cong [OF b, of "drop c"] c by (simp add: drop_map)
  show ?thesis
    unfolding copy_bounce_def Let_def set_fifo_def chunk_def [symmetric]
    using ch rest 1 2 B by (simp add: f)
qed

text \<open>
  The outcome of a commit of \<open>ws\<close>: the queue is extended by \<open>ws\<close>, the reservation is over,
  and nothing else of the driver's state has changed.
\<close>

definition committed :: "u32 list \<Rightarrow> 'h SVGADevice \<Rightarrow> 'h SVGADevice \<Rightarrow> bool" where
  "committed ws s t \<longleftrightarrow>
     ring_wf (fifo t) \<and> ring_queue (fifo t) = ring_queue (fifo s) @ ws \<and>
     ring_size (fifo t) = ring_size (fifo s) \<and> m_reserved_size t = 0 \<and> fifo_frame s t"

lemma FIFOCommit_FifoAt:
  assumes r: "reserved_at (FifoAt k) n s" and l: "length ws \<le> n" "unat bytes = 4 * length ws"
  shows "committed ws s (FIFOCommit bytes (poke (FifoAt k) ws s))"
proof -
  let ?f = "fifo s"
  have wf: "ring_wf ?f" and b: "\<not> m_using_bounce_buffer s" and k: "k = rnext ?f"
    and n: "length ws \<le> 0x4000" "length ws < ring_free ?f" "rnext ?f + length ws \<le> rmax ?f"
    and sz: "m_reserved_size s \<noteq> 0"
    using r l by (auto simp: reserved_at_def unat_eq_zero)
  have reg: "SVGA_FIFO_NUM_REGS \<le> rnext ?f" using wf by (simp add: ring_wf_def)
  define g where "g = (write_words (rnext ?f) ws ?f)(SVGA_FIFO_NEXT_CMD :=
      (let nx = ?f SVGA_FIFO_NEXT_CMD + ucast bytes
       in if nx \<ge> ?f SVGA_FIFO_MAX then nx - (?f SVGA_FIFO_MAX - ?f SVGA_FIFO_MIN) else nx))"
  have g: "ring_wf g" "ring_queue g = ring_queue ?f @ ws" "ring_size g = ring_size ?f"
    using commit_in_place [OF wf l(2) n g_def] by simp_all
  have al: "bytes mod 4 = 0" using l(2) by (simp add: word_mod_4)
  have "FIFOCommit bytes (poke (FifoAt k) ws s) =
      s\<lparr>m_reserved_size := 0, fifo := if HasFIFOCap SVGA_FIFO_CAP_RESERVE (poke (FifoAt k) ws s)
          then g(SVGA_FIFO_RESERVED := 0) else g\<rparr>"
    using al sz b reg
    by (simp add: FIFOCommit_def advance_next_def set_fifo_def Let_def k g_def)
  then show ?thesis using g by (simp add: committed_def fifo_frame_def)
qed

lemma FIFOCommit_BounceAt:
  assumes r: "reserved_at (BounceAt k) n s" and l: "length ws \<le> n" "unat bytes = 4 * length ws"
  shows "committed ws s (FIFOCommit bytes (poke (BounceAt k) ws s))"
proof -
  let ?f = "fifo s" and ?b = "write_words 0 ws (bounce s)"
  have wf: "ring_wf ?f" and b: "m_using_bounce_buffer s" and k: "k = 0"
    and n: "length ws \<le> 0x4000" "length ws < ring_free ?f" and sz: "m_reserved_size s \<noteq> 0"
    using r l by (auto simp: reserved_at_def unat_eq_zero)
  have al: "bytes mod 4 = 0" using l(2) by (simp add: word_mod_4)
  define s1 where "s1 = s\<lparr>bounce := ?b, m_reserved_size := 0\<rparr>"
  have s1: "map (bounce s1) [0..<length ws] = ws" "fifo s1 = ?f"
    by (simp_all add: s1_def bounce_poke)
  show ?thesis
  proof (cases "HasFIFOCap SVGA_FIFO_CAP_RESERVE s")
    case True
    define c where "c = min (length ws) (rmax ?f - rnext ?f)"
    define f' where "f' = ?f(SVGA_FIFO_RESERVED := ucast bytes)"
    have f': "ring_wf f'" "length ws < ring_free f'" "c = min (length ws) (rmax f' - rnext f')"
      "ring_queue f' = ring_queue ?f" "rmin f' = rmin ?f" "rnext f' = rnext ?f"
      using wf n by (simp_all add: f'_def c_def)
    define g where "g = (write_words (rmin f') (drop c ws) (write_words (rnext f') (take c ws) f'))
        (SVGA_FIFO_NEXT_CMD :=
        (let nx = f' SVGA_FIFO_NEXT_CMD + ucast bytes
         in if nx \<ge> f' SVGA_FIFO_MAX then nx - (f' SVGA_FIFO_MAX - f' SVGA_FIFO_MIN) else nx))"
    have g: "ring_wf g" "ring_queue g = ring_queue ?f @ ws" "ring_size g = ring_size ?f"
      using commit_bounce [OF f'(1) l(2) n(1) f'(2,3) g_def] f'(4) wf by (simp_all add: f'_def)
    have "FIFOCommit bytes (poke (BounceAt k) ws s) = s1\<lparr>fifo := g(SVGA_FIFO_RESERVED := 0)\<rparr>"
      using True al sz b wf copy_bounce_words [OF wf l(2) n(1) s1(2,1) c_def]
      by (simp add: FIFOCommit_def advance_next_def set_fifo_def Let_def k g_def c_def s1_def
          HasFIFOCap_def f'_def)
    then show ?thesis using g by (simp add: committed_def fifo_frame_def s1_def)
  next
    case False
    obtain nx t where t: "commit_dwords (?f SVGA_FIFO_MAX) (?f SVGA_FIFO_MIN) (length ws) 0
        (?f SVGA_FIFO_NEXT_CMD) s1 = (nx, t)" by fastforce
    obtain g where g: "t = s1\<lparr>fifo := g\<rparr>" "ring_wf g" "ring_queue g = ring_queue ?f @ ws"
      "ring_size g = ring_size ?f"
      using commit_dwords_queue [OF _ _ _ _ _ t] wf n s1 by auto
    have "FIFOCommit bytes (poke (BounceAt k) ws s) = t"
      using False al sz b t g(1) l
      by (simp add: FIFOCommit_def Let_def k HasFIFOCap_def s1_def)
    then show ?thesis using g by (simp add: committed_def fifo_frame_def s1_def)
  qed
qed

lemma FIFOCommit_words:
  assumes "reserved_at p n s" "length ws \<le> n" "unat bytes = 4 * length ws"
  shows "committed ws s (FIFOCommit bytes (poke p ws s))"
  using assms FIFOCommit_FifoAt FIFOCommit_BounceAt by (cases p) blast+

section \<open>The wait for space\<close>

lemma FIFOReserve_loop_fits:
  assumes pre: "reserve_pre mx mn nx bytes n s" and free: "n < ring_free (fifo s)"
  shows "\<exists>res. FIFOReserve_loop mx mn nx r bytes s = Some res"
proof -
  have wf: "ring_wf (fifo s)" "unat bytes = 4 * n" "n \<le> 0x4000"
    and v: "mx = fifo s SVGA_FIFO_MAX" "mn = fifo s SVGA_FIFO_MIN" "nx = fifo s SVGA_FIFO_NEXT_CMD"
    using pre by (auto simp: reserve_pre_def)
  note conds = reserve_conds [OF wf]
  have "ring_free (fifo s) = (if rstop (fifo s) \<le> rnext (fifo s)
      then (rmax (fifo s) - rnext (fifo s)) + (rstop (fifo s) - rmin (fifo s))
      else rstop (fifo s) - rnext (fifo s))"
    using wf(1) by (rule ring_free_eq)
  with free conds show ?thesis
    by (cases "rstop (fifo s) \<le> rnext (fifo s)"; subst FIFOReserve_loop.simps)
      (simp_all add: v Let_def less_diff_conv add.commute)
qed

lemma FIFOReserve_loop_wait:
  assumes "FIFOReserve_loop mx mn nx r bytes ((FIFOFull ^^ k) s) \<noteq> None"
  shows "FIFOReserve_loop mx mn nx r bytes s \<noteq> None"
  using assms
proof (induction k arbitrary: s)
  case (Suc k)
  then have "FIFOReserve_loop mx mn nx r bytes (FIFOFull s) \<noteq> None"
    by (simp add: funpow_swap1)
  then show ?case by (subst FIFOReserve_loop.simps) (simp add: Let_def)
qed simp

text \<open>
  The documented reaction to \<open>SVGA_REG_SYNC\<close>: as long as there are commands, polling the host
  a number of times makes it consume some of them.
\<close>

definition host_progress :: "'h SVGADevice \<Rightarrow> bool" where
  "host_progress s \<longleftrightarrow>
     (\<forall>t. outl_port t = outl_port s \<and> inl_port t = inl_port s \<and> m_io_base t = m_io_base s \<and>
        ring_wf (fifo t) \<and> ring_queue (fifo t) \<noteq> [] \<longrightarrow>
        (\<exists>k. length (ring_queue (fifo ((FIFOFull ^^ k) t))) < length (ring_queue (fifo t))))"

lemma reserve_pre_wait:
  "reserve_pre mx mn nx bytes n s \<Longrightarrow>
   reserve_pre mx mn nx bytes n ((FIFOFull ^^ k) s) \<and> fifo_frame s ((FIFOFull ^^ k) s)"
proof (induction k)
  case (Suc k)
  let ?t = "(FIFOFull ^^ k) s"
  have wf: "ring_wf (fifo ?t)" "host_wf ?t" using Suc by (auto simp: reserve_pre_def)
  have "fifo_frame ?t (FIFOFull ?t)" using FIFOFull_shape [OF wf] by (metis fifo_frame_upd(6))
  then show ?case
    using Suc reserve_pre_full(1) [of mx mn nx bytes n ?t] by (auto intro: fifo_frame_trans)
qed simp

lemma FIFOReserve_loop_returns:
  assumes "reserve_pre mx mn nx bytes n s" "host_progress s0" "fifo_frame s0 s"
    "n < ring_size (fifo s)"
  shows "FIFOReserve_loop mx mn nx r bytes s \<noteq> None"
  using assms
proof (induction "length (ring_queue (fifo s))" arbitrary: s rule: less_induct)
  case less
  show ?case
  proof (cases "n < ring_free (fifo s)")
    case True
    then show ?thesis using FIFOReserve_loop_fits [OF less.prems(1)] by auto
  next
    case False
    then have "ring_queue (fifo s) \<noteq> []" "ring_wf (fifo s)"
      using less.prems by (auto simp: ring_free_def ring_size_def reserve_pre_def)
    then obtain k where k: "length (ring_queue (fifo ((FIFOFull ^^ k) s))) < length (ring_queue (fifo s))"
      using less.prems(2) fifo_frame_fields [OF less.prems(3)] by (auto simp: host_progress_def)
    let ?t = "(FIFOFull ^^ k) s"
    have t: "reserve_pre mx mn nx bytes n ?t" "fifo_frame s0 ?t"
      using reserve_pre_wait [OF less.prems(1)] less.prems(3) by (auto intro: fifo_frame_trans)
    then have "ring_size (fifo ?t) = ring_size (fifo s)"
      using less.prems(1) by (simp add: reserve_pre_def ring_regs ring_size_def)
    then have "FIFOReserve_loop mx mn nx r bytes ?t \<noteq> None"
      using less.hyps [OF k t(1) less.prems(2) t(2)] less.prems(4) by metis
    then show ?thesis by (rule FIFOReserve_loop_wait)
  qed
qed

lemma FIFOReserve_loop_small:
  assumes ret: "FIFOReserve_loop mx mn nx r bytes s = Some res"
    and pre: "reserve_pre mx mn nx bytes n s"
  shows "n < ring_size (fifo s)"
proof -
  have "reserve_pre mx mn nx bytes n s \<longrightarrow> n < unat mx div 4 - unat mn div 4"
  proof (rule FIFOReserve_loop.raw_induct [where P = "\<lambda>mx mn nx r bytes s res.
        reserve_pre mx mn nx bytes n s \<longrightarrow> n < unat mx div 4 - unat mn div 4", OF _ ret], rule impI)
    fix F :: "u32 \<Rightarrow> u32 \<Rightarrow> u32 \<Rightarrow> bool \<Rightarrow> u64 \<Rightarrow> 'a SVGADevice \<Rightarrow> (fptr option \<times> 'a SVGADevice) option"
    fix mx mn nx r bytes s res
    assume IH: "\<And>mx mn nx r bytes s res. F mx mn nx r bytes s = Some res \<Longrightarrow>
        reserve_pre mx mn nx bytes n s \<longrightarrow> n < unat mx div 4 - unat mn div 4"
      and body: "(let stop = fifo s SVGA_FIFO_STOP
        in if nx \<ge> stop then
             if ucast nx + bytes < ucast mx \<or> (ucast nx + bytes = ucast mx \<and> stop > mn)
             then Some (reserve_in_place nx r bytes s)
             else if ucast ((mx - nx) + (stop - mn)) \<le> bytes
             then F mx mn nx r bytes (FIFOFull s)
             else Some (Some (BounceAt 0), s\<lparr>m_using_bounce_buffer := True\<rparr>)
           else if ucast nx + bytes < ucast stop then Some (reserve_in_place nx r bytes s)
             else F mx mn nx r bytes (FIFOFull s)) = Some res"
      and pre: "reserve_pre mx mn nx bytes n s"
    have "n < unat mx div 4 - unat mn div 4" if "n < ring_free (fifo s)"
      using that pre by (auto simp: reserve_pre_def ring_free_def ring_size_def ring_regs)
    then show "n < unat mx div 4 - unat mn div 4"
      using reserve_step [OF pre body] IH reserve_pre_full(1) [OF pre] by blast
  qed
  with pre show ?thesis by (simp add: reserve_pre_def ring_regs ring_size_def)
qed

section \<open>Reserve, store, commit\<close>

text \<open>A device that is ready for a command: a well-formed ring and no open reservation.\<close>

definition fifo_ready :: "'h SVGADevice \<Rightarrow> bool" where
  "fifo_ready s \<longleftrightarrow> ring_wf (fifo s) \<and> host_wf s \<and> m_reserved_size s = 0"

text \<open>The sizes that \<open>FIFOReserve\<close> refuses.\<close>

definition reserve_refuses :: "u64 \<Rightarrow> 'h SVGADevice \<Rightarrow> bool" where
  "reserve_refuses bytes s \<longleftrightarrow>
     0x10000 < unat bytes \<or> 4 * ring_size (fifo s) < unat bytes \<or> \<not> 4 dvd unat bytes"

lemma FIFOReserve_eq:
  assumes "ring_wf (fifo s)"
  shows "FIFOReserve bytes s =
     (if reserve_refuses bytes s \<or> m_reserved_size s \<noteq> 0 then Some (None, s)
      else FIFOReserve_loop (fifo s SVGA_FIFO_MAX) (fifo s SVGA_FIFO_MIN) (fifo s SVGA_FIFO_NEXT_CMD)
        (HasFIFOCap SVGA_FIFO_CAP_RESERVE s) bytes (s\<lparr>m_reserved_size := bytes\<rparr>))"
proof -
  note B = ring_wf_bytes [OF assms]
  have "rmin (fifo s) < rmax (fifo s)" using assms by (simp add: ring_wf_def)
  then have "unat (fifo s SVGA_FIFO_MAX - fifo s SVGA_FIFO_MIN) = 4 * (rmax (fifo s) - rmin (fifo s))"
    using B by (subst unat_sub_small) (auto simp: word_le_nat_alt)
  then have "bytes > ucast (fifo s SVGA_FIFO_MAX - fifo s SVGA_FIFO_MIN) \<longleftrightarrow>
      4 * ring_size (fifo s) < unat bytes"
    by (simp add: word_less_nat_alt ring_size_def)
  then show ?thesis
    by (auto simp: FIFOReserve_def Let_def reserve_refuses_def word_mod_4 word_less_nat_alt)
qed

lemma reserve_pre_start:
  assumes "fifo_ready s" "\<not> reserve_refuses bytes s" "bytes \<noteq> 0"
  shows "reserve_pre (fifo s SVGA_FIFO_MAX) (fifo s SVGA_FIFO_MIN) (fifo s SVGA_FIFO_NEXT_CMD)
      bytes (unat bytes div 4) (s\<lparr>m_reserved_size := bytes\<rparr>)"
proof -
  have "0 < unat bytes" "4 dvd unat bytes"
    using assms by (auto simp: reserve_refuses_def unat_gt_0)
  then show ?thesis
    using assms by (auto simp: reserve_pre_def fifo_ready_def reserve_refuses_def elim!: dvdE)
qed

lemma FIFOReserve_post:
  assumes "fifo_ready s" "\<not> reserve_refuses bytes s" "bytes \<noteq> 0"
    and "FIFOReserve bytes s = Some res"
  shows "reserve_post (unat bytes div 4) s res"
proof -
  let ?s = "s\<lparr>m_reserved_size := bytes\<rparr>"
  have "reserve_post (unat bytes div 4) ?s res"
    using assms FIFOReserve_loop_post [OF _ reserve_pre_start [OF assms(1-3)]]
    by (auto simp: FIFOReserve_eq fifo_ready_def)
  then show ?thesis
    unfolding reserve_post_def
    using fifo_frame_trans [OF fifo_frame_upd(2) [of s bytes]] by auto
qed

text \<open>
  The pattern of every command of the driver: reserve \<open>4 * length ws\<close> bytes, store \<open>ws\<close>,
  commit everything.  The result says whether the reservation was granted.
\<close>

definition FIFOTransmit :: "u32 list \<Rightarrow> 'h SVGADevice \<Rightarrow> (bool \<times> 'h SVGADevice) option" where
  "FIFOTransmit ws s = map_option (fill_commit ws) (FIFOReserve (of_nat (4 * length ws)) s)"

lemma unat_words_size:
  "length ws \<le> 0x4000 \<Longrightarrow> unat (of_nat (4 * length ws) :: u64) = 4 * length ws"
  by (rule unat_of_nat_small) simp

lemma FIFOCommit_ready:
  assumes "reserved_at p n s" "length ws \<le> n" "unat bytes = 4 * length ws"
  shows "fifo_ready (FIFOCommit bytes (poke p ws s))"
  using FIFOCommit_words [OF assms] assms(1) fifo_frame_fields(4)
  by (auto simp: committed_def fifo_ready_def reserved_at_def)

text \<open>What sending \<open>ws\<close> means: the host may have consumed a prefix of the old queue.\<close>

definition fifo_sent :: "u32 list \<Rightarrow> 'h SVGADevice \<Rightarrow> 'h SVGADevice \<Rightarrow> bool" where
  "fifo_sent ws s t \<longleftrightarrow>
     fifo_ready t \<and> fifo_frame s t \<and> ring_size (fifo t) = ring_size (fifo s) \<and>
     (\<exists>q. suffix q (ring_queue (fifo s)) \<and> ring_queue (fifo t) = q @ ws)"

definition cmd_fits :: "u32 list \<Rightarrow> 'h SVGADevice \<Rightarrow> bool" where
  "cmd_fits ws s \<longleftrightarrow> length ws \<le> 0x4000 \<and> length ws \<le> ring_size (fifo s)"

lemma reserve_refuses_words:
  "length ws < 2 ^ 62 \<Longrightarrow> reserve_refuses (of_nat (4 * length ws)) s \<longleftrightarrow> \<not> cmd_fits ws s"
  unfolding reserve_refuses_def cmd_fits_def
  by (subst (1 2 3) unat_of_nat_small) auto

lemma FIFOCommit_sent:
  assumes "fifo_ready s" "reserve_post (length ws) s (Some p, u)"
  shows "fifo_sent ws s (FIFOCommitAll (poke p ws u))"
proof -
  have r: "reserved_at p (length ws) u" and q: "suffix (ring_queue (fifo u)) (ring_queue (fifo s))"
    and fr: "fifo_frame s u" "ring_size (fifo u) = ring_size (fifo s)"
    using assms(2) by (auto simp: reserve_post_def)
  have sz: "unat (m_reserved_size u) = 4 * length ws" using r by (simp add: reserved_at_def)
  have "m_reserved_size (poke p ws u) = m_reserved_size u" by (cases p) simp_all
  then have e: "FIFOCommitAll (poke p ws u) = FIFOCommit (m_reserved_size u) (poke p ws u)"
    by (simp add: FIFOCommitAll_def)
  show ?thesis
    using FIFOCommit_words [OF r order.refl sz] FIFOCommit_ready [OF r order.refl sz] q fr
    by (auto simp: fifo_sent_def committed_def e intro: fifo_frame_trans)
qed

lemma FIFOTransmit_sent:
  assumes "fifo_ready s" "ws \<noteq> []" "cmd_fits ws s" "FIFOTransmit ws s = Some (b, t)"
  shows "b \<and> fifo_sent ws s t"
proof -
  let ?n = "of_nat (4 * length ws) :: u64"
  have l: "length ws \<le> 0x4000" using assms by (simp add: cmd_fits_def)
  note u = unat_words_size [OF l]
  obtain q v where r: "FIFOReserve ?n s = Some (q, v)"
    using assms(4) by (cases "FIFOReserve ?n s") (auto simp: FIFOTransmit_def)
  have "\<not> reserve_refuses ?n s" using assms(3) l by (subst reserve_refuses_words) auto
  moreover have "?n \<noteq> 0" using u assms(2) by (auto simp del: of_nat_mult)
  ultimately have "reserve_post (length ws) s (q, v)"
    using FIFOReserve_post [OF assms(1) _ _ r] u by (simp del: of_nat_mult)
  then show ?thesis
    using assms r FIFOCommit_sent by (fastforce simp: FIFOTransmit_def reserve_post_def)
qed

lemma FIFOTransmit_refused:
  assumes "fifo_ready s" "\<not> cmd_fits ws s" "length ws < 2 ^ 62"
  shows "FIFOTransmit ws s = Some (False, s)"
  using assms FIFOReserve_eq [of s] reserve_refuses_words [OF assms(3), of s]
  by (simp add: FIFOTransmit_def fifo_ready_def del: of_nat_mult)

end
