(* ===== verification/SVGA_Popcount.thy ===== *)
theory SVGA_Popcount
  imports SVGA_Device
begin

text \<open>
  The parallel bit count \<open>count_bits\<close> of \<open>src/FB/SVGADevice.cpp\<close> computes the number of
  one bits.  A word is read as a list of digits of \<open>k\<close> bits (\<open>undig k\<close>); each line of the
  C++ function replaces neighbouring digits by their sum, in digits of twice the width.
\<close>

primrec undig :: "nat \<Rightarrow> nat list \<Rightarrow> nat" where
  "undig k [] = 0"
| "undig k (d # ds) = d + 2 ^ k * undig k ds"

fun evens :: "'a list \<Rightarrow> 'a list" where
  "evens (a # b # ds) = a # evens ds"
| "evens ds = ds"

fun odds :: "'a list \<Rightarrow> 'a list" where
  "odds (a # b # ds) = b # odds ds"
| "odds ds = []"

definition psum :: "nat list \<Rightarrow> nat list" where
  "psum ds = map2 (+) (evens ds) (odds ds)"

primrec even_mask :: "nat \<Rightarrow> nat \<Rightarrow> nat" where
  "even_mask k 0 = 0"
| "even_mask k (Suc n) = (2 ^ k - 1) + 2 ^ k * (2 ^ k * even_mask k n)"

definition popcount :: "u32 \<Rightarrow> nat" where
  "popcount w = length (filter (bit w) [0..<32])"

lemma and_undig:
  fixes a b :: nat
  assumes "d < 2 ^ k" "m < 2 ^ k"
  shows "(d + 2 ^ k * a) AND (m + 2 ^ k * b) = (d AND m) + 2 ^ k * (a AND b)"
proof -
  have t: "take_bit k (d + 2 ^ k * a) = d" "drop_bit k (d + 2 ^ k * a) = a"
    "take_bit k (m + 2 ^ k * b) = m" "drop_bit k (m + 2 ^ k * b) = b"
    using assms by (simp_all add: take_bit_eq_mod drop_bit_eq_div)
  have "(d + 2 ^ k * a) AND (m + 2 ^ k * b) = 
     take_bit k ((d + 2 ^ k * a) AND (m + 2 ^ k * b)) +
     push_bit k (drop_bit k ((d + 2 ^ k * a) AND (m + 2 ^ k * b)))"
    by (simp only: take_bit_eq_mod drop_bit_eq_div push_bit_eq_mult mod_div_mult_eq)
  also have "\<dots> = (d AND m) + 2 ^ k * (a AND b)"
    unfolding take_bit_and drop_bit_and t by (simp add: push_bit_eq_mult)
  finally show ?thesis .
qed

lemma and_undig_0:
  "d < 2 ^ k \<Longrightarrow> (d + 2 ^ k * a) AND 2 ^ k * b = 2 ^ k * (a AND b :: nat)"
  using and_undig [of d k 0 a b] by simp

lemma and_even_mask:
  assumes "length ds = 2 * n" "\<forall>d \<in> set ds. d < 2 ^ k"
  shows "undig k ds AND even_mask k n = undig (2 * k) (evens ds)"
    and "undig k ds AND 2 ^ k * even_mask k n = 2 ^ k * undig (2 * k) (odds ds)"
proof -
  have "undig k ds AND even_mask k n = undig (2 * k) (evens ds) \<and>
      undig k ds AND 2 ^ k * even_mask k n = 2 ^ k * undig (2 * k) (odds ds)"
    using assms
  proof (induction n arbitrary: ds)
    case (Suc n)
    then obtain a b es where ds: "ds = a # b # es"
      by (metis Suc_length_conv mult_Suc_right add_2_eq_Suc)
    define M :: nat where "M = 2 ^ k - 1"
    have ab: "a < 2 ^ k" "b < 2 ^ k" and z: "(0::nat) < 2 ^ k" "M < 2 ^ k"
      using Suc.prems ds by (auto simp: M_def)
    have m: "a AND M = a" "b AND M = b"
      using ab take_bit_nat_eq_self
      by (simp_all only: take_bit_eq_mask M_def flip: mask_eq_exp_minus_1)
    note IH = Suc.IH [of es]
    let ?r = "undig k es" and ?e = "even_mask k n"
    have "(a + 2 ^ k * (b + 2 ^ k * ?r)) AND (M + 2 ^ k * (2 ^ k * ?e)) =
        a + 2 ^ k * (2 ^ k * (?r AND ?e))"
      unfolding and_undig [OF ab(1) z(2)] and_undig_0 [OF ab(2)] m ..
    moreover have "(a + 2 ^ k * (b + 2 ^ k * ?r)) AND 2 ^ k * (M + 2 ^ k * (2 ^ k * ?e)) =
        2 ^ k * (b + 2 ^ k * (?r AND 2 ^ k * ?e))"
      unfolding and_undig_0 [OF ab(1)] and_undig [OF ab(2) z(2)] m ..
    ultimately have 1: "undig k ds AND even_mask k (Suc n) = a + 2 ^ k * (2 ^ k * (?r AND ?e))"
      "undig k ds AND 2 ^ k * even_mask k (Suc n) = 2 ^ k * (b + 2 ^ k * (?r AND 2 ^ k * ?e))"
      unfolding ds undig.simps even_mask.simps M_def [symmetric] by blast+
    have 2: "undig (2 * k) (evens ds) = a + 2 ^ k * (2 ^ k * undig (2 * k) (evens es))"
      "undig (2 * k) (odds ds) = b + 2 ^ k * (2 ^ k * undig (2 * k) (odds es))"
      by (simp_all add: ds power_add mult_2 mult.assoc)
    show ?case unfolding 1 2 using IH Suc.prems ds by simp
  qed simp
  then show "undig k ds AND even_mask k n = undig (2 * k) (evens ds)"
    and "undig k ds AND 2 ^ k * even_mask k n = 2 ^ k * undig (2 * k) (odds ds)" by simp_all
qed

lemma undig_psum:
  "even (length ds) \<Longrightarrow> undig k (psum ds) = undig k (evens ds) + undig k (odds ds)"
  by (induction ds rule: evens.induct) (simp_all add: psum_def algebra_simps)

lemma sum_psum: "even (length ds) \<Longrightarrow> sum_list (psum ds) = sum_list ds"
  by (induction ds rule: evens.induct) (simp_all add: psum_def)

lemma length_psum: "even (length ds) \<Longrightarrow> length (psum ds) = length ds div 2"
  by (induction ds rule: evens.induct) (simp_all add: psum_def)

lemma psum_le: "\<forall>d \<in> set ds. d \<le> b \<Longrightarrow> \<forall>d \<in> set (psum ds). d \<le> 2 * b"
  by (induction ds rule: evens.induct) (auto simp: psum_def)

lemma undig_less: "\<forall>d \<in> set ds. d < 2 ^ k \<Longrightarrow> undig k ds < 2 ^ (k * length ds)"
proof (induction ds)
  case (Cons d ds)
  then have "d < 2 ^ k" "undig k ds + 1 \<le> 2 ^ (k * length ds)" by auto
  then have "d + 2 ^ k * undig k ds < 2 ^ k * (undig k ds + 1)" by simp
  also have "\<dots> \<le> 2 ^ k * 2 ^ (k * length ds)"
    using \<open>undig k ds + 1 \<le> _\<close> by (intro mult_left_mono) auto
  finally show ?case by (simp add: power_add algebra_simps)
qed simp

text \<open>One line of \<open>count_bits\<close>, on digits that are small enough not to carry.\<close>

lemma count_step:
  fixes w E Od :: u32
  assumes ds: "length ds = 2 * n" "\<forall>d \<in> set ds. d \<le> b" and b: "b < 2 ^ k" "2 * b < 2 ^ (2 * k)"
    and w: "unat w = undig k ds" and m: "unat E = even_mask k n" "unat Od = 2 ^ k * even_mask k n"
    and kn: "2 * k * n = 32"
  shows "unat (drop_bit k (w AND Od) + (w AND E)) = undig (2 * k) (psum ds)"
proof -
  have dk: "\<forall>d \<in> set ds. d < 2 ^ k" using ds(2) b(1) by auto
  have ev: "even (length ds)" using ds by simp
  have "unat (w AND E) = undig (2 * k) (evens ds)"
    unfolding unsigned_and_eq w m by (rule and_even_mask(1) [OF ds(1) dk])
  moreover have "unat (drop_bit k (w AND Od)) = undig (2 * k) (odds ds)"
    unfolding unat_drop_bit_eq unsigned_and_eq w m and_even_mask(2) [OF ds(1) dk]
    by (simp add: drop_bit_eq_div)
  moreover have "undig (2 * k) (psum ds) < 2 ^ LENGTH(32)"
  proof -
    have "\<forall>d \<in> set (psum ds). d < 2 ^ (2 * k)"
      using psum_le [OF ds(2)] b(2) le_less_trans by blast
    moreover have "2 * k * length (psum ds) = LENGTH(32)"
      using kn by (simp add: length_psum [OF ev] ds(1))
    ultimately show ?thesis using undig_less by metis
  qed
  ultimately show ?thesis
    using undig_psum [OF ev, of "2 * k"] by (subst unat_add_small) (simp_all only: add.commute)
qed

lemma popcount_digits: "popcount w = sum_list (map (\<lambda>i. of_bool (bit w i)) [0..<32])"
proof -
  have "length (filter P xs) = sum_list (map (\<lambda>i. of_bool (P i)) xs)" for P :: "nat \<Rightarrow> bool" and xs
    by (induction xs) simp_all
  then show ?thesis by (simp add: popcount_def)
qed

lemma undig_bits: "unat (w :: u32) = undig 1 (map (\<lambda>i. of_bool (bit w i)) [0..<32])"
proof -
  have "undig 1 (map (\<lambda>i. of_bool (P i)) is) = horner_sum of_bool 2 (map P is)" for P :: "nat \<Rightarrow> bool" and "is"
    by (induction "is") simp_all
  moreover have "horner_sum of_bool 2 (map (bit w) [0..<32]) = unat w"
    using horner_sum_bit_eq_take_bit [of "unat w" 32] unat_u32_less [of w]
    by (simp add: bit_unsigned_iff take_bit_nat_eq_self cong: map_cong)
  ultimately show ?thesis by simp
qed

lemma even_mask_numeral [simp]:
  "even_mask k (numeral n) = (2 ^ k - 1) + 2 ^ k * (2 ^ k * even_mask k (pred_numeral n))"
  by (simp add: numeral_eq_Suc)

lemma count_bits_popcount: "unat (count_bits w) = popcount w"
proof -
  define d0 where "d0 = map (\<lambda>i. of_bool (bit w i) :: nat) [0..<32]"
  define d1 d2 d3 d4 where "d1 = psum d0" and "d2 = psum d1" and "d3 = psum d2" and "d4 = psum d3"
  note d = d1_def d2_def d3_def d4_def
  have l0: "length d0 = 2 * 16" by (simp add: d0_def)
  then have l: "length d0 = 2 * 16" "length d1 = 2 * 8" "length d2 = 2 * 4" "length d3 = 2 * 2"
    "length d4 = 2 * 1"
    by (simp_all add: d length_psum)
  have b0: "\<forall>x \<in> set d0. x \<le> 1" by (auto simp: d0_def)
  note b1 = psum_le [OF b0, folded d] note b2 = psum_le [OF b1, folded d]
  note b3 = psum_le [OF b2, folded d] note b4 = psum_le [OF b3, folded d]
  define m1 m2 m3 m4 where
    "m1 = drop_bit 1 (w AND 0xAAAAAAAA) + (w AND 0x55555555)" and
    "m2 = drop_bit 2 (m1 AND 0xCCCCCCCC) + (m1 AND 0x33333333)" and
    "m3 = drop_bit 4 (m2 AND 0xF0F0F0F0) + (m2 AND 0x0F0F0F0F)" and
    "m4 = drop_bit 8 (m3 AND 0xFF00FF00) + (m3 AND 0x00FF00FF)"
  have 1: "unat m1 = undig 2 d1"
    using count_step [OF l(1) b0, of 1 w "0x55555555" "0xAAAAAAAA"]
      undig_bits [of w, folded d0_def]
    by (simp add: m1_def d)
  have 2: "unat m2 = undig 4 d2"
    using count_step [OF l(2) b1, of 2 m1 "0x33333333" "0xCCCCCCCC"] 1 by (simp add: m2_def d)
  have 3: "unat m3 = undig 8 d3"
    using count_step [OF l(3) b2, of 4 m2 "0x0F0F0F0F" "0xF0F0F0F0"] 2 by (simp add: m3_def d)
  have 4: "unat m4 = undig 16 d4"
    using count_step [OF l(4) b3, of 8 m3 "0x00FF00FF" "0xFF00FF00"] 3 by (simp add: m4_def d)
  have "unat (count_bits w) = undig 32 (psum d4)"
    unfolding count_bits_def Let_def m1_def [symmetric] m2_def [symmetric] m3_def [symmetric]
      m4_def [symmetric]
    using count_step [OF l(5) b4, of 16 m4 "0x0000FFFF" "0xFFFF0000"] 4 by simp
  also have "\<dots> = sum_list (psum d4)"
  proof -
    have "length (psum d4) = 1" using l(5) by (simp add: length_psum)
    then obtain x where "psum d4 = [x]" by (auto simp: length_Suc_conv)
    then show ?thesis by simp
  qed
  also have "\<dots> = sum_list d0"
    using l0 by (simp add: d sum_psum length_psum)
  finally show ?thesis unfolding popcount_digits d0_def .
qed

end
