(* ===== verification/SVGA_Commands.thy ===== *)
theory SVGA_Commands
  imports SVGA_Fifo SVGA_Popcount
begin

text \<open>
  The commands of \<open>SVGADevice\<close> as messages.  The locale \<open>command_channel\<close> is what a client
  of the FIFO relies on; it is interpreted on \<open>FIFOTransmit\<close>.  Every command of
  \<open>src/FB/SVGADevice.cpp\<close> is shown to be the transmission of one list of dwords (collection
  \<open>cmd_words\<close>), so that the laws of the channel hold for it.  The step relation
  \<open>device_step\<close> splits a command into its reservation, its stores and its commit and lets the
  host run between them.
\<close>

named_theorems cmd_words \<open>commands as transmissions of their dwords\<close>

section \<open>The channel\<close>

fun transmit_all ::
  "(u32 list \<Rightarrow> 's \<Rightarrow> (bool \<times> 's) option) \<Rightarrow> u32 list list \<Rightarrow> 's \<Rightarrow> (bool list \<times> 's) option" where
  "transmit_all tx [] s = Some ([], s)"
| "transmit_all tx (c # cs) s =
     do { (b, s) \<leftarrow> tx c s; (bs, s) \<leftarrow> transmit_all tx cs s; Some (b # bs, s) }"

locale command_channel =
  fixes msg :: "u32 list \<Rightarrow> bool"
    and ready :: "'s \<Rightarrow> bool"
    and queue :: "'s \<Rightarrow> u32 list"
    and fits :: "u32 list \<Rightarrow> 's \<Rightarrow> bool"
    and transmit :: "u32 list \<Rightarrow> 's \<Rightarrow> (bool \<times> 's) option"
  assumes transmit_sent:
      "ready s \<Longrightarrow> msg ws \<Longrightarrow> fits ws s \<Longrightarrow> transmit ws s = Some (b, t) \<Longrightarrow>
       b \<and> ready t \<and> fits us t = fits us s \<and> (\<exists>q. suffix q (queue s) \<and> queue t = q @ ws)"
    and transmit_refused:
      "ready s \<Longrightarrow> msg ws \<Longrightarrow> \<not> fits ws s \<Longrightarrow> transmit ws s = Some (b, t) \<Longrightarrow> \<not> b \<and> t = s"
begin

lemma transmit_fits:
  "ready s \<Longrightarrow> msg ws \<Longrightarrow> transmit ws s = Some (b, t) \<Longrightarrow> b = fits ws s \<and> ready t \<and> fits us t = fits us s"
  using transmit_sent transmit_refused by metis

lemma transmit_stream:
  assumes "ready s" "msg ws" "transmit ws s = Some (b, t)"
  shows "suffix (queue t) (queue s @ (if b then ws else []))"
proof (cases "fits ws s")
  case True
  then obtain q where q: "suffix q (queue s)" "queue t = q @ ws" and b: b
    using transmit_sent assms by meson
  from q(1) have "suffix (q @ ws) (queue s @ ws)" by (auto simp: suffix_def)
  then show ?thesis using q b by simp
next
  case False
  then show ?thesis using transmit_refused assms by auto
qed

lemma transmit_all_stream:
  assumes "ready s" "list_all msg cs" "transmit_all transmit cs s = Some (bs, t)"
  shows "ready t \<and> bs = map (\<lambda>c. fits c s) cs \<and>
    suffix (queue t) (queue s @ concat (filter (\<lambda>c. fits c s) cs))"
  using assms
proof (induction cs arbitrary: s bs)
  case (Cons c cs)
  obtain b u ds where c: "transmit c s = Some (b, u)"
    and ds: "transmit_all transmit cs u = Some (ds, t)" "bs = b # ds"
    using Cons.prems(3) by (auto split: bind_splits)
  have m: "msg c" using Cons.prems(2) by simp
  have u: "b = fits c s" "ready u" "\<And>us. fits us u = fits us s"
    using transmit_fits [OF Cons.prems(1) m c] by auto
  have "suffix (queue t) (queue u @ concat (filter (\<lambda>c. fits c u) cs))"
    "ready t" "ds = map (\<lambda>c. fits c u) cs"
    using Cons.IH [OF u(2) _ ds(1)] Cons.prems(2) by auto
  moreover have "suffix (queue u) (queue s @ (if b then c else []))"
    using transmit_stream [OF Cons.prems(1) m c] .
  then have "suffix (queue u @ concat (filter (\<lambda>c. fits c u) cs))
      (queue s @ concat (filter (\<lambda>c. fits c s) (c # cs)))"
    using u by (auto simp: suffix_def)
  ultimately show ?case
    using u ds suffix_order.trans by fastforce
qed simp

end

text \<open>Messages: neither empty nor longer than the address space.\<close>

definition cmd_msg :: "u32 list \<Rightarrow> bool" where
  "cmd_msg ws \<longleftrightarrow> ws \<noteq> [] \<and> length ws < 2 ^ 62"

abbreviation dev_queue :: "'h SVGADevice \<Rightarrow> u32 list" where
  "dev_queue s \<equiv> ring_queue (fifo s)"

interpretation fifo_chan: command_channel cmd_msg fifo_ready dev_queue cmd_fits FIFOTransmit
proof unfold_locales
  fix s t :: "'a SVGADevice" and ws us b
  assume r: "fifo_ready s" "cmd_msg ws" "FIFOTransmit ws s = Some (b, t)"
  show "b \<and> fifo_ready t \<and> cmd_fits us t = cmd_fits us s \<and>
      (\<exists>q. suffix q (dev_queue s) \<and> dev_queue t = q @ ws)" if "cmd_fits ws s"
    using FIFOTransmit_sent [OF r(1) _ that r(3)] r(2)
    by (auto simp: fifo_sent_def cmd_msg_def cmd_fits_def)
  show "\<not> b \<and> t = s" if "\<not> cmd_fits ws s"
    using FIFOTransmit_refused [OF r(1) that] r by (simp add: cmd_msg_def)
qed

section \<open>Commands are transmissions\<close>

lemma poke_append:
  "poke (fptr_add p (length us)) vs (poke p us s) = poke p (us @ vs) s"
  by (cases p) (auto simp: write_words_def nth_append fun_eq_iff intro!: SVGADevice.fold_congs)

fun with_prefix :: "u32 list \<Rightarrow> fptr option \<times> 'h SVGADevice \<Rightarrow> fptr option \<times> 'h SVGADevice" where
  "with_prefix us (None, s) = (None, s)"
| "with_prefix us (Some p, s) = (Some (fptr_add p (length us)), poke p us s)"

lemma fptr_add_add: "fptr_add (fptr_add p m) n = fptr_add p (m + n)"
  by (cases p) simp_all

lemma fill_with_prefix: "fill_commit ws (with_prefix us r) = fill_commit (us @ ws) r"
  by (cases r; cases "fst r") (simp_all add: poke_append)

lemma with_prefix_append: "with_prefix vs (with_prefix us r) = with_prefix (us @ vs) r"
  by (cases r; cases "fst r") (simp_all add: poke_append fptr_add_add)

lemma FIFOReserveCmd_prefix:
  "FIFOReserveCmd c n s = map_option (with_prefix [c]) (FIFOReserve (n + 4) s)"
  by (cases "FIFOReserve (n + 4) s") (auto simp: FIFOReserveCmd_def split: option.split)

lemma FIFOReserveEscape_prefix:
  "FIFOReserveEscape nsid n s =
   map_option (with_prefix [SVGA_CMD_ESCAPE, nsid, ucast n]) (FIFOReserve (((n + 3) AND NOT 3) + 12) s)"
  by (cases "FIFOReserve (((n + 3) AND NOT 3) + 12) s")
    (auto simp: FIFOReserveEscape_def Let_def numeral_3_eq_3 split: option.split)

lemma Cmd_transmit:
  "n + 4 = of_nat (4 * length (c # ws)) \<Longrightarrow>
   map_option (fill_commit ws) (FIFOReserveCmd c n s) = FIFOTransmit (c # ws) s"
  by (simp add: FIFOReserveCmd_prefix FIFOTransmit_def option.map_comp comp_def fill_with_prefix
      add.commute)

lemma align_4: "n AND 3 = 0 \<Longrightarrow> ((n :: u64) + 3) AND NOT 3 = n"
proof -
  assume a: "n AND 3 = 0"
  then have "(n + 3) AND NOT 3 = (n OR 3) AND NOT 3" by (simp add: disjunctive_add_eq_or)
  also have "\<dots> = n AND NOT 3" by (simp add: bit.conj_disj_distrib2)
  also have "\<dots> = (n AND NOT 3) OR (n AND 3)" using a by simp
  also have "\<dots> = n" by (simp flip: bit.conj_disj_distrib)
  finally show ?thesis .
qed

lemma Escape_transmit:
  assumes "n = of_nat (4 * length ws)"
  shows "map_option (fill_commit ws) (FIFOReserveEscape nsid n s) =
    FIFOTransmit (SVGA_CMD_ESCAPE # nsid # ucast n # ws) s"
proof -
  have "n = push_bit 2 (of_nat (length ws))"
    using assms by (simp add: push_bit_eq_mult mult.commute)
  then have "n AND mask 2 = 0" by (simp add: take_bit_push_bit flip: take_bit_eq_mask)
  then have "(n + 3) AND NOT 3 = n" by (intro align_4) (simp add: mask_eq_exp_minus_1)
  then show ?thesis
    using assms by (simp add: FIFOReserveEscape_prefix FIFOTransmit_def option.map_comp comp_def
      fill_with_prefix add.commute)
qed

lemma Video_transmit:
  assumes "k = of_nat j" "length ws = 2 * j"
  shows "map_option (fill_commit ws) (BeginVideoSetRegs st k s) =
    FIFOTransmit ([SVGA_CMD_ESCAPE, SVGA_ESCAPE_NSID_CECL, ucast (8 + k * 8),
      SVGA_ESCAPE_CECL_VIDEO_SET_REGS, st] @ ws) s"
proof -
  let ?n = "16 - 8 + k * 8" and ?h = "[SVGA_ESCAPE_CECL_VIDEO_SET_REGS, st]"
  have "BeginVideoSetRegs st k s =
      map_option (with_prefix ?h) (FIFOReserveEscape SVGA_ESCAPE_NSID_CECL ?n s)"
    by (cases "FIFOReserveEscape SVGA_ESCAPE_NSID_CECL ?n s")
      (auto simp: BeginVideoSetRegs_def Let_def numeral_2_eq_2 split: option.split)
  moreover have "?n = of_nat (4 * length (?h @ ws))" using assms by simp
  ultimately show ?thesis
    using Escape_transmit [of ?n "?h @ ws" SVGA_ESCAPE_NSID_CECL s]
    by (simp add: option.map_comp comp_def fill_with_prefix)
qed

text \<open>The items of the two register-list commands.\<close>

lemma range_items_eq:
  "range_items regs a n i =
   concat (map (\<lambda>j. let r = i + of_nat j + a in [r, regs r]) [0..<n])"
proof (induction n arbitrary: i)
  case (Suc n)
  show ?case
    unfolding upt_Suc_0 by (simp add: Suc Let_def comp_def add.assoc)
qed simp

lemma bit_rest: "bit (drop_bit (Suc 0) m) = (\<lambda>j. bit (m :: u32) (Suc j))"
  by (simp add: bit_drop_bit_eq fun_eq_iff)

lemma mask_items_eq:
  "unat m < 2 ^ n \<Longrightarrow> mask_items regs i m =
   concat (map (\<lambda>j. let r = i + of_nat j in [r, regs r]) (filter (bit m) [0..<n]))"
proof (induction n arbitrary: i m)
  case 0
  then show ?case by (simp add: mask_items.simps unat_eq_zero)
next
  case (Suc n)
  have "unat (drop_bit 1 m) < 2 ^ n" using Suc.prems by (simp add: unat_div_distrib drop_bit_eq_div)
  note IH = Suc.IH [OF this, of "i + 1"]
  have "m AND 1 \<noteq> 0 \<longleftrightarrow> bit m 0" by (simp add: and_one_eq bit_0 odd_iff_mod_2_eq_one)
  then show ?case
    using IH unfolding upt_Suc_0 by (subst mask_items.simps)
      (auto simp: Let_def comp_def filter_map bit_rest add.assoc)
qed

lemma length_mask_items: "length (mask_items regs i m) = 2 * popcount m"
proof -
  have "length (concat (map (\<lambda>j. let r = f j in [r, g r]) xs)) = 2 * length xs" for f g and xs :: "nat list"
    by (induction xs) (simp_all add: Let_def)
  then show ?thesis
    using mask_items_eq [of m 32] unat_u32_less [of m] by (simp add: popcount_def)
qed

section \<open>Each command and its words\<close>

lemma UpdateFramebuffer_words [cmd_words]:
  "UpdateFramebuffer x y w h s = FIFOTransmit [SVGA_CMD_UPDATE, x, y, w, h] s"
  unfolding UpdateFramebuffer_def by (rule Cmd_transmit) simp

lemma UpdateFullscreen_words [cmd_words]:
  "UpdateFullscreen s = FIFOTransmit [SVGA_CMD_UPDATE, 0, 0, m_width s, m_height s] s"
  unfolding UpdateFullscreen_def by (rule UpdateFramebuffer_words)

lemma UpdateFramebuffer2_words [cmd_words]:
  "UpdateFramebuffer2 rect s = FIFOTransmit (SVGA_CMD_UPDATE # map rect [0..<4]) s"
  unfolding UpdateFramebuffer2_def by (rule Cmd_transmit) simp

lemma RectCopy_words [cmd_words]:
  "RectCopy rect s = FIFOTransmit (SVGA_CMD_RECT_COPY # map rect [0..<6]) s"
  unfolding RectCopy_def by (rule Cmd_transmit) simp

lemma RectFill_words [cmd_words]:
  "RectFill color rect s =
   FIFOTransmit (SVGA_CMD_FRONT_ROP_FILL # color # map rect [0..<4] @ [SVGA_ROP_COPY]) s"
  unfolding RectFill_def using Cmd_transmit [of 24 _ "color # map rect [0..<4] @ [SVGA_ROP_COPY]"]
  by simp

lemma defineGMR2_words [cmd_words]:
  "defineGMR2 g n s = FIFOTransmit [SVGA_CMD_DEFINE_GMR2, g, n] s"
  unfolding defineGMR2_def by (rule Cmd_transmit) simp

lemma remapGMR2_words [cmd_words]:
  "remapGMR2 g fl off n (Some ws) (of_nat (4 * k)) s =
   FIFOTransmit ([SVGA_CMD_REMAP_GMR2, g, fl, off, n] @ map ws [0..<k]) s" if "k < 2 ^ 62"
proof -
  have "unat (of_nat (4 * k) :: u64) = 4 * k" using that by (intro unat_of_nat_small) simp
  then show ?thesis
    using Cmd_transmit [of "16 + of_nat (4 * k)" SVGA_CMD_REMAP_GMR2 "[g, fl, off, n] @ map ws [0..<k]" s]
    by (simp add: remapGMR2_def)
qed

lemma remapGMR2_null [cmd_words]:
  "remapGMR2 g fl off n None sz s =
   (if sz = 0 then FIFOTransmit [SVGA_CMD_REMAP_GMR2, g, fl, off, n] s else Some (False, s))"
  unfolding remapGMR2_def using Cmd_transmit [of 16 SVGA_CMD_REMAP_GMR2 "[g, fl, off, n]" s] by simp

lemma VideoFlush_words [cmd_words]:
  "VideoFlush st s = FIFOTransmit [SVGA_CMD_ESCAPE, SVGA_ESCAPE_NSID_CECL, 8,
     SVGA_ESCAPE_CECL_VIDEO_FLUSH, st] s"
  unfolding VideoFlush_def
  using Escape_transmit [of 8 "[SVGA_ESCAPE_CECL_VIDEO_FLUSH, st]" SVGA_ESCAPE_NSID_CECL s] by simp

lemma VideoSetReg_words [cmd_words]:
  "VideoSetReg st r v s = FIFOTransmit [SVGA_CMD_ESCAPE, SVGA_ESCAPE_NSID_CECL, 16,
     SVGA_ESCAPE_CECL_VIDEO_SET_REGS, st, r, v] s"
  unfolding VideoSetReg_def using Video_transmit [of 1 1 "[r, v]" st s] by simp

lemma VideoSetRegsInRange_words [cmd_words]:
  assumes "a \<le> b"
  shows "VideoSetRegsInRange st regs a b s =
    FIFOTransmit ([SVGA_CMD_ESCAPE, SVGA_ESCAPE_NSID_CECL, 8 + (b - a + 1) * 8,
      SVGA_ESCAPE_CECL_VIDEO_SET_REGS, st] @
      concat (map (\<lambda>j. let r = of_nat j + a in [r, regs r]) [0..<unat (b - a + 1)])) s"
proof -
  let ?n = "b - a + 1"
  have "length (range_items regs a m 0) = 2 * m" for m
    by (induction m) (simp_all add: range_items_eq Let_def)
  moreover have "ucast (8 + ucast ?n * 8 :: u64) = 8 + ?n * 8"
    using ucast_down_nat [of "8 + unat ?n * 8"] by (simp add: mult.commute)
  ultimately show ?thesis
    using Video_transmit [of "ucast ?n" "unat ?n" "range_items regs a (unat ?n) 0" st s]
      leD [OF assms]
    by (simp add: VideoSetRegsInRange_def Let_def range_items_eq)
qed

lemma VideoSetRegsWithMask_words [cmd_words]:
  assumes "m \<noteq> 0"
  shows "VideoSetRegsWithMask st regs m s =
    FIFOTransmit ([SVGA_CMD_ESCAPE, SVGA_ESCAPE_NSID_CECL, of_nat (8 + 8 * popcount m),
      SVGA_ESCAPE_CECL_VIDEO_SET_REGS, st] @
      concat (map (\<lambda>j. [of_nat j, regs (of_nat j)]) (filter (bit m) [0..<32]))) s"
proof -
  have k: "ucast (count_bits m) = (of_nat (popcount m) :: u64)"
    using count_bits_popcount [of m] by (metis of_nat_unat)
  have "mask_items regs 0 m =
      concat (map (\<lambda>j. [of_nat j, regs (of_nat j)]) (filter (bit m) [0..<32]))"
    using mask_items_eq [of m 32 regs 0] unat_u32_less [of m] by (simp add: Let_def)
  moreover have "ucast (8 + of_nat (popcount m) * 8 :: u64) = (of_nat (8 + 8 * popcount m) :: u32)"
    using ucast_down_nat [of "8 + 8 * popcount m"] by (simp add: mult.commute)
  ultimately show ?thesis
    using assms Video_transmit [OF k, of "mask_items regs 0 m" st s] length_mask_items [of regs 0 m]
    unfolding VideoSetRegsWithMask_def by (simp add: k)
qed

section \<open>A command in progress and a host that runs beside it\<close>

text \<open>
  The driver's thread is idle, holds a reservation of \<open>n\<close> dwords, or has stored the words of
  its command.  The third component of a configuration is the log of all words committed so far.
\<close>

datatype phase = Idle | Reserved fptr nat | Stored fptr "u32 list"

type_synonym 'h config = "phase \<times> 'h SVGADevice \<times> u32 list"

inductive device_step :: "'h config \<Rightarrow> 'h config \<Rightarrow> bool" where
  reserve: "device_step (Idle, s, log) (Reserved p (unat bytes div 4), t, log)"
    if "FIFOReserve bytes s = Some (Some p, t)" "bytes \<noteq> 0"
| refuse: "device_step (Idle, s, log) (Idle, t, log)"
    if "FIFOReserve bytes s = Some (None, t)" "bytes \<noteq> 0"
| store: "device_step (Reserved p n, s, log) (Stored p ws, poke p ws s, log)"
    if "length ws = n"
| commit: "device_step (Stored p ws, s, log) (Idle, FIFOCommitAll s, log @ ws)"
| cancel: "device_step (Reserved p n, s, log) (Idle, FIFOCommit 0 s, log)"
| host_runs: "device_step (ph, s, log) (ph, s\<lparr>host := h, fifo := f\<rparr>, log)"
    if "host_step (fifo s) f"

inductive_cases device_stepE: "device_step c d"

text \<open>
  The invariant: no reservation is open while idle; a granted reservation stays granted whatever
  the host does; stored words stay where they were stored; and what the host has not consumed
  yet is a suffix of the initial queue followed by the log.
\<close>

fun config_inv :: "u32 list \<Rightarrow> 'h config \<Rightarrow> bool" where
  "config_inv q0 (ph, s, log) \<longleftrightarrow>
     suffix (ring_queue (fifo s)) (q0 @ log) \<and>
     (case ph of
        Idle \<Rightarrow> fifo_ready s
      | Reserved p n \<Rightarrow> reserved_at p n s
      | Stored p ws \<Rightarrow> reserved_at p (length ws) s \<and> poke p ws s = s)"

lemma reserved_at_host:
  assumes "reserved_at p n s" "host_step (fifo s) f"
  shows "reserved_at p n (s\<lparr>host := h, fifo := f\<rparr>)"
  using assms host_step_regs [OF assms(2)] host_step_free [OF assms(2)] host_step_wf [OF assms(2)]
  by (cases p) (auto simp: reserved_at_def)

lemma write_words_nil [simp]: "write_words k [] f = f"
  by (auto simp: write_words_def fun_eq_iff)

lemma write_words_idem [simp]: "write_words k ws (write_words k ws f) = write_words k ws f"
  by (auto simp: write_words_def fun_eq_iff)

lemma poke_fixed:
  "poke (FifoAt k) ws s = s \<longleftrightarrow> write_words k ws (fifo s) = fifo s"
  "poke (BounceAt k) ws s = s \<longleftrightarrow> write_words k ws (bounce s) = bounce s"
  by (auto dest: arg_cong [of _ _ fifo] arg_cong [of _ _ bounce])

lemma poke_nil: "poke p [] s = s"
  by (cases p) simp_all

lemma poke_host:
  assumes "reserved_at p n s" "host_step (fifo s) f" "poke p ws s = s"
  shows "poke p ws (s\<lparr>host := h, fifo := f\<rparr>) = s\<lparr>host := h, fifo := f\<rparr>"
proof (cases p)
  case (FifoAt k)
  have k: "rmin (fifo s) \<le> k" using assms(1) FifoAt by (auto simp: reserved_at_def ring_wf_def)
  have "ws ! (i - k) = fifo s i" if "k \<le> i" "i < k + length ws" for i
    using assms(3) that FifoAt unfolding FifoAt poke_fixed by (metis write_words_def)
  then have "write_words k ws f = f"
    using assms(2) k by (auto simp: write_words_def host_step_def fun_eq_iff)
  then show ?thesis using FifoAt by simp
next
  case (BounceAt k)
  then show ?thesis using assms(3) unfolding BounceAt poke_fixed by simp
qed

lemma FIFOReserve_cases:
  assumes "fifo_ready s" "bytes \<noteq> 0" "FIFOReserve bytes s = Some (q, t)"
  shows "if reserve_refuses bytes s then q = None \<and> t = s
    else reserve_post (unat bytes div 4) s (q, t)"
  using assms FIFOReserve_post [of s bytes "(q, t)"] FIFOReserve_eq [of s bytes]
  by (auto simp: fifo_ready_def)

lemma commit_stored:
  assumes "reserved_at p (length ws) s" "poke p ws s = s"
  shows "committed ws s (FIFOCommitAll s) \<and> fifo_ready (FIFOCommitAll s)"
  using FIFOCommit_words [OF assms(1) order.refl] FIFOCommit_ready [OF assms(1) order.refl] assms
  by (simp add: FIFOCommitAll_def reserved_at_def)

lemma cancel_reserved:
  assumes "reserved_at p n s"
  shows "committed [] s (FIFOCommit 0 s) \<and> fifo_ready (FIFOCommit 0 s)"
  using FIFOCommit_words [OF assms, of "[]" 0] FIFOCommit_ready [OF assms, of "[]" 0]
  by (simp add: poke_nil)

lemma ring_queue_poke:
  assumes "reserved_at p n s" "length ws \<le> n"
  shows "reserved_at p n (poke p ws s) \<and> ring_queue (fifo (poke p ws s)) = ring_queue (fifo s)
    \<and> ring_size (fifo (poke p ws s)) = ring_size (fifo s) \<and> poke p ws (poke p ws s) = poke p ws s"
proof (cases p)
  case (FifoAt k)
  let ?g = "write_words k ws (fifo s)"
  have wf: "ring_wf (fifo s)" and k: "k = rnext (fifo s)" "SVGA_FIFO_NUM_REGS \<le> k"
    and n: "length ws < ring_free (fifo s)" "rnext (fifo s) + length ws \<le> rmax (fifo s)"
    using assms FifoAt by (auto simp: reserved_at_def ring_wf_def)
  have r: "?g i = fifo s i" if "i < SVGA_FIFO_NUM_REGS" for i using that k by simp
  then have regs: "rmin ?g = rmin (fifo s)" "rmax ?g = rmax (fifo s)" "rnext ?g = rnext (fifo s)"
    "rstop ?g = rstop (fifo s)"
    by (simp_all add: ring_regs)
  have "?g i = fifo s i" if "i \<in> set (ring_seg (rmin (fifo s)) (rmax (fifo s)) (rstop (fifo s)) (rnext (fifo s)))" for i
    using ring_index [OF wf that] n k by (cases "rnext (fifo s) \<le> i") (auto simp: write_words_above)
  then have q: "ring_queue ?g = ring_queue (fifo s)" by (simp add: ring_queue_def regs)
  have "ring_wf ?g" using wf r regs by (simp add: ring_wf_def)
  then show ?thesis
    using assms FifoAt q regs by (auto simp: reserved_at_def ring_free_def ring_size_def)
qed (use assms in \<open>auto simp: reserved_at_def\<close>)

lemma cancel_filled:
  assumes "reserve_post n s (Some p, u)" "length ws \<le> n"
  shows "fifo_sent [] s (FIFOCommit 0 (poke p ws u))"
proof -
  have r: "reserved_at p n u" and q: "suffix (ring_queue (fifo u)) (ring_queue (fifo s))"
    and fr: "fifo_frame s u" "ring_size (fifo u) = ring_size (fifo s)"
    using assms(1) by (auto simp: reserve_post_def)
  note pk = ring_queue_poke [OF r assms(2)]
  have "fifo_frame u (poke p ws u)" by (cases p) simp_all
  with cancel_reserved [of p n "poke p ws u"] pk q fr show ?thesis
    by (auto simp: fifo_sent_def committed_def intro: fifo_frame_trans)
qed

lemma config_inv_step:
  assumes "device_step c d" "config_inv q0 c"
  shows "config_inv q0 d"
  using assms
proof (induction rule: device_step.induct)
  case (reserve bytes s p t log)
  then have "reserve_post (unat bytes div 4) s (Some p, t)"
    using FIFOReserve_cases [of s bytes "Some p" t] by (auto split: if_splits)
  then show ?case using reserve by (auto simp: reserve_post_def intro: suffix_order.trans)
next
  case (refuse bytes s t log)
  then show ?case
    using FIFOReserve_cases [of s bytes None t] by (auto simp: reserve_post_def split: if_splits)
next
  case (store ws n p s log)
  then show ?case using ring_queue_poke [of p n s ws] by simp
next
  case (commit p ws s log)
  then show ?case
    using commit_stored [of p ws s] by (auto simp: committed_def suffix_def)
next
  case (cancel p n s log)
  then show ?case using cancel_reserved [of p n s] by (auto simp: committed_def)
next
  case (host_runs s f ph log h)
  have q: "suffix (ring_queue f) (ring_queue (fifo s))" and wf: "ring_wf f"
    using host_runs by (auto simp: host_step_def)
  then show ?case
    using host_runs reserved_at_host [of _ _ s f h] poke_host [of _ _ s f _ h]
    by (cases ph) (auto simp: fifo_ready_def intro: suffix_order.trans)
qed

end
