(* ===== verification/SVGA_Startup.thy ===== *)
theory SVGA_Startup
  imports SVGA_Commands
begin

text \<open>
  \<open>Init\<close>, \<open>Start\<close> and \<open>FIFOInit\<close> of \<open>src/FB/SVGADevice.cpp\<close> establish the invariant that
  the commands rely on, and a failing start releases everything.  The theory also holds the
  fences, the waits for the host, the hardware cursor, a small concrete device, and the
  properties of the device as a whole.
\<close>

section \<open>Definitions\<close>

text \<open>The sizes of FIFO memory that leave room for a ring behind the FIFO registers.\<close>

definition fifo_size_ok :: "u32 \<Rightarrow> bool" where
  "fifo_size_ok n \<longleftrightarrow> 4 dvd unat n \<and> 4 * SVGA_FIFO_NUM_REGS < unat n \<and> unat n + 0x10000 \<le> 2 ^ 32"

text \<open>
  The released state: what \<open>Cleanup\<close> leaves behind on every failing path of \<open>Start\<close>.
\<close>

definition released :: "'h SVGADevice \<Rightarrow> bool" where
  "released s \<longleftrightarrow> \<not> m_provider s \<and> \<not> m_bar0_map s \<and> \<not> m_bar2_map s \<and> \<not> m_fifo_ptr s \<and>
     \<not> m_bounce_buffer s \<and> m_capabilities s = 0"

text \<open>
  A concrete device with a ring of sixteen dwords, between byte offsets 1164 and 1228.  Its host
  consumes all commands on every port write and never reports to be busy.
\<close>

definition demo_outl :: "u16 \<Rightarrow> u32 \<Rightarrow> unit \<times> fifo_mem \<Rightarrow> unit \<times> fifo_mem" where
  "demo_outl p v = (\<lambda>(h, f). (h, f(SVGA_FIFO_STOP := f SVGA_FIFO_NEXT_CMD)))"

definition demo_inl :: "u16 \<Rightarrow> unit \<times> fifo_mem \<Rightarrow> u32 \<times> unit \<times> fifo_mem" where
  "demo_inl p m = (0, m)"

definition demo_fifo :: "u32 \<Rightarrow> u32 \<Rightarrow> fifo_mem" where
  "demo_fifo nx st = (\<lambda>i. 0)(SVGA_FIFO_MIN := 1164, SVGA_FIFO_MAX := 1228,
     SVGA_FIFO_NEXT_CMD := nx, SVGA_FIFO_STOP := st, SVGA_FIFO_CAPABILITIES := 0x51)"

definition demo_device :: "u32 \<Rightarrow> u32 \<Rightarrow> unit SVGADevice" where
  "demo_device nx st =
     \<lparr>m_provider = True, m_bar0_map = False, m_bar2_map = True, m_fifo_ptr = True,
      m_cursor_ptr = None, m_fifo_size = 1228, m_bounce_buffer = True,
      m_using_bounce_buffer = False, m_reserved_size = 0, m_next_fence = 1,
      m_capabilities = SVGA_CAP_EXTENDED_FIFO, m_width = 640, m_height = 480, m_pitch = 2560,
      m_max_width = 640, m_max_height = 480, m_max_gmr_ids = 0,
      m_max_gmr_descriptor_length = 0, m_max_gmr_pages = 0, m_total_memory = 0, m_fb_offset = 0,
      m_vram_size = 0x400000, m_fb_size = 0x12C000, m_io_base = 0x1070, fifo = demo_fifo nx st,
      bounce = (\<lambda>i. 0), host = (), outl_port = demo_outl, inl_port = demo_inl\<rparr>"

text \<open>
  A host that can be started: it remembers the selected register and answers reads of the
  registers that \<open>Start\<close> depends on.
\<close>

definition boot_outl :: "u16 \<Rightarrow> u32 \<Rightarrow> u32 \<times> fifo_mem \<Rightarrow> u32 \<times> fifo_mem" where
  "boot_outl p v = (\<lambda>(h, f). (if p = 0x1070 + SVGA_INDEX_PORT then v else h, f))"

definition boot_inl :: "u16 \<Rightarrow> u32 \<times> fifo_mem \<Rightarrow> u32 \<times> u32 \<times> fifo_mem" where
  "boot_inl p = (\<lambda>(h, f).
     (if h = SVGA_REG_ID then SVGA_ID_2
      else if h = SVGA_REG_CAPABILITIES then SVGA_CAP_EXTENDED_FIFO OR SVGA_CAP_TRACES
      else if h = SVGA_REG_MEM_SIZE then 0x1000
      else 0, h, f))"

definition boot_device :: "u32 SVGADevice" where
  "boot_device =
     \<lparr>m_provider = False, m_bar0_map = False, m_bar2_map = False, m_fifo_ptr = False,
      m_cursor_ptr = None, m_fifo_size = 0, m_bounce_buffer = False,
      m_using_bounce_buffer = True, m_reserved_size = 12, m_next_fence = 1,
      m_capabilities = 0, m_width = 0, m_height = 0, m_pitch = 0,
      m_max_width = 0, m_max_height = 0, m_max_gmr_ids = 0,
      m_max_gmr_descriptor_length = 0, m_max_gmr_pages = 0, m_total_memory = 0, m_fb_offset = 0,
      m_vram_size = 0, m_fb_size = 0, m_io_base = 0, fifo = (\<lambda>i. 0xFF),
      bounce = (\<lambda>i. 0), host = 0, outl_port = boot_outl, inl_port = boot_inl\<rparr>"

definition boot_env :: pci_env where
  "boot_env = \<lparr>bar0_address = Some 0x1070, bar2_present = True, bar2_mapped = True, bar2_va = True,
     bounce_malloc = True\<rparr>"

section \<open>Start-up\<close>

lemma ReadReg_ports [simp]:
  "outl_port (snd (ReadReg i s)) = outl_port s" "inl_port (snd (ReadReg i s)) = inl_port s"
  "m_fifo_size (snd (ReadReg i s)) = m_fifo_size s" "m_capabilities (snd (ReadReg i s)) = m_capabilities s"
  "m_reserved_size (snd (ReadReg i s)) = m_reserved_size s"
  by (simp_all add: ReadReg_def Let_def split: prod.split)

lemma WriteReg_ports [simp]:
  "outl_port (WriteReg i v s) = outl_port s" "inl_port (WriteReg i v s) = inl_port s"
  "m_fifo_size (WriteReg i v s) = m_fifo_size s" "m_capabilities (WriteReg i v s) = m_capabilities s"
  "m_reserved_size (WriteReg i v s) = m_reserved_size s"
  by (simp_all add: WriteReg_def Let_def split: prod.split)

lemma FIFOInit_ready:
  assumes "FIFOInit s = (True, t)" "host_wf s" "fifo_size_ok (m_fifo_size s)"
  shows "fifo_ready t \<and> dev_queue t = [] \<and>
    4 * ring_size (fifo t) = unat (m_fifo_size s) - 4 * SVGA_FIFO_NUM_REGS \<and>
    outl_port t = outl_port s \<and> inl_port t = inl_port s"
proof -
  define f0 where "f0 = (fifo s)(SVGA_FIFO_MIN := of_nat (SVGA_FIFO_NUM_REGS * 4),
    SVGA_FIFO_MAX := m_fifo_size s, SVGA_FIFO_NEXT_CMD := of_nat (SVGA_FIFO_NUM_REGS * 4),
    SVGA_FIFO_STOP := of_nat (SVGA_FIFO_NUM_REGS * 4))"
  let ?s = "s\<lparr>fifo := f0\<rparr>"
  obtain k where k: "unat (m_fifo_size s) = 4 * k" "SVGA_FIFO_NUM_REGS < k" "4 * k + 0x10000 \<le> 2 ^ 32"
    using assms(3) by (auto simp: fifo_size_ok_def elim!: dvdE)
  have f0: "unat (f0 SVGA_FIFO_MIN) = 4 * SVGA_FIFO_NUM_REGS" "unat (f0 SVGA_FIFO_MAX) = 4 * k"
    "unat (f0 SVGA_FIFO_NEXT_CMD) = 4 * SVGA_FIFO_NUM_REGS"
    "unat (f0 SVGA_FIFO_STOP) = 4 * SVGA_FIFO_NUM_REGS"
    by (simp_all add: f0_def k)
  then have r: "rmin f0 = SVGA_FIFO_NUM_REGS" "rmax f0 = k"
    "rnext f0 = SVGA_FIFO_NUM_REGS" "rstop f0 = SVGA_FIFO_NUM_REGS"
    unfolding ring_regs by simp_all
  have wf: "ring_wf f0" unfolding ring_wf_def r f0 using k by simp
  have q0: "ring_queue f0 = []" "4 * ring_size f0 = unat (m_fifo_size s) - 4 * SVGA_FIFO_NUM_REGS"
    unfolding ring_queue_def ring_seg_def ring_size_def r k by simp_all
  have "ring_wf (fifo ?s)" "host_wf ?s" using wf assms(2) by simp_all
  then obtain h f where w: "WriteReg SVGA_REG_CONFIG_DONE 1 ?s = ?s\<lparr>host := h, fifo := f\<rparr>"
    and st: "host_step (fifo ?s) f"
    by (rule WriteReg_shape)
  have w': "WriteReg SVGA_REG_CONFIG_DONE 1 (s\<lparr>fifo := (fifo s)(SVGA_FIFO_MIN := 1164,
      SVGA_FIFO_MAX := m_fifo_size s, SVGA_FIFO_NEXT_CMD := 1164, SVGA_FIFO_STOP := 1164)\<rparr>) =
      s\<lparr>host := h, fifo := f\<rparr>"
    using w by (simp add: f0_def)
  have "t = ?s\<lparr>host := h, fifo := f, m_reserved_size := 0, m_using_bounce_buffer := False\<rparr>"
    using assms(1) w' by (simp add: FIFOInit_def Let_def set_fifo_def split: if_splits)
  moreover have "ring_queue f = []" "ring_wf f" "ring_size f = ring_size f0"
    using st q0 host_step_regs [OF st] by (auto simp: host_step_def ring_size_def)
  ultimately show ?thesis using assms(2) q0 by (simp add: fifo_ready_def host_wf_def)
qed

lemma read_modes_ports [simp]:
  "outl_port (read_modes s) = outl_port s" "inl_port (read_modes s) = inl_port s"
  "m_fifo_size (read_modes s) = m_fifo_size s" "m_capabilities (read_modes s) = m_capabilities s"
  by (simp_all add: read_modes_def Let_def case_prod_beta)

lemma read_gmr_limits_ports [simp]:
  "outl_port (read_gmr_limits s) = outl_port s" "inl_port (read_gmr_limits s) = inl_port s"
  "m_fifo_size (read_gmr_limits s) = m_fifo_size s" "m_capabilities (read_gmr_limits s) = m_capabilities s"
  by (simp_all add: read_gmr_limits_def Let_def case_prod_beta HasCapability_def)

lemma FIFOInit_fields:
  "FIFOInit s = (b, t) \<Longrightarrow> m_fifo_size t = m_fifo_size s \<and> m_capabilities t = m_capabilities s"
  by (auto simp: FIFOInit_def Let_def set_fifo_def split: if_splits)

lemma released_Cleanup [simp]: "released (SVGADevice_Cleanup s)"
  by (simp add: released_def SVGADevice_Cleanup_def)

lemma Start_failed: "SVGADevice_Start env s = (False, t) \<Longrightarrow> released t"
  by (auto simp: SVGADevice_Start_def Start_fifo_def Let_def case_prod_beta
      split: option.splits if_splits prod.splits)

lemma host_wf_ports: "outl_port t = outl_port s \<Longrightarrow> inl_port t = inl_port s \<Longrightarrow> host_wf t = host_wf s"
  by (simp add: host_wf_def)

lemma Start_shape:
  assumes "SVGADevice_Start env s = (True, t)"
  shows "\<exists>u. Start_fifo env u = (True, t) \<and> outl_port u = outl_port s \<and> inl_port u = inl_port s"
  using assms
  by (auto simp: SVGADevice_Start_def Let_def case_prod_beta split: option.splits if_splits
      intro!: exI conjI)

lemma Start_fifo_ready:
  assumes "Start_fifo env u = (True, t)" "host_wf u" "fifo_size_ok (m_fifo_size t)"
  shows "fifo_ready t \<and> dev_queue t = [] \<and> m_bounce_buffer t \<and> m_cursor_ptr t = None \<and>
    4 * ring_size (fifo t) = unat (m_fifo_size t) - 4 * SVGA_FIFO_NUM_REGS"
proof -
  obtain v where v: "FIFOInit u = (True, v)"
    and t: "t = (if HasCapability SVGA_CAP_TRACES v then WriteReg SVGA_REG_TRACES 1 v else v)
      \<lparr>m_bounce_buffer := True, m_cursor_ptr := None\<rparr>"
    using assms(1) by (cases "FIFOInit u") (auto simp: Start_fifo_def Let_def split: if_splits)
  have sz: "m_fifo_size t = m_fifo_size u" using FIFOInit_fields [OF v] t by simp
  note r = FIFOInit_ready [OF v assms(2) assms(3) [unfolded sz]]
  then have w: "ring_wf (fifo v)" "host_wf v" by (simp_all add: fifo_ready_def)
  obtain h f where h: "WriteReg SVGA_REG_TRACES 1 v = v\<lparr>host := h, fifo := f\<rparr>"
    and st: "host_step (fifo v) f"
    using w by (rule WriteReg_shape)
  have "ring_queue f = []" "ring_wf f" "ring_size f = ring_size (fifo v)"
    using st r host_step_regs [OF st] by (auto simp: host_step_def ring_size_def)
  then show ?thesis using r t h sz by (auto simp: fifo_ready_def host_wf_def)
qed

section \<open>The concrete device\<close>

lemma demo_host_step: "ring_wf f \<Longrightarrow> host_step f (f(SVGA_FIFO_STOP := f SVGA_FIFO_NEXT_CMD))"
proof -
  assume wf: "ring_wf f"
  let ?g = "f(SVGA_FIFO_STOP := f SVGA_FIFO_NEXT_CMD)"
  have r: "rmin ?g = rmin f" "rmax ?g = rmax f" "rnext ?g = rnext f" "rstop ?g = rnext f"
    by (simp_all add: ring_regs)
  have "ring_wf ?g" using wf unfolding ring_wf_def r by simp
  moreover have "ring_queue ?g = []" by (simp add: ring_queue_def ring_seg_def r)
  ultimately show ?thesis using wf by (simp add: host_step_def ring_wf_def)
qed

lemma demo_host_wf: "host_wf (demo_device nx st)"
  using demo_host_step by (auto simp: host_wf_def demo_device_def demo_outl_def demo_inl_def)

lemma demo_regs:
  "rmin (demo_fifo nx st) = 291" "rmax (demo_fifo nx st) = 307"
  "rnext (demo_fifo nx st) = unat nx div 4" "rstop (demo_fifo nx st) = unat st div 4"
  by (simp_all add: ring_regs demo_fifo_def)

lemma demo_ready:
  assumes "4 dvd unat nx" "4 dvd unat st" "1164 \<le> unat nx" "unat nx < 1228" "1164 \<le> unat st" "unat st < 1228"
  shows "fifo_ready (demo_device nx st)" "ring_size (fifo (demo_device nx st)) = 16"
proof -
  have "ring_wf (demo_fifo nx st)"
    unfolding ring_wf_def demo_regs using assms by (auto simp: demo_fifo_def elim!: dvdE)
  then show "fifo_ready (demo_device nx st)"
    using demo_host_wf [of nx st] by (simp add: fifo_ready_def demo_device_def)
  show "ring_size (fifo (demo_device nx st)) = 16"
    by (simp add: ring_size_def demo_regs demo_device_def)
qed

lemma demo_progress: "host_progress (demo_device nx st)"
  unfolding host_progress_def
proof (intro allI impI, elim conjE)
  fix t :: "unit SVGADevice"
  assume "outl_port t = outl_port (demo_device nx st)" "inl_port t = inl_port (demo_device nx st)"
    and q: "dev_queue t \<noteq> []"
  then have p: "outl_port t = demo_outl" "inl_port t = demo_inl" by (simp_all add: demo_device_def)
  have "fifo (FIFOFull t) = (fifo t)(SVGA_FIFO_STOP := fifo t SVGA_FIFO_NEXT_CMD)"
    by (simp add: FIFOFull_def ReadReg_def WriteReg_def p demo_outl_def demo_inl_def)
  then have "dev_queue ((FIFOFull ^^ 1) t) = []"
    by (simp add: ring_queue_def ring_seg_def ring_regs)
  then show "\<exists>k. length (dev_queue ((FIFOFull ^^ k) t)) < length (dev_queue t)"
    using q by (intro exI [of _ 1]) simp
qed

lemma boot_host_wf: "host_wf boot_device"
  by (auto simp: host_wf_def boot_device_def boot_outl_def boot_inl_def)

lemma boot_start: "fst (SVGADevice_Start boot_env boot_device)"
  "m_fifo_size (snd (SVGADevice_Start boot_env boot_device)) = 0x1000"
  by (simp_all add: SVGADevice_Start_def boot_env_def boot_device_def WriteReg_def ReadReg_def
      boot_outl_def boot_inl_def Let_def HasCapability_def read_modes_def read_gmr_limits_def
      Start_fifo_def FIFOInit_def set_fifo_def)

lemma reserve_total:
  fixes ws :: "u32 list"
  assumes "fifo_ready s" "host_progress s" "ws \<noteq> []" "length ws \<le> 0x4000"
    "length ws < ring_size (fifo s)"
  shows "\<exists>p u. FIFOReserve (of_nat (4 * length ws)) s = Some (Some p, u) \<and>
    reserve_post (length ws) s (Some p, u)"
proof -
  let ?n = "of_nat (4 * length ws) :: u64"
  note u = unat_words_size [OF assms(4)]
  have n: "\<not> reserve_refuses ?n s" "?n \<noteq> 0"
    using assms u reserve_refuses_words [of ws s] by (auto simp: cmd_fits_def simp del: of_nat_mult)
  note pre = reserve_pre_start [OF assms(1) n]
  have "FIFOReserve ?n s \<noteq> None"
    using FIFOReserve_loop_returns [OF pre assms(2)] assms n u FIFOReserve_eq [of s ?n]
    by (simp add: fifo_ready_def del: of_nat_mult)
  then obtain q v where r: "FIFOReserve ?n s = Some (q, v)" by auto
  have "reserve_post (length ws) s (q, v)"
    using FIFOReserve_post [OF assms(1) n r] u by (simp del: of_nat_mult)
  then show ?thesis using r by (auto simp: reserve_post_def simp del: of_nat_mult)
qed

lemma transmit_total:
  assumes "fifo_ready s" "host_progress s" "ws \<noteq> []" "length ws \<le> 0x4000"
    "length ws < ring_size (fifo s)"
  shows "\<exists>t. FIFOTransmit ws s = Some (True, t) \<and> fifo_sent ws s t"
  using reserve_total [OF assms] FIFOCommit_sent [OF assms(1)] unfolding FIFOTransmit_def by fastforce

section \<open>Properties of the command FIFO\<close>

text \<open>
  C1. A command that is shorter than the ring and fits the bounce buffer is always sent: with a
  host that keeps making progress, \<open>FIFOReserve\<close> returns, whatever the fill level, with a
  pointer; storing the words there and committing appends exactly these words to the queue, on
  the in-place and on both bounce-buffer paths, and leaves the device ready for the next command.
\<close>

theorem FIFO_send_total:
  assumes "fifo_ready s" "host_progress s"
    and "ws \<noteq> []" "length ws \<le> 0x4000" "length ws < ring_size (fifo s)"
  shows "\<exists>p u. FIFOReserve (of_nat (4 * length ws)) s = Some (Some p, u) \<and>
    fifo_sent ws s (FIFOCommitAll (poke p ws u))"
  using reserve_total [OF assms] FIFOCommit_sent [OF assms(1)] by blast

theorem FIFO_send_total_witness:
  "\<exists>p u. FIFOReserve 20 (demo_device 1220 1200) = Some (Some p, u) \<and>
    fifo_sent [1, 2, 3, 4, 5] (demo_device 1220 1200) (FIFOCommitAll (poke p [1, 2, 3, 4, 5] u))"
  using FIFO_send_total [of "demo_device 1220 1200" "[1, 2, 3, 4, 5]"]
    demo_ready [of 1220 1200] demo_progress [of 1220 1200] by simp

text \<open>
  C2. With the host running between the reservation, the stores and the commit of a command, in
  every reachable configuration the words the host has yet to read are a suffix of the initial
  queue followed by everything committed so far, a granted reservation stays granted, and the
  stored words stay in place until they are committed.
\<close>

theorem device_step_reachable_inv:
  assumes "device_step\<^sup>*\<^sup>* (Idle, s, []) c" "fifo_ready s"
  shows "config_inv (dev_queue s) c"
  using assms by (induction rule: rtranclp_induct) (auto intro: config_inv_step)
lemma demo_reserve:
  "\<exists>u. FIFOReserve 8 (demo_device 1164 1164) = Some (Some (FifoAt 291), u)"
  by (simp add: FIFOReserve_def Let_def FIFOReserve_loop.simps demo_device_def demo_fifo_def
      HasFIFOCap_def reserve_in_place_def)

theorem device_step_reachable_inv_witness:
  "\<exists>u. device_step\<^sup>*\<^sup>* (Idle, demo_device 1164 1164, []) (Reserved (FifoAt 291) 2, u, []) \<and>
    config_inv (dev_queue (demo_device 1164 1164)) (Reserved (FifoAt 291) 2, u, [])"
proof -
  obtain u where "FIFOReserve 8 (demo_device 1164 1164) = Some (Some (FifoAt 291), u)"
    using demo_reserve by blast
  from device_step.reserve [OF this, of "[]"]
  have "device_step\<^sup>*\<^sup>* (Idle, demo_device 1164 1164, []) (Reserved (FifoAt 291) 2, u, [])"
    by (auto intro: r_into_rtranclp)
  then show ?thesis
    using device_step_reachable_inv [of "demo_device 1164 1164" "(Reserved (FifoAt 291) 2, u, [])"]
      demo_ready(1) [of 1164 1164] by auto
qed

text \<open>
  C3. A sequence of commands is delivered in order and without gaps: the result flags are exactly
  the fits of the single commands, and what the host has not consumed at the end is a suffix of
  the old queue followed by the accepted commands, in the order of the calls.
\<close>

theorem commands_in_order:
  assumes "fifo_ready s" "list_all cmd_msg cs" "transmit_all FIFOTransmit cs s = Some (bs, t)"
  shows "fifo_ready t \<and> bs = map (\<lambda>c. cmd_fits c s) cs \<and>
    suffix (dev_queue t) (dev_queue s @ concat (filter (\<lambda>c. cmd_fits c s) cs))"
  using assms by (rule fifo_chan.transmit_all_stream)


lemma demo_transmit: "\<exists>bs t. transmit_all FIFOTransmit [[1, 2], replicate 17 7] (demo_device 1164 1164) = Some (bs, t)"
proof -
  have r: "fifo_ready (demo_device 1164 1164)" "ring_size (fifo (demo_device 1164 1164)) = 16"
    using demo_ready [of 1164 1164] by simp_all
  obtain t where t: "FIFOTransmit [1, 2] (demo_device 1164 1164) = Some (True, t)"
    "fifo_sent [1, 2] (demo_device 1164 1164) t"
    using transmit_total [of "demo_device 1164 1164" "[1, 2]"] r demo_progress [of 1164 1164] by auto
  have "FIFOTransmit (replicate 17 7) t = Some (False, t)"
    using t(2) r by (intro FIFOTransmit_refused) (auto simp: fifo_sent_def cmd_fits_def)
  then show ?thesis using t by simp
qed

theorem commands_in_order_witness:
  "\<exists>bs t. transmit_all FIFOTransmit [[1, 2], replicate 17 7] (demo_device 1164 1164) = Some (bs, t) \<and>
    fifo_ready t \<and> bs = [True, False] \<and> suffix (dev_queue t) [1, 2]"
proof -
  have r: "fifo_ready (demo_device 1164 1164)" "ring_size (fifo (demo_device 1164 1164)) = 16"
    using demo_ready [of 1164 1164] by simp_all
  obtain bs t where t:
    "transmit_all FIFOTransmit [[1, 2], replicate 17 7] (demo_device 1164 1164) = Some (bs, t)"
    using demo_transmit by blast
  have "list_all cmd_msg [[1, 2], replicate 17 7]" by (simp add: cmd_msg_def)
  moreover have "dev_queue (demo_device 1164 1164) = []"
    by (simp add: ring_queue_def ring_seg_def demo_regs demo_device_def)
  ultimately show ?thesis
    using commands_in_order [OF r(1) _ t] t r by (auto simp: cmd_fits_def)
qed

text \<open>
  C4. \<open>FIFOReserve\<close> answers with a null pointer exactly for the sizes it documents as errors
  (more than the bounce buffer, more than the ring, not a multiple of four) and while another
  reservation is open; a refused call changes nothing.
\<close>

theorem FIFOReserve_refusals:
  assumes "ring_wf (fifo s)" "host_wf s" "bytes \<noteq> 0" "FIFOReserve bytes s = Some (q, t)"
  shows "(q = None \<longleftrightarrow> reserve_refuses bytes s \<or> m_reserved_size s \<noteq> 0) \<and> (q = None \<longrightarrow> t = s)"
proof (cases "m_reserved_size s = 0")
  case True
  then show ?thesis
    using assms FIFOReserve_cases [of s bytes q t]
    by (auto simp: fifo_ready_def reserve_post_def split: if_splits)
qed (use assms FIFOReserve_eq [of s bytes] in auto)

theorem FIFOReserve_refusals_witness:
  "FIFOReserve 6 (demo_device 1164 1164) = Some (None, demo_device 1164 1164) \<and>
   reserve_refuses 6 (demo_device 1164 1164)"
proof -
  have "FIFOReserve 6 (demo_device 1164 1164) = Some (None, demo_device 1164 1164)"
    by (simp add: FIFOReserve_def Let_def demo_device_def demo_fifo_def)
  then show ?thesis
    using FIFOReserve_refusals [of "demo_device 1164 1164" 6 None "demo_device 1164 1164"]
      demo_ready(1) [of 1164 1164]
    by (simp add: fifo_ready_def demo_device_def)
qed

text \<open>
  C5. A reservation of the whole ring (as many bytes as \<open>max - min\<close>) passes the size check but
  is never granted: one dword always stays free, so the loop waits forever, for every host.
\<close>

theorem FIFOReserve_whole_ring_hangs:
  assumes "fifo_ready s" "unat bytes = 4 * ring_size (fifo s)" "ring_size (fifo s) \<le> 0x4000"
  shows "FIFOReserve bytes s = None"
proof (rule ccontr)
  assume "FIFOReserve bytes s \<noteq> None"
  then obtain res where r: "FIFOReserve bytes s = Some res" by auto
  have "0 < ring_size (fifo s)" using assms(1) by (auto simp: fifo_ready_def ring_wf_def ring_size_def)
  then have n: "\<not> reserve_refuses bytes s" "bytes \<noteq> 0"
    using assms by (auto simp: reserve_refuses_def)
  note pre = reserve_pre_start [OF assms(1) n]
  have "FIFOReserve_loop (fifo s SVGA_FIFO_MAX) (fifo s SVGA_FIFO_MIN) (fifo s SVGA_FIFO_NEXT_CMD)
      (HasFIFOCap SVGA_FIFO_CAP_RESERVE s) bytes (s\<lparr>m_reserved_size := bytes\<rparr>) = Some res"
    using r n assms(1) FIFOReserve_eq [of s bytes] by (simp add: fifo_ready_def)
  from FIFOReserve_loop_small [OF this pre] show False using assms(2) by simp
qed

theorem FIFOReserve_whole_ring_hangs_witness: "FIFOReserve 64 (demo_device 1164 1164) = None"
  using FIFOReserve_whole_ring_hangs [of "demo_device 1164 1164" 64] demo_ready [of 1164 1164] by simp

text \<open>
  C6. A successful \<open>Start\<close> leaves a device whose FIFO is empty and ready, with the bounce buffer
  allocated and a ring that spans FIFO memory behind the registers, whatever the memory held
  before; the size the hardware reports only has to be a multiple of four that leaves room.
\<close>

theorem Start_establishes_fifo:
  assumes "SVGADevice_Start env s = (True, t)" "host_wf s" "fifo_size_ok (m_fifo_size t)"
  shows "fifo_ready t \<and> dev_queue t = [] \<and> m_bounce_buffer t \<and> m_cursor_ptr t = None \<and>
    4 * ring_size (fifo t) = unat (m_fifo_size t) - 4 * SVGA_FIFO_NUM_REGS"
proof -
  obtain u where "Start_fifo env u = (True, t)" "outl_port u = outl_port s" "inl_port u = inl_port s"
    using Start_shape [OF assms(1)] by blast
  then show ?thesis using Start_fifo_ready assms host_wf_ports by metis
qed

theorem Start_establishes_fifo_witness:
  "let t = snd (SVGADevice_Start boot_env boot_device)
   in fifo_ready t \<and> dev_queue t = [] \<and> ring_size (fifo t) = 733"
proof -
  let ?t = "snd (SVGADevice_Start boot_env boot_device)"
  have "SVGADevice_Start boot_env boot_device = (True, ?t)"
    using boot_start(1) by (simp add: prod_eq_iff)
  from Start_establishes_fifo [OF this boot_host_wf] show ?thesis
    by (simp add: boot_start(2) fifo_size_ok_def)
qed

text \<open>
  C7. Whenever \<open>Start\<close> fails, on any of its paths, it has released everything it had acquired.
\<close>

theorem Start_failure_releases:
  assumes "SVGADevice_Start env s = (False, t)"
  shows "released t"
  using assms by (rule Start_failed)

theorem Start_failure_releases_witness:
  "released (snd (SVGADevice_Start (boot_env\<lparr>bar0_address := None\<rparr>) boot_device))"
proof -
  let ?r = "SVGADevice_Start (boot_env\<lparr>bar0_address := None\<rparr>) boot_device"
  have "?r = (False, snd ?r)" by (simp add: SVGADevice_Start_def boot_env_def)
  then show ?thesis by (rule Start_failure_releases)
qed

section \<open>Video registers\<close>

text \<open>
  C8. \<open>VideoSetRegsWithMask\<close> sends one escape whose size field, computed with the parallel bit
  count, is the size of its payload, and whose items are the registers of the mask in
  increasing order with their values.
\<close>

theorem VideoSetRegsWithMask_message:
  "VideoSetRegsWithMask st regs m s =
    (if m = 0 then Some (True, s)
     else FIFOTransmit ([SVGA_CMD_ESCAPE, SVGA_ESCAPE_NSID_CECL, of_nat (8 + 8 * popcount m),
       SVGA_ESCAPE_CECL_VIDEO_SET_REGS, st] @
       concat (map (\<lambda>j. [of_nat j, regs (of_nat j)]) (filter (bit m) [0..<32]))) s)"
  using VideoSetRegsWithMask_words [of m st regs s]
  by (cases "m = 0") (simp_all only: if_True if_False VideoSetRegsWithMask_def simp_thms)

text \<open>The parallel bit count of the driver is the number of one bits, for every word.\<close>

lemma count_bits_correct: "unat (count_bits w) = card {i. i < 32 \<and> bit w i}"
proof -
  have "popcount w = card {i \<in> set [0..<32]. bit w i}"
    unfolding popcount_def by (subst distinct_card [symmetric]) auto
  then show ?thesis by (simp add: count_bits_popcount atLeast0LessThan conj_commute)
qed

section \<open>Fences and waiting\<close>

lemma InsertFence_words:
  assumes "HasFIFOCap SVGA_FIFO_CAP_FENCE s"
  shows "InsertFence s =
    (let fence = (if m_next_fence s = 0 then 1 else m_next_fence s)
     in map_option (\<lambda>(b, t). (if b then fence else 0, t))
          (FIFOTransmit [SVGA_CMD_FENCE, fence] (s\<lparr>m_next_fence := fence + 1\<rparr>)))"
proof -
  define fence where "fence = (if m_next_fence s = 0 then 1 else m_next_fence s)"
  have "InsertFence s =
      (case FIFOReserve 8 (s\<lparr>m_next_fence := fence + 1\<rparr>) of
         None \<Rightarrow> None
       | Some (None, s) \<Rightarrow> Some (0, s)
       | Some (Some p, s) \<Rightarrow> Some (fence, FIFOCommitAll (poke p [SVGA_CMD_FENCE, fence] s)))"
    using assms by (auto simp: InsertFence_def fence_def Let_def split: option.split)
  also have "\<dots> = map_option (\<lambda>(b, t). (if b then fence else 0, t))
      (FIFOTransmit [SVGA_CMD_FENCE, fence] (s\<lparr>m_next_fence := fence + 1\<rparr>))"
    by (auto simp: FIFOTransmit_def split: option.split)
  finally show ?thesis unfolding Let_def fence_def .
qed

lemma fifo_ready_fence [simp]: "fifo_ready (s\<lparr>m_next_fence := n\<rparr>) = fifo_ready s"
  by (simp add: fifo_ready_def host_wf_def)

lemma host_progress_fence [simp]: "host_progress (s\<lparr>m_next_fence := n\<rparr>) = host_progress s"
  by (simp add: host_progress_def)

text \<open>
  C9. \<open>InsertFence\<close> on a host with fences returns a nonzero number, sends it as a fence command
  behind everything sent before, and makes the next fence its successor; the number 0, which
  means \<open>no fence\<close> to \<open>HasFencePassed\<close> and \<open>SyncToFence\<close>, is skipped on wrap-around.
\<close>

theorem InsertFence_sent:
  assumes "fifo_ready s" "host_progress s" "HasFIFOCap SVGA_FIFO_CAP_FENCE s" "2 < ring_size (fifo s)"
  shows "\<exists>fence t. InsertFence s = Some (fence, t) \<and> fence \<noteq> 0 \<and>
    (m_next_fence s \<noteq> 0 \<longrightarrow> fence = m_next_fence s) \<and> m_next_fence t = fence + 1 \<and>
    fifo_ready t \<and> (\<exists>q. suffix q (dev_queue s) \<and> dev_queue t = q @ [SVGA_CMD_FENCE, fence])"
proof -
  define fence where "fence = (if m_next_fence s = 0 then 1 else m_next_fence s)"
  let ?s = "s\<lparr>m_next_fence := fence + 1\<rparr>"
  obtain t where t: "FIFOTransmit [SVGA_CMD_FENCE, fence] ?s = Some (True, t)"
    "fifo_sent [SVGA_CMD_FENCE, fence] ?s t"
    using transmit_total [of ?s "[SVGA_CMD_FENCE, fence]"] assms by auto
  have "InsertFence s = Some (fence, t)"
    using InsertFence_words [OF assms(3)] t(1) by (simp add: Let_def flip: fence_def)
  then show ?thesis
    using t(2) by (auto simp: fifo_sent_def fence_def dest: fifo_frame_fields(1))
qed

theorem InsertFence_sent_witness:
  "\<exists>fence t. InsertFence (demo_device 1220 1200) = Some (fence, t) \<and> fence \<noteq> 0 \<and>
    m_next_fence t = fence + 1"
  using InsertFence_sent [of "demo_device 1220 1200"] demo_ready [of 1220 1200] demo_progress
  by (auto simp: HasFIFOCap_def demo_device_def demo_fifo_def)

lemma sint_nonneg_iff: "0 \<le> sint (x :: u32) \<longleftrightarrow> unat x < 2 ^ 31"
proof -
  have "0 \<le> sint x \<longleftrightarrow> \<not> bit x 31"
    by (simp add: sint_uint signed_take_bit_nonnegative_iff bit_uint_iff)
  also have "\<dots> \<longleftrightarrow> \<not> bit (unat x) 31" by (simp add: bit_unsigned_iff)
  also have "\<dots> \<longleftrightarrow> \<not> odd (unat x div 2 ^ 31)" by (simp add: bit_iff_odd)
  also have "\<dots> \<longleftrightarrow> unat x < 2 ^ 31"
  proof -
    have "unat x div 2 ^ 31 < 2" using unat_u32_less [of x] by (simp add: less_mult_imp_div_less)
    then have "odd (unat x div 2 ^ 31) \<longleftrightarrow> unat x div 2 ^ 31 \<noteq> 0"
      by (auto simp: less_2_cases_iff)
    then show ?thesis by (simp add: div_eq_0_iff)
  qed
  finally show ?thesis .
qed

text \<open>
  C10. The signed comparison of \<open>HasFencePassedUnguarded\<close> orders fences correctly across the
  wrap-around of the 32-bit counter: when the host has completed fence \<open>g\<close>, every fence at most
  \<open>2 ^ 31 - 1\<close> before it has passed and every fence at most \<open>2 ^ 31\<close> behind it has not.
\<close>

theorem HasFencePassed_window:
  "(d < 2 ^ 31 \<longrightarrow> HasFencePassedUnguarded f (f SVGA_FIFO_FENCE - of_nat d)) \<and>
   (0 < d \<and> d \<le> 2 ^ 31 \<longrightarrow> \<not> HasFencePassedUnguarded f (f SVGA_FIFO_FENCE + of_nat d))"
proof -
  have "unat (- of_nat d :: u32) = 2 ^ 32 - d" if "0 < d" "d \<le> 2 ^ 31"
  proof -
    have "(of_nat (2 ^ 32) :: u32) = 0" by (simp only: word_of_nat_eq_0_iff) simp
    moreover have "of_nat (2 ^ 32 - d) = (of_nat (2 ^ 32) - of_nat d :: u32)"
      using that by (intro of_nat_diff) simp
    ultimately have e: "(- of_nat d :: u32) = of_nat (2 ^ 32 - d)" by (simp only: diff_0)
    show ?thesis unfolding e using that by (intro unat_of_nat_small) simp
  qed
  moreover have "unat (of_nat d :: u32) = d" if "d < 2 ^ 31"
    using that by (intro unat_of_nat_small) simp
  ultimately show ?thesis by (auto simp: HasFencePassedUnguarded_def sint_nonneg_iff)
qed

theorem HasFencePassed_window_witness:
  "HasFencePassedUnguarded (demo_fifo 1164 1164) (0 - 5) \<and>
   \<not> HasFencePassedUnguarded (demo_fifo 1164 1164) 5"
  using HasFencePassed_window [of 5 "demo_fifo 1164 1164"] by (simp add: demo_fifo_def)

text \<open>One poll of the busy register.\<close>

definition busy_poll :: "'h SVGADevice \<Rightarrow> 'h SVGADevice" where
  "busy_poll s = snd (ReadReg SVGA_REG_BUSY s)"

lemma wait_busy_steps:
  assumes "\<forall>j < k. fst (ReadReg SVGA_REG_BUSY ((busy_poll ^^ j) s)) \<noteq> 0"
    "fst (ReadReg SVGA_REG_BUSY ((busy_poll ^^ k) s)) = 0"
  shows "wait_busy s = Some ((busy_poll ^^ Suc k) s)"
  using assms
proof (induction k arbitrary: s)
  case 0
  then show ?case by (subst wait_busy.simps) (simp add: case_prod_beta busy_poll_def)
next
  case (Suc k)
  have "wait_busy (busy_poll s) = Some ((busy_poll ^^ Suc k) (busy_poll s))"
  proof (rule Suc.IH)
    show "\<forall>j < k. fst (ReadReg SVGA_REG_BUSY ((busy_poll ^^ j) (busy_poll s))) \<noteq> 0"
      using Suc.prems(1) by (metis Suc_less_eq funpow.simps(2) funpow_swap1 comp_apply)
    show "fst (ReadReg SVGA_REG_BUSY ((busy_poll ^^ k) (busy_poll s))) = 0"
      using Suc.prems(2) by (simp add: funpow_swap1)
  qed
  moreover have "fst (ReadReg SVGA_REG_BUSY s) \<noteq> 0" using Suc.prems(1) by force
  ultimately show ?case by (subst wait_busy.simps) (simp add: case_prod_beta funpow_swap1 flip: busy_poll_def)
qed

text \<open>
  C11. The synchronous wait of \<open>SyncFIFO\<close> ends as soon as the host reports not to be busy: if
  some poll of the busy register reads zero, the call returns, after exactly the polls up to the
  first such one.
\<close>

theorem SyncFIFO_returns:
  assumes "fst (ReadReg SVGA_REG_BUSY ((busy_poll ^^ n) (WriteReg SVGA_REG_SYNC 1 s))) = 0"
  shows "\<exists>k \<le> n. SyncFIFO s = Some ((busy_poll ^^ Suc k) (WriteReg SVGA_REG_SYNC 1 s)) \<and>
    (\<forall>j < k. fst (ReadReg SVGA_REG_BUSY ((busy_poll ^^ j) (WriteReg SVGA_REG_SYNC 1 s))) \<noteq> 0)"
proof -
  let ?P = "\<lambda>k. fst (ReadReg SVGA_REG_BUSY ((busy_poll ^^ k) (WriteReg SVGA_REG_SYNC 1 s))) = 0"
  define k where "k = (LEAST k. ?P k)"
  have "?P k" "k \<le> n" "\<forall>j < k. \<not> ?P j"
    unfolding k_def using LeastI [of ?P, OF assms] Least_le [of ?P, OF assms]
    by (auto dest: not_less_Least)
  then show ?thesis
    using wait_busy_steps [of k "WriteReg SVGA_REG_SYNC 1 s"] by (auto simp: SyncFIFO_def)
qed

theorem SyncFIFO_returns_witness: "\<exists>t. SyncFIFO (demo_device 1220 1200) = Some t"
  using SyncFIFO_returns [where s = "demo_device 1220 1200" and n = 0]
  by (auto simp: ReadReg_def WriteReg_def demo_device_def demo_outl_def demo_inl_def)

section \<open>The hardware cursor\<close>

lemma cursor_out:
  "s\<lparr>m_cursor_ptr := c, fifo := f\<rparr> = s\<lparr>fifo := f, m_cursor_ptr := c\<rparr>"
  "s\<lparr>m_cursor_ptr := c, m_reserved_size := n\<rparr> = s\<lparr>m_reserved_size := n, m_cursor_ptr := c\<rparr>"
  by simp_all

lemma commit_dwords_cursor:
  "snd (commit_dwords mx mn n k nx (s\<lparr>m_cursor_ptr := c\<rparr>)) =
   (snd (commit_dwords mx mn n k nx s))\<lparr>m_cursor_ptr := c\<rparr>"
  by (induction n arbitrary: k nx s) (simp_all add: Let_def set_fifo_def cursor_out)

lemma FIFOCommit_cursor:
  "FIFOCommit bytes (s\<lparr>m_cursor_ptr := c\<rparr>) = (FIFOCommit bytes s)\<lparr>m_cursor_ptr := c\<rparr>"
  by (simp add: FIFOCommit_def Let_def HasFIFOCap_def set_fifo_def advance_next_def copy_bounce_def
      cursor_out commit_dwords_cursor)

lemma poke_cursor: "poke p ws (s\<lparr>m_cursor_ptr := c\<rparr>) = (poke p ws s)\<lparr>m_cursor_ptr := c\<rparr>"
  by (cases p) simp_all

lemma write_words_parts:
  "write_words (Suc k) us (write_words (Suc (k + length us)) vs (write_words k [c] f)) =
   write_words k (c # us @ vs) f"
  by (auto simp: write_words_def fun_eq_iff nth_append nth_Cons' not_less intro: arg_cong [of _ _ "(!) _"])

lemma poke_parts:
  "poke (fptr_add p 1) us (poke (fptr_add (fptr_add p 1) (length us)) vs (poke p [c] s)) =
   poke p (c # us @ vs) s"
  by (cases p) (simp_all add: write_words_parts)

lemma demo_cursor [simp]: "m_cursor_ptr (demo_device nx st) = None"
  by (simp add: demo_device_def)

lemma m_cursor_ptr_id: "m_cursor_ptr t = c \<Longrightarrow> t\<lparr>m_cursor_ptr := c\<rparr> = t"
  by (cases t) simp

lemma m_cursor_ptr_sent: "fifo_sent ws s t \<Longrightarrow> m_cursor_ptr t = m_cursor_ptr s"
  using fifo_frame_fields(3) by (auto simp: fifo_sent_def)

lemma FIFOCommit_whole:
  assumes "fifo_ready s" "reserve_post (length ws) s (Some p, u)" "unat n = 4 * length ws"
  shows "fifo_sent ws s (FIFOCommit n (poke p ws u))"
proof -
  have "m_reserved_size u = n"
    using assms(2,3) by (auto simp: reserve_post_def reserved_at_def word_unat_eq_iff)
  moreover have "m_reserved_size (poke p ws u) = m_reserved_size u" by (cases p) simp_all
  ultimately show ?thesis using FIFOCommit_sent [OF assms(1,2)] by (simp add: FIFOCommitAll_def)
qed

text \<open>
  Defining the cursor image: \<open>BeginDefineAlphaCursor\<close> hands out the place for the pixels,
  the caller stores them, and \<open>EndDefineAlphaCursor\<close> fills in the header and commits; together
  they send one command made of the header and the pixels, although the header is written last
  and the command id first.
\<close>

lemma DefineAlphaCursor_message:
  assumes "fifo_ready s" "host_progress s" "m_cursor_ptr s = None"
    and "w * h * b = of_nat (4 * length px)" "length px + 6 \<le> 0x4000" "length px + 6 < ring_size (fifo s)"
  shows "\<exists>p u t. BeginDefineAlphaCursor w h b s = Some (Some p, u) \<and>
    EndDefineAlphaCursor w h b hx hy (poke p px u) = (True, t) \<and>
    fifo_sent ([SVGA_CMD_DEFINE_ALPHA_CURSOR, 1, hx, hy, w, h] @ px) s t"
proof -
  let ?ws = "SVGA_CMD_DEFINE_ALPHA_CURSOR # [1, hx, hy, w, h] @ px"
  define n where "n = (4 + 20 + ucast (w * h * b) :: u64)"
  have "unat (w * h * b) = 4 * length px"
    unfolding assms(4) using assms(5) by (intro unat_of_nat_small) simp
  then have "ucast (w * h * b) = (of_nat (4 * length px) :: u64)" by (metis of_nat_unat)
  then have n: "n = of_nat (4 * length ?ws)" by (simp add: n_def)
  have l: "length ?ws \<le> 0x4000" using assms(5) by simp
  then have un: "unat n = 4 * length ?ws" unfolding n by (rule unat_words_size)
  obtain p u where r: "FIFOReserve n s = Some (Some p, u)"
    and post: "reserve_post (length ?ws) s (Some p, u)"
    using reserve_total [OF assms(1,2) _ l] assms(6) unfolding n by auto
  let ?q = "fptr_add (fptr_add p 1) 5"
  have n': "20 + ucast (w * h * b) + 4 = n" by (simp add: n_def)
  have "FIFOReserveCmd SVGA_CMD_DEFINE_ALPHA_CURSOR (20 + ucast (w * h * b)) s =
      Some (Some (fptr_add p 1), poke p [SVGA_CMD_DEFINE_ALPHA_CURSOR] u)"
    using r unfolding FIFOReserveCmd_prefix n' by simp
  then have b: "BeginDefineAlphaCursor w h b s = Some (Some ?q,
      (poke p [SVGA_CMD_DEFINE_ALPHA_CURSOR] u)\<lparr>m_cursor_ptr := Some (fptr_add p 1)\<rparr>)" (is "_ = Some (_, ?u)")
    by (simp add: BeginDefineAlphaCursor_def Let_def)
  have five: "length [1, hx, hy, w, h] = 5" by simp
  have sent: "fifo_sent ?ws s (FIFOCommit n (poke p ?ws u))"
    by (rule FIFOCommit_whole [OF assms(1) post un])
  have "poke (fptr_add p 1) [1, hx, hy, w, h] (poke ?q px ?u) =
      (poke p ?ws u)\<lparr>m_cursor_ptr := Some (fptr_add p 1)\<rparr>"
    using poke_parts [of p "[1, hx, hy, w, h]" px SVGA_CMD_DEFINE_ALPHA_CURSOR u] five
    by (simp only: poke_cursor)
  then have "EndDefineAlphaCursor w h b hx hy (poke ?q px ?u) =
      (True, (FIFOCommit n (poke p ?ws u))\<lparr>m_cursor_ptr := None\<rparr>)"
    by (simp add: EndDefineAlphaCursor_def Let_def poke_cursor FIFOCommit_cursor n_def)
  then show ?thesis
    using b sent m_cursor_ptr_sent [OF sent] assms(3) by (auto simp: m_cursor_ptr_id)
qed

end
