(* ===== verification/SVGA_Sync.thy ===== *)
theory SVGA_Sync
  imports SVGA_Startup
begin

text \<open>
  Waiting for a fence, and sequences of messages: what \<open>SyncToFence\<close> of \<open>src/FB/SVGADevice.cpp\<close> guarantees when it
  returns, that it returns, and the messages that reach the device one after the other.
\<close>

section \<open>Sequences of messages\<close>

lemma fifo_sent_nil: "fifo_ready s \<Longrightarrow> fifo_sent [] s s"
  by (auto simp: fifo_sent_def)

lemma fifo_sent_after: "fifo_sent [] s t \<Longrightarrow> fifo_sent ws t u \<Longrightarrow> fifo_sent ws s u"
  by (auto simp: fifo_sent_def intro: fifo_frame_trans suffix_order.trans)

text \<open>
  Between two messages the host may read any number of words.  Each message is in the queue as a whole when it has been
  sent.
\<close>

fun sent_all :: "u32 list list \<Rightarrow> 'h SVGADevice \<Rightarrow> 'h SVGADevice \<Rightarrow> bool" where
  "sent_all [] s t \<longleftrightarrow> fifo_sent [] s t"
| "sent_all (m # ms) s t \<longleftrightarrow> (\<exists>u. fifo_sent m s u \<and> sent_all ms u t)"

lemma sent_all_ready: "sent_all ms s t \<Longrightarrow> fifo_ready t"
  by (induction ms arbitrary: s) (auto simp: fifo_sent_def)

lemma sent_all_frame: "sent_all ms s t \<Longrightarrow> fifo_frame s t \<and> ring_size (fifo t) = ring_size (fifo s)"
  by (induction ms arbitrary: s) (auto simp: fifo_sent_def intro: fifo_frame_trans)

lemma sent_all_after: "fifo_sent [] s t \<Longrightarrow> sent_all ms t u \<Longrightarrow> sent_all ms s u"
  by (cases ms) (auto intro: fifo_sent_after)

lemma sent_all_append: "sent_all ms s t \<Longrightarrow> sent_all ns t u \<Longrightarrow> sent_all (ms @ ns) s u"
  by (induction ms arbitrary: s) (auto intro: sent_all_after)

lemma sent_all_single: "fifo_sent m s t \<Longrightarrow> sent_all [m] s t"
  by (auto simp: fifo_sent_def intro: fifo_sent_nil [unfolded fifo_sent_def])

section \<open>Waiting for a fence\<close>

lemma host_step_sent:
  assumes "fifo_ready s" "host_step (fifo s) f"
  shows "fifo_sent [] s (s\<lparr>host := h, fifo := f\<rparr>)"
  using assms host_step_regs [OF assms(2)] by (auto simp: fifo_sent_def fifo_ready_def host_step_def ring_size_def)

lemma ReadReg_sent: "fifo_ready s \<Longrightarrow> fifo_sent [] s (snd (ReadReg i s))"
  using ReadReg_shape [of s i] host_step_sent by (metis fifo_ready_def)

lemma WriteReg_sent: "fifo_ready s \<Longrightarrow> fifo_sent [] s (WriteReg i v s)"
  using WriteReg_shape [of s i v] host_step_sent by (metis fifo_ready_def)

text \<open>
  The host works off what is in the ring: when the busy register is read again and again, it is 0 at some
  time.
\<close>

definition host_idles :: "'h SVGADevice \<Rightarrow> bool" where
  "host_idles s \<longleftrightarrow>
     (\<forall>t. outl_port t = outl_port s \<and> inl_port t = inl_port s \<and> m_io_base t = m_io_base s \<and> ring_wf (fifo t) \<longrightarrow>
        (\<exists>n. fst (ReadReg SVGA_REG_BUSY ((busy_poll ^^ n) t)) = 0))"

lemma host_idles_frame: "fifo_frame s t \<Longrightarrow> host_idles t = host_idles s"
  unfolding host_idles_def by (simp only: fifo_frame_fields(5-7))

text \<open>
  After the wait, nothing has been sent, and the fence has passed, or the host has reported that it is not busy, which
  means that it has worked off every command.
\<close>

definition waited :: "u32 \<Rightarrow> 'h SVGADevice \<Rightarrow> 'h SVGADevice \<Rightarrow> bool" where
  "waited fence s t \<longleftrightarrow> fifo_sent [] s t \<and>
     (fence = 0 \<or> HasFencePassedUnguarded (fifo t) fence \<or> (\<exists>u. fifo_sent [] s u \<and> ReadReg SVGA_REG_BUSY u = (0, t)))"

lemma waited_after: "fifo_sent [] s t \<Longrightarrow> waited fence t u \<Longrightarrow> waited fence s u"
  by (auto simp: waited_def intro: fifo_sent_after)

lemma busy_poll_idle:
  assumes "fst (ReadReg SVGA_REG_BUSY ((busy_poll ^^ n) s)) = 0" "fst (ReadReg SVGA_REG_BUSY s) \<noteq> 0"
  obtains k where "n = Suc k" "fst (ReadReg SVGA_REG_BUSY ((busy_poll ^^ k) (busy_poll s))) = 0"
  using assms by (cases n) (auto simp: funpow_swap1)

lemma wait_busy_waited:
  "fifo_ready s \<Longrightarrow> fst (ReadReg SVGA_REG_BUSY ((busy_poll ^^ n) s)) = 0 \<Longrightarrow> \<exists>t. wait_busy s = Some t \<and> waited fence s t"
proof (induction n arbitrary: s)
  case 0
  then show ?case
    using ReadReg_sent [OF 0(1), of SVGA_REG_BUSY] fifo_sent_nil [OF 0(1)]
    by (subst wait_busy.simps) (auto simp: waited_def case_prod_beta prod_eq_iff)
next
  case (Suc n)
  show ?case
  proof (cases "fst (ReadReg SVGA_REG_BUSY s) = 0")
    case True
    then show ?thesis
      using ReadReg_sent [OF Suc.prems(1), of SVGA_REG_BUSY] fifo_sent_nil [OF Suc.prems(1)]
      by (subst wait_busy.simps) (auto simp: waited_def case_prod_beta prod_eq_iff)
  next
    case False
    have p: "fifo_sent [] s (busy_poll s)" using ReadReg_sent [OF Suc.prems(1)] by (simp add: busy_poll_def)
    then have "\<exists>t. wait_busy (busy_poll s) = Some t \<and> waited fence (busy_poll s) t"
      using Suc.prems(2) by (intro Suc.IH) (auto simp: fifo_sent_def funpow_swap1)
    then show ?thesis using False waited_after [OF p]
      by (subst wait_busy.simps) (auto simp: case_prod_beta busy_poll_def)
  qed
qed

lemma wait_fence_waited:
  "fifo_ready s \<Longrightarrow> fst (ReadReg SVGA_REG_BUSY ((busy_poll ^^ n) s)) = 0 \<Longrightarrow> \<exists>t. wait_fence fence s = Some t \<and> waited fence s t"
proof (induction n arbitrary: s)
  case (0 s)
  then show ?case
    using ReadReg_sent [OF 0(1), of SVGA_REG_BUSY] fifo_sent_nil [OF 0(1)]
    by (subst wait_fence.simps) (auto simp: waited_def case_prod_beta prod_eq_iff)
next
  case (Suc n)
  show ?case
  proof (cases "HasFencePassedUnguarded (fifo s) fence \<or> fst (ReadReg SVGA_REG_BUSY s) = 0")
    case True
    then show ?thesis
      using ReadReg_sent [OF Suc.prems(1), of SVGA_REG_BUSY] fifo_sent_nil [OF Suc.prems(1)]
      by (subst wait_fence.simps) (auto simp: waited_def case_prod_beta prod_eq_iff)
  next
    case False
    have p: "fifo_sent [] s (busy_poll s)" using ReadReg_sent [OF Suc.prems(1)] by (simp add: busy_poll_def)
    then have "\<exists>t. wait_fence fence (busy_poll s) = Some t \<and> waited fence (busy_poll s) t"
      using Suc.prems(2) by (intro Suc.IH) (auto simp: fifo_sent_def funpow_swap1)
    then show ?thesis using False waited_after [OF p]
      by (subst wait_fence.simps) (auto simp: case_prod_beta busy_poll_def)
  qed
qed

lemma SyncToFence_waited:
  assumes "fifo_ready s" "host_idles s"
  shows "\<exists>t. SyncToFence fence s = Some t \<and> waited fence s t"
proof -
  let ?w = "WriteReg SVGA_REG_SYNC 1 s"
  have w: "fifo_sent [] s ?w" by (rule WriteReg_sent [OF assms(1)])
  then have r: "fifo_ready ?w" "fifo_frame s ?w" by (simp_all add: fifo_sent_def)
  then obtain n where "fst (ReadReg SVGA_REG_BUSY ((busy_poll ^^ n) ?w)) = 0"
    using assms(2) fifo_frame_fields(5-7) [OF r(2)] unfolding host_idles_def fifo_ready_def by blast
  note w1 = wait_busy_waited [OF r(1) this, of fence] wait_fence_waited [OF r(1) this, of fence]
  have "waited fence s s" if "fence = 0 \<or> HasFencePassedUnguarded (fifo s) fence"
    using that fifo_sent_nil [OF assms(1)] by (auto simp: waited_def)
  then show ?thesis using w1 waited_after [OF w] by (auto simp: SyncToFence_def)
qed

lemma demo_idles: "host_idles (demo_device nx st)"
  unfolding host_idles_def
proof (intro allI impI exI)
  fix t :: "unit SVGADevice"
  assume "outl_port t = outl_port (demo_device nx st) \<and> inl_port t = inl_port (demo_device nx st) \<and>
    m_io_base t = m_io_base (demo_device nx st) \<and> ring_wf (fifo t)"
  then show "fst (ReadReg SVGA_REG_BUSY ((busy_poll ^^ 0) t)) = 0"
    by (simp add: ReadReg_def demo_device_def demo_outl_def demo_inl_def)
qed

end
