(* ===== verification/SVGA_3D.thy ===== *)
theory SVGA_3D
  imports SVGA_Sync
begin

text \<open>
  The class \<open>SVGA3D\<close> (\<open>src/AC/SVGA3D.cpp\<close>, structures of \<open>src/ceinclude/svga3d_reg.h\<close> and
  \<open>src/ceinclude/svga_reg.h\<close>).  Every method reserves a command with a header of id and size,
  stores its fields and either commits or hands the variable part to its caller, who stores it
  and commits.  A structure is a record with the list of its dwords; a \<open>float\<close> is its bit
  pattern.  The lemmas show which dwords each method sends, and that the size in the header is the
  size of the body.
\<close>

section \<open>Structures\<close>

record SVGA3dSurfaceImageId =
  im_sid :: u32
  im_face :: u32
  im_mipmap :: u32

definition image_words :: "SVGA3dSurfaceImageId \<Rightarrow> u32 list" where
  "image_words i = [im_sid i, im_face i, im_mipmap i]"

record SVGAGuestPtr =
  gp_gmrId :: u32
  gp_offset :: u32

record SVGA3dGuestImage =
  gi_ptr :: SVGAGuestPtr
  gi_pitch :: u32

definition guest_words :: "SVGA3dGuestImage \<Rightarrow> u32 list" where
  "guest_words g = [gp_gmrId (gi_ptr g), gp_offset (gi_ptr g), gi_pitch g]"

record SVGA3dBox =
  bx_x :: u32
  bx_y :: u32
  bx_z :: u32
  bx_w :: u32
  bx_h :: u32
  bx_d :: u32

definition box_words :: "SVGA3dBox \<Rightarrow> u32 list" where
  "box_words b = [bx_x b, bx_y b, bx_z b, bx_w b, bx_h b, bx_d b]"

record SVGA3dCopyBox =
  cb_x :: u32
  cb_y :: u32
  cb_z :: u32
  cb_w :: u32
  cb_h :: u32
  cb_d :: u32
  cb_srcx :: u32
  cb_srcy :: u32
  cb_srcz :: u32

definition copybox_words :: "SVGA3dCopyBox \<Rightarrow> u32 list" where
  "copybox_words b =
     [cb_x b, cb_y b, cb_z b, cb_w b, cb_h b, cb_d b, cb_srcx b, cb_srcy b, cb_srcz b]"

record SVGA3dCopyRect =
  cr_x :: u32
  cr_y :: u32
  cr_w :: u32
  cr_h :: u32
  cr_srcx :: u32
  cr_srcy :: u32

definition copyrect_words :: "SVGA3dCopyRect \<Rightarrow> u32 list" where
  "copyrect_words r = [cr_x r, cr_y r, cr_w r, cr_h r, cr_srcx r, cr_srcy r]"

record SVGA3dRect =
  rc_x :: u32
  rc_y :: u32
  rc_w :: u32
  rc_h :: u32

definition rect_words :: "SVGA3dRect \<Rightarrow> u32 list" where
  "rect_words r = [rc_x r, rc_y r, rc_w r, rc_h r]"

record SVGASignedRect =
  sr_left :: u32
  sr_top :: u32
  sr_right :: u32
  sr_bottom :: u32

definition signed_rect_words :: "SVGASignedRect \<Rightarrow> u32 list" where
  "signed_rect_words r = [sr_left r, sr_top r, sr_right r, sr_bottom r]"

record SVGASignedPoint =
  sp_x :: u32
  sp_y :: u32

definition signed_point_words :: "SVGASignedPoint \<Rightarrow> u32 list" where
  "signed_point_words p = [sp_x p, sp_y p]"

record SVGA3dSize =
  sz_width :: u32
  sz_height :: u32
  sz_depth :: u32

definition size_words :: "SVGA3dSize \<Rightarrow> u32 list" where
  "size_words z = [sz_width z, sz_height z, sz_depth z]"

lemmas struct_words =
  image_words_def guest_words_def box_words_def copybox_words_def copyrect_words_def
  rect_words_def signed_rect_words_def signed_point_words_def size_words_def

section \<open>Command identifiers\<close>

datatype svga3d_cmd =
    SVGA_3D_CMD_SURFACE_DEFINE | SVGA_3D_CMD_SURFACE_DESTROY | SVGA_3D_CMD_SURFACE_COPY
  | SVGA_3D_CMD_SURFACE_STRETCHBLT | SVGA_3D_CMD_SURFACE_DMA | SVGA_3D_CMD_CONTEXT_DEFINE
  | SVGA_3D_CMD_CONTEXT_DESTROY | SVGA_3D_CMD_SETTRANSFORM | SVGA_3D_CMD_SETZRANGE
  | SVGA_3D_CMD_SETRENDERSTATE | SVGA_3D_CMD_SETRENDERTARGET | SVGA_3D_CMD_SETTEXTURESTATE
  | SVGA_3D_CMD_SETMATERIAL | SVGA_3D_CMD_SETLIGHTDATA | SVGA_3D_CMD_SETLIGHTENABLED
  | SVGA_3D_CMD_SETVIEWPORT | SVGA_3D_CMD_SETCLIPPLANE | SVGA_3D_CMD_CLEAR | SVGA_3D_CMD_PRESENT
  | SVGA_3D_CMD_SHADER_DEFINE | SVGA_3D_CMD_SHADER_DESTROY | SVGA_3D_CMD_SET_SHADER
  | SVGA_3D_CMD_SET_SHADER_CONST | SVGA_3D_CMD_DRAW_PRIMITIVES | SVGA_3D_CMD_SETSCISSORRECT
  | SVGA_3D_CMD_BEGIN_QUERY | SVGA_3D_CMD_END_QUERY | SVGA_3D_CMD_WAIT_FOR_QUERY
  | SVGA_3D_CMD_PRESENT_READBACK | SVGA_3D_CMD_BLIT_SURFACE_TO_SCREEN

abbreviation (input) SVGA_3D_CMD_BASE :: u32 where "SVGA_3D_CMD_BASE \<equiv> 1040"

primrec cmd_id :: "svga3d_cmd \<Rightarrow> u32" where
  "cmd_id SVGA_3D_CMD_SURFACE_DEFINE = SVGA_3D_CMD_BASE + 0"
| "cmd_id SVGA_3D_CMD_SURFACE_DESTROY = SVGA_3D_CMD_BASE + 1"
| "cmd_id SVGA_3D_CMD_SURFACE_COPY = SVGA_3D_CMD_BASE + 2"
| "cmd_id SVGA_3D_CMD_SURFACE_STRETCHBLT = SVGA_3D_CMD_BASE + 3"
| "cmd_id SVGA_3D_CMD_SURFACE_DMA = SVGA_3D_CMD_BASE + 4"
| "cmd_id SVGA_3D_CMD_CONTEXT_DEFINE = SVGA_3D_CMD_BASE + 5"
| "cmd_id SVGA_3D_CMD_CONTEXT_DESTROY = SVGA_3D_CMD_BASE + 6"
| "cmd_id SVGA_3D_CMD_SETTRANSFORM = SVGA_3D_CMD_BASE + 7"
| "cmd_id SVGA_3D_CMD_SETZRANGE = SVGA_3D_CMD_BASE + 8"
| "cmd_id SVGA_3D_CMD_SETRENDERSTATE = SVGA_3D_CMD_BASE + 9"
| "cmd_id SVGA_3D_CMD_SETRENDERTARGET = SVGA_3D_CMD_BASE + 10"
| "cmd_id SVGA_3D_CMD_SETTEXTURESTATE = SVGA_3D_CMD_BASE + 11"
| "cmd_id SVGA_3D_CMD_SETMATERIAL = SVGA_3D_CMD_BASE + 12"
| "cmd_id SVGA_3D_CMD_SETLIGHTDATA = SVGA_3D_CMD_BASE + 13"
| "cmd_id SVGA_3D_CMD_SETLIGHTENABLED = SVGA_3D_CMD_BASE + 14"
| "cmd_id SVGA_3D_CMD_SETVIEWPORT = SVGA_3D_CMD_BASE + 15"
| "cmd_id SVGA_3D_CMD_SETCLIPPLANE = SVGA_3D_CMD_BASE + 16"
| "cmd_id SVGA_3D_CMD_CLEAR = SVGA_3D_CMD_BASE + 17"
| "cmd_id SVGA_3D_CMD_PRESENT = SVGA_3D_CMD_BASE + 18"
| "cmd_id SVGA_3D_CMD_SHADER_DEFINE = SVGA_3D_CMD_BASE + 19"
| "cmd_id SVGA_3D_CMD_SHADER_DESTROY = SVGA_3D_CMD_BASE + 20"
| "cmd_id SVGA_3D_CMD_SET_SHADER = SVGA_3D_CMD_BASE + 21"
| "cmd_id SVGA_3D_CMD_SET_SHADER_CONST = SVGA_3D_CMD_BASE + 22"
| "cmd_id SVGA_3D_CMD_DRAW_PRIMITIVES = SVGA_3D_CMD_BASE + 23"
| "cmd_id SVGA_3D_CMD_SETSCISSORRECT = SVGA_3D_CMD_BASE + 24"
| "cmd_id SVGA_3D_CMD_BEGIN_QUERY = SVGA_3D_CMD_BASE + 25"
| "cmd_id SVGA_3D_CMD_END_QUERY = SVGA_3D_CMD_BASE + 26"
| "cmd_id SVGA_3D_CMD_WAIT_FOR_QUERY = SVGA_3D_CMD_BASE + 27"
| "cmd_id SVGA_3D_CMD_PRESENT_READBACK = SVGA_3D_CMD_BASE + 28"
| "cmd_id SVGA_3D_CMD_BLIT_SURFACE_TO_SCREEN = SVGA_3D_CMD_BASE + 29"

abbreviation (input) SVGA3D_HWVERSION_WS65_B1 :: u32 where "SVGA3D_HWVERSION_WS65_B1 \<equiv> 0x20000"
abbreviation (input) SVGA3D_CONST_TYPE_FLOAT :: u32 where "SVGA3D_CONST_TYPE_FLOAT \<equiv> 0"
abbreviation (input) SVGA3D_CONST_TYPE_INT :: u32 where "SVGA3D_CONST_TYPE_INT \<equiv> 1"
abbreviation (input) SVGA3D_CONST_TYPE_BOOL :: u32 where "SVGA3D_CONST_TYPE_BOOL \<equiv> 2"
abbreviation (input) SVGA3D_MAX_SURFACE_FACES :: nat where "SVGA3D_MAX_SURFACE_FACES \<equiv> 6"

section \<open>Reserving\<close>

text \<open>\<open>Init\<close> returns whether 3D can be used, and the version it stores in \<open>HWVersion\<close>.\<close>

definition SVGA3D_Init :: "'h SVGADevice option \<Rightarrow> bool \<times> u32" where
  "SVGA3D_Init device =
     (case device of
        None \<Rightarrow> (False, 0)
      | Some d \<Rightarrow>
          if \<not> HasCapability SVGA_CAP_EXTENDED_FIFO d then (False, 0)
          else case get3DHWVersion True d of
              None \<Rightarrow> (False, 0)
            | Some v \<Rightarrow>
                if v = 0 then (False, v)
                else if v < SVGA3D_HWVERSION_WS65_B1 then (False, v)
                else (True, v))"

definition SVGA3D_FIFOReserve ::
  "svga3d_cmd \<Rightarrow> u64 \<Rightarrow> 'h SVGADevice \<Rightarrow> (fptr option \<times> 'h SVGADevice) option" where
  "SVGA3D_FIFOReserve cmd cmdSize s =
     do {
       (header, s) \<leftarrow> FIFOReserve (8 + cmdSize) s;
       case header of
         None \<Rightarrow> Some (None, s)
       | Some p \<Rightarrow> Some (Some (fptr_add p 2), poke p [cmd_id cmd, ucast cmdSize] s)
     }"

text \<open>
  What the \<open>Begin\<close> methods do with the pointer of their reservation: store the fields \<open>us\<close>,
  clear the \<open>n\<close> dwords behind them, and hand out a pointer to these.
\<close>

fun begin_fill ::
  "u32 list \<Rightarrow> nat \<Rightarrow> fptr option \<times> 'h SVGADevice \<Rightarrow> fptr option \<times> 'h SVGADevice" where
  "begin_fill us n (None, s) = (None, s)"
| "begin_fill us n (Some p, s) =
     (let q = fptr_add p (length us) in (Some q, poke q (replicate n 0) (poke p us s)))"

section \<open>Surfaces and contexts\<close>

text \<open>
  \<open>BeginDefineSurface\<close> hands out the six faces and, behind them, the mip sizes.  The sizes in
  bytes are computed in \<open>size_t\<close>.
\<close>

definition BeginDefineSurface ::
  "u32 \<Rightarrow> u32 \<Rightarrow> u32 \<Rightarrow> u64 \<Rightarrow> 'h SVGADevice \<Rightarrow> ((fptr \<times> fptr) option \<times> 'h SVGADevice) option" where
  "BeginDefineSurface sid flags format numMipSizes s =
     map_option (\<lambda>r.
       let (faces, s) = begin_fill [sid, flags, format]
                          (SVGA3D_MAX_SURFACE_FACES + unat (12 * numMipSizes) div 4) r
       in (map_option (\<lambda>f. (f, fptr_add f SVGA3D_MAX_SURFACE_FACES)) faces, s))
     (SVGA3D_FIFOReserve SVGA_3D_CMD_SURFACE_DEFINE (36 + 12 * numMipSizes) s)"

definition DestroySurface :: "u32 \<Rightarrow> 'h SVGADevice \<Rightarrow> (bool \<times> 'h SVGADevice) option" where
  "DestroySurface sid s =
     map_option (fill_commit [sid]) (SVGA3D_FIFOReserve SVGA_3D_CMD_SURFACE_DESTROY 4 s)"

definition BeginSurfaceDMA ::
  "SVGA3dGuestImage \<Rightarrow> SVGA3dSurfaceImageId \<Rightarrow> u32 \<Rightarrow> u64 \<Rightarrow> 'h SVGADevice \<Rightarrow>
   (fptr option \<times> 'h SVGADevice) option" where
  "BeginSurfaceDMA guestImage hostImage transfer numBoxes s =
     (let boxesSize = 36 * numBoxes in
      map_option (begin_fill (guest_words guestImage @ image_words hostImage @ [transfer])
                    (unat boxesSize div 4))
        (SVGA3D_FIFOReserve SVGA_3D_CMD_SURFACE_DMA (28 + boxesSize) s))"

text \<open>The suffix of three dwords is stored behind the cleared boxes.\<close>

definition BeginSurfaceDMAwithSuffix ::
  "SVGA3dGuestImage \<Rightarrow> SVGA3dSurfaceImageId \<Rightarrow> u32 \<Rightarrow> u64 \<Rightarrow> u32 \<Rightarrow> u32 \<Rightarrow> 'h SVGADevice \<Rightarrow>
   (fptr option \<times> 'h SVGADevice) option" where
  "BeginSurfaceDMAwithSuffix guestImage hostImage transfer numBoxes maximumOffset flags s =
     (let boxesSize = 36 * numBoxes in
      map_option (\<lambda>r.
        case begin_fill (guest_words guestImage @ image_words hostImage @ [transfer])
               (unat boxesSize div 4) r of
          (None, s) \<Rightarrow> (None, s)
        | (Some boxes, s) \<Rightarrow>
            (Some boxes, poke (fptr_add boxes (unat boxesSize div 4)) [12, maximumOffset, flags] s))
        (SVGA3D_FIFOReserve SVGA_3D_CMD_SURFACE_DMA (28 + boxesSize + 12) s))"

definition DefineContext :: "u32 \<Rightarrow> 'h SVGADevice \<Rightarrow> (bool \<times> 'h SVGADevice) option" where
  "DefineContext cid s =
     map_option (fill_commit [cid]) (SVGA3D_FIFOReserve SVGA_3D_CMD_CONTEXT_DEFINE 4 s)"

definition DestroyContext :: "u32 \<Rightarrow> 'h SVGADevice \<Rightarrow> (bool \<times> 'h SVGADevice) option" where
  "DestroyContext cid s =
     map_option (fill_commit [cid]) (SVGA3D_FIFOReserve SVGA_3D_CMD_CONTEXT_DESTROY 4 s)"

section \<open>Render state\<close>

definition SetRenderTarget ::
  "u32 \<Rightarrow> u32 \<Rightarrow> SVGA3dSurfaceImageId \<Rightarrow> 'h SVGADevice \<Rightarrow> (bool \<times> 'h SVGADevice) option" where
  "SetRenderTarget cid type target s =
     map_option (fill_commit ([cid, type] @ image_words target))
       (SVGA3D_FIFOReserve SVGA_3D_CMD_SETRENDERTARGET 20 s)"

definition SetTransform ::
  "u32 \<Rightarrow> u32 \<Rightarrow> (nat \<Rightarrow> u32) \<Rightarrow> 'h SVGADevice \<Rightarrow> (bool \<times> 'h SVGADevice) option" where
  "SetTransform cid type matrix s =
     map_option (fill_commit ([cid, type] @ map matrix [0..<16]))
       (SVGA3D_FIFOReserve SVGA_3D_CMD_SETTRANSFORM 72 s)"

definition SetMaterial ::
  "u32 \<Rightarrow> u32 \<Rightarrow> (nat \<Rightarrow> u32) \<Rightarrow> 'h SVGADevice \<Rightarrow> (bool \<times> 'h SVGADevice) option" where
  "SetMaterial cid face material s =
     map_option (fill_commit ([cid, face] @ map material [0..<17]))
       (SVGA3D_FIFOReserve SVGA_3D_CMD_SETMATERIAL 76 s)"

definition SetLightEnabled ::
  "u32 \<Rightarrow> u32 \<Rightarrow> bool \<Rightarrow> 'h SVGADevice \<Rightarrow> (bool \<times> 'h SVGADevice) option" where
  "SetLightEnabled cid index enabled s =
     map_option (fill_commit [cid, index, of_bool enabled])
       (SVGA3D_FIFOReserve SVGA_3D_CMD_SETLIGHTENABLED 12 s)"

definition SetLightData ::
  "u32 \<Rightarrow> u32 \<Rightarrow> (nat \<Rightarrow> u32) \<Rightarrow> 'h SVGADevice \<Rightarrow> (bool \<times> 'h SVGADevice) option" where
  "SetLightData cid index data s =
     map_option (fill_commit ([cid, index] @ map data [0..<29]))
       (SVGA3D_FIFOReserve SVGA_3D_CMD_SETLIGHTDATA 124 s)"

section \<open>Shaders\<close>

definition DefineShader ::
  "u32 \<Rightarrow> u32 \<Rightarrow> u32 \<Rightarrow> (nat \<Rightarrow> u32) \<Rightarrow> u64 \<Rightarrow> 'h SVGADevice \<Rightarrow> (IOReturn \<times> 'h SVGADevice) option" where
  "DefineShader cid shid type bytecode bytecodeLen s =
     (if bytecodeLen AND 3 \<noteq> 0 then Some (kIOReturnBadArgument, s)
      else map_option (\<lambda>(ok, s). (if ok then kIOReturnSuccess else kIOReturnNoMemory, s))
             (map_option (fill_commit ([cid, shid, type] @ map bytecode [0..<unat bytecodeLen div 4]))
               (SVGA3D_FIFOReserve SVGA_3D_CMD_SHADER_DEFINE (12 + bytecodeLen) s)))"

definition DestroyShader ::
  "u32 \<Rightarrow> u32 \<Rightarrow> u32 \<Rightarrow> 'h SVGADevice \<Rightarrow> (bool \<times> 'h SVGADevice) option" where
  "DestroyShader cid shid type s =
     map_option (fill_commit [cid, shid, type])
       (SVGA3D_FIFOReserve SVGA_3D_CMD_SHADER_DESTROY 12 s)"

text \<open>
  A constant of an unknown type is abandoned by committing nothing.  The fields of the command
  are stored first in every case.
\<close>

definition SetShaderConst ::
  "u32 \<Rightarrow> u32 \<Rightarrow> u32 \<Rightarrow> u32 \<Rightarrow> (nat \<Rightarrow> u32) \<Rightarrow> 'h SVGADevice \<Rightarrow> (IOReturn \<times> 'h SVGADevice) option" where
  "SetShaderConst cid reg type ctype v s =
     do {
       (cmd, s) \<leftarrow> SVGA3D_FIFOReserve SVGA_3D_CMD_SET_SHADER_CONST 32 s;
       case cmd of
         None \<Rightarrow> Some (kIOReturnNoMemory, s)
       | Some p \<Rightarrow>
           let s = poke p [cid, reg, type, ctype] s;
               q = fptr_add p 4
           in if ctype = SVGA3D_CONST_TYPE_FLOAT \<or> ctype = SVGA3D_CONST_TYPE_INT
              then Some (kIOReturnSuccess, FIFOCommitAll (poke q (map v [0..<4]) s))
              else if ctype = SVGA3D_CONST_TYPE_BOOL
              then Some (kIOReturnSuccess,
                     FIFOCommitAll (poke q [v 0] (poke q (replicate 4 0) s)))
              else Some (kIOReturnBadArgument, FIFOCommit 0 s)
     }"

definition SetShader ::
  "u32 \<Rightarrow> u32 \<Rightarrow> u32 \<Rightarrow> 'h SVGADevice \<Rightarrow> (bool \<times> 'h SVGADevice) option" where
  "SetShader cid type shid s =
     map_option (fill_commit [cid, type, shid])
       (SVGA3D_FIFOReserve SVGA_3D_CMD_SET_SHADER 12 s)"

section \<open>Presenting, clearing and drawing\<close>

definition BeginPresent ::
  "u32 \<Rightarrow> u64 \<Rightarrow> 'h SVGADevice \<Rightarrow> (fptr option \<times> 'h SVGADevice) option" where
  "BeginPresent sid numRects s =
     map_option (begin_fill [sid] 0)
       (SVGA3D_FIFOReserve SVGA_3D_CMD_PRESENT (4 + 24 * numRects) s)"

definition BeginClear ::
  "u32 \<Rightarrow> u32 \<Rightarrow> u32 \<Rightarrow> u32 \<Rightarrow> u32 \<Rightarrow> u64 \<Rightarrow> 'h SVGADevice \<Rightarrow> (fptr option \<times> 'h SVGADevice) option" where
  "BeginClear cid flags color depth stencil numRects s =
     map_option (begin_fill [cid, flags, color, depth, stencil] 0)
       (SVGA3D_FIFOReserve SVGA_3D_CMD_CLEAR (20 + 16 * numRects) s)"

text \<open>A vertex declaration has nine dwords, a primitive range has seven.\<close>

definition BeginDrawPrimitives ::
  "u32 \<Rightarrow> u64 \<Rightarrow> u64 \<Rightarrow> 'h SVGADevice \<Rightarrow> ((fptr \<times> fptr) option \<times> 'h SVGADevice) option" where
  "BeginDrawPrimitives cid numVertexDecls numRanges s =
     (let declSize = 36 * numVertexDecls;
          rangeSize = 28 * numRanges
      in map_option (\<lambda>r.
           let (decls, s) = begin_fill [cid, ucast numVertexDecls, ucast numRanges]
                              (unat declSize div 4 + unat rangeSize div 4) r
           in (map_option (\<lambda>d. (d, fptr_add d (unat declSize div 4))) decls, s))
         (SVGA3D_FIFOReserve SVGA_3D_CMD_DRAW_PRIMITIVES (12 + declSize + rangeSize) s))"

definition BeginSurfaceCopy ::
  "SVGA3dSurfaceImageId \<Rightarrow> SVGA3dSurfaceImageId \<Rightarrow> u64 \<Rightarrow> 'h SVGADevice \<Rightarrow>
   (fptr option \<times> 'h SVGADevice) option" where
  "BeginSurfaceCopy src dest numBoxes s =
     (let boxesSize = 36 * numBoxes in
      map_option (begin_fill (image_words src @ image_words dest) (unat boxesSize div 4))
        (SVGA3D_FIFOReserve SVGA_3D_CMD_SURFACE_COPY (24 + boxesSize) s))"

definition SurfaceStretchBlt ::
  "SVGA3dSurfaceImageId \<Rightarrow> SVGA3dSurfaceImageId \<Rightarrow> SVGA3dBox \<Rightarrow> SVGA3dBox \<Rightarrow> u32 \<Rightarrow> 'h SVGADevice \<Rightarrow>
   (bool \<times> 'h SVGADevice) option" where
  "SurfaceStretchBlt src dest boxSrc boxDest mode s =
     map_option (fill_commit (image_words src @ image_words dest @ box_words boxSrc @
                              box_words boxDest @ [mode]))
       (SVGA3D_FIFOReserve SVGA_3D_CMD_SURFACE_STRETCHBLT 76 s)"

definition SetViewport ::
  "u32 \<Rightarrow> SVGA3dRect \<Rightarrow> 'h SVGADevice \<Rightarrow> (bool \<times> 'h SVGADevice) option" where
  "SetViewport cid rect s =
     map_option (fill_commit (cid # rect_words rect))
       (SVGA3D_FIFOReserve SVGA_3D_CMD_SETVIEWPORT 20 s)"

definition SetScissorRect ::
  "u32 \<Rightarrow> SVGA3dRect \<Rightarrow> 'h SVGADevice \<Rightarrow> (bool \<times> 'h SVGADevice) option" where
  "SetScissorRect cid rect s =
     map_option (fill_commit (cid # rect_words rect))
       (SVGA3D_FIFOReserve SVGA_3D_CMD_SETSCISSORRECT 20 s)"

definition SetZRange ::
  "u32 \<Rightarrow> u32 \<Rightarrow> u32 \<Rightarrow> 'h SVGADevice \<Rightarrow> (bool \<times> 'h SVGADevice) option" where
  "SetZRange cid zMin zMax s =
     map_option (fill_commit [cid, zMin, zMax]) (SVGA3D_FIFOReserve SVGA_3D_CMD_SETZRANGE 12 s)"

definition SetClipPlane ::
  "u32 \<Rightarrow> u32 \<Rightarrow> (nat \<Rightarrow> u32) \<Rightarrow> 'h SVGADevice \<Rightarrow> (bool \<times> 'h SVGADevice) option" where
  "SetClipPlane cid index plane s =
     map_option (fill_commit ([cid, index] @ map plane [0..<4]))
       (SVGA3D_FIFOReserve SVGA_3D_CMD_SETCLIPPLANE 24 s)"

definition BeginSetTextureState ::
  "u32 \<Rightarrow> u64 \<Rightarrow> 'h SVGADevice \<Rightarrow> (fptr option \<times> 'h SVGADevice) option" where
  "BeginSetTextureState cid numStates s =
     map_option (begin_fill [cid] 0)
       (SVGA3D_FIFOReserve SVGA_3D_CMD_SETTEXTURESTATE (4 + 12 * numStates) s)"

definition BeginSetRenderState ::
  "u32 \<Rightarrow> u64 \<Rightarrow> 'h SVGADevice \<Rightarrow> (fptr option \<times> 'h SVGADevice) option" where
  "BeginSetRenderState cid numStates s =
     map_option (begin_fill [cid] 0)
       (SVGA3D_FIFOReserve SVGA_3D_CMD_SETRENDERSTATE (4 + 8 * numStates) s)"

definition BeginPresentReadback ::
  "u64 \<Rightarrow> 'h SVGADevice \<Rightarrow> (fptr option \<times> 'h SVGADevice) option" where
  "BeginPresentReadback numRects s =
     map_option (begin_fill [] 0)
       (SVGA3D_FIFOReserve SVGA_3D_CMD_PRESENT_READBACK (16 * numRects) s)"

text \<open>The number of clip rectangles is a 32-bit count that is multiplied in \<open>size_t\<close>.\<close>

definition BeginBlitSurfaceToScreen ::
  "SVGA3dSurfaceImageId \<Rightarrow> SVGASignedRect \<Rightarrow> u32 \<Rightarrow> SVGASignedRect \<Rightarrow> u32 \<Rightarrow> 'h SVGADevice \<Rightarrow>
   (fptr option \<times> 'h SVGADevice) option" where
  "BeginBlitSurfaceToScreen srcImage srcRect destScreenId destRect numClipRects s =
     map_option (begin_fill (image_words srcImage @ signed_rect_words srcRect @ [destScreenId] @
                             signed_rect_words destRect) 0)
       (SVGA3D_FIFOReserve SVGA_3D_CMD_BLIT_SURFACE_TO_SCREEN (48 + ucast numClipRects * 16) s)"

section \<open>Queries\<close>

definition BeginQuery :: "u32 \<Rightarrow> u32 \<Rightarrow> 'h SVGADevice \<Rightarrow> (bool \<times> 'h SVGADevice) option" where
  "BeginQuery cid qtype s =
     map_option (fill_commit [cid, qtype]) (SVGA3D_FIFOReserve SVGA_3D_CMD_BEGIN_QUERY 8 s)"

definition EndQuery ::
  "u32 \<Rightarrow> u32 \<Rightarrow> u32 \<Rightarrow> u32 \<Rightarrow> 'h SVGADevice \<Rightarrow> (bool \<times> 'h SVGADevice) option" where
  "EndQuery cid qtype gmrid offset_in_gmr s =
     map_option (fill_commit [cid, qtype, gmrid, offset_in_gmr])
       (SVGA3D_FIFOReserve SVGA_3D_CMD_END_QUERY 16 s)"

definition WaitForQuery ::
  "u32 \<Rightarrow> u32 \<Rightarrow> u32 \<Rightarrow> u32 \<Rightarrow> 'h SVGADevice \<Rightarrow> (bool \<times> 'h SVGADevice) option" where
  "WaitForQuery cid qtype gmrid offset_in_gmr s =
     map_option (fill_commit [cid, qtype, gmrid, offset_in_gmr])
       (SVGA3D_FIFOReserve SVGA_3D_CMD_WAIT_FOR_QUERY 16 s)"

section \<open>The commands as messages\<close>

text \<open>
  The abstract syntax of the commands, with the variable parts that the callers of the
  \<open>Begin\<close> methods store.
\<close>

datatype SVGA3dCommand =
    DefineSurfaceC u32 u32 u32 "u32 list" "SVGA3dSize list"
  | DestroySurfaceC u32
  | SurfaceDMAC SVGA3dGuestImage SVGA3dSurfaceImageId u32 "SVGA3dCopyBox list"
  | SurfaceDMASuffixC SVGA3dGuestImage SVGA3dSurfaceImageId u32 "SVGA3dCopyBox list" u32 u32
  | DefineContextC u32
  | DestroyContextC u32
  | SetRenderTargetC u32 u32 SVGA3dSurfaceImageId
  | SetTransformC u32 u32 "nat \<Rightarrow> u32"
  | SetMaterialC u32 u32 "nat \<Rightarrow> u32"
  | SetLightEnabledC u32 u32 bool
  | SetLightDataC u32 u32 "nat \<Rightarrow> u32"
  | DefineShaderC u32 u32 u32 "u32 list"
  | DestroyShaderC u32 u32 u32
  | SetShaderConstC u32 u32 u32 u32 "nat \<Rightarrow> u32"
  | SetShaderC u32 u32 u32
  | PresentC u32 "SVGA3dCopyRect list"
  | ClearC u32 u32 u32 u32 u32 "SVGA3dRect list"
  | DrawPrimitivesC u32 "u32 list list" "u32 list list"
  | SurfaceCopyC SVGA3dSurfaceImageId SVGA3dSurfaceImageId "SVGA3dCopyBox list"
  | StretchBltC SVGA3dSurfaceImageId SVGA3dSurfaceImageId SVGA3dBox SVGA3dBox u32
  | SetViewportC u32 SVGA3dRect
  | SetScissorRectC u32 SVGA3dRect
  | SetZRangeC u32 u32 u32
  | SetClipPlaneC u32 u32 "nat \<Rightarrow> u32"
  | SetTextureStateC u32 "(u32 \<times> u32 \<times> u32) list"
  | SetRenderStateC u32 "(u32 \<times> u32) list"
  | PresentReadbackC "SVGA3dRect list"
  | BlitSurfaceToScreenC SVGA3dSurfaceImageId SVGASignedRect u32 SVGASignedRect "SVGASignedRect list"
  | BeginQueryC u32 u32
  | EndQueryC u32 u32 u32 u32
  | WaitForQueryC u32 u32 u32 u32

definition texstate_words :: "(u32 \<times> u32 \<times> u32) list \<Rightarrow> u32 list" where
  "texstate_words ts = concat (map (\<lambda>(st, n, v). [st, n, v]) ts)"

definition renderstate_words :: "(u32 \<times> u32) list \<Rightarrow> u32 list" where
  "renderstate_words ts = concat (map (\<lambda>(st, v). [st, v]) ts)"

text \<open>The identifier and the body of each command.\<close>

primrec command_body :: "SVGA3dCommand \<Rightarrow> svga3d_cmd \<times> u32 list" where
  "command_body (DefineSurfaceC sid fl fmt fs ms) =
     (SVGA_3D_CMD_SURFACE_DEFINE, [sid, fl, fmt] @ fs @ concat (map size_words ms))"
| "command_body (DestroySurfaceC sid) = (SVGA_3D_CMD_SURFACE_DESTROY, [sid])"
| "command_body (SurfaceDMAC g i t bs) =
     (SVGA_3D_CMD_SURFACE_DMA,
      guest_words g @ image_words i @ [t] @ concat (map copybox_words bs))"
| "command_body (SurfaceDMASuffixC g i t bs mo fl) =
     (SVGA_3D_CMD_SURFACE_DMA,
      guest_words g @ image_words i @ [t] @ concat (map copybox_words bs) @ [12, mo, fl])"
| "command_body (DefineContextC cid) = (SVGA_3D_CMD_CONTEXT_DEFINE, [cid])"
| "command_body (DestroyContextC cid) = (SVGA_3D_CMD_CONTEXT_DESTROY, [cid])"
| "command_body (SetRenderTargetC cid ty i) =
     (SVGA_3D_CMD_SETRENDERTARGET, [cid, ty] @ image_words i)"
| "command_body (SetTransformC cid ty f) =
     (SVGA_3D_CMD_SETTRANSFORM, [cid, ty] @ map f [0..<16])"
| "command_body (SetMaterialC cid fc f) = (SVGA_3D_CMD_SETMATERIAL, [cid, fc] @ map f [0..<17])"
| "command_body (SetLightEnabledC cid ix b) =
     (SVGA_3D_CMD_SETLIGHTENABLED, [cid, ix, of_bool b])"
| "command_body (SetLightDataC cid ix f) = (SVGA_3D_CMD_SETLIGHTDATA, [cid, ix] @ map f [0..<29])"
| "command_body (DefineShaderC cid sh ty code) = (SVGA_3D_CMD_SHADER_DEFINE, [cid, sh, ty] @ code)"
| "command_body (SetShaderConstC cid reg ty ct v) =
     (SVGA_3D_CMD_SET_SHADER_CONST, [cid, reg, ty, ct] @
      (if ct = SVGA3D_CONST_TYPE_BOOL then [v 0, 0, 0, 0] else map v [0..<4]))"
| "command_body (DestroyShaderC cid sh ty) = (SVGA_3D_CMD_SHADER_DESTROY, [cid, sh, ty])"
| "command_body (SetShaderC cid ty sh) = (SVGA_3D_CMD_SET_SHADER, [cid, ty, sh])"
| "command_body (PresentC sid rs) = (SVGA_3D_CMD_PRESENT, [sid] @ concat (map copyrect_words rs))"
| "command_body (ClearC cid fl co de st rs) =
     (SVGA_3D_CMD_CLEAR, [cid, fl, co, de, st] @ concat (map rect_words rs))"
| "command_body (DrawPrimitivesC cid ds rs) =
     (SVGA_3D_CMD_DRAW_PRIMITIVES,
      [cid, of_nat (length ds), of_nat (length rs)] @ concat ds @ concat rs)"
| "command_body (SurfaceCopyC i j bs) =
     (SVGA_3D_CMD_SURFACE_COPY, image_words i @ image_words j @ concat (map copybox_words bs))"
| "command_body (StretchBltC i j b c m) =
     (SVGA_3D_CMD_SURFACE_STRETCHBLT,
      image_words i @ image_words j @ box_words b @ box_words c @ [m])"
| "command_body (SetViewportC cid r) = (SVGA_3D_CMD_SETVIEWPORT, cid # rect_words r)"
| "command_body (SetScissorRectC cid r) = (SVGA_3D_CMD_SETSCISSORRECT, cid # rect_words r)"
| "command_body (SetZRangeC cid a b) = (SVGA_3D_CMD_SETZRANGE, [cid, a, b])"
| "command_body (SetClipPlaneC cid ix f) = (SVGA_3D_CMD_SETCLIPPLANE, [cid, ix] @ map f [0..<4])"
| "command_body (SetTextureStateC cid ts) = (SVGA_3D_CMD_SETTEXTURESTATE, [cid] @ texstate_words ts)"
| "command_body (SetRenderStateC cid ts) = (SVGA_3D_CMD_SETRENDERSTATE, [cid] @ renderstate_words ts)"
| "command_body (PresentReadbackC rs) = (SVGA_3D_CMD_PRESENT_READBACK, concat (map rect_words rs))"
| "command_body (BlitSurfaceToScreenC i r d q cs) =
     (SVGA_3D_CMD_BLIT_SURFACE_TO_SCREEN, image_words i @ signed_rect_words r @ [d] @
      signed_rect_words q @ concat (map signed_rect_words cs))"
| "command_body (BeginQueryC cid ty) = (SVGA_3D_CMD_BEGIN_QUERY, [cid, ty])"
| "command_body (EndQueryC cid ty g off) = (SVGA_3D_CMD_END_QUERY, [cid, ty, g, off])"
| "command_body (WaitForQueryC cid ty g off) = (SVGA_3D_CMD_WAIT_FOR_QUERY, [cid, ty, g, off])"

text \<open>The complete message: header of id and size in bytes, then the body.\<close>

definition command_words :: "SVGA3dCommand \<Rightarrow> u32 list" where
  "command_words c =
     (case command_body c of (i, ws) \<Rightarrow> cmd_id i # of_nat (4 * length ws) # ws)"

text \<open>
  What the argument lists must satisfy to be arrays of the C++ structures; a shader constant has one of the three known
  types.
\<close>

primrec command_wf :: "SVGA3dCommand \<Rightarrow> bool" where
  "command_wf (DefineSurfaceC sid fl fmt fs ms) \<longleftrightarrow> length fs = SVGA3D_MAX_SURFACE_FACES"
| "command_wf (DrawPrimitivesC cid ds rs) \<longleftrightarrow>
     (\<forall>d \<in> set ds. length d = 9) \<and> (\<forall>r \<in> set rs. length r = 7)"
| "command_wf (DestroySurfaceC sid) = True"
| "command_wf (SurfaceDMAC g i t bs) = True"
| "command_wf (SurfaceDMASuffixC g i t bs mo fl) = True"
| "command_wf (DefineContextC cid) = True"
| "command_wf (DestroyContextC cid) = True"
| "command_wf (SetRenderTargetC cid ty i) = True"
| "command_wf (SetTransformC cid ty f) = True"
| "command_wf (SetMaterialC cid fc f) = True"
| "command_wf (SetLightEnabledC cid ix b) = True"
| "command_wf (SetLightDataC cid ix f) = True"
| "command_wf (DefineShaderC cid sh ty code) = True"
| "command_wf (SetShaderConstC cid reg ty ct v) \<longleftrightarrow>
     ct = SVGA3D_CONST_TYPE_FLOAT \<or> ct = SVGA3D_CONST_TYPE_INT \<or> ct = SVGA3D_CONST_TYPE_BOOL"
| "command_wf (DestroyShaderC cid sh ty) = True"
| "command_wf (SetShaderC cid ty sh) = True"
| "command_wf (PresentC sid rs) = True"
| "command_wf (ClearC cid fl co de st rs) = True"
| "command_wf (SurfaceCopyC i j bs) = True"
| "command_wf (StretchBltC i j b c m) = True"
| "command_wf (SetViewportC cid r) = True"
| "command_wf (SetScissorRectC cid r) = True"
| "command_wf (SetZRangeC cid a b) = True"
| "command_wf (SetClipPlaneC cid ix f) = True"
| "command_wf (SetTextureStateC cid ts) = True"
| "command_wf (SetRenderStateC cid ts) = True"
| "command_wf (PresentReadbackC rs) = True"
| "command_wf (BlitSurfaceToScreenC i r d q cs) = True"
| "command_wf (BeginQueryC cid ty) = True"
| "command_wf (EndQueryC cid ty g off) = True"
| "command_wf (WaitForQueryC cid ty g off) = True"

text \<open>
  Running a command: a plain method, or a \<open>Begin\<close> method followed by the caller's stores and
  its \<open>FIFOCommitAll\<close>.
\<close>

fun fill_commit2 ::
  "u32 list \<Rightarrow> u32 list \<Rightarrow> (fptr \<times> fptr) option \<times> 'h SVGADevice \<Rightarrow> bool \<times> 'h SVGADevice" where
  "fill_commit2 us vs (None, s) = (False, s)"
| "fill_commit2 us vs (Some (p, q), s) = (True, FIFOCommitAll (poke q vs (poke p us s)))"

primrec command_run :: "SVGA3dCommand \<Rightarrow> 'h SVGADevice \<Rightarrow> (bool \<times> 'h SVGADevice) option" where
  "command_run (DefineSurfaceC sid fl fmt fs ms) s =
     map_option (fill_commit2 fs (concat (map size_words ms)))
       (BeginDefineSurface sid fl fmt (of_nat (length ms)) s)"
| "command_run (DestroySurfaceC sid) s = DestroySurface sid s"
| "command_run (SurfaceDMAC g i t bs) s =
     map_option (fill_commit (concat (map copybox_words bs)))
       (BeginSurfaceDMA g i t (of_nat (length bs)) s)"
| "command_run (SurfaceDMASuffixC g i t bs mo fl) s =
     map_option (fill_commit (concat (map copybox_words bs)))
       (BeginSurfaceDMAwithSuffix g i t (of_nat (length bs)) mo fl s)"
| "command_run (DefineContextC cid) s = DefineContext cid s"
| "command_run (DestroyContextC cid) s = DestroyContext cid s"
| "command_run (SetRenderTargetC cid ty i) s = SetRenderTarget cid ty i s"
| "command_run (SetTransformC cid ty f) s = SetTransform cid ty f s"
| "command_run (SetMaterialC cid fc f) s = SetMaterial cid fc f s"
| "command_run (SetLightEnabledC cid ix b) s = SetLightEnabled cid ix b s"
| "command_run (SetLightDataC cid ix f) s = SetLightData cid ix f s"
| "command_run (DefineShaderC cid sh ty code) s =
     map_option (\<lambda>(rc, s). (rc = kIOReturnSuccess, s))
       (DefineShader cid sh ty (\<lambda>i. code ! i) (of_nat (4 * length code)) s)"
| "command_run (SetShaderConstC cid reg ty ct v) s =
     map_option (\<lambda>(rc, s). (rc = kIOReturnSuccess, s)) (SetShaderConst cid reg ty ct v s)"
| "command_run (DestroyShaderC cid sh ty) s = DestroyShader cid sh ty s"
| "command_run (SetShaderC cid ty sh) s = SetShader cid ty sh s"
| "command_run (PresentC sid rs) s =
     map_option (fill_commit (concat (map copyrect_words rs))) (BeginPresent sid (of_nat (length rs)) s)"
| "command_run (ClearC cid fl co de st rs) s =
     map_option (fill_commit (concat (map rect_words rs)))
       (BeginClear cid fl co de st (of_nat (length rs)) s)"
| "command_run (DrawPrimitivesC cid ds rs) s =
     map_option (fill_commit2 (concat ds) (concat rs))
       (BeginDrawPrimitives cid (of_nat (length ds)) (of_nat (length rs)) s)"
| "command_run (SurfaceCopyC i j bs) s =
     map_option (fill_commit (concat (map copybox_words bs)))
       (BeginSurfaceCopy i j (of_nat (length bs)) s)"
| "command_run (StretchBltC i j b c m) s = SurfaceStretchBlt i j b c m s"
| "command_run (SetViewportC cid r) s = SetViewport cid r s"
| "command_run (SetScissorRectC cid r) s = SetScissorRect cid r s"
| "command_run (SetZRangeC cid a b) s = SetZRange cid a b s"
| "command_run (SetClipPlaneC cid ix f) s = SetClipPlane cid ix f s"
| "command_run (SetTextureStateC cid ts) s =
     map_option (fill_commit (texstate_words ts)) (BeginSetTextureState cid (of_nat (length ts)) s)"
| "command_run (SetRenderStateC cid ts) s =
     map_option (fill_commit (renderstate_words ts)) (BeginSetRenderState cid (of_nat (length ts)) s)"
| "command_run (PresentReadbackC rs) s =
     map_option (fill_commit (concat (map rect_words rs))) (BeginPresentReadback (of_nat (length rs)) s)"
| "command_run (BlitSurfaceToScreenC i r d q cs) s =
     map_option (fill_commit (concat (map signed_rect_words cs)))
       (BeginBlitSurfaceToScreen i r d q (of_nat (length cs)) s)"
| "command_run (BeginQueryC cid ty) s = BeginQuery cid ty s"
| "command_run (EndQueryC cid ty g off) s = EndQuery cid ty g off s"
| "command_run (WaitForQueryC cid ty g off) s = WaitForQuery cid ty g off s"

text \<open>
  The message of each command as \<open>svga3d_reg.h\<close> lays it out: the number of the command and the dwords of its
  structures, one by one.
\<close>

primrec command_message :: "SVGA3dCommand \<Rightarrow> u32 \<times> u32 list" where
  "command_message (DefineSurfaceC sid fl fmt fs ms) =
     (1040, [sid, fl, fmt] @ fs @ concat (map (\<lambda>m. [sz_width m, sz_height m, sz_depth m]) ms))"
| "command_message (DestroySurfaceC sid) = (1041, [sid])"
| "command_message (SurfaceCopyC i j bs) =
     (1042, [im_sid i, im_face i, im_mipmap i, im_sid j, im_face j, im_mipmap j] @
      concat (map (\<lambda>b. [cb_x b, cb_y b, cb_z b, cb_w b, cb_h b, cb_d b, cb_srcx b, cb_srcy b, cb_srcz b]) bs))"
| "command_message (StretchBltC i j b c m) =
     (1043, [im_sid i, im_face i, im_mipmap i, im_sid j, im_face j, im_mipmap j, bx_x b, bx_y b, bx_z b, bx_w b, bx_h b, bx_d b,
        bx_x c, bx_y c, bx_z c, bx_w c, bx_h c, bx_d c, m])"
| "command_message (SurfaceDMAC g i t bs) =
     (1044, [gp_gmrId (gi_ptr g), gp_offset (gi_ptr g), gi_pitch g, im_sid i, im_face i, im_mipmap i, t] @
      concat (map (\<lambda>b. [cb_x b, cb_y b, cb_z b, cb_w b, cb_h b, cb_d b, cb_srcx b, cb_srcy b, cb_srcz b]) bs))"
| "command_message (SurfaceDMASuffixC g i t bs mo fl) =
     (1044, [gp_gmrId (gi_ptr g), gp_offset (gi_ptr g), gi_pitch g, im_sid i, im_face i, im_mipmap i, t] @
      concat (map (\<lambda>b. [cb_x b, cb_y b, cb_z b, cb_w b, cb_h b, cb_d b, cb_srcx b, cb_srcy b, cb_srcz b]) bs) @ [12, mo, fl])"
| "command_message (DefineContextC cid) = (1045, [cid])"
| "command_message (DestroyContextC cid) = (1046, [cid])"
| "command_message (SetTransformC cid ty f) =
     (1047, [cid, ty, f 0, f 1, f 2, f 3, f 4, f 5, f 6, f 7, f 8, f 9, f 10, f 11, f 12, f 13, f 14, f 15])"
| "command_message (SetZRangeC cid a b) = (1048, [cid, a, b])"
| "command_message (SetRenderStateC cid ts) = (1049, cid # concat (map (\<lambda>(st, v). [st, v]) ts))"
| "command_message (SetRenderTargetC cid ty i) = (1050, [cid, ty, im_sid i, im_face i, im_mipmap i])"
| "command_message (SetTextureStateC cid ts) = (1051, cid # concat (map (\<lambda>(st, n, v). [st, n, v]) ts))"
| "command_message (SetMaterialC cid fc f) = (1052, [cid, fc] @ map f [0..<17])"
| "command_message (SetLightDataC cid ix f) = (1053, [cid, ix] @ map f [0..<29])"
| "command_message (SetLightEnabledC cid ix b) = (1054, [cid, ix, if b then 1 else 0])"
| "command_message (SetViewportC cid r) = (1055, [cid, rc_x r, rc_y r, rc_w r, rc_h r])"
| "command_message (SetClipPlaneC cid ix f) = (1056, [cid, ix, f 0, f 1, f 2, f 3])"
| "command_message (ClearC cid fl co de st rs) =
     (1057, [cid, fl, co, de, st] @ concat (map (\<lambda>r. [rc_x r, rc_y r, rc_w r, rc_h r]) rs))"
| "command_message (PresentC sid rs) =
     (1058, sid # concat (map (\<lambda>r. [cr_x r, cr_y r, cr_w r, cr_h r, cr_srcx r, cr_srcy r]) rs))"
| "command_message (DefineShaderC cid sh ty code) = (1059, [cid, sh, ty] @ code)"
| "command_message (DestroyShaderC cid sh ty) = (1060, [cid, sh, ty])"
| "command_message (SetShaderC cid ty sh) = (1061, [cid, ty, sh])"
| "command_message (SetShaderConstC cid reg ty ct v) =
     (1062, if ct = 2 then [cid, reg, ty, ct, v 0, 0, 0, 0] else [cid, reg, ty, ct, v 0, v 1, v 2, v 3])"
| "command_message (DrawPrimitivesC cid ds rs) =
     (1063, [cid, of_nat (length ds), of_nat (length rs)] @ concat ds @ concat rs)"
| "command_message (SetScissorRectC cid r) = (1064, [cid, rc_x r, rc_y r, rc_w r, rc_h r])"
| "command_message (BeginQueryC cid ty) = (1065, [cid, ty])"
| "command_message (EndQueryC cid ty g off) = (1066, [cid, ty, g, off])"
| "command_message (WaitForQueryC cid ty g off) = (1067, [cid, ty, g, off])"
| "command_message (PresentReadbackC rs) = (1068, concat (map (\<lambda>r. [rc_x r, rc_y r, rc_w r, rc_h r]) rs))"
| "command_message (BlitSurfaceToScreenC i r d q cs) =
     (1069, [im_sid i, im_face i, im_mipmap i, sr_left r, sr_top r, sr_right r, sr_bottom r, d,
        sr_left q, sr_top q, sr_right q, sr_bottom q] @
      concat (map (\<lambda>c. [sr_left c, sr_top c, sr_right c, sr_bottom c]) cs))"

section \<open>Each method and its words\<close>

lemma SVGA3D_prefix:
  "SVGA3D_FIFOReserve c n s = map_option (with_prefix [cmd_id c, ucast n]) (FIFOReserve (8 + n) s)"
  by (cases "FIFOReserve (8 + n) s")
    (auto simp: SVGA3D_FIFOReserve_def numeral_2_eq_2 split: option.split)

lemma SVGA3D_transmit:
  assumes "n = of_nat (4 * length ws)"
  shows "map_option (fill_commit ws) (SVGA3D_FIFOReserve c n s) =
    FIFOTransmit (cmd_id c # of_nat (4 * length ws) # ws) s"
proof -
  have "8 + n = of_nat (4 * length (cmd_id c # of_nat (4 * length ws) # ws))"
    unfolding assms by simp
  then show ?thesis
    unfolding SVGA3D_prefix FIFOTransmit_def option.map_comp comp_def fill_with_prefix
    unfolding assms ucast_down_nat by simp
qed

lemma poke_overwrite: "length zs \<le> length vs \<Longrightarrow> poke q vs (poke q zs s) = poke q vs s"
  by (cases q) (auto simp: write_words_def fun_eq_iff intro!: SVGADevice.fold_congs)

lemma fill_begin:
  "n \<le> length vs \<Longrightarrow> fill_commit vs (begin_fill us n r) = fill_commit (us @ vs) r"
  by (cases r; cases "fst r") (simp_all add: Let_def poke_overwrite flip: poke_append)

lemma SVGA3D_begin:
  assumes "n = of_nat (4 * length (us @ vs))" "k \<le> length vs"
  shows "map_option (fill_commit vs) (map_option (begin_fill us k) (SVGA3D_FIFOReserve c n s)) =
    FIFOTransmit (cmd_id c # of_nat (4 * length (us @ vs)) # us @ vs) s"
  unfolding option.map_comp comp_def fill_begin [OF assms(2)] using assms(1) by (rule SVGA3D_transmit)

lemma SVGA3D_begin2:
  assumes "n = of_nat (4 * length (us @ vs @ ws))" "k \<le> length (vs @ ws)" "m = length vs"
  shows "map_option (fill_commit2 vs ws) (map_option (\<lambda>r.
      let (q, s) = begin_fill us k r in (map_option (\<lambda>f. (f, fptr_add f m)) q, s))
      (SVGA3D_FIFOReserve c n s)) =
    FIFOTransmit (cmd_id c # of_nat (4 * length (us @ vs @ ws)) # us @ vs @ ws) s"
proof -
  have "fill_commit2 vs ws (let (q, s) = begin_fill us k r in (map_option (\<lambda>f. (f, fptr_add f m)) q, s)) =
      fill_commit (vs @ ws) (begin_fill us k r)" for r :: "fptr option \<times> 'a SVGADevice"
    using assms(3) by (cases r; cases "fst r") (simp_all add: Let_def poke_append)
  then show ?thesis
    unfolding option.map_comp comp_def fill_begin [OF assms(2)] using assms(1) by (simp add: SVGA3D_transmit)
qed

lemma length_concat_map: "(\<And>x. length (f x) = k) \<Longrightarrow> length (concat (map f xs)) = k * length xs"
  by (induction xs) simp_all

lemma length_concat_const: "\<forall>x \<in> set xs. length x = k \<Longrightarrow> length (concat xs) = k * length xs"
  by (induction xs) simp_all

lemma struct_lengths [simp]:
  "length (image_words i) = 3" "length (guest_words g) = 3" "length (box_words b) = 6"
  "length (copybox_words cb) = 9" "length (copyrect_words cr) = 6" "length (rect_words r) = 4"
  "length (signed_rect_words sr) = 4" "length (signed_point_words sp) = 2" "length (size_words z) = 3"
  by (simp_all add: struct_words)

lemma struct_list_lengths [simp]:
  "length (concat (map copybox_words bs)) = 9 * length bs"
  "length (concat (map copyrect_words crs)) = 6 * length crs"
  "length (concat (map rect_words rs)) = 4 * length rs"
  "length (concat (map signed_rect_words srs)) = 4 * length srs"
  "length (concat (map size_words zs)) = 3 * length zs"
  "length (texstate_words ts) = 3 * length ts" "length (renderstate_words us) = 2 * length us"
  unfolding texstate_words_def renderstate_words_def
  by (rule length_concat_map; simp add: case_prod_beta)+

lemma unat_mult_nat:
  "k * n < 2 ^ 64 \<Longrightarrow> unat (of_nat k * of_nat n :: u64) = k * n"
  unfolding of_nat_mult [symmetric] by (rule unat_of_nat_small) simp

lemma BeginSurfaceDMAwithSuffix_fill:
  assumes "length vs = 9 * n" "n < 2 ^ 56"
  shows "map_option (fill_commit vs) (BeginSurfaceDMAwithSuffix g i t (of_nat n) mo fl s) =
    (let body = (guest_words g @ image_words i @ [t]) @ vs @ [12, mo, fl]
     in FIFOTransmit (cmd_id SVGA_3D_CMD_SURFACE_DMA # of_nat (4 * length body) # body) s)"
proof -
  let ?us = "guest_words g @ image_words i @ [t]"
  have sz: "unat (36 * of_nat n :: u64) div 4 = 9 * n"
    using unat_mult_nat [of 36 n] assms(2) by simp
  have F: "poke q vs (poke (fptr_add q (9 * n)) ws (poke q (replicate (9 * n) 0) s)) = poke q (vs @ ws) s"
    for q ws and s :: "'a SVGADevice"
    using assms(1) by (cases q) (auto simp: write_words_def nth_append fun_eq_iff not_less
        intro!: SVGADevice.fold_congs)
  have G: "fill_commit vs (case begin_fill us (9 * n) r of (None, s) \<Rightarrow> (None, s)
      | (Some boxes, s) \<Rightarrow> (Some boxes, poke (fptr_add boxes (9 * n)) [12, mo, fl] s)) =
      fill_commit (us @ vs @ [12, mo, fl]) r" for us and r :: "fptr option \<times> 'a SVGADevice"
    by (cases r; cases "fst r") (simp_all add: Let_def F, simp add: poke_append)
  show ?thesis
    unfolding BeginSurfaceDMAwithSuffix_def Let_def sz option.map_comp comp_def G
    by (rule SVGA3D_transmit) (simp add: assms(1))
qed

lemma DefineShader_transmit:
  assumes "length code < 2 ^ 30"
  shows "map_option (\<lambda>(rc, s). (rc = kIOReturnSuccess, s)) (DefineShader cid sh ty (\<lambda>i. code ! i) (of_nat (4 * length code)) s) =
    (let body = [cid, sh, ty] @ code in FIFOTransmit (cmd_id SVGA_3D_CMD_SHADER_DEFINE # of_nat (4 * length body) # body) s)"
proof -
  let ?n = "of_nat (4 * length code) :: u64" and ?body = "[cid, sh, ty] @ code"
  have "?n AND 3 = take_bit 2 ?n" by (simp add: take_bit_eq_mask mask_eq_exp_minus_1 del: of_nat_mult)
  also have "\<dots> = of_nat (take_bit 2 (4 * length code))" by (simp only: take_bit_of_nat)
  also have "\<dots> = 0" by (simp add: take_bit_eq_mod)
  finally have a: "?n AND 3 = 0" .
  have "unat ?n = 4 * length code" using assms by (intro unat_of_nat_small) simp
  then have c: "map (\<lambda>i. code ! i) [0..<unat ?n div 4] = code" by (simp add: map_nth del: of_nat_mult)
  have "12 + ?n = of_nat (4 * length ?body)" by simp
  note t = SVGA3D_transmit [OF this, of SVGA_3D_CMD_SHADER_DEFINE s]
  have "map_option (\<lambda>(rc, s). (rc = kIOReturnSuccess, s)) (map_option (\<lambda>(ok, s). (if ok then kIOReturnSuccess else kIOReturnNoMemory, s)) r) = r"
    for r :: "(bool \<times> 'a SVGADevice) option" by (cases r) (auto split: if_splits)
  then show ?thesis unfolding DefineShader_def c t [symmetric] Let_def by (simp add: a del: of_nat_mult)
qed

lemma poke_bool: "poke q [b] (poke q (replicate 4 0) w) = poke q [b, 0, 0, 0] w"
  by (cases q) (auto simp: write_words_def fun_eq_iff nth_Cons' intro!: SVGADevice.fold_congs)

lemma SetShaderConst_transmit:
  assumes "ct = SVGA3D_CONST_TYPE_FLOAT \<or> ct = SVGA3D_CONST_TYPE_INT \<or> ct = SVGA3D_CONST_TYPE_BOOL"
  shows "map_option (\<lambda>(rc, s). (rc = kIOReturnSuccess, s)) (SetShaderConst cid reg ty ct v s) =
    FIFOTransmit ([cmd_id SVGA_3D_CMD_SET_SHADER_CONST, 32, cid, reg, ty, ct] @
      (if ct = SVGA3D_CONST_TYPE_BOOL then [v 0, 0, 0, 0] else map v [0..<4])) s"
proof -
  define vs where "vs = (if ct = SVGA3D_CONST_TYPE_BOOL then [v 0, 0, 0, 0] else map v [0..<4])"
  have app: "poke (fptr_add p 4) us (poke p [cid, reg, ty, ct] s) = poke p (cid # reg # ty # ct # us) s" for p us and s :: "'a SVGADevice"
    using poke_append [of p "[cid, reg, ty, ct]" us s] by (simp add: numeral_eq_Suc)
  have fill: "map_option (\<lambda>(rc, s). (rc = kIOReturnSuccess, s))
      (case r of (None, s) \<Rightarrow> Some (kIOReturnNoMemory, s)
       | (Some p, s) \<Rightarrow>
           let s = poke p [cid, reg, ty, ct] s; q = fptr_add p 4
           in if ct = SVGA3D_CONST_TYPE_FLOAT \<or> ct = SVGA3D_CONST_TYPE_INT
              then Some (kIOReturnSuccess, FIFOCommitAll (poke q (map v [0..<4]) s))
              else if ct = SVGA3D_CONST_TYPE_BOOL
              then Some (kIOReturnSuccess, FIFOCommitAll (poke q [v 0] (poke q (replicate 4 0) s)))
              else Some (kIOReturnBadArgument, FIFOCommit 0 s)) =
      Some (fill_commit ([cid, reg, ty, ct] @ vs) r)" for r :: "fptr option \<times> 'a SVGADevice"
    using assms app by (cases r; cases "fst r") (auto simp: vs_def poke_bool Let_def)
  have "(32 :: u64) = of_nat (4 * length ([cid, reg, ty, ct] @ vs))" by (simp add: vs_def)
  note t = SVGA3D_transmit [OF this, of SVGA_3D_CMD_SET_SHADER_CONST s]
  have "map_option (\<lambda>(rc, s). (rc = kIOReturnSuccess, s)) (SetShaderConst cid reg ty ct v s) =
      map_option (fill_commit ([cid, reg, ty, ct] @ vs)) (SVGA3D_FIFOReserve SVGA_3D_CMD_SET_SHADER_CONST 32 s)"
    using fill unfolding SetShaderConst_def
    by (cases "SVGA3D_FIFOReserve SVGA_3D_CMD_SET_SHADER_CONST 32 s") (simp_all add: case_prod_beta split: option.splits)
  then show ?thesis unfolding t by (simp add: vs_def)
qed

lemmas svga3d_methods =
  DestroySurface_def DefineContext_def DestroyContext_def SetRenderTarget_def SetTransform_def
  SetMaterial_def SetLightEnabled_def SetLightData_def DestroyShader_def SetShader_def
  BeginPresent_def BeginClear_def SurfaceStretchBlt_def SetViewport_def SetScissorRect_def
  SetZRange_def SetClipPlane_def BeginSetTextureState_def BeginSetRenderState_def
  BeginPresentReadback_def BeginBlitSurfaceToScreen_def BeginQuery_def EndQuery_def
  WaitForQuery_def

lemma command_run_words:
  assumes "command_wf c" "length (snd (command_body c)) < 2 ^ 30"
  shows "command_run c s = FIFOTransmit (command_words c) s"
proof (cases c)
  case (DefineSurfaceC sid fl fmt fs ms)
  have "unat (12 * of_nat (length ms) :: u64) div 4 = 3 * length ms"
    using assms(2) unat_mult_nat [of 12 "length ms"] by (simp add: DefineSurfaceC)
  then show ?thesis
    using assms(1) by (simp add: DefineSurfaceC command_words_def BeginDefineSurface_def
        SVGA3D_begin2 [unfolded Let_def])
next
  case (SurfaceDMAC g i t bs)
  have "unat (36 * of_nat (length bs) :: u64) div 4 = 9 * length bs"
    using assms(2) unat_mult_nat [of 36 "length bs"] by (simp add: SurfaceDMAC)
  then show ?thesis by (simp add: SurfaceDMAC command_words_def BeginSurfaceDMA_def SVGA3D_begin)
next
  case (SurfaceDMASuffixC g i t bs mo fl)
  then show ?thesis
    using assms(2) BeginSurfaceDMAwithSuffix_fill [of "concat (map copybox_words bs)" "length bs"]
    by (simp add: command_words_def Let_def)
next
  case (SurfaceCopyC i j bs)
  have "unat (36 * of_nat (length bs) :: u64) div 4 = 9 * length bs"
    using assms(2) unat_mult_nat [of 36 "length bs"] by (simp add: SurfaceCopyC)
  then show ?thesis by (simp add: SurfaceCopyC command_words_def BeginSurfaceCopy_def SVGA3D_begin)
next
  case (DrawPrimitivesC cid ds rs)
  then have l: "length (concat ds) = 9 * length ds" "length (concat rs) = 7 * length rs"
    using assms(1) by (simp_all add: length_concat_const)
  moreover have "unat (36 * of_nat (length ds) :: u64) div 4 = 9 * length ds"
    "unat (28 * of_nat (length rs) :: u64) div 4 = 7 * length rs"
    using assms(2) unat_mult_nat [of 36 "length ds"] unat_mult_nat [of 28 "length rs"] l
    by (simp_all add: DrawPrimitivesC)
  ultimately show ?thesis
    by (simp add: DrawPrimitivesC command_words_def BeginDrawPrimitives_def
        SVGA3D_begin2 [unfolded Let_def] ucast_down_nat add.assoc)
next
  case (DefineShaderC cid sh ty code)
  then show ?thesis using assms(2) DefineShader_transmit [of code cid sh ty s] by (simp add: command_words_def Let_def)
next
  case (SetShaderConstC cid reg ty ct v)
  then show ?thesis using assms(1) SetShaderConst_transmit [of ct cid reg ty v s] by (simp add: command_words_def)
next
  case (BlitSurfaceToScreenC i r d q cs)
  have "unat (of_nat (length cs) :: u32) = length cs"
    using assms(2) by (intro unat_of_nat_small) (simp add: BlitSurfaceToScreenC)
  then have "ucast (of_nat (length cs) :: u32) = (of_nat (length cs) :: u64)"
    by (metis of_nat_unat)
  then show ?thesis
    by (simp add: BlitSurfaceToScreenC command_words_def BeginBlitSurfaceToScreen_def SVGA3D_begin)
qed (simp_all add: command_words_def svga3d_methods SVGA3D_transmit SVGA3D_begin)

lemma command_message_body: "command_message c = map_prod cmd_id id (command_body c)"
  by (cases c) (simp_all add: struct_words [abs_def] texstate_words_def renderstate_words_def upt_rec numeral_eq_Suc)

section \<open>Properties\<close>

text \<open>
  C12. Every method of \<open>SVGA3D\<close> that sends a command, with valid arguments, and together with the stores of its caller where
  it is a \<open>Begin\<close> method, sends exactly one message: the number of the command in \<open>svga3d_reg.h\<close>, the size of its body in
  bytes, and the body, dword by dword in the order of the C structures.  It fails only if there is no room for the
  message.
\<close>

theorem svga3d_methods_send_their_command:
  assumes "command_wf c" "command_message c = (i, ws)" "length ws < 2 ^ 30"
  shows "command_run c s = FIFOTransmit (i # of_nat (4 * length ws) # ws) s"
proof -
  have "command_words c = i # of_nat (4 * length ws) # ws" "length (snd (command_body c)) < 2 ^ 30"
    using assms(2,3) by (auto simp: command_message_body command_words_def map_prod_def split: prod.splits)
  then show ?thesis using command_run_words [OF assms(1)] by metis
qed

theorem svga3d_methods_send_their_command_witness:
  "command_run (SetShaderConstC 7 3 1 2 (\<lambda>_. 1)) (demo_device 1220 1200) =
     FIFOTransmit [1062, 32, 7, 3, 1, 2, 1, 0, 0, 0] (demo_device 1220 1200) \<and>
   command_run (ClearC 7 1 0xFF 0 0 [\<lparr>rc_x = 0, rc_y = 0, rc_w = 4, rc_h = 4\<rparr>]) (demo_device 1220 1200) =
     FIFOTransmit [1057, 36, 7, 1, 0xFF, 0, 0, 0, 0, 4, 4] (demo_device 1220 1200)"
  using svga3d_methods_send_their_command [of "SetShaderConstC 7 3 1 2 (\<lambda>_. 1)" 1062 _ "demo_device 1220 1200"]
    svga3d_methods_send_their_command [of "ClearC 7 1 0xFF 0 0 [\<lparr>rc_x = 0, rc_y = 0, rc_w = 4, rc_h = 4\<rparr>]" 1057 _ "demo_device 1220 1200"]
  by simp

lemma SVGA3D_reserve_total:
  assumes "fifo_ready s" "host_progress s" "n + 2 \<le> 0x4000" "n + 2 < ring_size (fifo s)"
  shows "\<exists>p u. SVGA3D_FIFOReserve c (of_nat (4 * n)) s =
      Some (Some (fptr_add p 2), poke p [cmd_id c, of_nat (4 * n)] u) \<and>
    reserve_post (n + 2) s (Some p, u)"
proof -
  let ?ws = "replicate (n + 2) (0 :: u32)"
  have e: "of_nat (4 * length ?ws) = (8 + of_nat (4 * n) :: u64)" by simp
  obtain p u where "FIFOReserve (8 + of_nat (4 * n)) s = Some (Some p, u)"
    "reserve_post (n + 2) s (Some p, u)"
    using reserve_total [OF assms(1,2), of ?ws] assms(3,4) unfolding e by auto
  then show ?thesis
    unfolding SVGA3D_prefix ucast_down_nat by (auto simp: numeral_2_eq_2)
qed

lemma poke_header: "poke (fptr_add p 2) f (poke p [a, b] u) = poke p (a # b # f) u"
  using poke_append [of p "[a, b]" f u] by (simp add: numeral_2_eq_2)

lemma poke_header_fields:
  "poke (fptr_add (fptr_add p 2) 4) ws (poke p [a, b, c, d, e, f] u) = poke p ([a, b, c, d, e, f] @ ws) u"
  using poke_append [of p "[a, b, c, d, e, f]" ws u] by (simp add: fptr_add_add numeral_eq_Suc)

text \<open>
  \<open>SetShaderConst\<close> sends the constant for the three known types (a boolean as its first
  value followed by zeros); for any other type it returns \<open>kIOReturnBadArgument\<close>, sends nothing
  and, although it had already reserved and filled a command, leaves the FIFO ready.
\<close>

lemma SetShaderConst_outcomes:
  assumes "fifo_ready s" "host_progress s" "10 < ring_size (fifo s)"
  shows "\<exists>r t. SetShaderConst cid reg type ctype v s = Some (r, t) \<and>
    (if ctype \<in> {SVGA3D_CONST_TYPE_FLOAT, SVGA3D_CONST_TYPE_INT, SVGA3D_CONST_TYPE_BOOL}
     then r = kIOReturnSuccess \<and>
       fifo_sent ([cmd_id SVGA_3D_CMD_SET_SHADER_CONST, 32, cid, reg, type, ctype] @
         (if ctype = SVGA3D_CONST_TYPE_BOOL then [v 0, 0, 0, 0] else map v [0..<4])) s t
     else r = kIOReturnBadArgument \<and> fifo_sent [] s t)"
proof -
  let ?h = "[cmd_id SVGA_3D_CMD_SET_SHADER_CONST, 32 :: u32]" and ?f = "[cid, reg, type, ctype]"
  obtain p u where r: "SVGA3D_FIFOReserve SVGA_3D_CMD_SET_SHADER_CONST 32 s =
      Some (Some (fptr_add p 2), poke p ?h u)" and post: "reserve_post 10 s (Some p, u)"
    using SVGA3D_reserve_total [of s 8 SVGA_3D_CMD_SET_SHADER_CONST] assms by auto
  show ?thesis
  proof (cases "ctype \<in> {SVGA3D_CONST_TYPE_FLOAT, SVGA3D_CONST_TYPE_INT, SVGA3D_CONST_TYPE_BOOL}")
    case True
    define vs where "vs = (if ctype = SVGA3D_CONST_TYPE_BOOL then [v 0, 0, 0, 0] else map v [0..<4])"
    have b2: "poke (fptr_add (fptr_add p 2) 4) [v 0] (poke p (k # l # cid # reg # type # n # replicate 4 0) u) =
        poke p [k, l, cid, reg, type, n, v 0, 0, 0, 0] u" for k l n
      using poke_bool [of "fptr_add (fptr_add p 2) 4" "v 0" "poke p [k, l, cid, reg, type, n] u"]
      by (simp add: poke_header_fields)
    have "SetShaderConst cid reg type ctype v s =
        Some (kIOReturnSuccess, FIFOCommitAll (poke p ((?h @ ?f) @ vs) u))"
      using True unfolding SetShaderConst_def r vs_def
      by (auto simp: Let_def poke_header poke_header_fields b2)
    moreover have "length ((?h @ ?f) @ vs) = 10" by (simp add: vs_def)
    then have "fifo_sent ((?h @ ?f) @ vs) s (FIFOCommitAll (poke p ((?h @ ?f) @ vs) u))"
      using FIFOCommit_sent [OF assms(1), of "(?h @ ?f) @ vs" p u] post by metis
    ultimately show ?thesis using True by (simp add: vs_def)
  next
    case False
    then have "SetShaderConst cid reg type ctype v s =
        Some (kIOReturnBadArgument, FIFOCommit 0 (poke p (?h @ ?f) u))"
      unfolding SetShaderConst_def r by (auto simp: Let_def poke_header)
    then show ?thesis using cancel_filled [OF post, of "?h @ ?f"] False by auto
  qed
qed

end
