(* ===== verification/SVGA_Screen.thy ===== *)
theory SVGA_Screen
  imports SVGA_3D
begin

text \<open>
  The class \<open>SVGAScreen\<close> (\<open>src/AC/SVGAScreen.cpp\<close>): the screen object commands.  A screen
  object is an array of dwords whose first dword is its own size in bytes.
\<close>

definition SVGAScreen_Init :: "'h SVGADevice option \<Rightarrow> bool" where
  "SVGAScreen_Init device =
     (case device of
        None \<Rightarrow> False
      | Some d \<Rightarrow> HasFIFOCap (SVGA_FIFO_CAP_SCREEN_OBJECT OR SVGA_FIFO_CAP_SCREEN_OBJECT_2) d)"

definition DefineScreen :: "(nat \<Rightarrow> u32) \<Rightarrow> 'h SVGADevice \<Rightarrow> (bool \<times> 'h SVGADevice) option" where
  "DefineScreen screen s =
     (let structSize = screen 0 in
      map_option (fill_commit (map screen [0..<unat structSize div 4]))
        (FIFOReserveCmd SVGA_CMD_DEFINE_SCREEN (ucast structSize) s))"

definition DestroyScreen :: "u32 \<Rightarrow> 'h SVGADevice \<Rightarrow> (bool \<times> 'h SVGADevice) option" where
  "DestroyScreen screenId s =
     map_option (fill_commit [screenId]) (FIFOReserveCmd SVGA_CMD_DESTROY_SCREEN 4 s)"

definition DefineGMRFB ::
  "SVGAGuestPtr \<Rightarrow> u32 \<Rightarrow> u32 \<Rightarrow> 'h SVGADevice \<Rightarrow> (bool \<times> 'h SVGADevice) option" where
  "DefineGMRFB ptr bytesPerLine format s =
     map_option (fill_commit [gp_gmrId ptr, gp_offset ptr, bytesPerLine, format])
       (FIFOReserveCmd SVGA_CMD_DEFINE_GMRFB 16 s)"

definition BlitFromGMRFB ::
  "SVGASignedPoint \<Rightarrow> SVGASignedRect \<Rightarrow> u32 \<Rightarrow> 'h SVGADevice \<Rightarrow> (bool \<times> 'h SVGADevice) option" where
  "BlitFromGMRFB srcOrigin destRect destScreen s =
     map_option (fill_commit (signed_point_words srcOrigin @ signed_rect_words destRect @ [destScreen]))
       (FIFOReserveCmd SVGA_CMD_BLIT_GMRFB_TO_SCREEN 28 s)"

definition BlitToGMRFB ::
  "SVGASignedPoint \<Rightarrow> SVGASignedRect \<Rightarrow> u32 \<Rightarrow> 'h SVGADevice \<Rightarrow> (bool \<times> 'h SVGADevice) option" where
  "BlitToGMRFB destOrigin srcRect srcScreen s =
     map_option (fill_commit (signed_point_words destOrigin @ signed_rect_words srcRect @ [srcScreen]))
       (FIFOReserveCmd SVGA_CMD_BLIT_SCREEN_TO_GMRFB 28 s)"

definition AnnotateFill :: "u32 \<Rightarrow> 'h SVGADevice \<Rightarrow> (bool \<times> 'h SVGADevice) option" where
  "AnnotateFill color s =
     map_option (fill_commit [color]) (FIFOReserveCmd SVGA_CMD_ANNOTATION_FILL 4 s)"

definition AnnotateCopy ::
  "SVGASignedPoint \<Rightarrow> u32 \<Rightarrow> 'h SVGADevice \<Rightarrow> (bool \<times> 'h SVGADevice) option" where
  "AnnotateCopy srcOrigin srcScreen s =
     map_option (fill_commit (signed_point_words srcOrigin @ [srcScreen]))
       (FIFOReserveCmd SVGA_CMD_ANNOTATION_COPY 12 s)"

text \<open>The screen object commands and their messages.\<close>

datatype SVGAScreenCommand =
    DefineScreenC "nat \<Rightarrow> u32"
  | DestroyScreenC u32
  | DefineGMRFBC SVGAGuestPtr u32 u32
  | BlitFromGMRFBC SVGASignedPoint SVGASignedRect u32
  | BlitToGMRFBC SVGASignedPoint SVGASignedRect u32
  | AnnotateFillC u32
  | AnnotateCopyC SVGASignedPoint u32

primrec screen_run :: "SVGAScreenCommand \<Rightarrow> 'h SVGADevice \<Rightarrow> (bool \<times> 'h SVGADevice) option" where
  "screen_run (DefineScreenC screen) s = DefineScreen screen s"
| "screen_run (DestroyScreenC i) s = DestroyScreen i s"
| "screen_run (DefineGMRFBC p b f) s = DefineGMRFB p b f s"
| "screen_run (BlitFromGMRFBC p r i) s = BlitFromGMRFB p r i s"
| "screen_run (BlitToGMRFBC p r i) s = BlitToGMRFB p r i s"
| "screen_run (AnnotateFillC c) s = AnnotateFill c s"
| "screen_run (AnnotateCopyC p i) s = AnnotateCopy p i s"

primrec screen_words :: "SVGAScreenCommand \<Rightarrow> u32 list" where
  "screen_words (DefineScreenC screen) =
     SVGA_CMD_DEFINE_SCREEN # map screen [0..<unat (screen 0) div 4]"
| "screen_words (DestroyScreenC i) = [SVGA_CMD_DESTROY_SCREEN, i]"
| "screen_words (DefineGMRFBC p b f) = [SVGA_CMD_DEFINE_GMRFB, gp_gmrId p, gp_offset p, b, f]"
| "screen_words (BlitFromGMRFBC p r i) =
     SVGA_CMD_BLIT_GMRFB_TO_SCREEN # signed_point_words p @ signed_rect_words r @ [i]"
| "screen_words (BlitToGMRFBC p r i) =
     SVGA_CMD_BLIT_SCREEN_TO_GMRFB # signed_point_words p @ signed_rect_words r @ [i]"
| "screen_words (AnnotateFillC c) = [SVGA_CMD_ANNOTATION_FILL, c]"
| "screen_words (AnnotateCopyC p i) = SVGA_CMD_ANNOTATION_COPY # signed_point_words p @ [i]"

lemma DefineScreen_words:
  assumes "4 dvd unat (screen 0)"
  shows "DefineScreen screen s = FIFOTransmit (screen_words (DefineScreenC screen)) s"
proof -
  obtain k where k: "unat (screen 0) = 4 * k" using assms by blast
  have "ucast (screen 0) = (of_nat (4 * k) :: u64)" using k by (metis of_nat_unat)
  then have "ucast (screen 0) + 4 = (of_nat (4 * length (SVGA_CMD_DEFINE_SCREEN # map screen [0..<k])) :: u64)"
    by simp
  from Cmd_transmit [OF this] show ?thesis by (simp add: DefineScreen_def k)
qed

text \<open>
  Every screen object command is the transmission of its dwords; a screen object of a
  multiple of four bytes is sent whole, as many bytes as its own size field says.
\<close>

lemma screen_commands_send:
  assumes "\<And>screen. c = DefineScreenC screen \<Longrightarrow> 4 dvd unat (screen 0)"
  shows "screen_run c s = FIFOTransmit (screen_words c) s"
proof (cases c)
  case (DefineScreenC screen)
  then show ?thesis using assms DefineScreen_words [of screen s] by simp
qed (simp_all add: DestroyScreen_def DefineGMRFB_def BlitFromGMRFB_def BlitToGMRFB_def
    AnnotateFill_def AnnotateCopy_def Cmd_transmit)

end
