(* ===== verification/Buddy_Model.thy ===== *)
theory Buddy_Model
  imports SVGA_Prelude
begin

text \<open>
  The buddy allocator of video memory, \<open>CEsvga2Allocator\<close> (\<open>src/AC/CEsvga2Allocator.cpp\<close>,
  \<open>src/AC/CEsvga2Allocator.h\<close>), as compiled with \<open>FRAGILE\<close>.

  A \<open>pool_size_t\<close> is a natural number below \<open>2 ^ 32\<close>, with \<open>w32\<close> and \<open>sub32\<close> writing out
  the wrap-around of 32-bit arithmetic; a \<open>size_t\<close> and an address is a natural number below
  \<open>2 ^ 64\<close>.  The pool's memory is an array of dwords, indexed from the start of the pool: the
  free lists are threaded through it.  The bitmap is an array of bytes.  The scan of \<open>toFree\<close>
  gets as fuel the number of blocks in its range; every round consumes at least one block.
\<close>

section \<open>State\<close>

abbreviation w32 :: "nat \<Rightarrow> nat" where "w32 n \<equiv> n mod 2 ^ 32"
abbreviation w64 :: "nat \<Rightarrow> nat" where "w64 n \<equiv> n mod 2 ^ 64"

definition sub32 :: "nat \<Rightarrow> nat \<Rightarrow> nat" where "sub32 a b = (a + 2 ^ 32 - b) mod 2 ^ 32"

abbreviation (input) OURNULL :: nat where "OURNULL \<equiv> 0xFFFFFFFF"
abbreviation (input) MAGIC :: nat where "MAGIC \<equiv> 0xA7130423"
abbreviation (input) OFF_MAGIC :: nat where "OFF_MAGIC \<equiv> 0"
abbreviation (input) OFF_PREV :: nat where "OFF_PREV \<equiv> 1"
abbreviation (input) OFF_NEXT :: nat where "OFF_NEXT \<equiv> 2"
abbreviation (input) LEN_OFFSET :: nat where "LEN_OFFSET \<equiv> 1234"
abbreviation (input) HEADER_LEN :: nat where "HEADER_LEN \<equiv> 3"
abbreviation (input) FREEBLOCK :: nat where "FREEBLOCK \<equiv> 4"

record CEsvga2Allocator =
  poolStart :: nat
  poolBlocks :: nat
  minBits :: nat
  numSizes :: nat
  freeList :: "nat list"
  pmap :: "u8 list"
  pmap_null :: bool
  freeBytes :: nat
  pool :: "nat \<Rightarrow> u32"

text \<open>The dword index of block \<open>off\<close>, and reads and writes relative to it.\<close>

definition dw :: "CEsvga2Allocator \<Rightarrow> nat \<Rightarrow> nat" where
  "dw s off = w32 (off * 2 ^ minBits s) div 4"

definition rd :: "CEsvga2Allocator \<Rightarrow> nat \<Rightarrow> nat" where
  "rd s i = unat (pool s i)"

definition wr :: "nat \<Rightarrow> nat \<Rightarrow> CEsvga2Allocator \<Rightarrow> CEsvga2Allocator" where
  "wr i v s = s\<lparr>pool := (pool s)(i := of_nat v)\<rparr>"

section \<open>The bitmap\<close>

definition BITTEST :: "u8 list \<Rightarrow> nat \<Rightarrow> bool" where
  "BITTEST m n \<longleftrightarrow> m ! (n div 8) AND drop_bit (n mod 8) 128 \<noteq> 0"

definition BITSET :: "u8 list \<Rightarrow> nat \<Rightarrow> u8 list" where
  "BITSET m n = m[n div 8 := m ! (n div 8) OR drop_bit (n mod 8) 128]"

definition BITCLEAR :: "u8 list \<Rightarrow> nat \<Rightarrow> u8 list" where
  "BITCLEAR m n = m[n div 8 := m ! (n div 8) AND NOT (drop_bit (n mod 8) 128)]"

text \<open>
  \<open>repe scasb\<close>: compare bytes with \<open>al\<close> until one differs or the counter is used up; the
  result is the counter register \<open>rcx\<close> when the instruction stops.
\<close>

fun repe_scasb :: "u8 \<Rightarrow> u8 list \<Rightarrow> nat" where
  "repe_scasb al [] = 0"
| "repe_scasb al (b # bs) = (if b = al then repe_scasb al bs else length bs)"

definition memAll :: "u8 list \<Rightarrow> bool" where
  "memAll bs = (if bs = [] then True else repe_scasb 0xFF bs = 0)"

definition memAny :: "u8 list \<Rightarrow> bool" where
  "memAny bs = (if bs = [] then False else repe_scasb 0 bs \<noteq> 0)"

text \<open>The bytes \<open>map + i\<close> up to \<open>map + j\<close>.\<close>

definition bytes_of :: "u8 list \<Rightarrow> nat \<Rightarrow> nat \<Rightarrow> u8 list" where
  "bytes_of m i j = take (j - i) (drop i m)"

definition testAll :: "u8 list \<Rightarrow> nat \<Rightarrow> nat \<Rightarrow> bool" where
  "testAll m firstBit pastBit =
     (let firstFull = (firstBit + 7) div 8 * 8;
          pastFull = pastBit div 8 * 8;
          past = min pastBit firstFull
      in if \<not> list_all (BITTEST m) [firstBit..<past] then False
         else if pastFull > firstFull \<and> \<not> memAll (bytes_of m (firstFull div 8) (pastFull div 8))
         then False
         else list_all (BITTEST m) [max pastFull past..<pastBit])"

definition clearAll :: "nat \<Rightarrow> nat \<Rightarrow> u8 list \<Rightarrow> u8 list" where
  "clearAll firstBit pastBit m =
     (let firstFull = (firstBit + 7) div 8 * 8;
          pastFull = pastBit div 8 * 8;
          past = min pastBit firstFull;
          m = fold (\<lambda>i m. BITCLEAR m i) [firstBit..<past] m;
          m = (if pastFull > firstFull
               then fold (\<lambda>i m. m[i := 0]) [firstFull div 8..<pastFull div 8] m else m)
      in fold (\<lambda>i m. BITCLEAR m i) [max pastFull past..<pastBit] m)"

definition clearCheck :: "nat \<Rightarrow> nat \<Rightarrow> CEsvga2Allocator \<Rightarrow> IOReturn \<times> CEsvga2Allocator" where
  "clearCheck firstBit pastBit s =
     (if \<not> testAll (pmap s) firstBit pastBit then (kIOReturnBadMedia, s)
      else (kIOReturnSuccess, s\<lparr>pmap := clearAll firstBit pastBit (pmap s)\<rparr>))"

definition testAny :: "u8 list \<Rightarrow> nat \<Rightarrow> nat \<Rightarrow> bool" where
  "testAny m firstBit pastBit =
     (let firstFull = (firstBit + 7) div 8 * 8;
          pastFull = pastBit div 8 * 8;
          past = min pastBit firstFull
      in if list_ex (BITTEST m) [firstBit..<past] then True
         else if pastFull > firstFull \<and> memAny (bytes_of m (firstFull div 8) (pastFull div 8))
         then True
         else list_ex (BITTEST m) [max pastFull past..<pastBit])"

section \<open>Free lists\<close>

definition makeFree :: "nat \<Rightarrow> nat \<Rightarrow> bool \<Rightarrow> CEsvga2Allocator \<Rightarrow> CEsvga2Allocator" where
  "makeFree firstFree bitsFree zap s =
     (let byteBits = bitsFree + minBits s;
          bytesToFree = w32 (2 ^ byteBits);
          blocksToFree = w32 (2 ^ bitsFree);
          ptr = dw s firstFree;
          s = (if zap then
                 s\<lparr>pool := (\<lambda>i. if ptr \<le> i \<and> i < ptr + bytesToFree div 4 then 0 else pool s i),
                   pmap := clearAll firstFree (w32 (firstFree + blocksToFree)) (pmap s)\<rparr>
               else s);
          s = wr (ptr + OFF_MAGIC) MAGIC s;
          s = wr (ptr + OFF_PREV) OURNULL s;
          nextOff = freeList s ! bitsFree;
          s = wr (ptr + OFF_NEXT) nextOff s;
          pastPtr = ptr + bytesToFree div 4;
          s = wr (pastPtr - 1) (bitsFree + LEN_OFFSET) s;
          s = (if nextOff \<noteq> OURNULL then wr (dw s nextOff + OFF_PREV) firstFree s else s)
      in s\<lparr>freeList := (freeList s)[bitsFree := firstFree],
           freeBytes := w32 (freeBytes s + bytesToFree)\<rparr>)"

text \<open>
  The two inner loops of \<open>toFree\<close>: growing the block while it stays aligned and in range, and
  shrinking it until it does.  \<open>None\<close> is a negative \<open>tryBits\<close>.
\<close>

function grow :: "nat \<Rightarrow> nat \<Rightarrow> nat \<Rightarrow> nat \<Rightarrow> nat \<Rightarrow> nat \<times> nat" where
  "grow sizes i pastBlock tryBits tryLen =
     (if tryBits < sizes - 1 then
        let nextLen = w32 (tryLen * 2)
        in if w32 (i + nextLen) > pastBlock then (tryBits, tryLen)
           else if i AND sub32 nextLen 1 \<noteq> 0 then (tryBits, tryLen)
           else grow sizes i pastBlock (tryBits + 1) nextLen
      else (tryBits, tryLen))"
  by pat_completeness auto

termination grow
  by (relation "measure (\<lambda>(sizes, i, pastBlock, tryBits, tryLen). sizes - tryBits)") auto

declare grow.simps [simp del]

fun shrink :: "nat \<Rightarrow> nat \<Rightarrow> nat \<Rightarrow> nat \<Rightarrow> (nat \<times> nat) option" where
  "shrink i pastBlock 0 tryLen =
     (if w32 (i + tryLen) > pastBlock \<or> i AND sub32 tryLen 1 \<noteq> 0 then None else Some (0, tryLen))"
| "shrink i pastBlock (Suc b) tryLen =
     (if w32 (i + tryLen) > pastBlock \<or> i AND sub32 tryLen 1 \<noteq> 0
      then shrink i pastBlock b (tryLen div 2) else Some (Suc b, tryLen))"

fun toFree_loop ::
  "nat \<Rightarrow> nat \<Rightarrow> nat \<Rightarrow> nat \<Rightarrow> nat \<Rightarrow> bool \<Rightarrow> CEsvga2Allocator \<Rightarrow> CEsvga2Allocator" where
  "toFree_loop 0 i pastBlock tryBits tryLen zap s = s"
| "toFree_loop (Suc fuel) i pastBlock tryBits tryLen zap s =
     (if i < pastBlock then
        case grow (numSizes s) i pastBlock tryBits tryLen of
          (tryBits, tryLen) \<Rightarrow>
            (case shrink i pastBlock tryBits tryLen of
               None \<Rightarrow> s
             | Some (tryBits, tryLen) \<Rightarrow>
                 toFree_loop fuel (w32 (i + tryLen)) pastBlock tryBits tryLen zap
                   (makeFree i tryBits zap s))
      else s)"

definition toFree :: "nat \<Rightarrow> nat \<Rightarrow> bool \<Rightarrow> CEsvga2Allocator \<Rightarrow> CEsvga2Allocator" where
  "toFree firstBlock pastBlock zap s =
     toFree_loop (pastBlock - firstBlock) firstBlock pastBlock 0 1 zap s"

section \<open>Allocation\<close>

text \<open>
  \<open>newStore\<close> tells whether the result pointer is non-null; the address stored through it is
  the second component of the result.
\<close>

definition BuddyMalloc ::
  "nat \<Rightarrow> bool \<Rightarrow> CEsvga2Allocator \<Rightarrow> IOReturn \<times> nat option \<times> CEsvga2Allocator" where
  "BuddyMalloc bits newStore s =
     (if \<not> newStore then (kIOReturnBadArgument, None, s)
      else if freeBytes s < w32 (2 ^ (bits + minBits s)) then (kIOReturnNoMemory, None, s)
      else case find (\<lambda>r. freeList s ! r \<noteq> OURNULL) [bits..<numSizes s] of
        None \<Rightarrow> (kIOReturnNoMemory, None, s)
      | Some retBits \<Rightarrow>
        let offset = freeList s ! retBits;
            ptr = dw s offset;
            pastPtr = ptr + w32 (2 ^ (retBits + minBits s)) div 4;
            nextOffset = rd s (ptr + OFF_NEXT);
            nextPtr = dw s nextOffset
        in if offset \<ge> poolBlocks s then (kIOReturnInternalError, None, s)
           else if rd s (ptr + OFF_MAGIC) \<noteq> MAGIC then (kIOReturnInternalError, None, s)
           else if rd s (ptr + OFF_PREV) \<noteq> OURNULL then (kIOReturnInternalError, None, s)
           else if rd s (pastPtr - 1) \<noteq> retBits + LEN_OFFSET then (kIOReturnInternalError, None, s)
           else if nextOffset \<noteq> OURNULL \<and> nextOffset \<ge> poolBlocks s
           then (kIOReturnInternalError, None, s)
           else if nextOffset \<noteq> OURNULL \<and>
             (rd s (nextPtr + OFF_MAGIC) \<noteq> MAGIC \<or> rd s (nextPtr + OFF_PREV) \<noteq> offset)
           then (kIOReturnInternalError, None, s)
           else
             let s = (if nextOffset \<noteq> OURNULL then wr (nextPtr + OFF_PREV) OURNULL s else s);
                 s = s\<lparr>freeList := (freeList s)[retBits := nextOffset]\<rparr>;
                 past = w32 (offset + w32 (2 ^ bits));
                 s = s\<lparr>pmap := BITSET (pmap s) (sub32 past 1)\<rparr>;
                 s = s\<lparr>freeBytes := sub32 (freeBytes s) (w32 (2 ^ (retBits + minBits s)))\<rparr>;
                 s = toFree past (w32 (offset + w32 (2 ^ retBits))) False s
             in (kIOReturnSuccess, Some (poolStart s + w32 (offset * 2 ^ minBits s)), s))"

function alloc_size_loop :: "nat \<Rightarrow> nat \<Rightarrow> nat \<Rightarrow> nat \<Rightarrow> nat \<Rightarrow> CEsvga2Allocator \<Rightarrow> nat option" where
  "alloc_size_loop sizes blocks_max blockOff ourBits blocks s =
     (if blockOff + blocks > blocks_max \<or> ourBits \<ge> sizes \<or> blockOff AND (blocks - 1) \<noteq> 0
      then None
      else if BITTEST (pmap s) (blockOff + blocks - 1) then Some ourBits
      else alloc_size_loop sizes blocks_max blockOff (ourBits + 1) (w64 (blocks * 2)) s)"
  by pat_completeness auto

termination alloc_size_loop
  by (relation "measure (\<lambda>(sizes, blocks_max, blockOff, ourBits, blocks, s). sizes - ourBits)") auto

declare alloc_size_loop.simps [simp del]

text \<open>\<open>BuddyAllocSize\<close>: the error, or the number of bits of the busy block at an address.\<close>

definition BuddyAllocSize :: "nat \<Rightarrow> CEsvga2Allocator \<Rightarrow> IOReturn + nat" where
  "BuddyAllocSize storage s =
     (if storage < poolStart s then Inl kIOReturnNotAligned
      else
        let byteOff = storage - poolStart s;
            blockOff = byteOff div 2 ^ minBits s
        in if byteOff \<noteq> w64 (blockOff * 2 ^ minBits s) then Inl kIOReturnNotAligned
           else if blockOff \<ge> poolBlocks s then Inl kIOReturnNotAligned
           else case alloc_size_loop (numSizes s) (poolBlocks s) blockOff 0 1 s of
             None \<Rightarrow> Inl kIOReturnNotAligned
           | Some bits \<Rightarrow> Inr bits)"

definition ReleaseMap :: "CEsvga2Allocator \<Rightarrow> CEsvga2Allocator" where
  "ReleaseMap s = (if pmap_null s then s else s\<lparr>pmap := [], pmap_null := True\<rparr>)"

text \<open>\<open>map_ok\<close> is the success of \<open>IOMalloc\<close>.\<close>

definition Init :: "bool \<Rightarrow> nat \<Rightarrow> nat \<Rightarrow> CEsvga2Allocator \<Rightarrow> IOReturn \<times> CEsvga2Allocator" where
  "Init map_ok startAddress bytes s =
     (let min_bits = 12; num_sizes = 13
      in if (2::nat) ^ min_bits < 4 * FREEBLOCK then (kIOReturnBadArgument, s)
         else if num_sizes \<le> (0::nat) then (kIOReturnBadArgument, s)
         else if w32 (2 ^ (min_bits + num_sizes - 1)) = 0 then (kIOReturnBadArgument, s)
         else if startAddress mod 2 ^ min_bits \<noteq> 0 then (kIOReturnBadArgument, s)
         else if bytes \<noteq> w32 bytes then (kIOReturnBadArgument, s)
         else
           let s = ReleaseMap s;
               setBits = bytes div 2 ^ min_bits;
               s = s\<lparr>poolStart := startAddress, poolBlocks := w32 setBits,
                     minBits := min_bits, numSizes := num_sizes\<rparr>
           in if \<not> map_ok then (kIOReturnNoMemory, s)
              else (kIOReturnSuccess,
                    s\<lparr>freeBytes := 0, pmap_null := False,
                      pmap := replicate ((setBits + 7) div 8) 0xFF,
                      freeList := replicate num_sizes OURNULL\<rparr>))"

definition Rebase :: "nat \<Rightarrow> CEsvga2Allocator \<Rightarrow> IOReturn \<times> CEsvga2Allocator" where
  "Rebase newStartAddress s =
     (if newStartAddress mod 2 ^ minBits s \<noteq> 0 then (kIOReturnBadArgument, s)
      else (kIOReturnSuccess, s\<lparr>poolStart := newStartAddress\<rparr>))"

definition Release :: "nat \<Rightarrow> nat \<Rightarrow> CEsvga2Allocator \<Rightarrow> IOReturn \<times> CEsvga2Allocator" where
  "Release startOffsetBytes endOffsetBytes s =
     (if startOffsetBytes mod 2 ^ minBits s \<noteq> 0 then (kIOReturnBadArgument, s)
      else if endOffsetBytes mod 2 ^ minBits s \<noteq> 0 then (kIOReturnBadArgument, s)
      else
        let startBlock = startOffsetBytes div 2 ^ minBits s;
            pastBlockOff = endOffsetBytes div 2 ^ minBits s
        in if startBlock \<ge> poolBlocks s \<or> pastBlockOff > poolBlocks s
           then (kIOReturnBadArgument, s)
           else case clearCheck startBlock pastBlockOff s of
             (ret, s) \<Rightarrow>
               if ret \<noteq> kIOReturnSuccess then (ret, s)
               else (kIOReturnSuccess, toFree (w32 startBlock) (w32 pastBlockOff) False s))"

function malloc_bits :: "nat \<Rightarrow> nat \<Rightarrow> nat \<Rightarrow> nat \<Rightarrow> nat option" where
  "malloc_bits sizes bytes bits sz =
     (if sz < bytes then
        if bits \<ge> sizes then None
        else let sz = w64 (sz * 2)
             in if sz = 0 then None else malloc_bits sizes bytes (bits + 1) sz
      else Some bits)"
  by pat_completeness auto

termination malloc_bits
  by (relation "measure (\<lambda>(sizes, bytes, bits, sz). sizes - bits)") auto

declare malloc_bits.simps [simp del]

definition Malloc ::
  "nat \<Rightarrow> bool \<Rightarrow> CEsvga2Allocator \<Rightarrow> IOReturn \<times> nat option \<times> CEsvga2Allocator" where
  "Malloc bytes newStore s =
     (if \<not> newStore then (kIOReturnBadArgument, None, s)
      else case malloc_bits (numSizes s) bytes 0 (w64 (2 ^ minBits s)) of
        None \<Rightarrow> (kIOReturnNoResources, None, s)
      | Some bits \<Rightarrow> BuddyMalloc bits newStore s)"

section \<open>Freeing\<close>

text \<open>
  Taking the buddy of a freed block off its free list.  \<open>Inl\<close> is a return of
  \<open>kIOReturnInternalError\<close> with the state left behind.
\<close>

definition unlink_first ::
  "nat \<Rightarrow> nat \<Rightarrow> CEsvga2Allocator \<Rightarrow> CEsvga2Allocator + CEsvga2Allocator" where
  "unlink_first bits buddy s =
     (let nextOffset = rd s (dw s buddy + OFF_NEXT);
          nextPtr = dw s nextOffset
      in if nextOffset \<noteq> OURNULL \<and> nextOffset \<ge> poolBlocks s then Inl s
         else if nextOffset \<noteq> OURNULL \<and> rd s (nextPtr + OFF_MAGIC) \<noteq> MAGIC then Inl s
         else if nextOffset \<noteq> OURNULL \<and> rd s (nextPtr + OFF_PREV) \<noteq> buddy then Inl s
         else
           let s = (if nextOffset \<noteq> OURNULL then wr (nextPtr + OFF_PREV) OURNULL s else s)
           in Inr (s\<lparr>freeList := (freeList s)[bits := nextOffset]\<rparr>))"

definition unlink_inner ::
  "nat \<Rightarrow> nat \<Rightarrow> CEsvga2Allocator \<Rightarrow> CEsvga2Allocator + CEsvga2Allocator" where
  "unlink_inner prevOffset buddy s =
     (let prevPtr = dw s prevOffset;
          nextOffset = rd s (dw s buddy + OFF_NEXT);
          nextPtr = dw s nextOffset
      in if prevOffset \<ge> poolBlocks s then Inl s
         else if rd s (prevPtr + OFF_MAGIC) \<noteq> MAGIC then Inl s
         else if rd s (prevPtr + OFF_NEXT) \<noteq> buddy then Inl s
         else if nextOffset \<noteq> OURNULL \<and> nextOffset \<ge> poolBlocks s then Inl s
         else if nextOffset \<noteq> OURNULL \<and> rd s (nextPtr + OFF_MAGIC) \<noteq> MAGIC then Inl s
         else if nextOffset \<noteq> OURNULL \<and> rd s (nextPtr + OFF_PREV) \<noteq> buddy then Inl s
         else
           let s = (if nextOffset \<noteq> OURNULL then wr (nextPtr + OFF_PREV) prevOffset s else s)
           in Inr (wr (prevPtr + OFF_NEXT) nextOffset s))"

definition unlink_buddy ::
  "nat \<Rightarrow> nat \<Rightarrow> CEsvga2Allocator \<Rightarrow> CEsvga2Allocator + CEsvga2Allocator" where
  "unlink_buddy bits buddy s =
     (let buddyPtr = dw s buddy;
          prevOffset = rd s (buddyPtr + OFF_PREV)
      in if rd s (buddyPtr + OFF_MAGIC) \<noteq> MAGIC then Inl s
         else if freeList s ! bits = OURNULL then Inl s
         else case (if prevOffset = OURNULL then unlink_first bits buddy s
                    else unlink_inner prevOffset buddy s) of
           Inl s \<Rightarrow> Inl s
         | Inr s \<Rightarrow> Inr (wr (buddyPtr + 2) 0 (wr (buddyPtr + 1) 0 (wr buddyPtr 0 s))))"

text \<open>
  The merging loop of \<open>Free\<close>: block size, block offset and the dword index of \<open>storage\<close> are
  its variables.
\<close>

function merge_loop ::
  "nat \<Rightarrow> nat \<Rightarrow> nat \<Rightarrow> nat \<Rightarrow> CEsvga2Allocator
   \<Rightarrow> CEsvga2Allocator + nat \<times> nat \<times> nat \<times> CEsvga2Allocator" where
  "merge_loop sizes bits blockOff sptr s =
     (if bits < sizes - 1 then
        let buddy = blockOff XOR w32 (2 ^ bits);
            pastBuddy = w32 (buddy + w32 (2 ^ bits))
        in if pastBuddy > poolBlocks s then Inr (bits, blockOff, sptr, s)
           else if BITTEST (pmap s) (sub32 pastBuddy 1) then Inr (bits, blockOff, sptr, s)
           else
             let pastPtr = dw s pastBuddy;
                 trueBits = sub32 (rd s (pastPtr - 1)) LEN_OFFSET
             in if trueBits \<ge> 2 ^ 31 \<or> trueBits \<ge> sizes then Inl s
                else if trueBits \<noteq> bits then Inr (bits, blockOff, sptr, s)
                else case unlink_buddy bits buddy (wr (pastPtr - 1) 0 s) of
                  Inl s \<Rightarrow> Inl s
                | Inr s \<Rightarrow>
                    if buddy < blockOff
                    then merge_loop sizes (bits + 1) buddy (dw s buddy) s
                    else merge_loop sizes (bits + 1) blockOff sptr s
      else Inr (bits, blockOff, sptr, s))"
  by pat_completeness auto

termination merge_loop
proof (relation "measure (\<lambda>(sizes, bits, blockOff, sptr, s). sizes - bits)")
  fix sizes bits blockOff sptr blockOff' sptr' :: nat and s s' :: CEsvga2Allocator
  assume "bits < sizes - 1"
  then have less: "sizes - (bits + 1) < sizes - bits" by arith
  show "((sizes, bits + 1, blockOff', sptr', s'), sizes, bits, blockOff, sptr, s)
      \<in> measure (\<lambda>(sizes, bits, blockOff, sptr, s). sizes - bits)"
    using less by simp
  show "((sizes, bits + 1, blockOff, sptr, s'), sizes, bits, blockOff, sptr, s)
      \<in> measure (\<lambda>(sizes, bits, blockOff, sptr, s). sizes - bits)"
    using less by simp
qed simp

declare merge_loop.simps [simp del]

text \<open>The end of \<open>Free\<close>: the merged block goes to the front of its free list.\<close>

definition free_link ::
  "nat \<Rightarrow> nat \<Rightarrow> nat \<Rightarrow> nat \<Rightarrow> CEsvga2Allocator \<Rightarrow> IOReturn \<times> CEsvga2Allocator" where
  "free_link oldBits bits blockOff sptr s =
     (let s = wr (sptr + OFF_MAGIC) MAGIC s;
          s = wr (sptr + OFF_PREV) OURNULL s;
          nextOffset = freeList s ! bits;
          nextPtr = dw s nextOffset
      in if nextOffset \<noteq> OURNULL \<and> nextOffset \<ge> poolBlocks s then (kIOReturnInternalError, s)
         else if nextOffset \<noteq> OURNULL \<and> rd s (nextPtr + OFF_MAGIC) \<noteq> MAGIC
         then (kIOReturnInternalError, s)
         else if nextOffset \<noteq> OURNULL \<and> rd s (nextPtr + OFF_PREV) \<noteq> OURNULL
         then (kIOReturnInternalError, s)
         else
           let s = (if nextOffset \<noteq> OURNULL then wr (nextPtr + OFF_PREV) blockOff s else s);
               s = wr (sptr + OFF_NEXT) nextOffset s;
               pastPtr = sptr + 2 ^ (minBits s + bits) div 4;
               s = wr (pastPtr - 1) (bits + LEN_OFFSET) s
           in (kIOReturnSuccess,
               s\<lparr>freeList := (freeList s)[bits := blockOff],
                 freeBytes := w32 (freeBytes s + w32 (2 ^ (oldBits + minBits s)))\<rparr>))"

definition Free :: "nat \<Rightarrow> CEsvga2Allocator \<Rightarrow> IOReturn \<times> CEsvga2Allocator" where
  "Free storage s =
     (if storage = 0 then (kIOReturnSuccess, s)
      else case BuddyAllocSize storage s of
        Inl ret \<Rightarrow> (ret, s)
      | Inr bits \<Rightarrow>
          let blocksHere = w32 (2 ^ bits);
              blockOff = w32 ((storage - poolStart s) div 2 ^ minBits s);
              s = s\<lparr>pmap := BITCLEAR (pmap s) (sub32 (w32 (blockOff + blocksHere)) 1)\<rparr>
          in case merge_loop (numSizes s) bits blockOff ((storage - poolStart s) div 4) s of
               Inl s \<Rightarrow> (kIOReturnInternalError, s)
             | Inr (bits', blockOff', sptr, s) \<Rightarrow> free_link bits bits' blockOff' sptr s)"

text \<open>\<open>for (canBits = minBits; (1UL << canBits) < size; ++canBits)\<close>\<close>

function can_bits :: "nat \<Rightarrow> nat \<Rightarrow> nat" where
  "can_bits sz b = (if 2 ^ b < sz then can_bits sz (b + 1) else b)"
  by pat_completeness auto

termination can_bits
proof (relation "measure (\<lambda>(sz, b). sz - b)")
  fix sz b :: nat
  assume "2 ^ b < sz"
  then have "b < sz" by (rule less_trans [OF less_exp])
  then show "((sz, b + 1), sz, b) \<in> measure (\<lambda>(sz, b). sz - b)" by simp
qed simp

declare can_bits.simps [simp del]

text \<open>\<open>memcpy\<close> of \<open>n\<close> bytes between two addresses of the pool.\<close>

definition pool_copy :: "nat \<Rightarrow> nat \<Rightarrow> nat \<Rightarrow> CEsvga2Allocator \<Rightarrow> CEsvga2Allocator" where
  "pool_copy dst src n s =
     (let d = (dst - poolStart s) div 4; f = (src - poolStart s) div 4
      in s\<lparr>pool := (\<lambda>i. if d \<le> i \<and> i < d + n div 4 then pool s (f + (i - d)) else pool s i)\<rparr>)"

text \<open>The pointer for the result is taken to be non-null: the only caller, \<open>VRAMRealloc\<close>, passes the address of a variable.\<close>

definition Realloc ::
  "nat \<Rightarrow> nat \<Rightarrow> CEsvga2Allocator \<Rightarrow> IOReturn \<times> nat option \<times> CEsvga2Allocator" where
  "Realloc ptr sz s =
     (if sz = 0 then (case Free ptr s of (ret, s) \<Rightarrow> (ret, None, s))
      else if ptr = 0 then Malloc sz True s
      else case BuddyAllocSize ptr s of
        Inl ret \<Rightarrow> (ret, None, s)
      | Inr bits \<Rightarrow>
          let lg2Bytes = bits + minBits s
          in if 2 ^ lg2Bytes < sz then
               (case Malloc sz True s of
                  (ret, None, s) \<Rightarrow> (ret, None, s)
                | (ret, Some newPtr, s) \<Rightarrow>
                    let s = pool_copy newPtr ptr (2 ^ lg2Bytes) s
                    in (case Free ptr s of
                          (ret, s) \<Rightarrow>
                            (ret, Some newPtr,
                             if ret \<noteq> kIOReturnSuccess then snd (Free newPtr s) else s)))
             else
               let canBits = can_bits sz (minBits s)
               in if canBits \<ge> lg2Bytes then (kIOReturnSuccess, Some ptr, s)
                  else
                    let oldBlocks = w32 (2 ^ bits);
                        newBlocks = w32 (2 ^ (canBits - minBits s));
                        blockNo = w32 ((ptr - poolStart s) div 2 ^ minBits s);
                        s = s\<lparr>pmap := BITSET (pmap s) (sub32 (w32 (blockNo + newBlocks)) 1)\<rparr>;
                        s = s\<lparr>pmap := BITCLEAR (pmap s) (sub32 (w32 (blockNo + oldBlocks)) 1)\<rparr>
                    in (kIOReturnSuccess, Some ptr,
                        toFree (w32 (blockNo + newBlocks)) (w32 (blockNo + oldBlocks)) False s))"

definition Available :: "bool \<Rightarrow> CEsvga2Allocator \<Rightarrow> IOReturn \<times> nat option" where
  "Available bytesFree s =
     (if \<not> bytesFree then (kIOReturnBadArgument, None) else (kIOReturnSuccess, Some (freeBytes s)))"

section \<open>The consistency check\<close>

text \<open>
  One free list of \<open>Check\<close>: the rounds left before \<open>maxBlocks\<close>, the offset, its predecessor,
  the blocks and the store seen so far.  \<open>None\<close> is a return of \<open>kIOReturnInternalError\<close>.
\<close>

fun check_list ::
  "CEsvga2Allocator \<Rightarrow> nat \<Rightarrow> nat \<Rightarrow> nat \<Rightarrow> nat \<Rightarrow> nat \<Rightarrow> nat \<Rightarrow> (nat \<times> nat) option" where
  "check_list s sz 0 offset prevOffset blocksSeen seenStore =
     (if offset \<noteq> OURNULL then None else Some (blocksSeen, seenStore))"
| "check_list s sz (Suc n) offset prevOffset blocksSeen seenStore =
     (if offset = OURNULL then Some (blocksSeen, seenStore)
      else if offset \<ge> poolBlocks s then None
      else if testAny (pmap s) offset (w32 (offset + w32 (2 ^ sz))) then None
      else if rd s (dw s offset + OFF_MAGIC) \<noteq> MAGIC then None
      else if rd s (dw s offset + OFF_PREV) \<noteq> prevOffset then None
      else if rd s (dw s offset + w32 (2 ^ (minBits s + sz)) div 4 - 1) \<noteq> sz + LEN_OFFSET
      then None
      else check_list s sz n (rd s (dw s offset + OFF_NEXT)) offset (blocksSeen + 1)
             (w32 (seenStore + w32 (2 ^ sz))))"

fun check_sizes :: "CEsvga2Allocator \<Rightarrow> nat list \<Rightarrow> nat \<Rightarrow> (nat list \<times> nat) option" where
  "check_sizes s [] seenStore = Some ([], seenStore)"
| "check_sizes s (sz # sizes) seenStore =
     (case check_list s sz (poolBlocks s div 2 ^ sz) (freeList s ! sz) OURNULL 0 seenStore of
        None \<Rightarrow> None
      | Some (blocksSeen, seenStore) \<Rightarrow>
          map_option (\<lambda>(counts, seenStore). (blocksSeen # counts, seenStore))
            (check_sizes s sizes seenStore))"

text \<open>\<open>Check\<close>: the result and the entries stored in \<open>counts\<close> when it succeeds.\<close>

definition Check :: "CEsvga2Allocator \<Rightarrow> IOReturn \<times> nat list option" where
  "Check s =
     (case check_sizes s [0..<numSizes s] 0 of
        None \<Rightarrow> (kIOReturnInternalError, None)
      | Some (counts, seenStore) \<Rightarrow>
          if w32 (seenStore * 2 ^ minBits s) \<noteq> freeBytes s then (kIOReturnInternalError, None)
          else (kIOReturnSuccess, Some counts))"

end
