(* ===== verification/Buddy_Bitmap.thy ===== *)
theory Buddy_Bitmap
  imports Buddy_Model
begin

text \<open>
  The bitmap of the allocator: the three macros as a bit array, and what the range operations
  \<open>testAll\<close>, \<open>testAny\<close> and \<open>clearAll\<close> compute.  The two scans use \<open>repe scasb\<close>
  and judge its outcome by the counter only, so they ignore the last whole byte of the range.
\<close>

section \<open>Arrays of bits\<close>

locale bit_array =
  fixes test :: "'m \<Rightarrow> nat \<Rightarrow> bool"
    and put :: "'m \<Rightarrow> nat \<Rightarrow> 'm"
    and clear :: "'m \<Rightarrow> nat \<Rightarrow> 'm"
    and cap :: "'m \<Rightarrow> nat"
  assumes test_put: "i < cap m \<Longrightarrow> test (put m i) j \<longleftrightarrow> j = i \<or> test m j"
    and test_clear: "i < cap m \<Longrightarrow> test (clear m i) j \<longleftrightarrow> j \<noteq> i \<and> test m j"
    and cap_put: "cap (put m i) = cap m"
    and cap_clear: "cap (clear m i) = cap m"
begin

lemma cap_fold_clear: "cap (fold (\<lambda>i m. clear m i) is m) = cap m"
  by (induction "is" arbitrary: m) (simp_all add: cap_clear)

lemma test_fold_clear:
  "\<forall>i \<in> set is. i < cap m \<Longrightarrow>
   test (fold (\<lambda>i m. clear m i) is m) j \<longleftrightarrow> j \<notin> set is \<and> test m j"
  by (induction "is" arbitrary: m) (auto simp: cap_clear test_clear)

lemma put_clear_other: "i < cap m \<Longrightarrow> k < cap m \<Longrightarrow> i \<noteq> k \<Longrightarrow>
  test (clear (put m i) k) j \<longleftrightarrow> j \<noteq> k \<and> (j = i \<or> test m j)"
  by (simp add: test_put test_clear cap_put)

end

section \<open>Bytes\<close>

lemma mask_bit: "drop_bit (n mod 8) (128 :: u8) = 2 ^ (7 - n mod 8)"
proof -
  have "n mod 8 \<in> {0, 1, 2, 3, 4, 5, 6, 7}" by auto
  then show ?thesis by (auto simp: drop_bit_eq_div word_arith_nat_div)
qed

lemma BITTEST_bit: "BITTEST m n \<longleftrightarrow> bit (m ! (n div 8)) (7 - n mod 8)"
  by (simp add: BITTEST_def mask_bit and_exp_eq_0_iff_not_bit)

lemma div_mod_8_eq: "n div 8 = k div 8 \<Longrightarrow> 7 - n mod 8 = 7 - k mod 8 \<Longrightarrow> n = (k :: nat)"
proof -
  assume d: "n div 8 = k div 8" and m: "7 - n mod 8 = 7 - k mod 8"
  have "n mod 8 = k mod 8" using m mod_less_divisor [of 8 n] mod_less_divisor [of 8 k] by linarith
  then show "n = k" using d by (metis div_mult_mod_eq)
qed

interpretation bits: bit_array BITTEST BITSET BITCLEAR "\<lambda>m. 8 * length m"
proof
  fix i j :: nat and m :: "u8 list"
  assume i: "i < 8 * length m"
  have len: "i div 8 < length m" using i by (simp add: less_mult_imp_div_less mult.commute)
  have same: "i div 8 = j div 8 \<Longrightarrow> (7 - i mod 8 = 7 - j mod 8) = (j = i)"
    using div_mod_8_eq by metis
  have 8: "7 - j mod 8 < 8" by simp
  show "BITTEST (BITSET m i) j \<longleftrightarrow> j = i \<or> BITTEST m j"
    using len same 8
    by (cases "i div 8 = j div 8") (auto simp: BITTEST_bit BITSET_def mask_bit bit_or_iff bit_exp_iff nth_list_update)
  show "BITTEST (BITCLEAR m i) j \<longleftrightarrow> j \<noteq> i \<and> BITTEST m j"
    using len same 8
    by (cases "i div 8 = j div 8")
      (auto simp: BITTEST_bit BITCLEAR_def mask_bit bit_and_iff bit_not_iff bit_exp_iff nth_list_update)
qed (simp_all add: BITSET_def BITCLEAR_def)

lemma byte_all: "b = 0xFF \<longleftrightarrow> (\<forall>j < 8. bit (b :: u8) j)"
proof
  assume all: "\<forall>j < 8. bit b j"
  have "b = - 1" by (rule bit_word_eqI) (use all in \<open>simp add: bit_1_iff\<close>)
  then show "b = 0xFF" by simp
next
  assume "b = 0xFF"
  then have "b = - 1" by simp
  then show "\<forall>j < 8. bit b j" by simp
qed

lemma byte_none: "b = 0 \<longleftrightarrow> (\<forall>j < 8. \<not> bit (b :: u8) j)"
  by (auto intro: bit_word_eqI)

lemma byte_range: "(\<forall>j < 8. P (m ! k) j) \<longleftrightarrow> (\<forall>u. u div 8 = k \<longrightarrow> P (m ! (u div 8)) (7 - u mod 8))"
proof
  assume *: "\<forall>u. u div 8 = k \<longrightarrow> P (m ! (u div 8)) (7 - u mod 8)"
  show "\<forall>j < 8. P (m ! k) j"
  proof (intro allI impI)
    fix j :: nat
    assume "j < 8"
    define d where "d = 7 - j"
    with \<open>j < 8\<close> have "d < 8" "j = 7 - d" by simp_all
    then have "(8 * k + d) div 8 = k" "7 - (8 * k + d) mod 8 = j" by simp_all
    then show "P (m ! k) j" using * by metis
  qed
qed auto

lemma byte_full: "m ! k = 0xFF \<longleftrightarrow> (\<forall>u. u div 8 = k \<longrightarrow> BITTEST m u)"
  unfolding byte_all BITTEST_bit by (rule byte_range)

lemma byte_empty: "m ! k = 0 \<longleftrightarrow> (\<forall>u. u div 8 = k \<longrightarrow> \<not> BITTEST m u)"
  unfolding byte_none BITTEST_bit by (rule byte_range)

section \<open>The scan instruction\<close>

lemma repe_scasb_0: "bs \<noteq> [] \<Longrightarrow> repe_scasb al bs = 0 \<longleftrightarrow> (\<forall>b \<in> set (butlast bs). b = al)"
  by (induction bs) auto

lemma memAll_eq: "memAll bs \<longleftrightarrow> (\<forall>b \<in> set (butlast bs). b = 0xFF)"
  by (simp add: memAll_def repe_scasb_0)

lemma memAny_eq: "memAny bs \<longleftrightarrow> (\<exists>b \<in> set (butlast bs). b \<noteq> 0)"
  by (simp add: memAny_def repe_scasb_0)

lemma butlast_bytes_of:
  "j \<le> length m \<Longrightarrow> set (butlast (bytes_of m i j)) = {m ! k |k. i \<le> k \<and> k < j - 1}"
proof -
  assume j: "j \<le> length m"
  have "butlast (bytes_of m i j) = take (j - i - 1) (drop i m)"
    using j by (cases "i < j") (simp_all add: bytes_of_def butlast_take)
  moreover have "set (take (j - i - 1) (drop i m)) = {m ! k |k. i \<le> k \<and> k < j - 1}"
  proof (rule set_eqI)
    fix b
    have "b \<in> set (take (j - i - 1) (drop i m)) \<longleftrightarrow> (\<exists>k < j - i - 1. b = m ! (i + k))"
      using j by (auto simp: in_set_conv_nth min_def)
    also have "\<dots> \<longleftrightarrow> b \<in> {m ! k |k. i \<le> k \<and> k < j - 1}"
    proof
      assume "\<exists>k < j - i - 1. b = m ! (i + k)"
      then obtain k where "k < j - i - 1" "b = m ! (i + k)" by blast
      then have "i \<le> i + k \<and> i + k < j - 1 \<and> b = m ! (i + k)" by simp
      then show "b \<in> {m ! k |k. i \<le> k \<and> k < j - 1}" by blast
    next
      assume "b \<in> {m ! k |k. i \<le> k \<and> k < j - 1}"
      then obtain k where "i \<le> k" "k < j - 1" "b = m ! k" by blast
      then have "k - i < j - i - 1 \<and> b = m ! (i + (k - i))" by simp
      then show "\<exists>k < j - i - 1. b = m ! (i + k)" by blast
    qed
    finally show "b \<in> set (take (j - i - 1) (drop i m)) \<longleftrightarrow> b \<in> {m ! k |k. i \<le> k \<and> k < j - 1}" .
  qed
  ultimately show ?thesis by simp
qed

section \<open>Ranges of bits\<close>

text \<open>The units of the last whole byte of a range, which the scans do not look at.\<close>

definition unscanned :: "nat \<Rightarrow> nat \<Rightarrow> nat \<Rightarrow> bool" where
  "unscanned first past u \<longleftrightarrow>
     (first + 7) div 8 < past div 8 \<and> u div 8 = past div 8 - 1"

text \<open>How the three loops of a range operation split the range.\<close>

lemma range_split:
  fixes first past u :: nat
  assumes "first \<le> past"
  shows "first \<le> u \<and> u < past \<longleftrightarrow>
    first \<le> u \<and> u < min past ((first + 7) div 8 * 8) \<or>
    past div 8 * 8 > (first + 7) div 8 * 8 \<and> (first + 7) div 8 \<le> u div 8 \<and> u div 8 < past div 8 \<or>
    max (past div 8 * 8) (min past ((first + 7) div 8 * 8)) \<le> u \<and> u < past"
proof -
  define a b where "a = (first + 7) div 8" and "b = past div 8"
  have ab: "first \<le> a * 8" "b * 8 \<le> past" unfolding a_def b_def by linarith+
  have div: "a \<le> u div 8 \<and> u div 8 < b \<longleftrightarrow> a * 8 \<le> u \<and> u < b * 8"
    by (simp add: less_eq_div_iff_mult_less_eq div_less_iff_less_mult)
  show ?thesis unfolding a_def [symmetric] b_def [symmetric] div using ab assms
    by (auto simp: min_def max_def)
qed

lemma scanned_split:
  fixes first past u :: nat
  assumes "first \<le> past"
  shows "first \<le> u \<and> u < past \<and> \<not> unscanned first past u \<longleftrightarrow>
    first \<le> u \<and> u < min past ((first + 7) div 8 * 8) \<or>
    past div 8 * 8 > (first + 7) div 8 * 8 \<and> (first + 7) div 8 \<le> u div 8 \<and> u div 8 < past div 8 - 1 \<or>
    max (past div 8 * 8) (min past ((first + 7) div 8 * 8)) \<le> u \<and> u < past"
proof -
  define a b c where "a = (first + 7) div 8" and "b = past div 8" and "c = u div 8"
  have ab: "first \<le> a * 8" "b * 8 \<le> past" unfolding a_def b_def by linarith+
  have c: "c * 8 \<le> u" "u < c * 8 + 8" unfolding c_def by linarith+
  show ?thesis unfolding unscanned_def a_def [symmetric] b_def [symmetric] c_def [symmetric]
    using ab assms c by (auto simp: min_def max_def)
qed

lemma scanned_bytes:
  assumes "past div 8 \<le> length m"
  shows "(\<forall>b \<in> set (butlast (bytes_of m ((first + 7) div 8) (past div 8))). P b) \<longleftrightarrow>
    (\<forall>k. (first + 7) div 8 \<le> k \<and> k < past div 8 - 1 \<longrightarrow> P (m ! k))"
  unfolding butlast_bytes_of [OF assms] by blast

lemma all_range: "list_all P [a..<b] \<longleftrightarrow> (\<forall>u. a \<le> u \<and> u < b \<longrightarrow> P u)"
  by (auto simp: list_all_iff)

lemma ex_range: "list_ex P [a..<b] \<longleftrightarrow> \<not> (\<forall>u. a \<le> u \<and> u < b \<longrightarrow> \<not> P u)"
  by (auto simp: list_ex_iff)

lemma testAll_iff:
  assumes "first \<le> past" "past div 8 \<le> length m"
  shows "testAll m first past \<longleftrightarrow>
    (\<forall>u. first \<le> u \<and> u < past \<and> \<not> unscanned first past u \<longrightarrow> BITTEST m u)"
proof -
  have "testAll m first past \<longleftrightarrow>
      (\<forall>u. first \<le> u \<and> u < min past ((first + 7) div 8 * 8) \<longrightarrow> BITTEST m u) \<and>
      (past div 8 * 8 > (first + 7) div 8 * 8 \<longrightarrow>
        (\<forall>k. (first + 7) div 8 \<le> k \<and> k < past div 8 - 1 \<longrightarrow> m ! k = 0xFF)) \<and>
      (\<forall>u. max (past div 8 * 8) (min past ((first + 7) div 8 * 8)) \<le> u \<and> u < past
        \<longrightarrow> BITTEST m u)"
    unfolding testAll_def Let_def all_range memAll_eq
      div_mult_self1_is_m nonzero_mult_div_cancel_right [OF numeral_neq_zero] scanned_bytes [OF assms(2)]
    by argo
  also have "\<dots> \<longleftrightarrow> (\<forall>u. first \<le> u \<and> u < past \<and> \<not> unscanned first past u \<longrightarrow> BITTEST m u)"
    unfolding scanned_split [OF assms(1)] byte_full by blast
  finally show ?thesis .
qed

lemma testAny_iff:
  assumes "first \<le> past" "past div 8 \<le> length m"
  shows "testAny m first past \<longleftrightarrow>
    (\<exists>u. first \<le> u \<and> u < past \<and> \<not> unscanned first past u \<and> BITTEST m u)"
proof -
  have mem: "memAny bs \<longleftrightarrow> \<not> (\<forall>b \<in> set (butlast bs). b = 0)" for bs by (simp add: memAny_eq)
  have "\<not> testAny m first past \<longleftrightarrow>
      (\<forall>u. first \<le> u \<and> u < min past ((first + 7) div 8 * 8) \<longrightarrow> \<not> BITTEST m u) \<and>
      (past div 8 * 8 > (first + 7) div 8 * 8 \<longrightarrow>
        (\<forall>k. (first + 7) div 8 \<le> k \<and> k < past div 8 - 1 \<longrightarrow> m ! k = 0)) \<and>
      (\<forall>u. max (past div 8 * 8) (min past ((first + 7) div 8 * 8)) \<le> u \<and> u < past
        \<longrightarrow> \<not> BITTEST m u)"
    unfolding testAny_def Let_def ex_range mem
      nonzero_mult_div_cancel_right [OF numeral_neq_zero] scanned_bytes [OF assms(2)]
    by argo
  also have "\<dots> \<longleftrightarrow> (\<forall>u. first \<le> u \<and> u < past \<and> \<not> unscanned first past u \<longrightarrow> \<not> BITTEST m u)"
    unfolding scanned_split [OF assms(1)] byte_empty by blast
  finally show ?thesis by blast
qed

lemma fold_zero_bytes:
  "\<forall>i \<in> set is. i < length m \<Longrightarrow>
   length (fold (\<lambda>i m. m[i := 0]) is m) = length m \<and>
   BITTEST (fold (\<lambda>i m. m[i := 0]) is m) u = (u div 8 \<notin> set is \<and> BITTEST m u)"
  by (induction "is" arbitrary: m) (auto simp: BITTEST_bit nth_list_update)

lemma length_zero_bytes: "length (fold (\<lambda>i m. m[i := 0]) is m) = length m"
  by (induction "is" arbitrary: m) auto

lemma length_fold_BITCLEAR: "length (fold (\<lambda>i m. BITCLEAR m i) is m) = length m"
  using bits.cap_fold_clear [of "is" m] by simp

lemma length_clearAll [simp]: "length (clearAll first past m) = length m"
  by (simp add: clearAll_def Let_def length_fold_BITCLEAR length_zero_bytes)

lemma clearAll_iff:
  assumes "first \<le> past" "past \<le> 8 * length m"
  shows "BITTEST (clearAll first past m) u \<longleftrightarrow> \<not> (first \<le> u \<and> u < past) \<and> BITTEST m u"
proof -
  define A B where "A = (first + 7) div 8 * 8" and "B = past div 8 * 8"
  define m1 where "m1 = fold (\<lambda>i m. BITCLEAR m i) [first..<min past A] m"
  define m2 where "m2 = (if A < B then fold (\<lambda>i m. m[i := 0]) [A div 8..<B div 8] m1 else m1)"
  have len1: "length m1 = length m" by (simp add: m1_def length_fold_BITCLEAR)
  have len2: "length m2 = length m" by (simp add: m2_def length_zero_bytes len1)
  have t1: "BITTEST m1 u \<longleftrightarrow> \<not> (first \<le> u \<and> u < min past A) \<and> BITTEST m u"
    unfolding m1_def using assms by (subst bits.test_fold_clear) auto
  have "\<forall>i \<in> set [A div 8..<B div 8]. i < length m1" using assms by (auto simp: len1 B_def)
  then have t2: "BITTEST m2 u \<longleftrightarrow> \<not> (A < B \<and> A div 8 \<le> u div 8 \<and> u div 8 < B div 8) \<and> BITTEST m1 u"
    using fold_zero_bytes [of "[A div 8..<B div 8]" m1 u] by (auto simp: m2_def)
  have t3: "BITTEST (fold (\<lambda>i m. BITCLEAR m i) [max B (min past A)..<past] m2) u \<longleftrightarrow>
      \<not> (max B (min past A) \<le> u \<and> u < past) \<and> BITTEST m2 u"
    using assms by (subst bits.test_fold_clear) (auto simp: len2)
  have c: "clearAll first past m = fold (\<lambda>i m. BITCLEAR m i) [max B (min past A)..<past] m2"
    by (simp add: clearAll_def Let_def A_def B_def m1_def m2_def)
  have "BITTEST (clearAll first past m) u \<longleftrightarrow>
      \<not> (max B (min past A) \<le> u \<and> u < past) \<and>
      \<not> (A < B \<and> A div 8 \<le> u div 8 \<and> u div 8 < B div 8) \<and>
      \<not> (first \<le> u \<and> u < min past A) \<and> BITTEST m u"
    unfolding c t3 t2 t1 by argo
  then show ?thesis
    unfolding range_split [OF assms(1)] A_def B_def
      nonzero_mult_div_cancel_right [OF numeral_neq_zero]
    by argo
qed

end
