(* ===== verification/Buddy_Pool.thy ===== *)
theory Buddy_Pool
  imports Buddy_Bitmap
begin

text \<open>
  The invariant of the buddy allocator.  A ghost function gives every block of the pool its
  owner: the free chunk or the busy chunk that contains it, or none while an operation is under
  way.  Chunks are aligned powers of two and tile the pool.  The free lists are doubly linked
  list segments in the memory of the free chunks, and the bit of a block is set exactly when it
  is the last one of a busy chunk.
\<close>

section \<open>Chunks\<close>

datatype owner = Limbo | Chunk bool nat nat

abbreviation FreeC :: "nat \<Rightarrow> nat \<Rightarrow> owner" where "FreeC \<equiv> Chunk True"
abbreviation BusyC :: "nat \<Rightarrow> nat \<Rightarrow> owner" where "BusyC \<equiv> Chunk False"

primrec is_free :: "owner \<Rightarrow> bool" where
  "is_free Limbo = False"
| "is_free (Chunk f x k) = f"

definition chunk_ok :: "nat \<Rightarrow> nat \<Rightarrow> nat \<Rightarrow> bool" where
  "chunk_ok N x k \<longleftrightarrow> x + 2 ^ k \<le> N \<and> 2 ^ k dvd x \<and> k < 13"

definition tiles :: "nat \<Rightarrow> (nat \<Rightarrow> owner) \<Rightarrow> bool" where
  "tiles N own \<longleftrightarrow>
     (\<forall>u f x k. u < N \<and> own u = Chunk f x k \<longrightarrow>
        x \<le> u \<and> u < x + 2 ^ k \<and> chunk_ok N x k \<and>
        (\<forall>v. x \<le> v \<and> v < x + 2 ^ k \<longrightarrow> own v = Chunk f x k))"

definition paint :: "nat \<Rightarrow> nat \<Rightarrow> owner \<Rightarrow> (nat \<Rightarrow> owner) \<Rightarrow> nat \<Rightarrow> owner" where
  "paint a b w own = (\<lambda>u. if a \<le> u \<and> u < b then w else own u)"

lemma paint_in [simp]: "a \<le> u \<Longrightarrow> u < b \<Longrightarrow> paint a b w own u = w"
  by (simp add: paint_def)

lemma paint_out [simp]: "u < a \<or> b \<le> u \<Longrightarrow> paint a b w own u = own u"
  by (auto simp: paint_def)

lemma paint_paint [simp]: "paint a b w (paint a b v own) = paint a b w own"
  by (auto simp: paint_def)

lemma tilesD:
  assumes "tiles N own" "u < N" "own u = Chunk f x k"
  shows "x \<le> u" "u < x + 2 ^ k" "chunk_ok N x k" "x \<le> v \<Longrightarrow> v < x + 2 ^ k \<Longrightarrow> own v = Chunk f x k"
  using assms unfolding tiles_def by blast+

lemma chunk_okD:
  "chunk_ok N x k \<Longrightarrow> x + 2 ^ k \<le> N" "chunk_ok N x k \<Longrightarrow> x < N"
  "chunk_ok N x k \<Longrightarrow> 2 ^ k dvd x" "chunk_ok N x k \<Longrightarrow> k < 13"
proof -
  have "x < x + 2 ^ k" by simp
  then show "chunk_ok N x k \<Longrightarrow> x < N" unfolding chunk_ok_def by linarith
qed (auto simp: chunk_ok_def)

text \<open>
  Repainting a range: the range is one whole chunk, or unowned, and becomes unowned or one
  chunk.
\<close>

lemma tiles_paint:
  assumes t: "tiles N own"
    and old: "\<forall>u. a \<le> u \<and> u < b \<longrightarrow> own u = w0" "w0 = Limbo \<or> (\<exists>f k. w0 = Chunk f a k \<and> b = a + 2 ^ k)"
    and new: "w = Limbo \<or> (\<exists>f k. w = Chunk f a k \<and> b = a + 2 ^ k \<and> chunk_ok N a k)"
  shows "tiles N (paint a b w own)"
  unfolding tiles_def
proof (intro allI impI)
  fix u f x k
  assume u: "u < N \<and> paint a b w own u = Chunk f x k"
  show "x \<le> u \<and> u < x + 2 ^ k \<and> chunk_ok N x k \<and>
    (\<forall>v. x \<le> v \<and> v < x + 2 ^ k \<longrightarrow> paint a b w own v = Chunk f x k)"
  proof (cases "a \<le> u \<and> u < b")
    case True
    then have "w = Chunk f x k" using u by simp
    then show ?thesis using new True by auto
  next
    case False
    then have own: "own u = Chunk f x k" using u by (auto simp: paint_def split: if_splits)
    note d = tilesD [OF t _ own]
    have "\<not> (a \<le> v \<and> v < b)" if v: "x \<le> v" "v < x + 2 ^ k" for v
    proof
      assume *: "a \<le> v \<and> v < b"
      then have "w0 = Chunk f x k" using d(4) [of v] v old(1) u by metis
      then have "x = a" "b = a + 2 ^ k" using old(2) by auto
      then show False using False d(1,2) u by simp
    qed
    then show ?thesis using d u by (auto simp: paint_def)
  qed
qed

text \<open>Two chunks of a tiling are equal or disjoint, and so are aligned ranges in general.\<close>

lemma tiles_same:
  assumes "tiles N own" "u < N" "own u = Chunk f x k" "v < N" "own v = Chunk g y j"
    and "x \<le> w" "w < x + 2 ^ k" "y \<le> w" "w < y + 2 ^ j"
  shows "f = g \<and> x = y \<and> k = j"
  using tilesD(4) [OF assms(1-3), of w] tilesD(4) [OF assms(1,4,5), of w] assms(6-9) by simp

lemma aligned_nested:
  fixes x y k j u :: nat
  assumes "2 ^ k dvd x" "2 ^ j dvd y" "k \<le> j" "x \<le> u" "u < x + 2 ^ k" "y \<le> u" "u < y + 2 ^ j"
  shows "y \<le> x \<and> x + 2 ^ k \<le> y + 2 ^ j"
proof -
  have "2 ^ k dvd (y :: nat)" using assms(2,3) power_le_dvd by blast
  moreover have kj: "2 ^ k dvd (2 ^ j :: nat)" using assms(3) by (simp add: le_imp_power_dvd)
  ultimately obtain a b c :: nat where abc: "x = 2 ^ k * a" "y = 2 ^ k * b" "2 ^ j = 2 ^ k * c"
    using assms(1) by (meson dvdE)
  have "b < a + 1" using assms(5,6) abc
    by (metis distrib_left le_less_trans mult.right_neutral mult_less_cancel1)
  moreover have "a < b + c" using assms(4,7) abc
    by (metis distrib_left le_less_trans mult_less_cancel1)
  ultimately have "b \<le> a" "a + 1 \<le> b + c" by simp_all
  then have "2 ^ k * b \<le> 2 ^ k * a" "2 ^ k * (a + 1) \<le> 2 ^ k * (b + c)" by (meson mult_le_mono2)+
  then show ?thesis by (simp add: abc distrib_left)
qed

section \<open>Memory cells\<close>

lemma rd_wr [simp]: "rd (wr i v s) j = (if j = i then w32 v else rd s j)"
  by (simp add: rd_def wr_def unat_of_nat)

lemma wr_sels [simp]:
  "poolStart (wr i v s) = poolStart s" "poolBlocks (wr i v s) = poolBlocks s"
  "minBits (wr i v s) = minBits s" "numSizes (wr i v s) = numSizes s"
  "freeList (wr i v s) = freeList s" "pmap (wr i v s) = pmap s"
  "pmap_null (wr i v s) = pmap_null s" "freeBytes (wr i v s) = freeBytes s"
  "dw (wr i v s) x = dw s x"
  by (simp_all add: wr_def dw_def)

lemma rd_upd [simp]:
  "rd (s\<lparr>freeList := l\<rparr>) = rd s" "rd (s\<lparr>freeBytes := b\<rparr>) = rd s" "rd (s\<lparr>pmap := m\<rparr>) = rd s"
  "dw (s\<lparr>freeList := l\<rparr>) = dw s" "dw (s\<lparr>freeBytes := b\<rparr>) = dw s" "dw (s\<lparr>pmap := m\<rparr>) = dw s"
  by (simp_all add: rd_def dw_def fun_eq_iff)

lemma rd_bound: "rd s i < 2 ^ 32"
  unfolding rd_def by (rule unat_u32_less)

text \<open>The pool's geometry; the state outside of lists and bitmap.\<close>

definition geometry :: "CEsvga2Allocator \<Rightarrow> bool" where
  "geometry s \<longleftrightarrow> minBits s = 12 \<and> numSizes s = 13 \<and> length (freeList s) = 13 \<and>
     poolBlocks s * 4096 < 2 ^ 32 \<and> poolBlocks s \<le> 8 * length (pmap s)"

lemma dw_eq: "geometry s \<Longrightarrow> x \<le> poolBlocks s \<Longrightarrow> dw s x = x * 1024"
proof -
  assume g: "geometry s" and x: "x \<le> poolBlocks s"
  have "x * 4096 < 2 ^ 32" using g x by (simp add: geometry_def)
  then show ?thesis using g by (simp add: dw_def geometry_def)
qed

section \<open>Free lists as list segments\<close>

text \<open>
  The cells of a free chunk that the allocator uses: the header of three dwords and the trailer
  with the size.
\<close>

definition magic_cell :: "nat \<Rightarrow> nat" where "magic_cell x = x * 1024"
definition prev_cell :: "nat \<Rightarrow> nat" where "prev_cell x = x * 1024 + 1"
definition next_cell :: "nat \<Rightarrow> nat" where "next_cell x = x * 1024 + 2"
definition bits_cell :: "nat \<Rightarrow> nat \<Rightarrow> nat" where "bits_cell x k = (x + 2 ^ k) * 1024 - 1"

lemmas cell_defs = magic_cell_def prev_cell_def next_cell_def bits_cell_def

lemma bits_cell_Suc: obtains z where "x + 2 ^ k = Suc z" "bits_cell x k = z * 1024 + 1023"
proof -
  have "\<exists>z. x + 2 ^ k = Suc z" 
    by (rule gr0_implies_Suc) (simp only: add_gr_0 zero_less_power zero_less_numeral simp_thms)
  then obtain z where z: "x + 2 ^ k = Suc z" ..
  have "Suc z * 1024 - 1 = z * 1024 + 1023" by simp
  then have "bits_cell x k = z * 1024 + 1023" unfolding bits_cell_def z .
  then show thesis by (rule that [OF z])
qed

lemma cell_eq [simp]:
  "magic_cell x = magic_cell y \<longleftrightarrow> x = y" "prev_cell x = prev_cell y \<longleftrightarrow> x = y"
  "next_cell x = next_cell y \<longleftrightarrow> x = y" "bits_cell x k = bits_cell y j \<longleftrightarrow> x + 2 ^ k = y + 2 ^ j"
proof -
  obtain z where z: "x + 2 ^ k = Suc z" "bits_cell x k = z * 1024 + 1023" by (rule bits_cell_Suc)
  obtain w where w: "y + 2 ^ j = Suc w" "bits_cell y j = w * 1024 + 1023" by (rule bits_cell_Suc)
  show "bits_cell x k = bits_cell y j \<longleftrightarrow> x + 2 ^ k = y + 2 ^ j" using z w by simp
qed (simp_all add: cell_defs)

lemma cell_mod:
  "magic_cell x mod 1024 = 0" "prev_cell x mod 1024 = 1" "next_cell x mod 1024 = 2"
  "bits_cell x k mod 1024 = 1023"
proof -
  obtain z where "bits_cell x k = z * 1024 + 1023" by (rule bits_cell_Suc)
  then show "bits_cell x k mod 1024 = 1023" by simp
qed (simp_all add: magic_cell_def prev_cell_def next_cell_def mod_Suc)

lemma cell_div [simp]:
  "magic_cell x div 1024 = x" "prev_cell x div 1024 = x" "next_cell x div 1024 = x"
  unfolding magic_cell_def prev_cell_def next_cell_def by simp_all

lemma mod_neq: "i mod n \<noteq> j mod n \<Longrightarrow> i \<noteq> j"
  by blast

lemma cell_neq [simp]:
  "magic_cell x \<noteq> prev_cell y" "prev_cell x \<noteq> magic_cell y" "magic_cell x \<noteq> next_cell y"
  "next_cell x \<noteq> magic_cell y" "prev_cell x \<noteq> next_cell y" "next_cell x \<noteq> prev_cell y"
  "magic_cell x \<noteq> bits_cell y k" "bits_cell y k \<noteq> magic_cell x" "prev_cell x \<noteq> bits_cell y k"
  "bits_cell y k \<noteq> prev_cell x" "next_cell x \<noteq> bits_cell y k" "bits_cell y k \<noteq> next_cell x"
  by - (rule mod_neq [where n = 1024]; simp add: cell_mod)+

definition first :: "nat list \<Rightarrow> nat \<Rightarrow> nat" where
  "first xs n = (case xs of [] \<Rightarrow> n | x # _ \<Rightarrow> x)"

definition lastp :: "nat \<Rightarrow> nat list \<Rightarrow> nat" where
  "lastp p xs = (if xs = [] then p else last xs)"

lemma first_simps [simp]: "first [] n = n" "first (x # xs) n = x"
  by (simp_all add: first_def)

lemma lastp_simps [simp]: "lastp p [] = p" "lastp p (x # xs) = lastp x xs"
  by (simp_all add: lastp_def)

fun seg :: "(nat \<Rightarrow> nat) \<Rightarrow> nat \<Rightarrow> nat \<Rightarrow> nat list \<Rightarrow> nat \<Rightarrow> bool" where
  "seg m k p [] n \<longleftrightarrow> True"
| "seg m k p (x # xs) n \<longleftrightarrow>
     m (magic_cell x) = MAGIC \<and> m (prev_cell x) = p \<and> m (next_cell x) = first xs n \<and>
     m (bits_cell x k) = k + LEN_OFFSET \<and> seg m k x xs n"

lemma seg_append:
  "seg m k p (as @ bs) n \<longleftrightarrow> seg m k p as (first bs n) \<and> seg m k (lastp p as) bs n"
proof (induction as arbitrary: p)
  case (Cons a as)
  then show ?case by (cases as) simp_all
qed simp

text \<open>A segment only depends on the memory of its chunks.\<close>

definition cells :: "nat \<Rightarrow> nat \<Rightarrow> nat set" where
  "cells x k = {x * 1024..<(x + 2 ^ k) * 1024}"

lemma cells_mem [simp]:
  "magic_cell x \<in> cells x k" "prev_cell x \<in> cells x k" "next_cell x \<in> cells x k" "bits_cell x k \<in> cells x k"
proof -
  have "(1::nat) \<le> 2 ^ k" by simp
  then have *: "x * 1024 + 1024 \<le> (x + 2 ^ k) * 1024" by (simp add: distrib_right)
  show "magic_cell x \<in> cells x k" "prev_cell x \<in> cells x k" "next_cell x \<in> cells x k" "bits_cell x k \<in> cells x k"
    unfolding cells_def atLeastLessThan_iff cell_defs using * by linarith+
qed

lemma seg_cong:
  assumes "\<forall>x \<in> set xs. \<forall>i \<in> cells x k. m i = m' i"
  shows "seg m k p xs n = seg m' k p xs n"
  using assms
proof (induction xs arbitrary: p)
  case (Cons x xs)
  have "m i = m' i" if "i \<in> cells x k" for i using Cons.prems that by simp
  then show ?case using Cons by simp
qed simp

text \<open>Relinking the first and the last node of a segment.\<close>

lemma seg_set_prev:
  assumes "seg m k p (b # bs) n" "m' (prev_cell b) = p'"
    and "\<forall>z \<in> set (b # bs). \<forall>i \<in> cells z k. i \<noteq> prev_cell b \<longrightarrow> m' i = m i"
    and "\<forall>z \<in> set bs. prev_cell b \<notin> cells z k"
  shows "seg m' k p' (b # bs) n"
proof -
  have hd: "i \<in> cells b k \<Longrightarrow> i \<noteq> prev_cell b \<Longrightarrow> m' i = m i" for i using assms(3) by simp
  have "seg m' k b bs n = seg m k b bs n"
    by (rule seg_cong) (use assms(3,4) in force)
  then show ?thesis
    using assms(1,2) hd by simp
qed

lemma seg_set_next:
  assumes "seg m k p (as @ [a]) n" "m' (next_cell a) = n'"
    and "\<forall>z \<in> set (as @ [a]). \<forall>i \<in> cells z k. i \<noteq> next_cell a \<longrightarrow> m' i = m i"
    and "\<forall>z \<in> set as. next_cell a \<notin> cells z k"
  shows "seg m' k p (as @ [a]) n'"
proof -
  have a: "i \<in> cells a k \<Longrightarrow> i \<noteq> next_cell a \<Longrightarrow> m' i = m i" for i using assms(3) by simp
  have "seg m' k p as a = seg m k p as a"
    by (rule seg_cong) (use assms(3,4) in force)
  then show ?thesis
    using assms(1,2) a by (simp add: seg_append)
qed

text \<open>
  Taking a node out of a segment: the predecessor of the next node and the successor of the
  previous node are the only cells of the remaining nodes that change.
\<close>

lemma seg_remove:
  assumes seg: "seg m k p (as @ x # bs) n" and dist: "distinct (as @ x # bs)"
    and apart: "\<And>z y i. z \<in> set (as @ bs) \<Longrightarrow> y \<in> set (as @ bs) \<Longrightarrow> z \<noteq> y \<Longrightarrow> i \<in> cells z k \<Longrightarrow> i \<notin> cells y k"
    and prev: "\<And>y ys. bs = y # ys \<Longrightarrow> m' (prev_cell y) = lastp p as"
    and "next": "as \<noteq> [] \<Longrightarrow> m' (next_cell (last as)) = first bs n"
    and frame: "\<And>z i. z \<in> set (as @ bs) \<Longrightarrow> i \<in> cells z k \<Longrightarrow> (\<And>y ys. bs = y # ys \<Longrightarrow> i \<noteq> prev_cell y) \<Longrightarrow>
      (as \<noteq> [] \<Longrightarrow> i \<noteq> next_cell (last as)) \<Longrightarrow> m' i = m i"
  shows "seg m' k p (as @ bs) n"
proof -
  have segs: "seg m k p as x" "seg m k x bs n" using seg by (auto simp: seg_append)
  have left: "seg m' k p as (first bs n)"
  proof (cases as rule: rev_cases)
    case (snoc as0 a)
    have "\<forall>z \<in> set (as0 @ [a]). \<forall>i \<in> cells z k. i \<noteq> next_cell a \<longrightarrow> m' i = m i"
    proof (intro ballI impI)
      fix z i assume z: "z \<in> set (as0 @ [a])" "i \<in> cells z k" "i \<noteq> next_cell a"
      have "i \<noteq> prev_cell y" if "bs = y # ys" for y ys
        using apart [of y z "prev_cell y"] z that snoc dist by auto
      then show "m' i = m i" using frame [of z i] z snoc by auto
    qed
    moreover have "\<forall>z \<in> set as0. next_cell a \<notin> cells z k" using apart [of a _ "next_cell a"] snoc dist by auto
    ultimately show ?thesis using seg_set_next [of m k p as0 a x m'] segs(1) "next" snoc by auto
  qed simp
  have "seg m' k (lastp p as) bs n"
  proof (cases bs)
    case (Cons b bs0)
    have "\<forall>z \<in> set (b # bs0). \<forall>i \<in> cells z k. i \<noteq> prev_cell b \<longrightarrow> m' i = m i"
    proof (intro ballI impI)
      fix z i assume z: "z \<in> set (b # bs0)" "i \<in> cells z k" "i \<noteq> prev_cell b"
      have "i \<noteq> next_cell (last as)" if "as \<noteq> []"
      proof -
        have "last as \<noteq> z" using last_in_set [OF that] z(1) Cons dist by auto
        then show ?thesis using apart [of "last as" z i] last_in_set [OF that] z(1,2) Cons by auto
      qed
      then show "m' i = m i" using frame [of z i] z Cons by auto
    qed
    moreover have "\<forall>z \<in> set bs0. prev_cell b \<notin> cells z k" using apart [of b _ "prev_cell b"] Cons dist by auto
    ultimately show ?thesis using seg_set_prev [of m k x b bs0 n m'] segs(2) prev [OF Cons] Cons by auto
  qed simp
  then show ?thesis using left by (simp add: seg_append)
qed

section \<open>The invariant\<close>

definition free_heads :: "nat \<Rightarrow> (nat \<Rightarrow> owner) \<Rightarrow> nat \<Rightarrow> nat set" where
  "free_heads N own k = {x. x < N \<and> own x = FreeC x k}"

definition lists_ok :: "CEsvga2Allocator \<Rightarrow> (nat \<Rightarrow> owner) \<Rightarrow> (nat \<Rightarrow> nat list) \<Rightarrow> bool" where
  "lists_ok s own L \<longleftrightarrow>
     (\<forall>k < 13. freeList s ! k = first (L k) OURNULL \<and> seg (rd s) k OURNULL (L k) OURNULL \<and>
        distinct (L k) \<and> set (L k) = free_heads (poolBlocks s) own k)"

definition bits_ok :: "CEsvga2Allocator \<Rightarrow> (nat \<Rightarrow> owner) \<Rightarrow> bool" where
  "bits_ok s own \<longleftrightarrow>
     (\<forall>u < poolBlocks s. BITTEST (pmap s) u \<longleftrightarrow> (\<exists>x k. own u = BusyC x k \<and> u + 1 = x + 2 ^ k))"

definition pool_inv :: "CEsvga2Allocator \<Rightarrow> (nat \<Rightarrow> owner) \<Rightarrow> bool" where
  "pool_inv s own \<longleftrightarrow>
     geometry s \<and> tiles (poolBlocks s) own \<and> bits_ok s own \<and> (\<exists>L. lists_ok s own L)"

definition free_units :: "nat \<Rightarrow> (nat \<Rightarrow> owner) \<Rightarrow> nat" where
  "free_units N own = card {u. u < N \<and> is_free (own u)}"

lemma cells_iff: "i \<in> cells x k \<longleftrightarrow> x \<le> i div 1024 \<and> i div 1024 < x + 2 ^ k"
  unfolding cells_def atLeastLessThan_iff
  by (simp add: less_eq_div_iff_mult_less_eq div_less_iff_less_mult)

lemma lists_okD:
  assumes "lists_ok s own L" "k < 13"
  shows "freeList s ! k = first (L k) OURNULL" "seg (rd s) k OURNULL (L k) OURNULL" "distinct (L k)"
    "x \<in> set (L k) \<Longrightarrow> x < poolBlocks s" "x \<in> set (L k) \<Longrightarrow> own x = FreeC x k"
    "x < poolBlocks s \<Longrightarrow> own x = FreeC x k \<Longrightarrow> x \<in> set (L k)"
  using assms by (auto simp: lists_ok_def free_heads_def)

text \<open>The cells of two free chunks, or of a free chunk and an unowned range, are disjoint.\<close>

lemma free_cells_disjoint:
  assumes "tiles N own" "x < N" "own x = FreeC x k" "y < N" "own y = FreeC y j"
    and "i \<in> cells x k" "i \<in> cells y j"
  shows "x = y \<and> k = j"
  using tiles_same [OF assms(1-5), of "i div 1024"] assms(6,7) by (simp add: cells_iff)

lemma limbo_cells_disjoint:
  assumes "tiles N own" "x < N" "own x = FreeC x k" "\<forall>u. a \<le> u \<and> u < a + 2 ^ j \<longrightarrow> own u = Limbo"
    and "i \<in> cells x k"
  shows "i \<notin> cells a j"
  using tilesD(4) [OF assms(1-3), of "i div 1024"] assms(4,5) by (auto simp: cells_iff)

lemma lists_cells_disjoint:
  assumes "tiles (poolBlocks s) own" "lists_ok s own L" "k < 13" "j < 13" "x \<in> set (L k)" "y \<in> set (L j)"
    and "i \<in> cells x k" "i \<in> cells y j"
  shows "x = y \<and> k = j"
  using free_cells_disjoint [OF assms(1) _ _ _ _ assms(7,8)] lists_okD(4,5) [OF assms(2,3,5)]
    lists_okD(4,5) [OF assms(2,4,6)] by blast

lemma free_heads_paint_free:
  assumes "chunk_ok N x k" "\<forall>u. x \<le> u \<and> u < x + 2 ^ k \<longrightarrow> own u = Limbo"
  shows "free_heads N (paint x (x + 2 ^ k) (FreeC x k) own) j =
    (if j = k then insert x (free_heads N own j) else free_heads N own j)"
  using assms chunk_okD(2) [OF assms(1)] by (auto simp: free_heads_def paint_def)

lemma free_heads_paint_limbo:
  assumes "tiles N own" "x < N" "own x = Chunk f x k"
  shows "free_heads N (paint x (x + 2 ^ k) Limbo own) j =
    (if f \<and> j = k then free_heads N own j - {x} else free_heads N own j)"
  using tilesD(4) [OF assms] tilesD(1,2) [OF assms] by (auto simp: free_heads_def paint_def)

lemma free_heads_paint_other:
  assumes "\<forall>u. a \<le> u \<and> u < b \<longrightarrow> \<not> is_free (own u)" "\<not> is_free w"
  shows "free_heads N (paint a b w own) j = free_heads N own j"
  using assms by (cases w) (auto simp: free_heads_def paint_def)

lemma lists_ok_push:
  assumes t: "tiles (poolBlocks s) own" and l: "lists_ok s own L" and len: "length (freeList s) = 13"
    and x: "chunk_ok (poolBlocks s) x k" and limbo: "\<forall>u. x \<le> u \<and> u < x + 2 ^ k \<longrightarrow> own u = Limbo"
    and s': "poolBlocks s' = poolBlocks s" "freeList s' = (freeList s)[k := x]"
    and hdr: "rd s' (magic_cell x) = MAGIC" "rd s' (prev_cell x) = OURNULL"
      "rd s' (next_cell x) = freeList s ! k" "rd s' (bits_cell x k) = k + LEN_OFFSET"
    and prev: "\<And>y ys. L k = y # ys \<Longrightarrow> rd s' (prev_cell y) = x"
    and frame: "\<And>i. i \<notin> cells x k \<Longrightarrow> (\<And>y ys. L k = y # ys \<Longrightarrow> i \<noteq> prev_cell y) \<Longrightarrow> rd s' i = rd s i"
  shows "lists_ok s' (paint x (x + 2 ^ k) (FreeC x k) own) (L(k := x # L k))"
proof -
  have k: "k < 13" using x by (rule chunk_okD(4))
  have out: "i \<notin> cells x k" if "j < 13" "y \<in> set (L j)" "i \<in> cells y j" for i j y
    using limbo_cells_disjoint [OF t _ _ limbo that(3)] lists_okD(4,5) [OF l that(1,2)] by blast
  have other: "seg (rd s') j OURNULL (L j) OURNULL" if j: "j < 13" "j \<noteq> k" for j
  proof -
    have "seg (rd s') j OURNULL (L j) OURNULL = seg (rd s) j OURNULL (L j) OURNULL"
    proof (rule seg_cong, intro ballI, rule frame)
      fix y i assume y: "y \<in> set (L j)" "i \<in> cells y j"
      show "i \<notin> cells x k" using out [OF j(1) y] .
      show "i \<noteq> prev_cell z" if "L k = z # zs" for z zs
        using lists_cells_disjoint [OF t l j(1) k y(1), of z i] y(2) j(2) that
        by auto
    qed
    then show ?thesis using lists_okD(2) [OF l j(1)] by simp
  qed
  have same: "seg (rd s') k x (L k) OURNULL"
  proof (cases "L k")
    case (Cons y ys)
    have d: "prev_cell y \<notin> cells z k" if "z \<in> set ys" for z
      using lists_cells_disjoint [OF t l k k, of y z "prev_cell y"] 
        lists_okD(3) [OF l k] that Cons by auto
    have "\<forall>z \<in> set (y # ys). \<forall>i \<in> cells z k. i \<noteq> prev_cell y \<longrightarrow> rd s' i = rd s i"
      using out [OF k] frame Cons by auto
    then show ?thesis
      using seg_set_prev [of "rd s" k OURNULL y ys OURNULL "rd s'" x] prev [OF Cons] d
        lists_okD(2) [OF l k] Cons by auto
  qed simp
  have "x \<notin> set (L k)" using lists_okD(5) [OF l k, of x] limbo by auto
  then show ?thesis
    unfolding lists_ok_def s' free_heads_paint_free [OF x limbo]
    using other same hdr l len k lists_okD(1) [OF l k] by (auto simp: lists_ok_def)
qed

lemma lists_ok_unlink:
  assumes t: "tiles (poolBlocks s) own" and l: "lists_ok s own L" and len: "length (freeList s) = 13"
    and k: "k < 13" and L: "L k = as @ x # bs"
    and s': "poolBlocks s' = poolBlocks s" "freeList s' = (if as = [] then (freeList s)[k := first bs OURNULL] else freeList s)"
    and prev: "\<And>y ys. bs = y # ys \<Longrightarrow> rd s' (prev_cell y) = lastp OURNULL as"
    and "next": "as \<noteq> [] \<Longrightarrow> rd s' (next_cell (last as)) = first bs OURNULL"
    and frame: "\<And>i. i \<notin> cells x k \<Longrightarrow> (\<And>y ys. bs = y # ys \<Longrightarrow> i \<noteq> prev_cell y) \<Longrightarrow>
      (as \<noteq> [] \<Longrightarrow> i \<noteq> next_cell (last as)) \<Longrightarrow> rd s' i = rd s i"
  shows "lists_ok s' (paint x (x + 2 ^ k) Limbo own) (L(k := as @ bs))"
proof -
  have xs: "x \<in> set (L k)" and bs: "set bs \<subseteq> set (L k)" and as: "set as \<subseteq> set (L k)" using L by auto
  have lst: "as \<noteq> [] \<Longrightarrow> last as \<in> set (L k)" using L by auto
  have dist: "distinct (as @ x # bs)" using lists_okD(3) [OF l k] L by simp
  have neq: "i \<notin> cells z j" if "j < 13" "y \<in> set (L k)" "z \<in> set (L j)" "y \<noteq> z \<or> j \<noteq> k" "i \<in> cells y k" for i j y z
    using lists_cells_disjoint [OF t l k that(1-3)] that(4,5) by blast
  have other: "seg (rd s') j OURNULL (L j) OURNULL" if j: "j < 13" "j \<noteq> k" for j
  proof -
    have "seg (rd s') j OURNULL (L j) OURNULL = seg (rd s) j OURNULL (L j) OURNULL"
    proof (rule seg_cong, intro ballI, rule frame)
      fix y i assume y: "y \<in> set (L j)" "i \<in> cells y j"
      show "i \<notin> cells x k" using neq [OF j(1) xs y(1)] y(2) j(2) by blast
      show "i \<noteq> prev_cell z" if "bs = z # zs" for z zs
        using neq [OF j(1) _ y(1), of z i] y(2) j(2) that bs by auto
      show "i \<noteq> next_cell (last as)" if "as \<noteq> []"
        using neq [OF j(1) _ y(1), of "last as" i] y(2) j(2)
          lst [OF that] by auto
    qed
    then show ?thesis using lists_okD(2) [OF l j(1)] by simp
  qed
  have mem: "z \<in> set (L k)" "z \<noteq> x" if "z \<in> set (as @ bs)" for z using that dist as bs by auto
  have "seg (rd s') k OURNULL (as @ bs) OURNULL"
  proof (rule seg_remove)
    show "seg (rd s) k OURNULL (as @ x # bs) OURNULL" using lists_okD(2) [OF l k] L by simp
    show "i \<notin> cells y k"
      if "z \<in> set (as @ bs)" "y \<in> set (as @ bs)" "z \<noteq> y" "i \<in> cells z k" for z y i
      using neq [OF k mem(1) [OF that(1)] mem(1) [OF that(2)]] that(3,4) by blast
    show "rd s' i = rd s i" if z: "z \<in> set (as @ bs)" "i \<in> cells z k"
      and i: "\<And>y ys. bs = y # ys \<Longrightarrow> i \<noteq> prev_cell y" "as \<noteq> [] \<Longrightarrow> i \<noteq> next_cell (last as)" for z i
    proof (rule frame)
      show "i \<notin> cells x k" using neq [OF k mem(1) [OF z(1)] xs] mem(2) [OF z(1)] z(2) by blast
    qed (use i in blast)+
  qed (use dist prev "next" in simp_all)
  moreover have "freeList s' ! j = first ((L(k := as @ bs)) j) OURNULL" if "j < 13" for j
    using lists_okD(1) [OF l that] lists_okD(1) [OF l k] len s'(2) that L by (cases as) auto
  moreover have "free_heads (poolBlocks s) own k = set (L k)" using l k by (auto simp: lists_ok_def)
  then have "set (as @ bs) = free_heads (poolBlocks s) own k - {x}" using L dist by auto
  ultimately show ?thesis
    unfolding lists_ok_def s'(1)
      free_heads_paint_limbo [OF t lists_okD(4,5) [OF l k xs]]
    using other dist l L by (auto simp: lists_ok_def)
qed

end
