(* ===== verification/Buddy_Alloc.thy ===== *)
theory Buddy_Alloc
  imports Buddy_Pool
begin

text \<open>
  The operations of the allocator keep the invariant: linking and unlinking chunks, the scan of
  \<open>toFree\<close>, \<open>BuddyMalloc\<close>, \<open>BuddyAllocSize\<close>, the merging of \<open>Free\<close>, \<open>Release\<close>,
  \<open>Realloc\<close> and \<open>Check\<close>.  The lemmas are stated on the ghost ownership function: what an
  operation takes from the free chunks, gives back to them, and leaves alone.
\<close>

section \<open>What every operation leaves alone\<close>

definition is_busy :: "owner \<Rightarrow> bool" where
  "is_busy w \<longleftrightarrow> (\<exists>x k. w = BusyC x k)"

lemma is_busy_simps [simp]: "\<not> is_busy Limbo" "is_busy (Chunk f x k) = (\<not> f)"
  by (auto simp: is_busy_def)

text \<open>The geometry and the memory of the busy chunks.\<close>

definition kept :: "(nat \<Rightarrow> owner) \<Rightarrow> CEsvga2Allocator \<Rightarrow> CEsvga2Allocator \<Rightarrow> bool" where
  "kept own s s' \<longleftrightarrow>
     poolStart s' = poolStart s \<and> poolBlocks s' = poolBlocks s \<and>
     (\<forall>i. i div 1024 < poolBlocks s \<and> is_busy (own (i div 1024)) \<longrightarrow> rd s' i = rd s i)"

lemma keptD:
  assumes "kept own s s'"
  shows "poolStart s' = poolStart s" "poolBlocks s' = poolBlocks s"
    "i div 1024 < poolBlocks s \<Longrightarrow> is_busy (own (i div 1024)) \<Longrightarrow> rd s' i = rd s i"
  using assms by (auto simp: kept_def)

lemma kept_refl [simp]: "kept own s s"
  by (simp add: kept_def)

lemma kept_trans:
  assumes "kept own s s'" "kept own' s' s''" "\<And>u. u < poolBlocks s \<Longrightarrow> is_busy (own u) \<Longrightarrow> is_busy (own' u)"
  shows "kept own s s''"
  using assms unfolding kept_def by metis

lemma pool_invD:
  assumes "pool_inv s own"
  shows "geometry s" "tiles (poolBlocks s) own" "bits_ok s own"
    "minBits s = 12" "numSizes s = 13" "length (freeList s) = 13"
    "poolBlocks s * 4096 < 2 ^ 32" "poolBlocks s \<le> 8 * length (pmap s)"
  using assms by (auto simp: pool_inv_def geometry_def)

lemma pool_inv_lists:
  assumes "pool_inv s own"
  obtains L where "lists_ok s own L"
  using assms by (auto simp: pool_inv_def)

section \<open>Counting free blocks\<close>

lemma free_units_paint_free:
  assumes "b \<le> N" "a \<le> b" "\<forall>u. a \<le> u \<and> u < b \<longrightarrow> \<not> is_free (own u)" "is_free w"
  shows "free_units N (paint a b w own) = free_units N own + (b - a)"
proof -
  have "{u. u < N \<and> is_free (paint a b w own u)} = {u. u < N \<and> is_free (own u)} \<union> {a..<b}"
    using assms by (auto simp: paint_def)
  moreover have "{u. u < N \<and> is_free (own u)} \<inter> {a..<b} = {}" using assms(3) by auto
  ultimately show ?thesis by (simp add: free_units_def card_Un_disjoint)
qed

lemma free_units_paint_used:
  assumes "b \<le> N" "a \<le> b" "\<forall>u. a \<le> u \<and> u < b \<longrightarrow> is_free (own u)" "\<not> is_free w"
  shows "free_units N own = free_units N (paint a b w own) + (b - a)"
proof -
  have "{u. u < N \<and> is_free (own u)} = {u. u < N \<and> is_free (paint a b w own u)} \<union> {a..<b}"
    using assms by (auto simp: paint_def)
  moreover have "{u. u < N \<and> is_free (paint a b w own u)} \<inter> {a..<b} = {}" using assms(4) by (auto simp: paint_def)
  ultimately show ?thesis by (simp add: free_units_def card_Un_disjoint)
qed

lemma free_units_paint_other:
  assumes "\<forall>u. a \<le> u \<and> u < b \<longrightarrow> \<not> is_free (own u)" "\<not> is_free w"
  shows "free_units N (paint a b w own) = free_units N own"
  using assms by (auto simp: free_units_def paint_def intro!: arg_cong [where f = card])

lemma free_units_le: "free_units N own \<le> N"
proof -
  have "card {u. u < N \<and> is_free (own u)} \<le> card {..<N}" by (rule card_mono) auto
  then show ?thesis by (simp add: free_units_def)
qed

section \<open>Linking a chunk\<close>

text \<open>The memory after linking chunk \<open>x\<close> of size \<open>k\<close> in front of \<open>y\<close>.\<close>

definition push_mem :: "(nat \<Rightarrow> nat) \<Rightarrow> nat \<Rightarrow> nat \<Rightarrow> nat \<Rightarrow> nat \<Rightarrow> nat" where
  "push_mem m y x k = (\<lambda>i.
     if y \<noteq> OURNULL \<and> i = prev_cell y then x
     else if i = bits_cell x k then k + LEN_OFFSET
     else if i = next_cell x then y
     else if i = prev_cell x then OURNULL
     else if i = magic_cell x then MAGIC else m i)"

lemma first_in: "first xs n = y \<Longrightarrow> y \<noteq> n \<Longrightarrow> y \<in> set xs"
  by (cases xs) auto

lemma bits_ok_paint:
  assumes "bits_ok s own" "poolBlocks s' = poolBlocks s" "pmap s' = pmap s"
    "\<forall>u. a \<le> u \<and> u < b \<longrightarrow> \<not> is_busy (own u)" "\<not> is_busy w"
  shows "bits_ok s' (paint a b w own)"
  using assms by (auto simp: bits_ok_def paint_def is_busy_def)

lemma push_inv:
  assumes inv: "pool_inv s own" and x: "chunk_ok (poolBlocks s) x k"
    and limbo: "\<forall>u. x \<le> u \<and> u < x + 2 ^ k \<longrightarrow> own u = Limbo"
    and s': "poolStart s' = poolStart s" "poolBlocks s' = poolBlocks s" "minBits s' = minBits s"
      "numSizes s' = numSizes s" "pmap s' = pmap s" "freeList s' = (freeList s)[k := x]"
      "rd s' = push_mem (rd s) (freeList s ! k) x k"
  shows "pool_inv s' (paint x (x + 2 ^ k) (FreeC x k) own)" "kept own s s'"
proof -
  note d = pool_invD [OF inv]
  obtain L where L: "lists_ok s own L" using inv by (rule pool_inv_lists)
  note k = chunk_okD(4) [OF x] and ld = lists_okD [OF L chunk_okD(4) [OF x]]
  have null: "y \<noteq> OURNULL" if "y \<in> set (L k)" for y using ld(4) [OF that] d(7) by simp
  have xy: "y \<noteq> x" if "y \<in> set (L k)" for y using ld(5) [OF that] limbo that by auto
  have hd: "freeList s ! k \<noteq> OURNULL \<Longrightarrow> freeList s ! k \<in> set (L k)"
    using first_in [of "L k" OURNULL] ld(1) by simp
  have "lists_ok s' (paint x (x + 2 ^ k) (FreeC x k) own) (L(k := x # L k))"
  proof (rule lists_ok_push [OF d(2) L d(6) x limbo s'(2,6)])
    show "rd s' (prev_cell y) = x" if "L k = y # ys" for y ys
      using null [of y] ld(1) that by (simp add: s'(7) push_mem_def)
    show "rd s' i = rd s i" if i: "i \<notin> cells x k" "\<And>y ys. L k = y # ys \<Longrightarrow> i \<noteq> prev_cell y" for i
      using i ld(1) by (cases "L k") (auto simp: s'(7) push_mem_def)
  qed (use hd xy in \<open>auto simp: s'(7) push_mem_def\<close>)
  moreover have "tiles (poolBlocks s') (paint x (x + 2 ^ k) (FreeC x k) own)"
    unfolding s'(2) by (rule tiles_paint [OF d(2) limbo]) (use x in auto)
  moreover have "bits_ok s' (paint x (x + 2 ^ k) (FreeC x k) own)"
    by (rule bits_ok_paint [OF d(3) s'(2,5)]) (use limbo in auto)
  ultimately show "pool_inv s' (paint x (x + 2 ^ k) (FreeC x k) own)"
    using d(1) by (auto simp: pool_inv_def geometry_def s')
  have "rd s' i = rd s i" if i: "i div 1024 < poolBlocks s" "is_busy (own (i div 1024))" for i
  proof -
    have "i \<notin> cells x k" using limbo i(2) by (auto simp: cells_iff)
    moreover have "i \<noteq> prev_cell y" if "y \<in> set (L k)" for y
      using ld(5) [OF that] i(2) by auto
    ultimately show ?thesis using hd by (auto simp: s'(7) push_mem_def)
  qed
  then show "kept own s s'" by (simp add: kept_def s')
qed

text \<open>Powers of two in range do not wrap.\<close>

lemma pow32 [simp]: "k < 13 \<Longrightarrow> w32 (2 ^ k) = 2 ^ k" "k < 13 \<Longrightarrow> w32 (2 ^ (k + 12)) = 2 ^ (k + 12)"
proof -
  assume "k < 13"
  then have "(2::nat) ^ k \<le> 2 ^ 12" "(2::nat) ^ (k + 12) \<le> 2 ^ 24" 
    by - (rule power_increasing; simp)+
  then show "w32 (2 ^ k) = 2 ^ k" "w32 (2 ^ (k + 12)) = 2 ^ (k + 12)" by simp_all
qed

lemma dw_cells:
  assumes "geometry s" "x \<le> poolBlocks s" "k < 13"
  shows "dw s x = magic_cell x" "magic_cell x + 1 = prev_cell x" "magic_cell x + 2 = next_cell x"
    "magic_cell x + w32 (2 ^ (k + minBits s)) div 4 - 1 = bits_cell x k"
    "magic_cell x + 2 ^ (minBits s + k) div 4 - 1 = bits_cell x k"
proof -
  have m: "minBits s = 12" using assms(1) by (simp add: geometry_def)
  have p: "(2::nat) ^ (k + 12) div 4 = 2 ^ k * 1024" by (simp add: power_add)
  show "dw s x = magic_cell x" using dw_eq [OF assms(1,2)] by (simp add: magic_cell_def)
  show "magic_cell x + w32 (2 ^ (k + minBits s)) div 4 - 1 = bits_cell x k"
    unfolding m pow32 [OF assms(3)] p magic_cell_def bits_cell_def by (simp add: distrib_right)
  show "magic_cell x + 2 ^ (minBits s + k) div 4 - 1 = bits_cell x k"
    unfolding m add.commute [of 12 k] p magic_cell_def bits_cell_def by (simp add: distrib_right)
qed (simp_all add: magic_cell_def prev_cell_def next_cell_def)

lemma makeFree_inv:
  assumes inv: "pool_inv s own" and x: "chunk_ok (poolBlocks s) x k"
    and limbo: "\<forall>u. x \<le> u \<and> u < x + 2 ^ k \<longrightarrow> own u = Limbo"
  shows "pool_inv (makeFree x k False s) (paint x (x + 2 ^ k) (FreeC x k) own)"
    "kept own s (makeFree x k False s)"
    "freeBytes (makeFree x k False s) = w32 (freeBytes s + 2 ^ k * 4096)"
proof -
  note d = pool_invD [OF inv] and k = chunk_okD(4) [OF x] and xN = chunk_okD(2) [OF x]
  note c = dw_cells [OF d(1) less_imp_le [OF xN] k]
  obtain L where L: "lists_ok s own L" using inv by (rule pool_inv_lists)
  have y: "freeList s ! k \<noteq> OURNULL \<Longrightarrow> freeList s ! k < poolBlocks s \<and> freeList s ! k \<noteq> x"
    using first_in [of "L k" OURNULL] lists_okD(1,4,5) [OF L k] limbo by auto
  have y32: "freeList s ! k < 2 ^ 32" using y d(7) by (cases "freeList s ! k = OURNULL") auto
  have "rd (makeFree x k False s) = push_mem (rd s) (freeList s ! k) x k"
  proof (cases "freeList s ! k = OURNULL")
    case True
    then show ?thesis using c k by (simp add: makeFree_def Let_def push_mem_def fun_eq_iff)
  next
    case False
    have "x < 2 ^ 32" using xN d(7) by simp
    then show ?thesis
      using False y y32 dw_cells(1,2) [OF d(1) _ k, of "freeList s ! k"] c k
      by (simp add: makeFree_def Let_def push_mem_def fun_eq_iff)
  qed
  note p = push_inv [OF inv x limbo _ _ _ _ _ _ this]
  show "pool_inv (makeFree x k False s) (paint x (x + 2 ^ k) (FreeC x k) own)"
    "kept own s (makeFree x k False s)"
    by (rule p; simp add: makeFree_def Let_def)+
  show "freeBytes (makeFree x k False s) = w32 (freeBytes s + 2 ^ k * 4096)"
    using k d(4) by (simp add: makeFree_def Let_def power_add mod_add_right_eq)
qed

section \<open>Freeing a range\<close>

lemma and_mask: "i AND (2 ^ b - 1) = i mod 2 ^ b" for i :: nat
  by (metis mask_eq_exp_minus_1 take_bit_eq_mask take_bit_eq_mod)

lemma sub32_eq: "b \<le> a \<Longrightarrow> a < 2 ^ 32 \<Longrightarrow> sub32 a b = a - b"
proof -
  assume "b \<le> a" "a < 2 ^ 32"
  then have "a + 2 ^ 32 - b = (a - b) + 2 ^ 32" "a - b < 2 ^ 32" by simp_all
  then show ?thesis unfolding sub32_def by (simp only: mod_add_self2 mod_less)
qed

lemma sub32_pow: "b < 13 \<Longrightarrow> sub32 (2 ^ b) 1 = 2 ^ b - 1"
proof -
  assume "b < 13"
  then have "(2::nat) ^ b \<le> 2 ^ 12" by - (rule power_increasing; simp)+
  then show ?thesis by (intro sub32_eq) simp_all
qed

lemma add32_pow: "N * 4096 < 2 ^ 32 \<Longrightarrow> i \<le> N \<Longrightarrow> b < 14 \<Longrightarrow> w32 (i + 2 ^ b) = i + 2 ^ b"
proof -
  assume "N * 4096 < 2 ^ 32" "i \<le> N" "b < 14"
  moreover from this(3) have "(2::nat) ^ b \<le> 2 ^ 13" by - (rule power_increasing; simp)+
  ultimately show ?thesis by simp
qed

lemma grow_pow:
  assumes "tryBits < 13"
  shows "\<exists>b < 13. grow 13 i past tryBits (2 ^ tryBits) = (b, 2 ^ b)"
  using assms
proof (induction "12 - tryBits" arbitrary: tryBits)
  case 0
  then show ?case by (subst grow.simps) simp
next
  case (Suc n)
  have w: "w32 (2 ^ tryBits * 2) = 2 ^ (tryBits + 1)"
    using pow32(1) [of "tryBits + 1"] Suc by (simp add: mult.commute)
  have "\<exists>b < 13. grow 13 i past (tryBits + 1) (2 ^ (tryBits + 1)) = (b, 2 ^ b)"
    using Suc by (intro Suc.hyps(1)) simp_all
  moreover have "grow 13 i past tryBits (2 ^ tryBits) =
      (if w32 (i + 2 ^ (tryBits + 1)) > past \<or> i AND sub32 (2 ^ (tryBits + 1)) 1 \<noteq> 0
       then (tryBits, 2 ^ tryBits) else grow 13 i past (tryBits + 1) (2 ^ (tryBits + 1)))"
  proof -
    have "tryBits < 13 - 1" using Suc.hyps(2) by simp
    then show ?thesis unfolding grow.simps [of 13 i past tryBits] Let_def w by simp
  qed
  ultimately show ?case using Suc.prems by metis
qed

lemma shrink_pow:
  assumes "b < 13" "i < past" "past \<le> N" "N * 4096 < 2 ^ 32"
  shows "\<exists>c \<le> b. shrink i past b (2 ^ b) = Some (c, 2 ^ c) \<and> i + 2 ^ c \<le> past \<and> 2 ^ c dvd i"
  using assms(1)
proof (induction b)
  case 0
  then show ?case using assms add32_pow [OF assms(4), of i 0] by (simp add: sub32_def)
next
  case (Suc b)
  have *: "w32 (i + 2 ^ Suc b) = i + 2 ^ Suc b" using Suc.prems assms(2,3)
    by (intro add32_pow [OF assms(4)]) simp_all
  show ?case
  proof (cases "i + 2 ^ Suc b > past \<or> i AND (2 ^ Suc b - 1) \<noteq> 0")
    case True
    then have "shrink i past (Suc b) (2 ^ Suc b) = shrink i past b (2 ^ b)"
      unfolding shrink.simps sub32_pow [OF Suc.prems] * by simp
    then show ?thesis using Suc by (metis Suc_lessD le_SucI)
  next
    case False
    then have "shrink i past (Suc b) (2 ^ Suc b) = Some (Suc b, 2 ^ Suc b)"
      unfolding shrink.simps sub32_pow [OF Suc.prems] * by auto
    moreover have "2 ^ Suc b dvd i" using False and_mask [of i "Suc b"] by (simp add: dvd_eq_mod_eq_0)
    ultimately show ?thesis using False by (intro exI [of _ "Suc b"]) auto
  qed
qed

text \<open>The blocks from \<open>a\<close> up to \<open>b\<close>, unowned before, are spread over the free lists.\<close>

definition freed ::
  "nat \<Rightarrow> nat \<Rightarrow> CEsvga2Allocator \<Rightarrow> (nat \<Rightarrow> owner) \<Rightarrow> CEsvga2Allocator \<Rightarrow> (nat \<Rightarrow> owner) \<Rightarrow> bool" where
  "freed a b s own s' own' \<longleftrightarrow>
     pool_inv s' own' \<and> kept own s s' \<and>
     (\<forall>u. \<not> (a \<le> u \<and> u < b) \<longrightarrow> own' u = own u) \<and> (\<forall>u. a \<le> u \<and> u < b \<longrightarrow> is_free (own' u)) \<and>
     freeBytes s' = w32 (freeBytes s + (b - a) * 4096)"

lemma toFree_loop_freed:
  assumes "pool_inv s own" "\<forall>u. i \<le> u \<and> u < past \<longrightarrow> own u = Limbo" "i \<le> past" "past \<le> poolBlocks s"
    and "past - i \<le> fuel" "b < 13" "freeBytes s < 2 ^ 32"
  shows "\<exists>own'. freed i past s own (toFree_loop fuel i past b (2 ^ b) False s) own'"
  using assms
proof (induction fuel arbitrary: i b s own)
  case 0
  then show ?case by (intro exI [of _ own]) (auto simp: freed_def)
next
  case (Suc fuel)
  note d = pool_invD [OF Suc.prems(1)]
  show ?case
  proof (cases "i < past")
    case False
    then show ?thesis using Suc.prems by (intro exI [of _ own]) (auto simp: freed_def)
  next
    case True
    obtain g where g: "g < 13" "grow 13 i past b (2 ^ b) = (g, 2 ^ g)"
      using grow_pow [OF Suc.prems(6)] by blast
    obtain c where c: "c \<le> g" "shrink i past g (2 ^ g) = Some (c, 2 ^ c)" "i + 2 ^ c \<le> past" "2 ^ c dvd i"
      using shrink_pow [OF g(1) True Suc.prems(4) d(7)] by blast
    have c13: "c < 13" using c(1) g(1) by simp
    have x: "chunk_ok (poolBlocks s) i c" using c c13 Suc.prems(4) by (simp add: chunk_ok_def)
    have w: "w32 (i + 2 ^ c) = i + 2 ^ c" using add32_pow [OF d(7)] Suc.prems(3,4) c13 by simp
    define s1 where "s1 = makeFree i c False s"
    define own1 where "own1 = paint i (i + 2 ^ c) (FreeC i c) own"
    have loop: "toFree_loop (Suc fuel) i past b (2 ^ b) False s =
        toFree_loop fuel (i + 2 ^ c) past c (2 ^ c) False s1"
      using True g c w d(5) by (simp add: s1_def)
    have m: "pool_inv s1 own1" "kept own s s1" "freeBytes s1 = w32 (freeBytes s + 2 ^ c * 4096)"
      unfolding s1_def own1_def using makeFree_inv [OF Suc.prems(1) x] Suc.prems(2) c(3) by auto
    have "\<exists>own'. freed (i + 2 ^ c) past s1 own1 (toFree_loop fuel (i + 2 ^ c) past c (2 ^ c) False s1) own'"
    proof (rule Suc.IH [OF m(1)])
      show "\<forall>u. i + 2 ^ c \<le> u \<and> u < past \<longrightarrow> own1 u = Limbo"
        using Suc.prems(2) by (simp add: own1_def)
      show "past \<le> poolBlocks s1" using keptD(2) [OF m(2)] Suc.prems(4) by simp
      have "0 < (2::nat) ^ c" by simp
      then show "past - (i + 2 ^ c) \<le> fuel" using Suc.prems(5) by linarith
    qed (use c(3) c13 m(3) in simp_all)
    then obtain own' where f: "freed (i + 2 ^ c) past s1 own1 (toFree_loop fuel (i + 2 ^ c) past c (2 ^ c) False s1) own'" ..
    have "freed i past s own (toFree_loop (Suc fuel) i past b (2 ^ b) False s) own'"
      unfolding loop freed_def
    proof (intro conjI allI impI)
      show "kept own s (toFree_loop fuel (i + 2 ^ c) past c (2 ^ c) False s1)"
        using f m(2) Suc.prems(2) c(3)
        by (auto simp: freed_def own1_def paint_def intro!: kept_trans [OF m(2)])
      show "own' u = own u" if "\<not> (i \<le> u \<and> u < past)" for u
        using f that c(3) by (auto simp: freed_def own1_def paint_def)
      show "is_free (own' u)" if "i \<le> u \<and> u < past" for u
        using f that by (cases "i + 2 ^ c \<le> u") (auto simp: freed_def own1_def)
      have "2 ^ c * 4096 + (past - (i + 2 ^ c)) * 4096 = (past - i) * 4096" using c(3)
        by (simp flip: distrib_right)
      then show "freeBytes (toFree_loop fuel (i + 2 ^ c) past c (2 ^ c) False s1) =
          w32 (freeBytes s + (past - i) * 4096)"
        using f m(3) by (simp add: freed_def mod_add_left_eq add.assoc)
    qed (use f in \<open>simp add: freed_def\<close>)
    then show ?thesis by blast
  qed
qed

lemma toFree_freed:
  assumes "pool_inv s own" "\<forall>u. i \<le> u \<and> u < past \<longrightarrow> own u = Limbo" "i \<le> past" "past \<le> poolBlocks s"
    and "freeBytes s < 2 ^ 32"
  obtains own' where "freed i past s own (toFree i past False s) own'"
  using toFree_loop_freed [OF assms(1-4) order_refl, of 0] assms(5) that
  by (auto simp: toFree_def)

section \<open>Unlinking a chunk and marking chunks in the bitmap\<close>

lemma unlink_inv:
  assumes inv: "pool_inv s own" and L: "lists_ok s own L" and k: "k < 13" and Lk: "L k = as @ x # bs"
    and s': "poolStart s' = poolStart s" "poolBlocks s' = poolBlocks s" "minBits s' = minBits s"
      "numSizes s' = numSizes s" "pmap s' = pmap s"
      "freeList s' = (if as = [] then (freeList s)[k := first bs OURNULL] else freeList s)"
    and prev: "\<And>y ys. bs = y # ys \<Longrightarrow> rd s' (prev_cell y) = lastp OURNULL as"
    and "next": "as \<noteq> [] \<Longrightarrow> rd s' (next_cell (last as)) = first bs OURNULL"
    and frame: "\<And>i. i \<notin> cells x k \<Longrightarrow> (\<And>y ys. bs = y # ys \<Longrightarrow> i \<noteq> prev_cell y) \<Longrightarrow>
      (as \<noteq> [] \<Longrightarrow> i \<noteq> next_cell (last as)) \<Longrightarrow> rd s' i = rd s i"
  shows "pool_inv s' (paint x (x + 2 ^ k) Limbo own)" "kept own s s'"
proof -
  note d = pool_invD [OF inv]
  have x: "x < poolBlocks s" "own x = FreeC x k" using lists_okD(4,5) [OF L k] Lk by auto
  have free: "\<forall>u. x \<le> u \<and> u < x + 2 ^ k \<longrightarrow> own u = FreeC x k" using tilesD(4) [OF d(2) x] by simp
  have "lists_ok s' (paint x (x + 2 ^ k) Limbo own) (L(k := as @ bs))"
    by (rule lists_ok_unlink [OF d(2) L d(6) k Lk s'(2,6) prev "next" frame])
  moreover have "tiles (poolBlocks s') (paint x (x + 2 ^ k) Limbo own)"
    unfolding s'(2) by (rule tiles_paint [OF d(2) free]) auto
  moreover have "bits_ok s' (paint x (x + 2 ^ k) Limbo own)"
    by (rule bits_ok_paint [OF d(3) s'(2,5)]) (use free in auto)
  ultimately show "pool_inv s' (paint x (x + 2 ^ k) Limbo own)"
    using d(1) by (auto simp: pool_inv_def geometry_def s')
  have "rd s' i = rd s i" if i: "i div 1024 < poolBlocks s" "is_busy (own (i div 1024))" for i
  proof (rule frame)
    show "i \<notin> cells x k" using free i(2) by (auto simp: cells_iff)
    show "i \<noteq> prev_cell y" if "bs = y # ys" for y ys
      using lists_okD(5) [OF L k, of y] i(2) that Lk by auto
    show "i \<noteq> next_cell (last as)" if "as \<noteq> []"
      using lists_okD(5) [OF L k, of "last as"] i(2) that Lk by auto
  qed
  then show "kept own s s'" by (simp add: kept_def s')
qed

lemma pool_inv_freeBytes [simp]: "pool_inv (s\<lparr>freeBytes := b\<rparr>) own = pool_inv s own"
  by (simp add: pool_inv_def geometry_def bits_ok_def lists_ok_def)

lemma kept_upd [simp]:
  "kept own s (s'\<lparr>freeBytes := b\<rparr>) = kept own s s'" "kept own s (s'\<lparr>pmap := m\<rparr>) = kept own s s'"
  by (simp_all add: kept_def)

lemma lists_ok_pmap: "lists_ok (s\<lparr>pmap := m\<rparr>) own L = lists_ok s own L"
  by (simp add: lists_ok_def)

lemma lists_ok_paint_other:
  assumes "\<forall>u. a \<le> u \<and> u < b \<longrightarrow> \<not> is_free (own u)" "\<not> is_free w"
  shows "lists_ok s (paint a b w own) L = lists_ok s own L"
  by (simp add: lists_ok_def free_heads_paint_other [OF assms])

lemma busy_inv:
  assumes inv: "pool_inv s own" and x: "chunk_ok (poolBlocks s) x k"
    and limbo: "\<forall>u. x \<le> u \<and> u < x + 2 ^ k \<longrightarrow> own u = Limbo"
  shows "pool_inv (s\<lparr>pmap := BITSET (pmap s) (x + 2 ^ k - 1)\<rparr>) (paint x (x + 2 ^ k) (BusyC x k) own)"
proof -
  note d = pool_invD [OF inv]
  obtain L where L: "lists_ok s own L" using inv by (rule pool_inv_lists)
  obtain e where e: "x + 2 ^ k = Suc e" by (rule bits_cell_Suc)
  have xe: "x \<le> e" using e zero_less_power [of "2::nat" k] by linarith
  have i: "e < 8 * length (pmap s)" using chunk_okD(1) [OF x] d(8) e by linarith
  have "tiles (poolBlocks s) (paint x (x + 2 ^ k) (BusyC x k) own)"
    by (rule tiles_paint [OF d(2) limbo]) (use x in auto)
  moreover have "bits_ok (s\<lparr>pmap := BITSET (pmap s) (x + 2 ^ k - 1)\<rparr>) (paint x (x + 2 ^ k) (BusyC x k) own)"
    using d(3) limbo xe by (auto simp: bits_ok_def bits.test_put [OF i] paint_def e)
  moreover have "lists_ok s (paint x (x + 2 ^ k) (BusyC x k) own) L"
    using L limbo by (subst lists_ok_paint_other) auto
  ultimately show ?thesis
    using d(1) by (auto simp: pool_inv_def geometry_def lists_ok_pmap BITSET_def)
qed

lemma unbusy_inv:
  assumes inv: "pool_inv s own" and x: "x < poolBlocks s" "own x = BusyC x k"
  shows "pool_inv (s\<lparr>pmap := BITCLEAR (pmap s) (x + 2 ^ k - 1)\<rparr>) (paint x (x + 2 ^ k) Limbo own)"
proof -
  note d = pool_invD [OF inv] and td = tilesD [OF pool_invD(2) [OF inv] x]
  obtain L where L: "lists_ok s own L" using inv by (rule pool_inv_lists)
  have busy: "\<forall>u. x \<le> u \<and> u < x + 2 ^ k \<longrightarrow> own u = BusyC x k" using td(4) by blast
  obtain e where e: "x + 2 ^ k = Suc e" by (rule bits_cell_Suc)
  have xe: "x \<le> e" using e zero_less_power [of "2::nat" k] by linarith
  have i: "e < 8 * length (pmap s)" using chunk_okD(1) [OF td(3)] d(8) e by linarith
  have "tiles (poolBlocks s) (paint x (x + 2 ^ k) Limbo own)"
    by (rule tiles_paint [OF d(2) busy]) auto
  moreover have "bits_ok (s\<lparr>pmap := BITCLEAR (pmap s) (x + 2 ^ k - 1)\<rparr>) (paint x (x + 2 ^ k) Limbo own)"
    using d(3) busy xe by (auto simp: bits_ok_def bits.test_clear [OF i] paint_def e)
  moreover have "lists_ok s (paint x (x + 2 ^ k) Limbo own) L"
    using L busy by (subst lists_ok_paint_other) auto
  ultimately show ?thesis
    using d(1) by (auto simp: pool_inv_def geometry_def lists_ok_pmap BITCLEAR_def)
qed

end
