(* ===== verification/Buddy_Malloc.thy ===== *)
theory Buddy_Malloc
  imports Buddy_Alloc
begin

text \<open>
  Allocation: \<open>BuddyMalloc\<close> and \<open>Malloc\<close> take an aligned chunk out of the free blocks, and
  fail exactly when no free chunk is large enough.
\<close>

section \<open>The invariant between operations\<close>

definition sound :: "CEsvga2Allocator \<Rightarrow> (nat \<Rightarrow> owner) \<Rightarrow> bool" where
  "sound s own \<longleftrightarrow>
     pool_inv s own \<and> (\<forall>u < poolBlocks s. own u \<noteq> Limbo) \<and>
     freeBytes s = free_units (poolBlocks s) own * 4096"

lemma soundD:
  assumes "sound s own"
  shows "pool_inv s own" "u < poolBlocks s \<Longrightarrow> own u \<noteq> Limbo"
    "freeBytes s = free_units (poolBlocks s) own * 4096" "freeBytes s < 2 ^ 32"
proof -
  show "freeBytes s < 2 ^ 32"
    using assms free_units_le [of "poolBlocks s" own] pool_invD(7) [of s own] unfolding sound_def by linarith
qed (use assms in \<open>auto simp: sound_def\<close>)

text \<open>Chunk \<open>x\<close> of size \<open>k\<close> moves from the free blocks to the busy chunks.\<close>

definition allocated ::
  "nat \<Rightarrow> nat \<Rightarrow> CEsvga2Allocator \<Rightarrow> (nat \<Rightarrow> owner) \<Rightarrow> CEsvga2Allocator \<Rightarrow> (nat \<Rightarrow> owner) \<Rightarrow> bool" where
  "allocated x k s own s' own' \<longleftrightarrow>
     sound s' own' \<and> kept own s s' \<and> chunk_ok (poolBlocks s) x k \<and>
     (\<forall>u. x \<le> u \<and> u < x + 2 ^ k \<longrightarrow> is_free (own u) \<and> own' u = BusyC x k) \<and>
     (\<forall>u. \<not> (x \<le> u \<and> u < x + 2 ^ k) \<longrightarrow>
        (if is_free (own u) then is_free (own' u) else own' u = own u)) \<and>
     freeBytes s = freeBytes s' + 2 ^ k * 4096"

lemma free_units_ge:
  assumes "b \<le> N" "\<forall>u. a \<le> u \<and> u < b \<longrightarrow> is_free (own u)"
  shows "b - a \<le> free_units N own"
proof -
  have "card {a..<b} \<le> card {u. u < N \<and> is_free (own u)}"
    using assms by (intro card_mono) auto
  then show ?thesis by (simp add: free_units_def)
qed

lemma free_units_diff:
  assumes "b \<le> N" "a \<le> b"
    and "\<forall>u. a \<le> u \<and> u < b \<longrightarrow> is_free (own u) \<and> \<not> is_free (own' u)"
    and "\<forall>u < N. \<not> (a \<le> u \<and> u < b) \<longrightarrow> is_free (own' u) = is_free (own u)"
  shows "free_units N own = free_units N own' + (b - a)"
proof -
  have "{u. u < N \<and> is_free (own u)} = {u. u < N \<and> is_free (own' u)} \<union> {a..<b}"
  proof (rule set_eqI)
    fix u
    show "u \<in> {u. u < N \<and> is_free (own u)} \<longleftrightarrow> u \<in> {u. u < N \<and> is_free (own' u)} \<union> {a..<b}"
      using assms(1,3,4) by (cases "a \<le> u \<and> u < b") auto
  qed
  moreover have "{u. u < N \<and> is_free (own' u)} \<inter> {a..<b} = {}" using assms(3) by auto
  ultimately show ?thesis by (simp add: free_units_def card_Un_disjoint)
qed

section \<open>Taking the first chunk of a list\<close>

lemma list_head:
  assumes L: "lists_ok s own L" and k: "k < 13" and ne: "freeList s ! k \<noteq> OURNULL"
  obtains bs where "L k = (freeList s ! k) # bs"
  using lists_okD(1) [OF L k] ne that by (cases "L k") auto

lemma list_null:
  assumes inv: "pool_inv s own" and L: "lists_ok s own L" and k: "k < 13"
  shows "freeList s ! k = OURNULL \<longleftrightarrow> L k = []"
proof (cases "L k")
  case (Cons y ys)
  then have "y < poolBlocks s" using lists_okD(4) [OF L k, of y] by simp
  then show ?thesis using lists_okD(1) [OF L k] pool_invD(7) [OF inv] Cons by simp
qed (use lists_okD(1) [OF L k] in simp)

text \<open>What the checks of \<open>BuddyMalloc\<close> read in the first chunk and in its successor.\<close>

lemma head_cells:
  assumes inv: "pool_inv s own" and L: "lists_ok s own L" and k: "k < 13" and Lk: "L k = x # bs"
  shows "x < poolBlocks s" "own x = FreeC x k" "rd s (magic_cell x) = MAGIC" "rd s (prev_cell x) = OURNULL"
    "rd s (next_cell x) = first bs OURNULL" "rd s (bits_cell x k) = k + LEN_OFFSET"
    "first bs OURNULL \<noteq> OURNULL \<Longrightarrow>
      first bs OURNULL < poolBlocks s \<and> bs = first bs OURNULL # tl bs \<and>
      rd s (magic_cell (first bs OURNULL)) = MAGIC \<and> rd s (prev_cell (first bs OURNULL)) = x"
  using lists_okD(2) [OF L k] lists_okD(4,5) [OF L k] Lk by (auto simp: first_def split: list.splits)

lemma take_head:
  assumes inv: "pool_inv s own" and L: "lists_ok s own L" and k: "k < 13" and Lk: "L k = x # bs"
  defines "n \<equiv> first bs OURNULL"
  defines "s' \<equiv> (if n \<noteq> OURNULL then wr (prev_cell n) OURNULL s else s)\<lparr>freeList := (freeList s)[k := n]\<rparr>"
  shows "pool_inv s' (paint x (x + 2 ^ k) Limbo own)" "kept own s s'"
proof -
  note h = head_cells [OF inv L k Lk]
  have n: "y \<noteq> OURNULL" if "bs = y # ys" for y ys
    using lists_okD(4) [OF L k, of y] pool_invD(7) [OF inv] Lk that by auto
  note u = unlink_inv [OF inv L k, of "[]" x bs s']
  show "pool_inv s' (paint x (x + 2 ^ k) Limbo own)" "kept own s s'"
    by (rule u; use Lk n in \<open>auto simp: s'_def n_def first_def split: list.splits\<close>)+
qed

lemma pow_mono: "b \<le> k \<Longrightarrow> (2::nat) ^ b \<le> 2 ^ k"
  by (simp add: power_increasing)

lemma chunk_ok_sub: "chunk_ok N x k \<Longrightarrow> b \<le> k \<Longrightarrow> chunk_ok N x b"
proof -
  assume x: "chunk_ok N x k" and b: "b \<le> k"
  have "x + 2 ^ b \<le> N" using chunk_okD(1) [OF x] pow_mono [OF b] by linarith
  moreover have "2 ^ b dvd x" using chunk_okD(3) [OF x] b power_le_dvd by blast
  ultimately show ?thesis using chunk_okD(4) [OF x] b by (simp add: chunk_ok_def)
qed

lemma allocatedI:
  assumes snd: "sound s own" and inv: "pool_inv s' own'" and kept: "kept own s s'"
    and x: "chunk_ok (poolBlocks s) x k"
    and "in": "\<And>u. x \<le> u \<Longrightarrow> u < x + 2 ^ k \<Longrightarrow> is_free (own u) \<and> own' u = BusyC x k"
    and out: "\<And>u. \<not> (x \<le> u \<and> u < x + 2 ^ k) \<Longrightarrow> own' u = own u \<or> is_free (own u) \<and> is_free (own' u)"
    and fb: "freeBytes s = freeBytes s' + 2 ^ k * 4096"
  shows "allocated x k s own s' own'"
proof -
  have "free_units (poolBlocks s) own = free_units (poolBlocks s) own' + (x + 2 ^ k - x)"
  proof (rule free_units_diff)
    show "\<forall>u < poolBlocks s. \<not> (x \<le> u \<and> u < x + 2 ^ k) \<longrightarrow> is_free (own' u) = is_free (own u)"
      using out by metis
  qed (use chunk_okD(1) [OF x] "in" in auto)
  then have "freeBytes s' = free_units (poolBlocks s) own' * 4096"
    using soundD(3) [OF snd] fb by simp
  moreover have "own' u \<noteq> Limbo" if "u < poolBlocks s" for u
    using "in" [of u] out [of u] soundD(2) [OF snd that] by (cases "x \<le> u \<and> u < x + 2 ^ k") auto
  ultimately have "sound s' own'" using inv keptD(2) [OF kept] by (simp add: sound_def)
  moreover have "if is_free (own u) then is_free (own' u) else own' u = own u"
    if "\<not> (x \<le> u \<and> u < x + 2 ^ k)" for u using out [OF that] by auto
  ultimately show ?thesis using kept x "in" fb by (auto simp: allocated_def)
qed

lemma carve:
  assumes snd: "sound s own" and L: "lists_ok s own L" and k: "k < 13" and Lk: "L k = x # bs" and b: "b \<le> k"
  defines "n \<equiv> first bs OURNULL"
  defines "s1 \<equiv> (if n \<noteq> OURNULL then wr (prev_cell n) OURNULL s else s)\<lparr>freeList := (freeList s)[k := n]\<rparr>"
  defines "s3 \<equiv> s1\<lparr>pmap := BITSET (pmap s1) (x + 2 ^ b - 1), freeBytes := freeBytes s - 2 ^ k * 4096\<rparr>"
  shows "2 ^ k * 4096 \<le> freeBytes s"
    "\<exists>own'. allocated x b s own (toFree (x + 2 ^ b) (x + 2 ^ k) False s3) own'"
proof -
  note inv = soundD(1) [OF snd]
  note h = head_cells [OF inv L k Lk] and t = take_head [OF inv L k Lk, folded n_def, folded s1_def]
  have free: "own u = FreeC x k" if "x \<le> u" "u < x + 2 ^ k" for u
    using tilesD(4) [OF pool_invD(2) [OF inv] h(1,2)] that by blast
  have ck: "chunk_ok (poolBlocks s) x k" using tilesD(3) [OF pool_invD(2) [OF inv] h(1,2)] .
  note cb = chunk_ok_sub [OF ck b] and bk = pow_mono [OF b]
  have sub: "u < x + 2 ^ k" if "u < x + 2 ^ b" for u using that bk by linarith
  have "2 ^ k \<le> free_units (poolBlocks s) own"
    using free_units_ge [of "x + 2 ^ k" "poolBlocks s" x own] chunk_okD(1) [OF ck] free by simp
  then show ge: "2 ^ k * 4096 \<le> freeBytes s" using soundD(3) [OF snd] by simp
  define own1 own2 where "own1 = paint x (x + 2 ^ k) Limbo own" and "own2 = paint x (x + 2 ^ b) (BusyC x b) own1"
  have N1: "poolBlocks s1 = poolBlocks s" using keptD(2) [OF t(2)] .
  have "pool_inv s3 own2"
    unfolding s3_def own2_def pool_inv_freeBytes
    by (rule busy_inv) (use t(1) cb N1 sub in \<open>auto simp: own1_def\<close>)
  then obtain own4 where "freed (x + 2 ^ b) (x + 2 ^ k) s3 own2 (toFree (x + 2 ^ b) (x + 2 ^ k) False s3) own4"
  proof (rule toFree_freed)
    show "\<forall>u. x + 2 ^ b \<le> u \<and> u < x + 2 ^ k \<longrightarrow> own2 u = Limbo" by (simp add: own2_def own1_def)
    show "x + 2 ^ k \<le> poolBlocks s3" using chunk_okD(1) [OF ck] N1 by (simp add: s3_def)
    show "freeBytes s3 < 2 ^ 32" using soundD(4) [OF snd] by (simp add: s3_def)
  qed (use bk in simp)
  moreover define s4 where "s4 = toFree (x + 2 ^ b) (x + 2 ^ k) False s3"
  ultimately have f: "freed (x + 2 ^ b) (x + 2 ^ k) s3 own2 s4 own4" by simp
  have "allocated x b s own s4 own4"
  proof (rule allocatedI [OF snd _ _ cb])
    show "kept own s s4"
    proof (rule kept_trans)
      show "kept own s s3" using t(2) by (simp add: s3_def)
      show "kept own2 s3 s4" using f by (simp add: freed_def)
    qed (use free in \<open>auto simp: own2_def own1_def paint_def\<close>)
    show "is_free (own u) \<and> own4 u = BusyC x b" if "x \<le> u" "u < x + 2 ^ b" for u
      using f that free sub by (auto simp: freed_def own2_def)
    show "own4 u = own u \<or> is_free (own u) \<and> is_free (own4 u)" if "\<not> (x \<le> u \<and> u < x + 2 ^ b)" for u
      using f that free by (cases "x + 2 ^ b \<le> u \<and> u < x + 2 ^ k") (auto simp: freed_def own2_def own1_def paint_def)
    have "freeBytes s4 = w32 (freeBytes s - 2 ^ k * 4096 + (2 ^ k - 2 ^ b) * 4096)"
      using f by (simp add: freed_def s3_def)
    also have "freeBytes s - 2 ^ k * 4096 + (2 ^ k - 2 ^ b) * 4096 = freeBytes s - 2 ^ b * 4096"
      using ge bk by (simp add: diff_mult_distrib)
    finally have "freeBytes s4 = freeBytes s - 2 ^ b * 4096" using soundD(4) [OF snd] by simp
    moreover have "2 ^ b * 4096 \<le> freeBytes s" using ge mult_le_mono1 [OF bk, of 4096] by linarith
    ultimately show "freeBytes s = freeBytes s4 + 2 ^ b * 4096" by simp
  qed (use f in \<open>simp add: freed_def\<close>)
  then show "\<exists>own'. allocated x b s own (toFree (x + 2 ^ b) (x + 2 ^ k) False s3) own'"
    unfolding s4_def by blast
qed

section \<open>The outcome of an allocation\<close>

lemma BuddyMalloc_eq:
  assumes snd: "sound s own" and L: "lists_ok s own L" and r: "r < 13" "b \<le> r" and Lr: "L r = x # bs"
    and find: "find (\<lambda>r. freeList s ! r \<noteq> OURNULL) [b..<13] = Some r"
  shows "\<exists>s' own'. BuddyMalloc b True s = (kIOReturnSuccess, Some (poolStart s + x * 4096), s') \<and>
    allocated x b s own s' own'"
proof -
  note inv = soundD(1) [OF snd] and d = pool_invD [OF soundD(1) [OF snd]]
  note h = head_cells [OF inv L r(1) Lr] and c = carve [OF snd L r(1) Lr r(2)]
  note cx = dw_cells [OF d(1) less_imp_le [OF h(1)] r(1)]
  have b13: "b < 13" using r by simp
  have fl: "freeList s ! r = x" using lists_okD(1) [OF L r(1)] Lr by simp
  define n where "n = first bs OURNULL"
  have cn: "n \<noteq> OURNULL \<Longrightarrow> dw s n = magic_cell n" "magic_cell n + 1 = prev_cell n"
    using dw_cells(1) [OF d(1) _ r(1), of n] h(7) by (auto simp: n_def magic_cell_def prev_cell_def)
  define s1 where "s1 = (if n \<noteq> OURNULL then wr (prev_cell n) OURNULL s else s)\<lparr>freeList := (freeList s)[r := n]\<rparr>"
  define s3 where "s3 = s1\<lparr>pmap := BITSET (pmap s1) (x + 2 ^ b - 1), freeBytes := freeBytes s - 2 ^ r * 4096\<rparr>"
  obtain own' where a: "allocated x b s own (toFree (x + 2 ^ b) (x + 2 ^ r) False s3) own'"
    using c(2) unfolding s3_def s1_def n_def by blast
  have start: "poolStart (toFree (x + 2 ^ b) (x + 2 ^ r) False s3) = poolStart s"
    "minBits (toFree (x + 2 ^ b) (x + 2 ^ r) False s3) = 12"
    using a keptD(1) pool_invD(4) by (auto simp: allocated_def sound_def)
  have w: "w32 (x + 2 ^ b) = x + 2 ^ b" "w32 (x + 2 ^ r) = x + 2 ^ r"
    using add32_pow [OF d(7), of x] h(1) b13 r(1) by simp_all
  have ck: "x + 2 ^ r \<le> poolBlocks s" using tilesD(3) [OF d(2) h(1,2)] by (rule chunk_okD)
  have "x + 2 ^ b \<le> 2 ^ 32" using ck pow_mono [OF r(2)] d(7) by linarith
  then have s: "sub32 (x + 2 ^ b) 1 = x + 2 ^ b - 1" using zero_less_power [of "2::nat" b]
    by (intro sub32_eq) (use ck pow_mono [OF r(2)] d(7) in linarith)+
  have pr: "(2::nat) ^ (r + 12) = 2 ^ r * 4096" by (simp add: power_add)
  have fb: "sub32 (freeBytes s) (2 ^ (r + 12)) = freeBytes s - 2 ^ r * 4096"
    unfolding pr using c(1) soundD(4) [OF snd] by (rule sub32_eq)
  have fb2: "\<not> freeBytes s < w32 (2 ^ (b + 12))"
    using order_trans [OF mult_le_mono1 [OF pow_mono [OF r(2)]] c(1)]
    unfolding pow32(2) [OF b13] power_add by simp
  have x32: "w32 (x * 2 ^ 12) = x * 4096" using h(1) d(7) by simp
  have "BuddyMalloc b True s =
      (kIOReturnSuccess, Some (poolStart s + x * 4096), toFree (x + 2 ^ b) (x + 2 ^ r) False s3)"
  proof -
    note facts = h(1,3,4) h(5) [folded n_def] h(6) h(7) [folded n_def] cx(1-3) cx(4) [unfolded d(4)] fl find d(4,5)
      fb2 start w s fb x32 pow32 [OF b13] pow32 [OF r(1)]
    show ?thesis
    proof (cases "n = OURNULL")
      case True
      then show ?thesis using facts unfolding s3_def s1_def by (simp add: BuddyMalloc_def Let_def)
    next
      case False
      then show ?thesis using facts cn unfolding s3_def s1_def by (simp add: BuddyMalloc_def Let_def)
    qed
  qed
  then show ?thesis using a by blast
qed

definition has_chunk :: "CEsvga2Allocator \<Rightarrow> (nat \<Rightarrow> owner) \<Rightarrow> nat \<Rightarrow> bool" where
  "has_chunk s own b \<longleftrightarrow> (\<exists>u x k. u < poolBlocks s \<and> own u = FreeC x k \<and> b \<le> k)"

lemma BuddyMalloc_ok:
  assumes snd: "sound s own" and c: "has_chunk s own b"
  shows "\<exists>x s' own'. BuddyMalloc b True s = (kIOReturnSuccess, Some (poolStart s + x * 4096), s') \<and>
    allocated x b s own s' own'"
proof -
  note d = pool_invD [OF soundD(1) [OF snd]]
  obtain L where L: "lists_ok s own L" using soundD(1) [OF snd] by (rule pool_inv_lists)
  obtain u x k where u: "u < poolBlocks s" "own u = FreeC x k" "b \<le> k"
    using c by (auto simp: has_chunk_def)
  note t = tilesD [OF d(2) u(1,2)]
  have k: "k < 13" using t(3) by (rule chunk_okD)
  have "x \<in> set (L k)" using lists_okD(6) [OF L k] chunk_okD(2) [OF t(3)] t(4) [of x] by simp
  then have "freeList s ! k \<noteq> OURNULL"
    using list_null [OF soundD(1) [OF snd] L k] by auto
  then have "find (\<lambda>r. freeList s ! r \<noteq> OURNULL) [b..<13] \<noteq> None"
    using u(3) k by (auto simp: find_None_iff)
  then obtain r where r: "find (\<lambda>r. freeList s ! r \<noteq> OURNULL) [b..<13] = Some r" by blast
  then have rb: "r < 13" "b \<le> r" "freeList s ! r \<noteq> OURNULL"
    by (auto simp: find_Some_iff)
  obtain bs where "L r = (freeList s ! r) # bs" using L rb(1,3) by (rule list_head)
  from BuddyMalloc_eq [OF snd L rb(1,2) this r] show ?thesis by blast
qed

lemma BuddyMalloc_none:
  assumes snd: "sound s own" and c: "\<not> has_chunk s own b"
  shows "BuddyMalloc b True s = (kIOReturnNoMemory, None, s)"
proof -
  obtain L where L: "lists_ok s own L" using soundD(1) [OF snd] by (rule pool_inv_lists)
  have "freeList s ! r = OURNULL" if r: "b \<le> r" "r < 13" for r
  proof (rule ccontr)
    assume "freeList s ! r \<noteq> OURNULL"
    with L r(2) obtain bs where "L r = (freeList s ! r) # bs" by (rule list_head)
    then have "freeList s ! r < poolBlocks s" "own (freeList s ! r) = FreeC (freeList s ! r) r"
      using lists_okD(4,5) [OF L r(2), of "freeList s ! r"] by auto
    then show False using c r(1) by (auto simp: has_chunk_def)
  qed
  then have "find (\<lambda>r. freeList s ! r \<noteq> OURNULL) [b..<13] = None" by (auto simp: find_None_iff)
  then show ?thesis using pool_invD(5) [OF soundD(1) [OF snd]] by (simp add: BuddyMalloc_def)
qed

text \<open>The size class of a request: the least power of two of blocks that holds it.\<close>

definition fit_class :: "nat \<Rightarrow> nat \<Rightarrow> bool" where
  "fit_class bytes k \<longleftrightarrow> bytes \<le> 2 ^ k * 4096 \<and> (k = 0 \<or> 2 ^ k * 4096 < 2 * bytes)"

lemma malloc_bits_iff:
  assumes "b \<le> 13" "b = 0 \<or> 2 ^ b * 4096 < 2 * bytes"
  shows "case malloc_bits 13 bytes b (2 ^ b * 4096) of
      Some k \<Rightarrow> k \<le> 13 \<and> fit_class bytes k
    | None \<Rightarrow> 2 ^ 25 < bytes"
  using assms
proof (induction "13 - b" arbitrary: b)
  case 0
  then have "b = 13" by simp
  then show ?case using 0 by (subst malloc_bits.simps) (simp add: fit_class_def)
next
  case (Suc n)
  have b: "b < 13" using Suc.hyps(2) by simp
  then have "(2::nat) ^ b \<le> 2 ^ 12" by (intro pow_mono) simp
  then have w: "w64 (2 ^ b * 4096 * 2) = 2 ^ (b + 1) * 4096" "(2::nat) ^ (b + 1) * 4096 \<noteq> 0" by simp_all
  have "malloc_bits 13 bytes b (2 ^ b * 4096) =
      (if 2 ^ b * 4096 < bytes then malloc_bits 13 bytes (b + 1) (2 ^ (b + 1) * 4096) else Some b)"
    unfolding malloc_bits.simps [of 13 bytes b] Let_def w using w(2) b by simp
  moreover have "2 ^ b * 4096 < bytes \<Longrightarrow>
      case malloc_bits 13 bytes (b + 1) (2 ^ (b + 1) * 4096) of
        Some k \<Rightarrow> k \<le> 13 \<and> fit_class bytes k | None \<Rightarrow> 2 ^ 25 < bytes"
    using Suc by (intro Suc.hyps(1)) simp_all
  ultimately show ?case using Suc.prems b by (simp add: fit_class_def)
qed

lemma Malloc_cases:
  assumes "sound s own"
  obtains (ok) x k s' own' where
      "Malloc bytes True s = (kIOReturnSuccess, Some (poolStart s + x * 4096), s')"
      "fit_class bytes k" "allocated x k s own s' own'"
    | (full) k where "Malloc bytes True s = (kIOReturnNoMemory, None, s)" "fit_class bytes k" "\<not> has_chunk s own k"
    | (big) "Malloc bytes True s = (kIOReturnNoResources, None, s)" "2 ^ 25 < bytes"
proof -
  note d = pool_invD [OF soundD(1) [OF assms]]
  have m: "case malloc_bits 13 bytes 0 4096 of Some k \<Rightarrow> k \<le> 13 \<and> fit_class bytes k | None \<Rightarrow> 2 ^ 25 < bytes"
    using malloc_bits_iff [of 0 bytes] by simp
  have e: "Malloc bytes True s = (case malloc_bits 13 bytes 0 4096 of
      None \<Rightarrow> (kIOReturnNoResources, None, s) | Some bits \<Rightarrow> BuddyMalloc bits True s)"
    using d(4,5) by (simp add: Malloc_def)
  show thesis
  proof (cases "malloc_bits 13 bytes 0 4096")
    case None
    then show thesis using big m e by simp
  next
    case (Some k)
    then show thesis
      using ok full m e BuddyMalloc_ok [OF assms, of k] BuddyMalloc_none [OF assms, of k]
      by (cases "has_chunk s own k") auto
  qed
qed

end
