(* ===== verification/Buddy_Free.thy ===== *)
theory Buddy_Free
  imports Buddy_Malloc
begin

text \<open>
  Freeing: \<open>BuddyAllocSize\<close> finds the size of a busy chunk in the bitmap, \<open>Free\<close> merges the
  chunk with its free buddies and links the result.
\<close>

section \<open>The size of a busy chunk\<close>

lemma alloc_size_loop_ok:
  assumes inv: "pool_inv s own" and x: "x < poolBlocks s" "own x = BusyC x k" and b: "b \<le> k"
  shows "alloc_size_loop 13 (poolBlocks s) x b (2 ^ b) s = Some k"
  using b
proof (induction "k - b" arbitrary: b)
  note d = pool_invD [OF inv] and t = tilesD [OF pool_invD(2) [OF inv] x]
  have step: "x + 2 ^ b \<le> poolBlocks s" "b < 13" "x AND (2 ^ b - 1) = 0"
    "BITTEST (pmap s) (x + 2 ^ b - 1) \<longleftrightarrow> b = k" if "b \<le> k" for b
  proof -
    show le: "x + 2 ^ b \<le> poolBlocks s" using chunk_okD(1) [OF t(3)] pow_mono [OF that] by linarith
    show "b < 13" using chunk_okD(4) [OF t(3)] that by simp
    have "2 ^ b dvd x" using chunk_okD(3) [OF t(3)] that power_le_dvd by blast
    then show "x AND (2 ^ b - 1) = 0" unfolding and_mask by (simp add: dvd_eq_mod_eq_0)
    obtain e where e: "x + 2 ^ b = Suc e" by (rule bits_cell_Suc)
    have "x \<le> e" "e < x + 2 ^ k" using e zero_less_power [of "2::nat" b] pow_mono [OF that] by linarith+
    then have "own e = BusyC x k" using t(4) by blast
    moreover have "e < poolBlocks s" using le e by simp
    ultimately have "BITTEST (pmap s) e \<longleftrightarrow> e + 1 = x + 2 ^ k" using d(3) by (simp add: bits_ok_def)
    then show "BITTEST (pmap s) (x + 2 ^ b - 1) \<longleftrightarrow> b = k" using e by auto
  qed
  {
    case 0
    then have "b = k" by simp
    then show ?case using step [of k] by (subst alloc_size_loop.simps) simp
  next
    case (Suc n)
    note st = step [OF Suc.prems]
    have "b < k" using Suc.hyps(2) by simp
    have "(2::nat) ^ (b + 1) \<le> 2 ^ 13" using st(2) by (intro pow_mono) simp
    then have w: "w64 (2 ^ b * 2) = 2 ^ (b + 1)" by simp
    have "alloc_size_loop 13 (poolBlocks s) x b (2 ^ b) s =
        alloc_size_loop 13 (poolBlocks s) x (b + 1) (2 ^ (b + 1)) s"
      unfolding alloc_size_loop.simps [of 13 "poolBlocks s" x b] w using st \<open>b < k\<close> by simp
    then show ?case using Suc.hyps(1) [of "b + 1"] Suc.hyps(2) \<open>b < k\<close> by simp
  }
qed

lemma BuddyAllocSize_ok:
  assumes inv: "pool_inv s own" and x: "x < poolBlocks s" "own x = BusyC x k"
  shows "BuddyAllocSize (poolStart s + x * 4096) s = Inr k"
proof -
  note d = pool_invD [OF inv]
  have "x * 4096 < 2 ^ 64" using x(1) d(7) by simp
  then show ?thesis
    using alloc_size_loop_ok [OF inv x, of 0] d(4,5) x(1) by (simp add: BuddyAllocSize_def Let_def)
qed

section \<open>Buddies\<close>

lemma buddy_eq:
  fixes x :: nat
  assumes "2 ^ b dvd x"
  shows "x XOR 2 ^ b = (if 2 ^ (b + 1) dvd x then x + 2 ^ b else x - 2 ^ b)"
proof -
  obtain q where q: "x = 2 ^ b * q" using assms by blast
  have bit: "bit x b \<longleftrightarrow> odd q" by (simp add: q bit_iff_odd)
  have dvd: "2 ^ (b + 1) dvd x \<longleftrightarrow> even q" by (simp add: q)
  have "x XOR 2 ^ b = flip_bit b x" by (simp add: flip_bit_eq_xor)
  also have "\<dots> = (if bit x b then x - 2 ^ b else x + 2 ^ b)"
  proof (cases "bit x b")
    case True
    then have "x = set_bit b (unset_bit b x)"
      by (intro bit_eqI) (auto simp: bit_set_bit_iff bit_unset_bit_iff)
    also have "\<dots> = unset_bit b x + 2 ^ b" by (simp add: set_bit_eq bit_unset_bit_iff)
    finally show ?thesis using True by (simp add: flip_bit_eq_if)
  qed (simp add: flip_bit_eq_if set_bit_eq)
  finally show ?thesis using bit dvd by simp
qed

text \<open>
  A block and its buddy: both aligned, disjoint, together an aligned block of twice the size
  that starts at the smaller one.
\<close>

lemma buddy:
  assumes "2 ^ b dvd x"
  defines "y \<equiv> x XOR (2::nat) ^ b"
  shows "2 ^ b dvd y" "2 ^ (b + 1) dvd min x y" "y = x + 2 ^ b \<or> x = y + 2 ^ b"
    "min x y + 2 ^ (b + 1) = max x y + 2 ^ b"
proof -
  obtain q where q: "x = 2 ^ b * q" using assms by blast
  show 3: "y = x + 2 ^ b \<or> x = y + 2 ^ b"
  proof (cases "2 ^ (b + 1) dvd x")
    case False
    then have "q \<noteq> 0" using q by (cases q) auto
    then have "2 ^ b \<le> x" using q by simp
    then show ?thesis using False buddy_eq [OF assms(1)] by (simp add: y_def)
  qed (simp add: y_def buddy_eq [OF assms(1)])
  then show "2 ^ b dvd y" using assms(1) by (metis dvd_add_left_iff dvd_refl dvd_add)
  show "min x y + 2 ^ (b + 1) = max x y + 2 ^ b" using 3 by auto
  show "2 ^ (b + 1) dvd min x y"
  proof (cases "2 ^ (b + 1) dvd x")
    case True
    then show ?thesis by (simp add: y_def buddy_eq [OF assms(1)])
  next
    case False
    then have "odd q" by (simp add: q)
    then obtain p where "q = 2 * p + 1" by (rule oddE)
    then have "y = 2 ^ (b + 1) * p" using False buddy_eq [OF assms(1)] by (simp add: y_def q distrib_left)
    moreover have "y \<le> x" using False buddy_eq [OF assms(1)] by (simp add: y_def)
    ultimately show ?thesis by simp
  qed
qed

section \<open>Unlinking a buddy\<close>

lemma node_cells:
  assumes inv: "pool_inv s own" and L: "lists_ok s own L" and k: "k < 13" and Lk: "L k = as @ x # bs"
  shows "x < poolBlocks s" "own x = FreeC x k" "rd s (magic_cell x) = MAGIC"
    "rd s (prev_cell x) = lastp OURNULL as" "rd s (next_cell x) = first bs OURNULL"
    "as \<noteq> [] \<Longrightarrow> last as < poolBlocks s \<and> last as \<noteq> x \<and>
      rd s (magic_cell (last as)) = MAGIC \<and> rd s (next_cell (last as)) = x"
    "bs = z # zs \<Longrightarrow> z < poolBlocks s \<and> z \<noteq> x \<and> rd s (magic_cell z) = MAGIC \<and> rd s (prev_cell z) = x"
proof -
  have seg: "seg (rd s) k OURNULL as x" "seg (rd s) k (lastp OURNULL as) (x # bs) OURNULL"
    using lists_okD(2) [OF L k] by (simp_all add: Lk seg_append)
  have dist: "distinct (as @ x # bs)" using lists_okD(3) [OF L k] Lk by simp
  show "x < poolBlocks s" "own x = FreeC x k" using lists_okD(4,5) [OF L k, of x] Lk by auto
  show "rd s (magic_cell x) = MAGIC" "rd s (prev_cell x) = lastp OURNULL as"
    "rd s (next_cell x) = first bs OURNULL" using seg(2) by simp_all
  show "bs = z # zs \<Longrightarrow> z < poolBlocks s \<and> z \<noteq> x \<and> rd s (magic_cell z) = MAGIC \<and> rd s (prev_cell z) = x"
    using seg(2) dist lists_okD(4) [OF L k, of z] Lk by auto
  show "as \<noteq> [] \<Longrightarrow> last as < poolBlocks s \<and> last as \<noteq> x \<and>
      rd s (magic_cell (last as)) = MAGIC \<and> rd s (next_cell (last as)) = x"
    using seg(1) dist lists_okD(4) [OF L k, of "last as"] Lk
    by (cases as rule: rev_cases) (auto simp: seg_append)
qed

text \<open>The memory after \<open>unlink_buddy\<close>, with the trailer cleared before.\<close>

definition unlink_mem :: "(nat \<Rightarrow> nat) \<Rightarrow> nat \<Rightarrow> nat \<Rightarrow> nat \<Rightarrow> nat \<Rightarrow> nat \<Rightarrow> nat" where
  "unlink_mem m p x n k = (\<lambda>i.
     if i \<in> {magic_cell x, prev_cell x, next_cell x, bits_cell x k} then 0
     else if p \<noteq> OURNULL \<and> i = next_cell p then n
     else if n \<noteq> OURNULL \<and> i = prev_cell n then p
     else m i)"

lemma unlink_buddy_eq:
  assumes inv: "pool_inv s own" and L: "lists_ok s own L" and k: "k < 13" and Lk: "L k = as @ x # bs"
  defines "p \<equiv> lastp OURNULL as" and "n \<equiv> first bs OURNULL"
  obtains s' where "unlink_buddy k x (wr (bits_cell x k) 0 s) = Inr s'"
    "rd s' = unlink_mem (rd s) p x n k" "poolStart s' = poolStart s" "poolBlocks s' = poolBlocks s"
    "minBits s' = minBits s" "numSizes s' = numSizes s" "pmap s' = pmap s" "freeBytes s' = freeBytes s"
    "freeList s' = (if as = [] then (freeList s)[k := n] else freeList s)"
proof -
  note d = pool_invD [OF inv] and c = node_cells [OF inv L k Lk]
  have dw: "dw s y = magic_cell y" "magic_cell y + 1 = prev_cell y" "magic_cell y + 2 = next_cell y"
    if "y < poolBlocks s" for y using dw_cells(1-3) [OF d(1) _ k] that by simp_all
  have null: "y \<noteq> OURNULL" "y < 2 ^ 32" if "y < poolBlocks s" for y using that d(7) by simp_all
  have p: "p = OURNULL \<longleftrightarrow> as = []" "p \<noteq> OURNULL \<Longrightarrow> p < poolBlocks s \<and> p \<noteq> x \<and>
      rd s (magic_cell p) = MAGIC \<and> rd s (next_cell p) = x"
    using c(6) null by (auto simp: p_def lastp_def)
  have n: "n \<noteq> OURNULL \<Longrightarrow> n < poolBlocks s \<and> n \<noteq> x \<and> rd s (magic_cell n) = MAGIC \<and> rd s (prev_cell n) = x"
    using c(7) by (cases bs) (auto simp: n_def)
  have fl: "freeList s ! k \<noteq> OURNULL" using list_null [OF inv L k] Lk by simp
  let ?s0 = "wr (bits_cell x k) 0 s"
  let ?s1 = "if n \<noteq> OURNULL then wr (prev_cell n) p ?s0 else ?s0"
  let ?s2 = "if as = [] then ?s1\<lparr>freeList := (freeList s)[k := n]\<rparr> else wr (next_cell p) n ?s1"
  let ?s3 = "wr (next_cell x) 0 (wr (prev_cell x) 0 (wr (magic_cell x) 0 ?s2))"
  note facts = c(1-3) c(4) [folded p_def] c(5) [folded n_def] fl dw [OF c(1)]
  have "unlink_buddy k x ?s0 = Inr ?s3"
  proof (cases "as = []")
    case True
    then have "p = OURNULL" using p(1) by simp
    then show ?thesis using True facts n dw [of n]
      by (cases "n = OURNULL") (simp_all add: unlink_buddy_def unlink_first_def Let_def)
  next
    case False
    then have "p \<noteq> OURNULL" using p(1) by simp
    then show ?thesis using False facts n p(2) dw [of n] dw [of p]
      by (cases "n = OURNULL") (simp_all add: unlink_buddy_def unlink_inner_def Let_def)
  qed
  moreover have "rd ?s3 = unlink_mem (rd s) p x n k"
    using p n null by (auto simp: fun_eq_iff unlink_mem_def)
  ultimately show thesis by (rule that) simp_all
qed

lemma unlink_buddy_inv:
  assumes inv: "pool_inv s own" and k: "k < 13" and x: "x < poolBlocks s" "own x = FreeC x k"
  obtains s' where "unlink_buddy k x (wr (bits_cell x k) 0 s) = Inr s'"
    "pool_inv s' (paint x (x + 2 ^ k) Limbo own)" "kept own s s'" "freeBytes s' = freeBytes s"
proof -
  note d = pool_invD [OF inv]
  obtain L where L: "lists_ok s own L" using inv by (rule pool_inv_lists)
  have "x \<in> set (L k)" using lists_okD(6) [OF L k x] .
  then obtain as bs where Lk: "L k = as @ x # bs" by (auto simp: in_set_conv_decomp)
  note c = node_cells [OF inv L k Lk]
  obtain s' where s': "unlink_buddy k x (wr (bits_cell x k) 0 s) = Inr s'"
    "rd s' = unlink_mem (rd s) (lastp OURNULL as) x (first bs OURNULL) k" "poolStart s' = poolStart s"
    "poolBlocks s' = poolBlocks s" "minBits s' = minBits s" "numSizes s' = numSizes s" "pmap s' = pmap s"
    "freeBytes s' = freeBytes s" "freeList s' = (if as = [] then (freeList s)[k := first bs OURNULL] else freeList s)"
    by (rule unlink_buddy_eq [OF inv L k Lk])
  have null: "y \<noteq> OURNULL" if "y < poolBlocks s" for y using that d(7) by simp
  note u = unlink_inv [OF inv L k Lk s'(3-7,9)]
  have "pool_inv s' (paint x (x + 2 ^ k) Limbo own)" "kept own s s'"
    by (rule u; use c(6,7) null in \<open>auto simp: s'(2) unlink_mem_def first_def lastp_def split: list.splits\<close>)+
  then show thesis using that s'(1,8) by blast
qed

section \<open>Merging\<close>

text \<open>The unowned blocks are exactly the chunk being freed.\<close>

definition hole :: "nat \<Rightarrow> (nat \<Rightarrow> owner) \<Rightarrow> nat \<Rightarrow> nat \<Rightarrow> bool" where
  "hole N own x k \<longleftrightarrow> chunk_ok N x k \<and> (\<forall>u < N. own u = Limbo \<longleftrightarrow> x \<le> u \<and> u < x + 2 ^ k)"

text \<open>
  The decision of the loop: the last block of the buddy is the last block of a chunk inside the
  buddy, so its bit tells whether that chunk is busy, and its trailer is the size of a free chunk.
\<close>

lemma buddy_tail:
  assumes inv: "pool_inv s own" and h: "hole (poolBlocks s) own x b" and b: "b < 12"
    and y: "y = x XOR 2 ^ b" "y + 2 ^ b \<le> poolBlocks s" and e: "y + 2 ^ b = Suc e"
  obtains f z j where "own e = Chunk f z j" "z + 2 ^ j = Suc e" "j \<le> b" "y \<le> z"
    "BITTEST (pmap s) e \<longleftrightarrow> \<not> f" "f \<Longrightarrow> rd s (e * 1024 + 1023) = j + LEN_OFFSET" "z < poolBlocks s" "own z = Chunk f z j"
proof -
  note d = pool_invD [OF inv]
  have xb: "2 ^ b dvd x" and hx: "\<And>u. u < poolBlocks s \<Longrightarrow> own u = Limbo \<longleftrightarrow> x \<le> u \<and> u < x + 2 ^ b"
    using h by (auto simp: hole_def chunk_ok_def)
  note bud = buddy [OF xb, folded y(1)]
  have eN: "e < poolBlocks s" using y(2) e by simp
  have ye: "y \<le> e" using e zero_less_power [of "2::nat" b] by linarith
  have "\<not> (x \<le> e \<and> e < x + 2 ^ b)" using bud(3) e ye by auto
  then have "own e \<noteq> Limbo" using hx eN by simp
  then obtain f z j where o: "own e = Chunk f z j" by (cases "own e") auto
  note t = tilesD [OF d(2) eN o]
  have "j \<le> b"
  proof (rule ccontr)
    assume "\<not> j \<le> b"
    then have "b + 1 \<le> j" by simp
    moreover have "min x y \<le> e" "e < min x y + 2 ^ (b + 1)" using bud(4) ye e by auto
    ultimately have n: "z \<le> min x y" "min x y + 2 ^ (b + 1) \<le> z + 2 ^ j"
      using aligned_nested [OF bud(2) chunk_okD(3) [OF t(3)]] t(1,2) by auto
    have "x < max x y + 2 ^ b" using zero_less_power [of "2::nat" b] by linarith
    then have "x < z + 2 ^ j" using n(2) bud(4) by linarith
    then have "own x = Chunk f z j" using t(4) [of x] n(1) by simp
    moreover have "x < poolBlocks s" using h by (auto simp: hole_def dest: chunk_okD)
    ultimately show False using hx [of x] by simp
  qed
  then have n: "y \<le> z" "z + 2 ^ j \<le> y + 2 ^ b"
    using aligned_nested [OF chunk_okD(3) [OF t(3)] bud(1)] t(1,2) ye e by auto
  then have ze: "z + 2 ^ j = Suc e" using t(2) e by simp
  have zN: "z < poolBlocks s" using t(1) eN by simp
  have oz: "own z = Chunk f z j" using t(4) [of z] by simp
  have "BITTEST (pmap s) e \<longleftrightarrow> \<not> f" using d(3) o eN ze by (auto simp: bits_ok_def)
  moreover have "rd s (e * 1024 + 1023) = j + LEN_OFFSET" if f
  proof -
    obtain L where L: "lists_ok s own L" using inv by (rule pool_inv_lists)
    have j: "j < 13" using t(3) by (rule chunk_okD)
    have "z \<in> set (L j)" using lists_okD(6) [OF L j zN] oz that by simp
    then obtain as bs where "L j = as @ z # bs" by (auto simp: in_set_conv_decomp)
    then have "rd s (bits_cell z j) = j + LEN_OFFSET" using lists_okD(2) [OF L j] by (simp add: seg_append)
    then show ?thesis unfolding bits_cell_def ze by (simp add: add.commute)
  qed
  ultimately show thesis using that o ze \<open>j \<le> b\<close> n(1) zN oz by blast
qed

text \<open>
  What the merging loop achieves: a hole that contains the old one, the rest of it taken from
  free chunks, everything else as before.
\<close>

definition merged ::
  "nat \<Rightarrow> nat \<Rightarrow> CEsvga2Allocator \<Rightarrow> (nat \<Rightarrow> owner) \<Rightarrow> nat \<Rightarrow> nat \<Rightarrow> CEsvga2Allocator \<Rightarrow> (nat \<Rightarrow> owner) \<Rightarrow> bool" where
  "merged x b s own x' b' s' own' \<longleftrightarrow>
     pool_inv s' own' \<and> kept own s s' \<and> freeBytes s' = freeBytes s \<and> hole (poolBlocks s) own' x' b' \<and>
     x' \<le> x \<and> x + 2 ^ b \<le> x' + 2 ^ b' \<and>
     (\<forall>u. \<not> (x' \<le> u \<and> u < x' + 2 ^ b') \<longrightarrow> own' u = own u) \<and>
     (\<forall>u. x' \<le> u \<and> u < x' + 2 ^ b' \<and> \<not> (x \<le> u \<and> u < x + 2 ^ b) \<longrightarrow> is_free (own u))"

lemma merged_refl: "pool_inv s own \<Longrightarrow> hole (poolBlocks s) own x b \<Longrightarrow> merged x b s own x b s own"
  by (auto simp: merged_def)

lemma merged_trans:
  assumes h: "hole (poolBlocks s) own x b"
    and m: "merged x b s own y c s1 own1" "merged y c s1 own1 z e s2 own2"
  shows "merged x b s own z e s2 own2"
proof -
  have N: "poolBlocks s1 = poolBlocks s" using m(1) keptD(2) by (auto simp: merged_def)
  have "is_busy (own1 u)" if "u < poolBlocks s" "is_busy (own u)" for u
  proof (cases "y \<le> u \<and> u < y + 2 ^ c")
    case True
    then have "is_free (own u) \<or> own u = Limbo" using m(1) h that(1) unfolding merged_def hole_def by blast
    then show ?thesis using that(2) by (cases "own u") auto
  qed (use m(1) that in \<open>simp add: merged_def\<close>)
  then have "kept own s s2" using m kept_trans [of own s s1 own1 s2] by (auto simp: merged_def)
  moreover have sub: "u < z + 2 ^ e" "z \<le> u" if "y \<le> u" "u < y + 2 ^ c" for u
    using m(2) that by (auto simp: merged_def)
  have "is_free (own u)" if "z \<le> u \<and> u < z + 2 ^ e" "\<not> (x \<le> u \<and> u < x + 2 ^ b)" for u
    using m that by (cases "y \<le> u \<and> u < y + 2 ^ c") (metis merged_def)+
  moreover have "own2 u = own u" if "\<not> (z \<le> u \<and> u < z + 2 ^ e)" for u
    using m that sub [of u] unfolding merged_def by metis
  ultimately show ?thesis using m N by (auto simp: merged_def)
qed

lemma merge_step:
  assumes inv: "pool_inv s own" and h: "hole (poolBlocks s) own x b" and b: "b < 12"
    and y: "y = x XOR 2 ^ b" "y < poolBlocks s" "own y = FreeC y b"
  obtains s' where "unlink_buddy b y (wr (bits_cell y b) 0 s) = Inr s'"
    "merged x b s own (min x y) (b + 1) s' (paint y (y + 2 ^ b) Limbo own)"
proof -
  note d = pool_invD [OF inv]
  have b13: "b < 13" using b by simp
  obtain s' where s': "unlink_buddy b y (wr (bits_cell y b) 0 s) = Inr s'"
    "pool_inv s' (paint y (y + 2 ^ b) Limbo own)" "kept own s s'" "freeBytes s' = freeBytes s"
    using unlink_buddy_inv [OF inv b13 y(2,3)] by blast
  have xb: "2 ^ b dvd x" and hx: "\<And>u. u < poolBlocks s \<Longrightarrow> own u = Limbo \<longleftrightarrow> x \<le> u \<and> u < x + 2 ^ b"
    and xN: "x + 2 ^ b \<le> poolBlocks s"
    using h by (auto simp: hole_def chunk_ok_def)
  note bud = buddy [OF xb, folded y(1)] and ty = tilesD [OF d(2) y(2,3)]
  have yN: "y + 2 ^ b \<le> poolBlocks s" using ty(3) by (rule chunk_okD)
  have range: "min x y \<le> u \<and> u < min x y + 2 ^ (b + 1) \<longleftrightarrow> (x \<le> u \<and> u < x + 2 ^ b) \<or> (y \<le> u \<and> u < y + 2 ^ b)" for u
    unfolding bud(4) using bud(3) by auto
  have "chunk_ok (poolBlocks s) (min x y) (b + 1)"
    unfolding chunk_ok_def bud(4) using bud(2) xN yN b by (auto simp: max_def)
  then have A: "hole (poolBlocks s) (paint y (y + 2 ^ b) Limbo own) (min x y) (b + 1)"
    unfolding hole_def range using hx by (auto simp: paint_def)
  have B: "x + 2 ^ b \<le> min x y + 2 ^ (b + 1)" "min x y \<le> x" unfolding bud(4) by (simp_all add: min_def)
  have C: "\<forall>u. min x y \<le> u \<and> u < min x y + 2 ^ (b + 1) \<and> \<not> (x \<le> u \<and> u < x + 2 ^ b) \<longrightarrow> is_free (own u)"
  proof (intro allI impI)
    fix u assume u: "min x y \<le> u \<and> u < min x y + 2 ^ (b + 1) \<and> \<not> (x \<le> u \<and> u < x + 2 ^ b)"
    then have "y \<le> u \<and> u < y + 2 ^ b" using range [of u] by blast
    then show "is_free (own u)" using ty(4) [of u] by simp
  qed
  have D: "\<forall>u. \<not> (min x y \<le> u \<and> u < min x y + 2 ^ (b + 1)) \<longrightarrow> paint y (y + 2 ^ b) Limbo own u = own u"
    unfolding range by (simp add: paint_def)
  have "merged x b s own (min x y) (b + 1) s' (paint y (y + 2 ^ b) Limbo own)"
    unfolding merged_def by (intro conjI) (rule s'(2-4) A B C D)+
  then show thesis using that s'(1) by blast
qed

text \<open>One round of the loop, with the wrap-around of the 32-bit arithmetic resolved.\<close>

lemma merge_loop_round:
  assumes inv: "pool_inv s own" and yN: "y \<le> poolBlocks s" and b: "b < 12" and y_def: "y = x XOR 2 ^ b"
    and e: "y + 2 ^ b = Suc e"
  shows "merge_loop 13 b x (magic_cell x) s =
      (if y + 2 ^ b > poolBlocks s then Inr (b, x, magic_cell x, s)
       else if BITTEST (pmap s) e then Inr (b, x, magic_cell x, s)
       else let t = sub32 (rd s (e * 1024 + 1023)) LEN_OFFSET in
         if t \<ge> 2 ^ 31 \<or> t \<ge> 13 then Inl s
         else if t \<noteq> b then Inr (b, x, magic_cell x, s)
         else case unlink_buddy b y (wr (bits_cell y b) 0 s) of
             Inl s \<Rightarrow> Inl s
           | Inr s \<Rightarrow> if y < x then merge_loop 13 (b + 1) y (dw s y) s
                     else merge_loop 13 (b + 1) x (magic_cell x) s)"
proof -
  note d = pool_invD [OF inv]
  have b13: "b < 13" "b < 13 - 1" using b by simp_all
  have w: "w32 (y + 2 ^ b) = y + 2 ^ b" using add32_pow [OF d(7) yN] b by simp
  then have w': "w32 (Suc e) = Suc e" unfolding e .
  show ?thesis
  proof (cases "y + 2 ^ b > poolBlocks s")
    case True
    then show ?thesis
      unfolding merge_loop.simps [of 13 b] Let_def pow32(1) [OF b13(1)] y_def [symmetric] w using b13(2) by simp
  next
    case False
    have s: "sub32 (Suc e) 1 = e" using False e d(7) by (subst sub32_eq) simp_all
    have c: "dw s (Suc e) - 1 = e * 1024 + 1023" "bits_cell y b = e * 1024 + 1023"
      using dw_eq [OF d(1), of "Suc e"] False e by (simp_all add: bits_cell_def)
    show ?thesis
      unfolding merge_loop.simps [of 13 b] Let_def pow32(1) [OF b13(1)] y_def [symmetric] e w' s c
      using b13(2) by simp
  qed
qed

text \<open>A round ends the loop or merges the block with its buddy.\<close>

lemma merge_loop_step:
  assumes inv: "pool_inv s own" and h: "hole (poolBlocks s) own x b" and b: "b < 12"
  defines "y \<equiv> x XOR 2 ^ b"
  obtains (stop) "merge_loop 13 b x (magic_cell x) s = Inr (b, x, magic_cell x, s)"
    | (go) s' own' where "merged x b s own (min x y) (b + 1) s' own'"
        "merge_loop 13 b x (magic_cell x) s = merge_loop 13 (b + 1) (min x y) (magic_cell (min x y)) s'"
proof -
  note d = pool_invD [OF inv]
  have xb: "2 ^ b dvd x" "x + 2 ^ b \<le> poolBlocks s" using h by (auto simp: hole_def chunk_ok_def)
  note bud = buddy [OF xb(1), folded y_def]
  have yN: "y \<le> poolBlocks s" using bud(3) xb(2) by auto
  obtain e where e: "y + 2 ^ b = Suc e" by (rule bits_cell_Suc)
  note step = merge_loop_round [OF inv yN b y_def [THEN meta_eq_to_obj_eq] e]
  consider "y + 2 ^ b > poolBlocks s \<or> BITTEST (pmap s) e"
    | j where "y + 2 ^ b \<le> poolBlocks s" "\<not> BITTEST (pmap s) e" "j \<le> b" "j \<noteq> b" "rd s (e * 1024 + 1023) = j + LEN_OFFSET"
    | "y < poolBlocks s" "own y = FreeC y b" "y + 2 ^ b \<le> poolBlocks s" "\<not> BITTEST (pmap s) e" "rd s (e * 1024 + 1023) = b + LEN_OFFSET"
  proof (cases "y + 2 ^ b \<le> poolBlocks s")
    case True
    obtain f z j where t: "own e = Chunk f z j" "z + 2 ^ j = Suc e" "j \<le> b" "y \<le> z"
      "BITTEST (pmap s) e \<longleftrightarrow> \<not> f" "f \<Longrightarrow> rd s (e * 1024 + 1023) = j + LEN_OFFSET" "z < poolBlocks s" "own z = Chunk f z j"
      using buddy_tail [OF inv h b y_def [THEN meta_eq_to_obj_eq] True e] by metis
    have "j = b \<Longrightarrow> z = y" using t(2) e by simp
    then show ?thesis using that True t by (cases f; cases "j = b") auto
  qed (use that in auto)
  then show thesis
  proof cases
    case 1
    then show thesis using stop step by auto
  next
    case (2 j)
    have "sub32 (j + LEN_OFFSET) LEN_OFFSET = j" using 2(3) b by (subst sub32_eq) simp_all
    then show thesis using stop step 2 b by (simp add: Let_def)
  next
    case 3
    obtain s' where s': "unlink_buddy b y (wr (bits_cell y b) 0 s) = Inr s'"
      "merged x b s own (min x y) (b + 1) s' (paint y (y + 2 ^ b) Limbo own)"
      using merge_step [OF inv h b y_def [THEN meta_eq_to_obj_eq] 3(1,2)] by blast
    have "dw s' y = magic_cell y"
      using dw_cells(1) [of s' y 0] pool_invD(1) [of s'] s'(2) yN keptD(2) by (auto simp: merged_def)
    moreover have "sub32 (b + LEN_OFFSET) LEN_OFFSET = b" using b by (subst sub32_eq) simp_all
    ultimately have "merge_loop 13 b x (magic_cell x) s = merge_loop 13 (b + 1) (min x y) (magic_cell (min x y)) s'"
      using step 3 s'(1) b by (simp add: Let_def min_def)
    then show thesis using go s'(2) by blast
  qed
qed

lemma merge_loop_merged:
  assumes "pool_inv s own" "hole (poolBlocks s) own x b" "b \<le> 12"
  shows "\<exists>x' b' s' own'. merge_loop 13 b x (magic_cell x) s = Inr (b', x', magic_cell x', s') \<and>
    merged x b s own x' b' s' own'"
  using assms
proof (induction "12 - b" arbitrary: x b s own)
  case 0
  then have "merge_loop 13 b x (magic_cell x) s = Inr (b, x, magic_cell x, s)"
    by (subst merge_loop.simps) simp
  then show ?case using merged_refl 0 by blast
next
  case (Suc n)
  then have b: "b < 12" by simp
  show ?case
  proof (rule merge_loop_step [OF Suc.prems(1,2) b])
    assume "merge_loop 13 b x (magic_cell x) s = Inr (b, x, magic_cell x, s)"
    then show ?thesis using merged_refl Suc.prems by blast
  next
    fix s' own'
    let ?z = "min x (x XOR 2 ^ b)"
    assume m: "merged x b s own ?z (b + 1) s' own'"
      "merge_loop 13 b x (magic_cell x) s = merge_loop 13 (b + 1) ?z (magic_cell ?z) s'"
    then have "pool_inv s' own'" "hole (poolBlocks s') own' ?z (b + 1)"
      using keptD(2) [of own s s'] by (auto simp: merged_def)
    moreover have "n = 12 - (b + 1)" "b + 1 \<le> 12" using Suc.hyps(2) b by simp_all
    ultimately obtain x' b' t own'' where "merge_loop 13 (b + 1) ?z (magic_cell ?z) s' = Inr (b', x', magic_cell x', t)"
      "merged ?z (b + 1) s' own' x' b' t own''"
      using Suc.hyps(1) by blast
    then show ?thesis using merged_trans [OF Suc.prems(2) m(1)] m(2) by metis
  qed
qed

section \<open>Linking the merged chunk\<close>

lemma free_link_inv:
  assumes inv: "pool_inv s own" and h: "hole (poolBlocks s) own x k" and old: "old < 13"
  obtains s' where "free_link old k x (magic_cell x) s = (kIOReturnSuccess, s')"
    "pool_inv s' (paint x (x + 2 ^ k) (FreeC x k) own)" "kept own s s'"
    "freeBytes s' = w32 (freeBytes s + 2 ^ old * 4096)"
proof -
  have x: "chunk_ok (poolBlocks s) x k" and limbo: "\<forall>u. x \<le> u \<and> u < x + 2 ^ k \<longrightarrow> own u = Limbo"
    using h chunk_okD(1) [of "poolBlocks s" x k] by (auto simp: hole_def)
  note d = pool_invD [OF inv] and k = chunk_okD(4) [OF x] and xN = chunk_okD(2) [OF x]
  note c = dw_cells [OF d(1) less_imp_le [OF xN] k]
  obtain L where L: "lists_ok s own L" using inv by (rule pool_inv_lists)
  define y where "y = freeList s ! k"
  have y: "y < poolBlocks s \<and> y \<noteq> x \<and> rd s (magic_cell y) = MAGIC \<and> rd s (prev_cell y) = OURNULL"
    if yn: "y \<noteq> OURNULL"
  proof -
    obtain bs where Lk: "L k = y # bs" using list_head [OF L k] yn unfolding y_def by blast
    show ?thesis using head_cells(1,2,3,4) [OF inv L k Lk] limbo by auto
  qed
  have x32: "x < 2 ^ 32" using xN d(7) by simp
  define s' where "s' = snd (free_link old k x (magic_cell x) s)"
  have dwy: "y \<noteq> OURNULL \<Longrightarrow> dw s y = magic_cell y" "magic_cell y + 1 = prev_cell y"
    using dw_cells(1) [OF d(1) _ k, of y] y by (auto simp: magic_cell_def prev_cell_def)
  have y32: "w32 y = y" using y d(7) by (cases "y = OURNULL") auto
  note facts = y dwy c(2,3,5) y_def [symmetric] y32 x32 d(4) pow32(2) [OF old] k
  have ok: "free_link old k x (magic_cell x) s = (kIOReturnSuccess, s')"
    using facts by (cases "y = OURNULL") (simp_all add: s'_def free_link_def Let_def)
  have sels: "poolStart s' = poolStart s" "poolBlocks s' = poolBlocks s" "minBits s' = minBits s"
    "numSizes s' = numSizes s" "pmap s' = pmap s" "freeList s' = (freeList s)[k := x]"
    "freeBytes s' = w32 (freeBytes s + 2 ^ (old + 12))"
    using facts by (cases "y = OURNULL"; simp add: s'_def free_link_def Let_def)+
  have "rd s' = push_mem (rd s) (freeList s ! k) x k"
  proof (rule ext)
    fix i
    show "rd s' i = push_mem (rd s) (freeList s ! k) x k i"
      using facts by (cases "y = OURNULL") (simp_all add: s'_def free_link_def Let_def push_mem_def)
  qed
  from push_inv [OF inv x limbo sels(1-6) this]
  show thesis using that ok sels(7) by (simp add: power_add)
qed

section \<open>Free\<close>

text \<open>The blocks from \<open>a\<close> up to \<open>b\<close>, busy before, go back to the free blocks.\<close>

definition released ::
  "nat \<Rightarrow> nat \<Rightarrow> CEsvga2Allocator \<Rightarrow> (nat \<Rightarrow> owner) \<Rightarrow> CEsvga2Allocator \<Rightarrow> (nat \<Rightarrow> owner) \<Rightarrow> bool" where
  "released a b s own s' own' \<longleftrightarrow>
     sound s' own' \<and> kept (paint a b Limbo own) s s' \<and>
     (\<forall>u. a \<le> u \<and> u < b \<longrightarrow> \<not> is_free (own u) \<and> is_free (own' u)) \<and>
     (\<forall>u. \<not> (a \<le> u \<and> u < b) \<longrightarrow> (if is_free (own u) then is_free (own' u) else own' u = own u)) \<and>
     freeBytes s' = freeBytes s + (b - a) * 4096"

text \<open>Counting after blocks have become free.\<close>

lemma sound_more_free:
  assumes snd: "sound s own" and inv: "pool_inv s' own'" and N: "poolBlocks s' = poolBlocks s"
    and x: "a \<le> b" "b \<le> poolBlocks s"
    and "in": "\<And>u. a \<le> u \<Longrightarrow> u < b \<Longrightarrow> \<not> is_free (own u) \<and> is_free (own' u)"
    and out: "\<And>u. \<not> (a \<le> u \<and> u < b) \<Longrightarrow> is_free (own' u) = is_free (own u)"
    and limbo: "\<And>u. u < poolBlocks s \<Longrightarrow> own' u \<noteq> Limbo"
    and fb: "freeBytes s' = w32 (freeBytes s + (b - a) * 4096)"
  shows "sound s' own'" "freeBytes s' = freeBytes s + (b - a) * 4096"
proof -
  have "free_units (poolBlocks s) own' = free_units (poolBlocks s) own + (b - a)"
    by (rule free_units_diff) (use x "in" out in auto)
  then have count: "freeBytes s + (b - a) * 4096 = free_units (poolBlocks s) own' * 4096"
    using soundD(3) [OF snd] by simp
  then have "freeBytes s + (b - a) * 4096 < 2 ^ 32"
    using free_units_le [of "poolBlocks s" own'] pool_invD(7) [OF soundD(1) [OF snd]] by linarith
  then show "freeBytes s' = freeBytes s + (b - a) * 4096" using fb by simp
  then show "sound s' own'" using inv count N limbo by (simp add: sound_def)
qed

lemma releasedI:
  assumes snd: "sound s own" and inv: "pool_inv s' own'" and kept: "kept (paint a b Limbo own) s s'"
    and x: "a \<le> b" "b \<le> poolBlocks s"
    and "in": "\<And>u. a \<le> u \<Longrightarrow> u < b \<Longrightarrow> \<not> is_free (own u) \<and> is_free (own' u)"
    and out: "\<And>u. \<not> (a \<le> u \<and> u < b) \<Longrightarrow> own' u = own u \<or> is_free (own u) \<and> is_free (own' u)"
    and fb: "freeBytes s' = w32 (freeBytes s + (b - a) * 4096)"
  shows "released a b s own s' own'"
proof -
  have "own' u \<noteq> Limbo" if "u < poolBlocks s" for u
    using "in" [of u] out [of u] soundD(2) [OF snd that] by (cases "a \<le> u \<and> u < b") auto
  moreover have "is_free (own' u) = is_free (own u)" if "\<not> (a \<le> u \<and> u < b)" for u using out [OF that] by auto
  ultimately have "sound s' own'" "freeBytes s' = freeBytes s + (b - a) * 4096"
    using sound_more_free [OF snd inv keptD(2) [OF kept] x] "in" fb by metis+
  moreover have "if is_free (own u) then is_free (own' u) else own' u = own u"
    if "\<not> (a \<le> u \<and> u < b)" for u using out [OF that] by auto
  ultimately show ?thesis using kept "in" by (auto simp: released_def)
qed

lemma Free_ok:
  assumes snd: "sound s own" and x: "x < poolBlocks s" "own x = BusyC x k"
    and p: "poolStart s + x * 4096 \<noteq> 0"
  shows "\<exists>s' own'. Free (poolStart s + x * 4096) s = (kIOReturnSuccess, s') \<and> released x (x + 2 ^ k) s own s' own'"
proof -
  note inv = soundD(1) [OF snd] and d = pool_invD [OF soundD(1) [OF snd]] and t = tilesD [OF pool_invD(2) [OF soundD(1) [OF snd]] x]
  have k: "k < 13" and xN: "x + 2 ^ k \<le> poolBlocks s" using t(3) by (auto dest: chunk_okD)
  obtain e where e: "x + 2 ^ k = Suc e" by (rule bits_cell_Suc)
  have s1: "sub32 (w32 (x + w32 (2 ^ k))) 1 = x + 2 ^ k - 1"
    using xN d(7) e unfolding pow32(1) [OF k] e by (subst sub32_eq) simp_all
  have bo: "w32 (x * 4096 div 2 ^ 12) = x" "x * 4096 div 4 = magic_cell x"
    using x(1) d(7) by (simp_all add: magic_cell_def)
  define s1 where "s1 = s\<lparr>pmap := BITCLEAR (pmap s) (x + 2 ^ k - 1)\<rparr>"
  define own1 where "own1 = paint x (x + 2 ^ k) Limbo own"
  have inv1: "pool_inv s1 own1" unfolding s1_def own1_def by (rule unbusy_inv [OF inv x])
  have hole1: "hole (poolBlocks s1) own1 x k"
    using t(3) soundD(2) [OF snd] by (auto simp: hole_def own1_def s1_def paint_def)
  obtain x' k' s2 own2 where m: "merge_loop 13 k x (magic_cell x) s1 = Inr (k', x', magic_cell x', s2)"
    "merged x k s1 own1 x' k' s2 own2"
    using merge_loop_merged [OF inv1 hole1] k by auto
  then have m2: "pool_inv s2 own2" "kept own1 s1 s2" "freeBytes s2 = freeBytes s1" "hole (poolBlocks s2) own2 x' k'"
    "x' \<le> x" "x + 2 ^ k \<le> x' + 2 ^ k'" "\<And>u. \<not> (x' \<le> u \<and> u < x' + 2 ^ k') \<Longrightarrow> own2 u = own1 u"
    "\<And>u. x' \<le> u \<Longrightarrow> u < x' + 2 ^ k' \<Longrightarrow> \<not> (x \<le> u \<and> u < x + 2 ^ k) \<Longrightarrow> is_free (own1 u)"
    using keptD(2) [of own1 s1 s2] by (auto simp: merged_def)
  obtain s3 where s3: "free_link k k' x' (magic_cell x') s2 = (kIOReturnSuccess, s3)"
    "pool_inv s3 (paint x' (x' + 2 ^ k') (FreeC x' k') own2)" "kept own2 s2 s3"
    "freeBytes s3 = w32 (freeBytes s2 + 2 ^ k * 4096)"
    using free_link_inv [OF m2(1,4) k] by metis
  have "Free (poolStart s + x * 4096) s = (kIOReturnSuccess, s3)"
    using BuddyAllocSize_ok [OF inv x] p d(4,5) m(1) s3(1) s1 bo
    unfolding s1_def by (auto simp: Free_def Let_def)
  moreover have "released x (x + 2 ^ k) s own s3 (paint x' (x' + 2 ^ k') (FreeC x' k') own2)"
  proof (rule releasedI [OF snd s3(2) _ le_add1 xN])
    have busy: "is_busy (own2 u)" if "u < poolBlocks s1" "is_busy (own1 u)" for u
      using m2(7,8) [of u] that
      by (cases "x' \<le> u \<and> u < x' + 2 ^ k'"; cases "x \<le> u \<and> u < x + 2 ^ k"; cases "own1 u") (auto simp: own1_def)
    have "kept own1 s1 s3" using kept_trans [OF m2(2) s3(3)] busy by blast
    then show "kept (paint x (x + 2 ^ k) Limbo own) s s3" by (simp add: kept_def s1_def own1_def)
  next
    fix u
    show "\<not> is_free (own u) \<and> is_free (paint x' (x' + 2 ^ k') (FreeC x' k') own2 u)" if "x \<le> u" "u < x + 2 ^ k"
      using that m2(5,6) t(4) [of u] by simp
    show "paint x' (x' + 2 ^ k') (FreeC x' k') own2 u = own u \<or>
        is_free (own u) \<and> is_free (paint x' (x' + 2 ^ k') (FreeC x' k') own2 u)" if "\<not> (x \<le> u \<and> u < x + 2 ^ k)"
      using that m2(7,8) [of u] by (cases "x' \<le> u \<and> u < x' + 2 ^ k'") (auto simp: own1_def paint_def)
  qed (use s3(4) m2(3) in \<open>simp add: s1_def\<close>)
  ultimately show ?thesis by blast
qed

end
