(* ===== verification/Buddy_Ops.thy ===== *)
theory Buddy_Ops
  imports Buddy_Free
begin

text \<open>
  The remaining operations of the allocator: \<open>Init\<close>, \<open>Rebase\<close>, \<open>Release\<close>, \<open>Realloc\<close>, the
  consistency check, and the stores of the pool's clients into their own chunks.
\<close>

section \<open>Init and Rebase\<close>

lemma BITTEST_full: "u < 8 * n \<Longrightarrow> BITTEST (replicate n 0xFF) u"
proof -
  assume "u < 8 * n"
  then have "u div 8 < n" by (simp add: less_mult_imp_div_less mult.commute)
  then have "replicate n 0xFF ! (u div 8) = (0xFF :: u8)" by simp
  then show ?thesis by (simp only: byte_full)
qed

text \<open>After \<open>Init\<close> every block is a busy chunk of its own.\<close>

lemma Init_cases:
  obtains (ok) s' where "Init map_ok start bytes s = (kIOReturnSuccess, s')"
      "sound s' (\<lambda>u. BusyC u 0)" "poolStart s' = start" "poolBlocks s' = bytes div 4096" "freeBytes s' = 0"
      "map_ok" "4096 dvd start" "bytes < 2 ^ 32"
    | (bad) "Init map_ok start bytes s = (kIOReturnBadArgument, s)" "\<not> 4096 dvd start \<or> 2 ^ 32 \<le> bytes"
    | (mem) s' where "Init map_ok start bytes s = (kIOReturnNoMemory, s')" "\<not> map_ok"
proof -
  consider "\<not> 4096 dvd start \<or> 2 ^ 32 \<le> bytes" | "4096 dvd start" "bytes < 2 ^ 32" "\<not> map_ok"
    | "4096 dvd start" "bytes < 2 ^ 32" "map_ok" by linarith
  then show thesis
  proof cases
    case 1
    then have "start mod 4096 \<noteq> 0 \<or> bytes \<noteq> w32 bytes" using mod_less_divisor [of "2 ^ 32" bytes] by (auto simp: dvd_eq_mod_eq_0)
    then show thesis using 1 by (intro bad) (auto simp: Init_def)
  next
    case 2
    then show thesis by (intro mem) (auto simp: Init_def Let_def dvd_eq_mod_eq_0)
  next
    case 3
    define N where "N = bytes div 4096"
    have N: "N * 4096 < 2 ^ 32" "N \<le> 8 * ((N + 7) div 8)" using 3(2) unfolding N_def by linarith+
    then have N3: "w32 N = N" by simp
    define s' where "s' = (ReleaseMap s)\<lparr>poolStart := start, poolBlocks := N, minBits := 12, numSizes := 13,
      freeBytes := 0, pmap_null := False, pmap := replicate ((N + 7) div 8) 0xFF, freeList := replicate 13 OURNULL\<rparr>"
    have i: "Init map_ok start bytes s = (kIOReturnSuccess, s')"
      using 3 N3 unfolding s'_def N_def by (simp add: Init_def Let_def dvd_eq_mod_eq_0)
    have f: "poolStart s' = start" "poolBlocks s' = N" "minBits s' = 12" "numSizes s' = 13" "freeBytes s' = 0"
      "pmap s' = replicate ((N + 7) div 8) 0xFF" "freeList s' = replicate 13 OURNULL"
      by (simp_all add: s'_def)
    have "geometry s'" using f N by (simp add: geometry_def)
    moreover have "tiles N (\<lambda>u. BusyC u 0)" by (simp add: tiles_def chunk_ok_def)
    moreover have "bits_ok s' (\<lambda>u. BusyC u 0)"
      using BITTEST_full N(2) f by (auto simp: bits_ok_def)
    moreover have "lists_ok s' (\<lambda>u. BusyC u 0) (\<lambda>k. [])"
      by (simp add: lists_ok_def free_heads_def f)
    ultimately have "sound s' (\<lambda>u. BusyC u 0)"
      using f by (auto simp: sound_def pool_inv_def free_units_def)
    then show thesis using ok i f 3 N_def by blast
  qed
qed

lemma Rebase_sound:
  assumes "sound s own"
  shows "if 4096 dvd p then fst (Rebase p s) = kIOReturnSuccess \<and> sound (snd (Rebase p s)) own \<and> poolStart (snd (Rebase p s)) = p
    else Rebase p s = (kIOReturnBadArgument, s)"
proof -
  have "rd (s\<lparr>poolStart := p\<rparr>) = rd s" by (simp add: rd_def fun_eq_iff)
  then have "sound (s\<lparr>poolStart := p\<rparr>) own"
    using assms by (simp add: sound_def pool_inv_def geometry_def bits_ok_def lists_ok_def)
  then show ?thesis using pool_invD(4) [OF soundD(1) [OF assms]] by (simp add: Rebase_def dvd_eq_mod_eq_0)
qed

section \<open>Release\<close>

lemma unbusy_range_inv:
  assumes inv: "pool_inv s own" and ab: "a \<le> b" "b \<le> poolBlocks s" and busy: "\<forall>u. a \<le> u \<and> u < b \<longrightarrow> own u = BusyC u 0"
  shows "pool_inv (s\<lparr>pmap := clearAll a b (pmap s)\<rparr>) (paint a b Limbo own)"
proof -
  note d = pool_invD [OF inv]
  obtain L where L: "lists_ok s own L" using inv by (rule pool_inv_lists)
  have "tiles (poolBlocks s) (paint a b Limbo own)"
    unfolding tiles_def
  proof (intro allI impI)
    fix u f x k
    assume u: "u < poolBlocks s \<and> paint a b Limbo own u = Chunk f x k"
    then have o: "own u = Chunk f x k" and out: "\<not> (a \<le> u \<and> u < b)" by (auto simp: paint_def split: if_splits)
    note t = tilesD [OF d(2) _ o]
    have "\<not> (a \<le> v \<and> v < b)" if "x \<le> v" "v < x + 2 ^ k" for v
      using t(4) [of v] busy that out u t(1,2) by auto
    then show "x \<le> u \<and> u < x + 2 ^ k \<and> chunk_ok (poolBlocks s) x k \<and>
      (\<forall>v. x \<le> v \<and> v < x + 2 ^ k \<longrightarrow> paint a b Limbo own v = Chunk f x k)"
      using t u by (auto simp: paint_def)
  qed
  moreover have "bits_ok (s\<lparr>pmap := clearAll a b (pmap s)\<rparr>) (paint a b Limbo own)"
    using d(3) ab d(8) by (auto simp: bits_ok_def clearAll_iff paint_def)
  moreover have "lists_ok s (paint a b Limbo own) L" using L busy by (subst lists_ok_paint_other) auto
  ultimately show ?thesis using d(1) by (auto simp: pool_inv_def geometry_def lists_ok_pmap)
qed

lemma Release_ok:
  assumes snd: "sound s own" and ab: "a \<le> b" "a < poolBlocks s" "b \<le> poolBlocks s"
    and busy: "\<forall>u. a \<le> u \<and> u < b \<longrightarrow> own u = BusyC u 0"
  shows "\<exists>s' own'. Release (a * 4096) (b * 4096) s = (kIOReturnSuccess, s') \<and> released a b s own s' own'"
proof -
  note inv = soundD(1) [OF snd] and d = pool_invD [OF soundD(1) [OF snd]]
  have "BITTEST (pmap s) u" if "a \<le> u" "u < b" for u
    using d(3) busy that ab(3) by (simp add: bits_ok_def)
  moreover have "b div 8 \<le> length (pmap s)" using ab(3) d(8) by linarith
  ultimately have t: "testAll (pmap s) a b" using testAll_iff [OF ab(1), of "pmap s"] by simp
  define s1 where "s1 = s\<lparr>pmap := clearAll a b (pmap s)\<rparr>"
  have w: "w32 a = a" "w32 b = b" using ab d(7) by simp_all
  obtain own' where f: "freed a b s1 (paint a b Limbo own) (toFree a b False s1) own'"
    using toFree_freed [OF unbusy_range_inv [OF inv ab(1,3) busy], of a b] ab soundD(4) [OF snd]
    by (auto simp: s1_def)
  have "Release (a * 4096) (b * 4096) s = (kIOReturnSuccess, toFree a b False s1)"
    using ab d(4) t w by (simp add: Release_def clearCheck_def Let_def s1_def)
  moreover have "released a b s own (toFree a b False s1) own'"
    by (rule releasedI [OF snd]) (use f ab busy in \<open>auto simp: freed_def kept_def s1_def paint_def split: if_splits\<close>)
  ultimately show ?thesis by blast
qed

text \<open>
  The check for blocks that are already free does not work on a range that is one byte of the
  bitmap: it is released again and again.
\<close>

lemma Release_byte:
  assumes "geometry s" "8 dvd a" "a + 8 \<le> poolBlocks s"
  shows "Release (a * 4096) ((a + 8) * 4096) s =
    (kIOReturnSuccess, toFree a (a + 8) False (s\<lparr>pmap := clearAll a (a + 8) (pmap s)\<rparr>))"
proof -
  obtain q where q: "a = 8 * q" using assms(2) by blast
  have "unscanned a (a + 8) u" if "a \<le> u" "u < a + 8" for u
    using that unfolding unscanned_def q by auto
  moreover have "(a + 8) div 8 \<le> length (pmap s)"
    using assms(1,3) unfolding geometry_def by linarith
  ultimately have "testAll (pmap s) a (a + 8)" using testAll_iff [of a "a + 8" "pmap s"] by auto
  then show ?thesis
    using assms by (simp add: Release_def clearCheck_def Let_def geometry_def)
qed

section \<open>Stores of the clients\<close>

lemma client_store_sound:
  assumes snd: "sound s own"
    and "\<And>i. m i \<noteq> pool s i \<Longrightarrow> i div 1024 < poolBlocks s \<and> is_busy (own (i div 1024))"
  shows "sound (s\<lparr>pool := m\<rparr>) own"
proof -
  note d = pool_invD [OF soundD(1) [OF snd]]
  obtain L where L: "lists_ok s own L" using soundD(1) [OF snd] by (rule pool_inv_lists)
  have "rd (s\<lparr>pool := m\<rparr>) i = rd s i" if "k < 13" "x \<in> set (L k)" "i \<in> cells x k" for i k x
  proof -
    have "own (i div 1024) = FreeC x k"
      using tilesD(4) [OF d(2) lists_okD(4,5) [OF L that(1,2)]] that(3) by (simp add: cells_iff)
    then show ?thesis using assms(2) [of i] by (cases "m i = pool s i") (auto simp: rd_def)
  qed
  then have "seg (rd (s\<lparr>pool := m\<rparr>)) k OURNULL (L k) OURNULL = seg (rd s) k OURNULL (L k) OURNULL" if "k < 13" for k
    using that by (intro seg_cong) blast
  then have "lists_ok (s\<lparr>pool := m\<rparr>) own L" using L by (simp add: lists_ok_def)
  then show ?thesis using snd by (auto simp: sound_def pool_inv_def geometry_def bits_ok_def)
qed

section \<open>Realloc\<close>

lemma can_bits_fit: "fit_class n c \<Longrightarrow> b \<le> c \<Longrightarrow> can_bits n (b + 12) = c + 12"
proof (induction "c - b" arbitrary: b)
  case 0
  then show ?case by (subst can_bits.simps) (simp add: fit_class_def power_add)
next
  case (Suc m)
  have b: "b < c" using Suc.hyps(2) by simp
  have "(2::nat) ^ (b + 1) \<le> 2 ^ c" using b by (intro pow_mono) simp
  then have "2 ^ (b + 12) < n" using Suc.prems(1) b by (auto simp: fit_class_def power_add)
  then have "can_bits n (b + 12) = can_bits n (b + 1 + 12)" by (subst can_bits.simps) simp
  then show ?case using Suc.hyps(1) [of "b + 1"] Suc.hyps(2) Suc.prems b by simp
qed

lemma fit_class_exists:
  assumes "n \<le> 2 ^ k * 4096" shows "\<exists>c \<le> k. fit_class n c"
  using assms
proof (induction k)
  case (Suc k)
  show ?case
  proof (cases "n \<le> 2 ^ k * 4096")
    case True
    then show ?thesis using Suc.IH le_SucI by blast
  next
    case False
    then have "fit_class n (Suc k)" using Suc.prems by (simp add: fit_class_def)
    then show ?thesis by blast
  qed
qed (simp add: fit_class_def)

lemma pool_inv_pmap_cong:
  assumes "pool_inv (s\<lparr>pmap := m\<rparr>) own" "length m' = length m"
    "\<And>u. u < poolBlocks s \<Longrightarrow> BITTEST m' u = BITTEST m u"
  shows "pool_inv (s\<lparr>pmap := m'\<rparr>) own"
  using assms by (auto simp: pool_inv_def geometry_def bits_ok_def lists_ok_pmap)

text \<open>The busy chunk \<open>x\<close> of size \<open>k\<close> keeps its first \<open>2 ^ c\<close> blocks.\<close>

definition shrunk ::
  "nat \<Rightarrow> nat \<Rightarrow> nat \<Rightarrow> CEsvga2Allocator \<Rightarrow> (nat \<Rightarrow> owner) \<Rightarrow> CEsvga2Allocator \<Rightarrow> (nat \<Rightarrow> owner) \<Rightarrow> bool" where
  "shrunk x k c s own s' own' \<longleftrightarrow>
     sound s' own' \<and> kept (paint (x + 2 ^ c) (x + 2 ^ k) Limbo own) s s' \<and>
     (\<forall>u. x \<le> u \<and> u < x + 2 ^ c \<longrightarrow> own' u = BusyC x c) \<and>
     (\<forall>u. x + 2 ^ c \<le> u \<and> u < x + 2 ^ k \<longrightarrow> is_free (own' u)) \<and>
     (\<forall>u. \<not> (x \<le> u \<and> u < x + 2 ^ k) \<longrightarrow> own' u = own u) \<and>
     freeBytes s' = freeBytes s + (2 ^ k - 2 ^ c) * 4096"

lemma shrink_inv:
  assumes inv: "pool_inv s own" and x: "x < poolBlocks s" "own x = BusyC x k" and c: "c < k"
  shows "pool_inv (s\<lparr>pmap := BITCLEAR (BITSET (pmap s) (x + 2 ^ c - 1)) (x + 2 ^ k - 1)\<rparr>)
    (paint x (x + 2 ^ c) (BusyC x c) (paint x (x + 2 ^ k) Limbo own))"
proof -
  note d = pool_invD [OF inv] and t = tilesD [OF pool_invD(2) [OF inv] x]
  have ck: "chunk_ok (poolBlocks s) x c" using chunk_ok_sub [OF t(3)] c by simp
  have lt: "(2::nat) ^ c < 2 ^ k" using c by (simp add: power_strict_increasing)
  let ?m = "BITCLEAR (pmap s) (x + 2 ^ k - 1)"
  have "pool_inv (s\<lparr>pmap := ?m\<rparr>) (paint x (x + 2 ^ k) Limbo own)" by (rule unbusy_inv [OF inv x])
  from busy_inv [OF this, of x c]
  have b: "pool_inv (s\<lparr>pmap := BITSET ?m (x + 2 ^ c - 1)\<rparr>)
      (paint x (x + 2 ^ c) (BusyC x c) (paint x (x + 2 ^ k) Limbo own))"
    using ck lt by simp
  obtain e where e: "x + 2 ^ c = Suc e" by (rule bits_cell_Suc)
  obtain g where g: "x + 2 ^ k = Suc g" by (rule bits_cell_Suc)
  have eg: "e < g" "g < 8 * length (pmap s)" "e < 8 * length (pmap s)"
    using lt e g chunk_okD(1) [OF t(3)] d(8) by linarith+
  show ?thesis
    using b by (rule pool_inv_pmap_cong)
      (use eg e g bits.test_put bits.test_clear bits.cap_put bits.cap_clear in \<open>auto simp: BITSET_def BITCLEAR_def bits.test_put bits.test_clear\<close>)
qed

lemma freed_shrunk:
  assumes snd: "sound s own" and x: "x < poolBlocks s" "own x = BusyC x k" and ck: "c < k"
    and f: "freed (x + 2 ^ c) (x + 2 ^ k) (s\<lparr>pmap := m\<rparr>)
      (paint x (x + 2 ^ c) (BusyC x c) (paint x (x + 2 ^ k) Limbo own)) s2 own'"
  shows "shrunk x k c s own s2 own'"
proof -
  note t = tilesD [OF pool_invD(2) [OF soundD(1) [OF snd]] x]
  have xN: "x + 2 ^ k \<le> poolBlocks s" using t(3) by (rule chunk_okD)
  have lt: "(2::nat) ^ c < 2 ^ k" using ck by (simp add: power_strict_increasing)
  define own1 where "own1 = paint x (x + 2 ^ c) (BusyC x c) (paint x (x + 2 ^ k) Limbo own)"
  note f = f [folded own1_def]
  have out: "own' u = own1 u" if "\<not> (x + 2 ^ c \<le> u \<and> u < x + 2 ^ k)" for u
    using f that by (simp add: freed_def)
  have o1: "own1 u = BusyC x c" if "x \<le> u" "u < x + 2 ^ c" for u using that by (simp add: own1_def)
  have o2: "own1 u = own u" if "\<not> (x \<le> u \<and> u < x + 2 ^ k)" for u
  proof -
    have "\<not> (x \<le> u \<and> u < x + 2 ^ c)" using that lt by linarith
    then show ?thesis using that by (auto simp: own1_def paint_def)
  qed
  have o3: "own u = BusyC x k" if "x \<le> u" "u < x + 2 ^ k" for u using t(4) that by blast
  have "is_busy (own1 u)" if "is_busy (paint (x + 2 ^ c) (x + 2 ^ k) Limbo own u)" for u
    using that o1 [of u] o2 [of u] by (cases "x \<le> u") (auto simp: paint_def split: if_splits)
  then have kept: "kept (paint (x + 2 ^ c) (x + 2 ^ k) Limbo own) s s2"
    using f by (auto simp: freed_def kept_def)
  have A: "pool_inv s2 own'" "freeBytes s2 = w32 (freeBytes s + (x + 2 ^ k - (x + 2 ^ c)) * 4096)"
    using f by (simp_all add: freed_def)
  have free: "is_free (own' u)" if "x + 2 ^ c \<le> u" "u < x + 2 ^ k" for u using f that by (simp add: freed_def)
  have B: "\<not> is_free (own u) \<and> is_free (own' u)" if "x + 2 ^ c \<le> u" "u < x + 2 ^ k" for u
    using free that o3 [of u] by simp
  have C: "is_free (own' u) = is_free (own u)" if "\<not> (x + 2 ^ c \<le> u \<and> u < x + 2 ^ k)" for u
    using out [OF that] o1 [of u] o2 [of u] o3 [of u] that by (cases "x \<le> u \<and> u < x + 2 ^ k") auto
  have D: "own' u \<noteq> Limbo" if "u < poolBlocks s" for u
    using out [of u] o1 [of u] o2 [of u] free [of u] soundD(2) [OF snd that]
    by (cases "x + 2 ^ c \<le> u \<and> u < x + 2 ^ k"; cases "x \<le> u \<and> u < x + 2 ^ k") auto
  have "sound s2 own'" "freeBytes s2 = freeBytes s + (x + 2 ^ k - (x + 2 ^ c)) * 4096"
    by (rule sound_more_free [OF snd A(1) keptD(2) [OF kept] _ xN B C D A(2)]; use lt in simp)+
  moreover have "own' u = own u" if "\<not> (x \<le> u \<and> u < x + 2 ^ k)" for u
    using out [of u] o2 [OF that] that by auto
  moreover have "own' u = BusyC x c" if "x \<le> u" "u < x + 2 ^ c" for u
    using out [of u] o1 [OF that] that by simp
  ultimately show ?thesis using kept free by (auto simp: shrunk_def)
qed

lemma Realloc_fits:
  assumes snd: "sound s own" and x: "x < poolBlocks s" "own x = BusyC x k"
    and p: "poolStart s + x * 4096 \<noteq> 0" and n: "0 < n" "n \<le> 2 ^ k * 4096"
  shows "\<exists>c s' own'. fit_class n c \<and> c \<le> k \<and> shrunk x k c s own s' own' \<and>
    Realloc (poolStart s + x * 4096) n s = (kIOReturnSuccess, Some (poolStart s + x * 4096), s')"
proof -
  note inv = soundD(1) [OF snd] and d = pool_invD [OF soundD(1) [OF snd]] and t = tilesD [OF pool_invD(2) [OF soundD(1) [OF snd]] x]
  obtain c where c: "fit_class n c" "c \<le> k" using fit_class_exists [OF n(2)] by blast
  have k: "k < 13" and xN: "x + 2 ^ k \<le> poolBlocks s" using t(3) by (auto dest: chunk_okD)
  have bo: "w32 (x * 4096 div 2 ^ 12) = x" using x(1) d(7) by simp
  have cb: "can_bits n 12 = c + 12" using can_bits_fit [OF c(1), of 0] by simp
  have nk: "\<not> 2 ^ (k + 12) < n" using n(2) by (simp add: power_add)
  note base = BuddyAllocSize_ok [OF inv x] p d(4) n(1) nk cb bo
  show ?thesis
  proof (cases "c = k")
    case True
    have "shrunk x k c s own s own" using True snd t(4) by (simp add: shrunk_def kept_def paint_def)
    moreover have "Realloc (poolStart s + x * 4096) n s = (kIOReturnSuccess, Some (poolStart s + x * 4096), s)"
      using base True by (auto simp: Realloc_def)
    ultimately show ?thesis using c by blast
  next
    case False
    then have ck: "c < k" using c(2) by simp
    have lt: "(2::nat) ^ c < 2 ^ k" using ck by (simp add: power_strict_increasing)
    define s1 where "s1 = s\<lparr>pmap := BITCLEAR (BITSET (pmap s) (x + 2 ^ c - 1)) (x + 2 ^ k - 1)\<rparr>"
    define own1 where "own1 = paint x (x + 2 ^ c) (BusyC x c) (paint x (x + 2 ^ k) Limbo own)"
    obtain own' where f: "freed (x + 2 ^ c) (x + 2 ^ k) s1 own1 (toFree (x + 2 ^ c) (x + 2 ^ k) False s1) own'"
    proof (rule toFree_freed)
      show "pool_inv s1 own1" unfolding s1_def own1_def by (rule shrink_inv [OF inv x ck])
      show "\<forall>u. x + 2 ^ c \<le> u \<and> u < x + 2 ^ k \<longrightarrow> own1 u = Limbo" by (simp add: own1_def)
    qed (use lt xN soundD(4) [OF snd] in \<open>simp_all add: s1_def\<close>)
    define s2 where "s2 = toFree (x + 2 ^ c) (x + 2 ^ k) False s1"
    note f = f [folded s2_def]
    have w: "w32 (x + w32 (2 ^ c)) = x + 2 ^ c" "w32 (x + w32 (2 ^ k)) = x + 2 ^ k"
      using add32_pow [OF d(7), of x c] add32_pow [OF d(7), of x k] x(1) k ck
      by (simp_all only: pow32(1) [OF k] pow32(1) [OF less_trans [OF ck k]])
    have s: "sub32 (x + 2 ^ c) 1 = x + 2 ^ c - 1" "sub32 (x + 2 ^ k) 1 = x + 2 ^ k - 1"
      using xN d(7) lt zero_less_power [of "2::nat" c] by (subst sub32_eq; linarith)+
    have "Realloc (poolStart s + x * 4096) n s = (kIOReturnSuccess, Some (poolStart s + x * 4096), s2)"
      using base ck w s by (auto simp: Realloc_def Let_def s2_def s1_def)
    moreover have "shrunk x k c s own s2 own'"
      unfolding s1_def own1_def
      by (rule freed_shrunk [OF snd x ck f [unfolded s1_def own1_def]])
    ultimately show ?thesis using c by blast
  qed
qed

text \<open>
  Growing: a larger chunk is taken, the contents are copied, the old chunk is freed.
\<close>

lemma rd_pool_copy:
  assumes "4 dvd n" "dst = poolStart s + y * 4096" "src = poolStart s + x * 4096"
  shows "rd (pool_copy dst src n s) i =
    (if y * 1024 \<le> i \<and> i < y * 1024 + n div 4 then rd s (x * 1024 + (i - y * 1024)) else rd s i)"
  using assms by (simp add: pool_copy_def Let_def rd_def mult.commute)

lemma Realloc_grows:
  assumes snd: "sound s own" and x: "x < poolBlocks s" "own x = BusyC x k"
    and p: "0 < poolStart s" and n: "2 ^ k * 4096 < n"
    and m: "Malloc n True s = (kIOReturnSuccess, Some (poolStart s + y * 4096), s1)" "fit_class n j" "allocated y j s own s1 own1"
  shows "\<exists>s' own'. Realloc (poolStart s + x * 4096) n s = (kIOReturnSuccess, Some (poolStart s + y * 4096), s') \<and>
    released x (x + 2 ^ k) (pool_copy (poolStart s + y * 4096) (poolStart s + x * 4096) (2 ^ k * 4096) s1) own1 s' own' \<and>
    (\<forall>i < 2 ^ k * 1024. rd s' (y * 1024 + i) = rd s (x * 1024 + i))"
proof -
  note inv = soundD(1) [OF snd] and d = pool_invD [OF soundD(1) [OF snd]] and t = tilesD [OF pool_invD(2) [OF soundD(1) [OF snd]] x]
  have a: "sound s1 own1" "kept own s s1" "\<And>u. y \<le> u \<Longrightarrow> u < y + 2 ^ j \<Longrightarrow> is_free (own u) \<and> own1 u = BusyC y j"
    "\<And>u. \<not> (y \<le> u \<and> u < y + 2 ^ j) \<Longrightarrow> \<not> is_free (own u) \<Longrightarrow> own1 u = own u" "chunk_ok (poolBlocks s) y j"
    using m(3) by (auto simp: allocated_def)
  have kj: "(2::nat) ^ k \<le> 2 ^ j" using n m(2) unfolding fit_class_def by linarith
  then have kj': "(2::nat) ^ k * 1024 \<le> 2 ^ j * 1024" by (rule mult_le_mono1)
  have own1x: "own1 u = BusyC x k" "\<not> (y \<le> u \<and> u < y + 2 ^ j)" if "x \<le> u" "u < x + 2 ^ k" for u
    using a(3,4) [of u] t(4) [OF that] by auto
  define s2 where "s2 = pool_copy (poolStart s + y * 4096) (poolStart s + x * 4096) (2 ^ k * 4096) s1"
  have st: "poolStart s1 = poolStart s" "poolBlocks s1 = poolBlocks s" using a(2) by (auto dest: keptD)
  have rd2: "rd s2 i = (if y * 1024 \<le> i \<and> i < y * 1024 + 2 ^ k * 1024 then rd s1 (x * 1024 + (i - y * 1024)) else rd s1 i)" for i
    unfolding s2_def st(1) [symmetric] by (subst rd_pool_copy) (simp_all add: mult.commute)
  have s2: "poolStart s2 = poolStart s" "poolBlocks s2 = poolBlocks s" "s2 = s1\<lparr>pool := pool s2\<rparr>"
    using st by (simp_all add: s2_def pool_copy_def Let_def)
  have yj: "y + 2 ^ j \<le> poolBlocks s" using a(5) by (rule chunk_okD)
  have "sound s2 own1"
  proof (subst s2(3), rule client_store_sound [OF a(1)])
    fix i assume "pool s2 i \<noteq> pool s1 i"
    then have "rd s2 i \<noteq> rd s1 i" unfolding rd_def word_unat_eq_iff .
    then have "y * 1024 \<le> i" "i < y * 1024 + 2 ^ k * 1024" unfolding rd2 by (auto split: if_splits)
    moreover from this have "i < (y + 2 ^ j) * 1024" unfolding distrib_right using kj' by linarith
    ultimately have u: "y \<le> i div 1024" "i div 1024 < y + 2 ^ j"
      by (simp_all only: less_eq_div_iff_mult_less_eq div_less_iff_less_mult zero_less_numeral)
    show "i div 1024 < poolBlocks s1 \<and> is_busy (own1 (i div 1024))" using u a(3) yj st(2) by simp
  qed
  then obtain s3 own3 where F: "Free (poolStart s + x * 4096) s2 = (kIOReturnSuccess, s3)" "released x (x + 2 ^ k) s2 own1 s3 own3"
    using Free_ok [of s2 own1 x k] x(1) own1x(1) [of x] p s2(1,2) by auto
  have "Realloc (poolStart s + x * 4096) n s = (kIOReturnSuccess, Some (poolStart s + y * 4096), s3)"
    using BuddyAllocSize_ok [OF inv x] p d(4) n m(1) F(1) by (simp add: Realloc_def Let_def power_add s2_def)
  moreover have "rd s3 (y * 1024 + i) = rd s (x * 1024 + i)" if i: "i < 2 ^ k * 1024" for i
  proof -
    have c: "y * 1024 + i \<in> cells y j" "x * 1024 + i \<in> cells x k"
      unfolding cells_def atLeastLessThan_iff distrib_right using i kj' by linarith+
    then have u: "y \<le> (y * 1024 + i) div 1024" "(y * 1024 + i) div 1024 < y + 2 ^ j"
      "x \<le> (x * 1024 + i) div 1024" "(x * 1024 + i) div 1024 < x + 2 ^ k" by (auto simp only: cells_iff)
    have "rd s3 (y * 1024 + i) = rd s2 (y * 1024 + i)"
    proof (rule keptD(3))
      show "kept (paint x (x + 2 ^ k) Limbo own1) s2 s3" using F(2) by (simp add: released_def)
      show "(y * 1024 + i) div 1024 < poolBlocks s2" using u(2) yj s2(2) by linarith
      show "is_busy (paint x (x + 2 ^ k) Limbo own1 ((y * 1024 + i) div 1024))"
        using own1x(2) [of "(y * 1024 + i) div 1024"] u(1,2) a(3) [OF u(1,2)] unfolding paint_def by auto
    qed
    also have "\<dots> = rd s1 (x * 1024 + i)" using i by (simp add: rd2)
    also have "\<dots> = rd s (x * 1024 + i)"
      using keptD(3) [OF a(2), of "x * 1024 + i"] t(4) [OF u(3,4)] u(4) chunk_okD(1) [OF t(3)] by simp
    finally show ?thesis .
  qed
  ultimately show ?thesis using F(2) unfolding s2_def by blast
qed

section \<open>The consistency check\<close>

lemma card_chunks:
  assumes inv: "pool_inv s own" and L: "lists_ok s own L" and k: "k < 13"
  shows "card {u. u < poolBlocks s \<and> (\<exists>x. own u = FreeC x k)} = length (L k) * 2 ^ k"
proof -
  note t = pool_invD(2) [OF inv] and ld = lists_okD [OF L k]
  have "{u. u < poolBlocks s \<and> (\<exists>x. own u = FreeC x k)} = (\<Union>x \<in> set (L k). {x..<x + 2 ^ k})"
  proof (intro equalityI subsetI)
    fix u assume "u \<in> {u. u < poolBlocks s \<and> (\<exists>x. own u = FreeC x k)}"
    then obtain x where u: "u < poolBlocks s" "own u = FreeC x k" by blast
    note d = tilesD [OF t u]
    have "x \<in> set (L k)" using ld(6) d(4) [of x] d(1) u(1) by simp
    then show "u \<in> (\<Union>x \<in> set (L k). {x..<x + 2 ^ k})" using d(1,2) by auto
  next
    fix u assume "u \<in> (\<Union>x \<in> set (L k). {x..<x + 2 ^ k})"
    then obtain x where x: "x \<in> set (L k)" "x \<le> u" "u < x + 2 ^ k" by auto
    note d = tilesD [OF t ld(4,5) [OF x(1)]]
    show "u \<in> {u. u < poolBlocks s \<and> (\<exists>x. own u = FreeC x k)}"
      using d(4) [OF x(2,3)] chunk_okD(1) [OF d(3)] x(3) by auto
  qed
  also have "card \<dots> = (\<Sum>x \<in> set (L k). card {x..<x + 2 ^ k})"
    by (rule card_UN_disjoint) (use tiles_same [OF t ld(4,5) ld(4,5)] in \<open>fastforce\<close>)+
  also have "\<dots> = length (L k) * 2 ^ k" using distinct_card [OF ld(3)] by simp
  finally show ?thesis .
qed

lemma free_units_sum:
  assumes inv: "pool_inv s own" and L: "lists_ok s own L"
  shows "free_units (poolBlocks s) own = (\<Sum>k < 13. length (L k) * 2 ^ k)"
proof -
  note t = pool_invD(2) [OF inv]
  have "{u. u < poolBlocks s \<and> is_free (own u)} = (\<Union>k \<in> {..<13}. {u. u < poolBlocks s \<and> (\<exists>x. own u = FreeC x k)})"
  proof (intro equalityI subsetI)
    fix u assume u: "u \<in> {u. u < poolBlocks s \<and> is_free (own u)}"
    then obtain x k where x: "own u = FreeC x k" by (cases "own u") auto
    then have "k < 13" using tilesD(3) [OF t _ x] u by (auto dest: chunk_okD)
    then show "u \<in> (\<Union>k \<in> {..<13}. {u. u < poolBlocks s \<and> (\<exists>x. own u = FreeC x k)})" using u x by auto
  qed auto
  then have "free_units (poolBlocks s) own = card (\<Union>k \<in> {..<13}. {u. u < poolBlocks s \<and> (\<exists>x. own u = FreeC x k)})"
    unfolding free_units_def by simp
  also have "\<dots> = (\<Sum>k < 13. card {u. u < poolBlocks s \<and> (\<exists>x. own u = FreeC x k)})"
    by (rule card_UN_disjoint) auto
  also have "\<dots> = (\<Sum>k < 13. length (L k) * 2 ^ k)" using card_chunks [OF inv L] by simp
  finally show ?thesis .
qed

lemma length_list_le:
  assumes inv: "pool_inv s own" and L: "lists_ok s own L" and k: "k < 13"
  shows "length (L k) \<le> poolBlocks s div 2 ^ k"
proof -
  have "length (L k) * 2 ^ k \<le> card {..<poolBlocks s}"
    unfolding card_chunks [OF assms, symmetric] by (rule card_mono) auto
  then show ?thesis by (simp add: less_eq_div_iff_mult_less_eq)
qed

lemma free_chunk_bits:
  assumes inv: "pool_inv s own" and x: "x < poolBlocks s" "own x = FreeC x k"
  shows "\<not> testAny (pmap s) x (x + 2 ^ k)"
proof -
  note d = pool_invD [OF inv] and t = tilesD [OF pool_invD(2) [OF inv] x]
  have N: "x + 2 ^ k \<le> poolBlocks s" using t(3) by (rule chunk_okD)
  then have "(x + 2 ^ k) div 8 \<le> length (pmap s)" using d(8) by linarith
  moreover have "\<not> BITTEST (pmap s) u" if "x \<le> u" "u < x + 2 ^ k" for u
    using d(3) t(4) [OF that] that N by (simp add: bits_ok_def)
  ultimately show ?thesis by (auto simp: testAny_iff)
qed

lemma check_list_ok:
  assumes inv: "pool_inv s own" and L: "lists_ok s own L" and k: "k < 13" and Lk: "L k = as @ xs"
    and "length xs \<le> n" "store < 2 ^ 32"
  shows "check_list s k n (first xs OURNULL) (lastp OURNULL as) seen store =
    Some (seen + length xs, w32 (store + length xs * 2 ^ k))"
  using assms(4-6)
proof (induction n arbitrary: as xs seen store)
  case 0
  then show ?case by simp
next
  case (Suc n)
  note d = pool_invD [OF inv]
  show ?case
  proof (cases xs)
    case Nil
    then show ?thesis using Suc.prems by simp
  next
    case (Cons x ys)
    have Lk: "L k = as @ x # ys" using Suc.prems(1) Cons by simp
    note c = node_cells [OF inv L k Lk]
    note dc = dw_cells [OF d(1) less_imp_le [OF c(1)] k]
    have bits: "rd s (bits_cell x k) = k + LEN_OFFSET" using lists_okD(2) [OF L k] Lk by (simp add: seg_append)
    have x: "x \<noteq> OURNULL" using c(1) d(7) by simp
    have w: "w32 (x + 2 ^ k) = x + 2 ^ k" using add32_pow [OF d(7), of x k] c(1) k by simp
    have "check_list s k (Suc n) x (lastp OURNULL as) seen store =
        check_list s k n (first ys OURNULL) x (seen + 1) (w32 (store + 2 ^ k))"
      using x c(1,3,4,5) dc bits free_chunk_bits [OF inv c(1,2)] w pow32(1) [OF k]
      by (simp add: add.commute [of 12 k] add.commute [of "minBits s" k])
    also have "\<dots> = Some (seen + 1 + length ys, w32 (w32 (store + 2 ^ k) + length ys * 2 ^ k))"
      using Suc.IH [of "as @ [x]" ys "w32 (store + 2 ^ k)" "seen + 1"] Suc.prems Cons by (simp add: lastp_def)
    finally show ?thesis unfolding Cons by (simp add: mod_add_left_eq add.assoc)
  qed
qed

lemma check_sizes_ok:
  assumes inv: "pool_inv s own" and L: "lists_ok s own L" and "set ks \<subseteq> {..<13}" "store < 2 ^ 32"
  shows "check_sizes s ks store =
    Some (map (\<lambda>k. length (L k)) ks, w32 (store + (\<Sum>k \<leftarrow> ks. length (L k) * 2 ^ k)))"
  using assms(3,4)
proof (induction ks arbitrary: store)
  case (Cons k ks)
  then have k: "k < 13" by simp
  show ?case
    using check_list_ok [OF inv L k, of "[]" "L k" "poolBlocks s div 2 ^ k" store 0]
      length_list_le [OF inv L k] lists_okD(1) [OF L k] Cons
    by (simp add: mod_add_left_eq add.assoc)
qed simp

lemma Check_sound:
  assumes snd: "sound s own" and L: "lists_ok s own L"
  shows "Check s = (kIOReturnSuccess, Some (map (\<lambda>k. length (L k)) [0..<13]))"
proof -
  note inv = soundD(1) [OF snd] and d = pool_invD [OF soundD(1) [OF snd]]
  have "(\<Sum>k \<leftarrow> [0..<13]. length (L k) * 2 ^ k) = free_units (poolBlocks s) own"
    unfolding free_units_sum [OF inv L] by (simp only: sum_list_distinct_conv_sum_set distinct_upt set_upt atLeast0LessThan)
  moreover have "w32 (free_units (poolBlocks s) own) = free_units (poolBlocks s) own"
    "w32 (free_units (poolBlocks s) own * 2 ^ 12) = freeBytes s"
    using free_units_le [of "poolBlocks s" own] d(7) soundD(3,4) [OF snd] by simp_all
  ultimately show ?thesis
    using check_sizes_ok [OF inv L, of "[0..<13]" 0] d(4,5) unfolding Check_def by (simp add: atLeast0LessThan)
qed

end
