(* ===== verification/Buddy_Heap.thy ===== *)
theory Buddy_Heap
  imports Buddy_Ops
begin

text \<open>
  What the allocator promises to its clients: a heap of blocks, each free or part of one live
  chunk.  The locale \<open>heap_impl\<close> is the contract between an allocator and its clients; the
  buddy allocator is an instance, and every state it can reach refines such a heap.
\<close>

section \<open>The abstract heap\<close>

record heap =
  hfree :: "nat set"
  hlive :: "nat \<Rightarrow> nat option"

abbreviation chunk_range :: "nat \<Rightarrow> nat \<Rightarrow> nat set" where "chunk_range x k \<equiv> {x..<x + 2 ^ k}"

definition heap_wf :: "heap \<Rightarrow> bool" where
  "heap_wf h \<longleftrightarrow>
     (\<forall>x k. hlive h x = Some k \<longrightarrow> chunk_range x k \<inter> hfree h = {}) \<and>
     (\<forall>x k y j. hlive h x = Some k \<and> hlive h y = Some j \<and> x \<noteq> y \<longrightarrow> chunk_range x k \<inter> chunk_range y j = {})"

definition heap_malloc :: "nat \<Rightarrow> nat \<Rightarrow> heap \<Rightarrow> heap \<Rightarrow> bool" where
  "heap_malloc x k h h' \<longleftrightarrow>
     chunk_range x k \<subseteq> hfree h \<and>
     h' = h\<lparr>hfree := hfree h - chunk_range x k, hlive := (hlive h)(x \<mapsto> k)\<rparr>"

definition heap_free :: "nat \<Rightarrow> nat \<Rightarrow> heap \<Rightarrow> heap \<Rightarrow> bool" where
  "heap_free x k h h' \<longleftrightarrow>
     hlive h x = Some k \<and>
     h' = h\<lparr>hfree := hfree h \<union> chunk_range x k, hlive := (hlive h)(x := None)\<rparr>"

definition heap_release :: "nat \<Rightarrow> nat \<Rightarrow> heap \<Rightarrow> heap \<Rightarrow> bool" where
  "heap_release a b h h' \<longleftrightarrow>
     (\<forall>u. a \<le> u \<and> u < b \<longrightarrow> hlive h u = Some 0) \<and>
     h' = h\<lparr>hfree := hfree h \<union> {a..<b}, hlive := (\<lambda>u. if a \<le> u \<and> u < b then None else hlive h u)\<rparr>"

lemma chunk_range_ne [simp]: "x \<in> chunk_range x k"
  by simp

section \<open>The contract of an allocator\<close>

datatype heap_op = HMalloc nat | HFree nat

text \<open>
  A client keeps the list of the chunks it holds; it frees only chunks of this list, by
  position.  The flag records whether every free succeeded.
\<close>

fun run_ops ::
  "(nat \<Rightarrow> 's \<Rightarrow> nat option \<times> 's) \<Rightarrow> (nat \<Rightarrow> 's \<Rightarrow> bool \<times> 's) \<Rightarrow> heap_op list \<Rightarrow> 's \<Rightarrow> nat list \<Rightarrow> bool \<Rightarrow>
   's \<times> nat list \<times> bool" where
  "run_ops malloc free [] s held ok = (s, held, ok)"
| "run_ops malloc free (HMalloc n # ops) s held ok =
     (case malloc n s of
        (None, s) \<Rightarrow> run_ops malloc free ops s held ok
      | (Some x, s) \<Rightarrow> run_ops malloc free ops s (x # held) ok)"
| "run_ops malloc free (HFree i # ops) s held ok =
     (if i < length held
      then case free (held ! i) s of
          (r, s) \<Rightarrow> run_ops malloc free ops s (take i held @ drop (Suc i) held) (ok \<and> r)
      else run_ops malloc free ops s held ok)"

locale heap_impl =
  fixes rel :: "'s \<Rightarrow> heap \<Rightarrow> bool"
    and malloc :: "nat \<Rightarrow> 's \<Rightarrow> nat option \<times> 's"
    and free :: "nat \<Rightarrow> 's \<Rightarrow> bool \<times> 's"
    and fits :: "nat \<Rightarrow> nat \<Rightarrow> bool"
  assumes rel_wf: "rel s h \<Longrightarrow> heap_wf h"
    and malloc_some: "rel s h \<Longrightarrow> malloc n s = (Some x, s') \<Longrightarrow> \<exists>k h'. fits n k \<and> heap_malloc x k h h' \<and> rel s' h'"
    and malloc_none: "rel s h \<Longrightarrow> malloc n s = (None, s') \<Longrightarrow> s' = s"
    and free_live: "rel s h \<Longrightarrow> hlive h x = Some k \<Longrightarrow> \<exists>s' h'. free x s = (True, s') \<and> heap_free x k h h' \<and> rel s' h'"
begin

lemma run_ops_safe:
  assumes "rel s h" "distinct held" "set held \<subseteq> dom (hlive h)"
  shows "\<exists>s' h' held'. run_ops malloc free ops s held True = (s', held', True) \<and> rel s' h' \<and>
    distinct held' \<and> set held' \<subseteq> dom (hlive h')"
  using assms
proof (induction ops arbitrary: s h held)
  case (Cons op ops)
  show ?case
  proof (cases op)
    case (HMalloc n)
    obtain r s1 where m: "malloc n s = (r, s1)" by fastforce
    show ?thesis
    proof (cases r)
      case None
      then have "s1 = s" using malloc_none [OF Cons.prems(1)] m by simp
      then show ?thesis using Cons.IH [OF Cons.prems] m None HMalloc by simp
    next
      case (Some x)
      then obtain k h1 where h1: "heap_malloc x k h h1" "rel s1 h1"
        using malloc_some [OF Cons.prems(1), of n x s1] m by auto
      have "hlive h x = None"
        using h1(1) rel_wf [OF Cons.prems(1)] chunk_range_ne [of x]
        unfolding heap_malloc_def heap_wf_def by (metis disjoint_iff not_None_eq subsetD)
      then have "distinct (x # held)" "set (x # held) \<subseteq> dom (hlive h1)"
        using Cons.prems(2,3) h1(1) by (auto simp: heap_malloc_def)
      then show ?thesis using Cons.IH [OF h1(2)] m Some HMalloc by simp
    qed
  next
    case (HFree i)
    show ?thesis
    proof (cases "i < length held")
      case True
      then have "held ! i \<in> dom (hlive h)" using Cons.prems(3) nth_mem by blast
      then obtain k where "hlive h (held ! i) = Some k" by blast
      then obtain s1 h1 where h1: "free (held ! i) s = (True, s1)" "heap_free (held ! i) k h h1" "rel s1 h1"
        using free_live [OF Cons.prems(1)] by blast
      have held: "held = take i held @ held ! i # drop (Suc i) held" using True by (rule id_take_nth_drop)
      define held' where "held' = take i held @ drop (Suc i) held"
      have "distinct (take i held @ held ! i # drop (Suc i) held)"
        "set held = set (take i held @ held ! i # drop (Suc i) held)"
        using Cons.prems(2) held by metis+
      then have d: "distinct held'" "held ! i \<notin> set held'" "set held' \<subseteq> set held" by (auto simp: held'_def)
      then have "set held' \<subseteq> dom (hlive h1)" using Cons.prems(3) h1(2) by (auto simp: heap_free_def)
      then show ?thesis using Cons.IH [OF h1(3) d(1)] h1(1) True HFree by (simp add: held'_def)
    qed (use Cons.IH [OF Cons.prems] HFree in simp)
  qed
qed (auto)

text \<open>No two chunks a client holds overlap, and every free of a held chunk succeeds.\<close>

lemma held_disjoint:
  assumes "rel s h" "run_ops malloc free ops s [] True = (s', held, ok)"
  shows "ok \<and> (\<exists>h'. rel s' h' \<and> distinct held \<and>
    (\<forall>x \<in> set held. \<exists>k. hlive h' x = Some k) \<and>
    (\<forall>x \<in> set held. \<forall>y \<in> set held. x \<noteq> y \<longrightarrow>
      chunk_range x (the (hlive h' x)) \<inter> chunk_range y (the (hlive h' y)) = {}))"
proof -
  obtain h' where h': "ok" "rel s' h'" "distinct held" "set held \<subseteq> dom (hlive h')"
    using run_ops_safe [OF assms(1), of "[]" ops] assms(2) by auto
  moreover have "chunk_range x (the (hlive h' x)) \<inter> chunk_range y (the (hlive h' y)) = {}"
    if xy: "x \<in> set held" "y \<in> set held" "x \<noteq> y" for x y
  proof -
    obtain k j where "hlive h' x = Some k" "hlive h' y = Some j" using xy(1,2) h'(4) by blast
    then show ?thesis using rel_wf [OF h'(2)] xy(3) unfolding heap_wf_def by auto
  qed
  moreover have "\<forall>x \<in> set held. \<exists>k. hlive h' x = Some k" using h'(4) by blast
  ultimately show ?thesis by blast
qed

end

section \<open>The buddy allocator as a heap\<close>

definition heap_of :: "nat \<Rightarrow> (nat \<Rightarrow> owner) \<Rightarrow> heap" where
  "heap_of N own =
     \<lparr>hfree = {u. u < N \<and> is_free (own u)},
      hlive = (\<lambda>x. if x < N then case own x of Limbo \<Rightarrow> None | Chunk f y k \<Rightarrow> if \<not> f \<and> y = x then Some k else None
                   else None)\<rparr>"

lemma hfree_heap_of [simp]: "hfree (heap_of N own) = {u. u < N \<and> is_free (own u)}"
  by (simp add: heap_of_def)

lemma hlive_heap_of: "hlive (heap_of N own) x = Some k \<longleftrightarrow> x < N \<and> own x = BusyC x k"
  by (auto simp: heap_of_def split: owner.splits)

lemma hlive_eqI:
  assumes "\<And>x k. h x = Some k \<longleftrightarrow> x < N \<and> own x = BusyC x k"
  shows "hlive (heap_of N own) = h"
proof (rule ext)
  fix x show "hlive (heap_of N own) x = h x"
    using assms [of x] hlive_heap_of [of N own x] by (metis not_None_eq)
qed

lemma heap_of_eqI:
  assumes "hfree h = {u. u < N \<and> is_free (own u)}" "\<And>x k. hlive h x = Some k \<longleftrightarrow> x < N \<and> own x = BusyC x k"
  shows "heap_of N own = h"
  using hlive_eqI [OF assms(2)] assms(1) by (cases h) (simp add: heap_of_def)

lemma heap_of_wf: "tiles N own \<Longrightarrow> heap_wf (heap_of N own)"
  unfolding heap_wf_def hlive_heap_of hfree_heap_of
proof (intro conjI allI impI)
  fix x k assume t: "tiles N own" and x: "x < N \<and> own x = BusyC x k"
  have "\<not> is_free (own u)" if "u \<in> chunk_range x k" for u using tilesD(4) [OF t, of x False x k u] x that by simp
  then show "chunk_range x k \<inter> {u. u < N \<and> is_free (own u)} = {}" by blast
next
  fix x k y j assume t: "tiles N own" and x: "(x < N \<and> own x = BusyC x k) \<and> (y < N \<and> own y = BusyC y j) \<and> x \<noteq> y"
  have False if "u \<in> chunk_range x k" "u \<in> chunk_range y j" for u
    using tiles_same [OF t, of x False x k y False y j u] x that by simp
  then show "chunk_range x k \<inter> chunk_range y j = {}" by blast
qed

lemma allocated_heap:
  assumes snd: "sound s own" and a: "allocated x k s own s' own'"
  shows "heap_malloc x k (heap_of (poolBlocks s) own) (heap_of (poolBlocks s') own')"
proof -
  have N: "poolBlocks s' = poolBlocks s" using a by (auto simp: allocated_def kept_def)
  have x: "x + 2 ^ k \<le> poolBlocks s" "x < poolBlocks s" using a by (auto simp: allocated_def dest: chunk_okD)
  have i: "is_free (own u)" "own' u = BusyC x k" if "x \<le> u" "u < x + 2 ^ k" for u
    using a that by (auto simp: allocated_def)
  have o: "if is_free (own u) then is_free (own' u) else own' u = own u" if "\<not> (x \<le> u \<and> u < x + 2 ^ k)" for u
    using a that by (auto simp: allocated_def)
  have busy: "own' y = BusyC y j \<longleftrightarrow> (if y = x then j = k else own y = BusyC y j)" for y j
    using i [of y] o [of y] by (cases "x \<le> y \<and> y < x + 2 ^ k") (auto split: if_splits)
  have free: "is_free (own' u) \<longleftrightarrow> is_free (own u) \<and> \<not> (x \<le> u \<and> u < x + 2 ^ k)" for u
    using i [of u] o [of u] by (cases "x \<le> u \<and> u < x + 2 ^ k") (auto split: if_splits)
  have "heap_of (poolBlocks s) own' = (heap_of (poolBlocks s) own)
      \<lparr>hfree := hfree (heap_of (poolBlocks s) own) - chunk_range x k, hlive := (hlive (heap_of (poolBlocks s) own))(x \<mapsto> k)\<rparr>"
  proof (rule heap_of_eqI)
    fix y j
    show "hlive ((heap_of (poolBlocks s) own)\<lparr>hfree := hfree (heap_of (poolBlocks s) own) - chunk_range x k,
        hlive := (hlive (heap_of (poolBlocks s) own))(x \<mapsto> k)\<rparr>) y = Some j \<longleftrightarrow> y < poolBlocks s \<and> own' y = BusyC y j"
      unfolding busy using x by (cases "y = x") (auto simp: hlive_heap_of)
  qed (auto simp: free)
  then show ?thesis using i x N by (auto simp: heap_malloc_def)
qed

lemma released_heap:
  assumes snd: "sound s own" and r: "released a b s own s' own'" and b: "b \<le> poolBlocks s"
  shows "hfree (heap_of (poolBlocks s') own') = hfree (heap_of (poolBlocks s) own) \<union> {a..<b}"
    "hlive (heap_of (poolBlocks s') own') = (\<lambda>u. if a \<le> u \<and> u < b then None else hlive (heap_of (poolBlocks s) own) u)"
proof -
  have N: "poolBlocks s' = poolBlocks s" using r by (auto simp: released_def kept_def)
  have i: "is_free (own' u)" if "a \<le> u" "u < b" for u using r that by (auto simp: released_def)
  have o: "if is_free (own u) then is_free (own' u) else own' u = own u" if "\<not> (a \<le> u \<and> u < b)" for u
    using r that by (auto simp: released_def)
  have free: "is_free (own' u) \<longleftrightarrow> is_free (own u) \<or> (a \<le> u \<and> u < b)" for u
    using i [of u] o [of u] by (cases "a \<le> u \<and> u < b") (auto split: if_splits)
  have busy': "own' y = BusyC y j \<longleftrightarrow> \<not> (a \<le> y \<and> y < b) \<and> own y = BusyC y j" for y j
    using i [of y] o [of y] by (cases "a \<le> y \<and> y < b") (auto split: if_splits)
  show "hfree (heap_of (poolBlocks s') own') = hfree (heap_of (poolBlocks s) own) \<union> {a..<b}"
    unfolding hfree_heap_of N free using b by auto
  show "hlive (heap_of (poolBlocks s') own') = (\<lambda>u. if a \<le> u \<and> u < b then None else hlive (heap_of (poolBlocks s) own) u)"
    unfolding N by (rule hlive_eqI) (simp add: busy' hlive_heap_of)
qed

text \<open>A chunk of more than one block is live at its first block only.\<close>

lemma freed_chunk_heap:
  assumes snd: "sound s own" and x: "x < poolBlocks s" "own x = BusyC x k" and r: "released x (x + 2 ^ k) s own s' own'"
  shows "heap_free x k (heap_of (poolBlocks s) own) (heap_of (poolBlocks s') own')"
proof -
  note t = tilesD [OF pool_invD(2) [OF soundD(1) [OF snd]] x]
  have b: "x + 2 ^ k \<le> poolBlocks s" using t(3) by (rule chunk_okD)
  have "own u \<noteq> BusyC u j" if "x < u" "u < x + 2 ^ k" for u j using t(4) [of u] that by simp
  then have "(\<lambda>u. if x \<le> u \<and> u < x + 2 ^ k then None else hlive (heap_of (poolBlocks s) own) u) =
      (hlive (heap_of (poolBlocks s) own))(x := None)"
  proof (intro ext)
    fix u
    assume *: "\<And>u j. x < u \<Longrightarrow> u < x + 2 ^ k \<Longrightarrow> own u \<noteq> BusyC u j"
    have "hlive (heap_of (poolBlocks s) own) u = None" if "x < u" "u < x + 2 ^ k"
      using * [OF that] hlive_heap_of [of "poolBlocks s" own u] by (metis not_None_eq)
    then show "(if x \<le> u \<and> u < x + 2 ^ k then None else hlive (heap_of (poolBlocks s) own) u) =
        ((hlive (heap_of (poolBlocks s) own))(x := None)) u" by auto
  qed
  then show ?thesis
    using released_heap [OF snd r b] t(4) hlive_heap_of [of "poolBlocks s" own x k] x
    by (simp add: heap_free_def)
qed

text \<open>Chunks are named by their first block; the two operations as a client sees them.\<close>

definition buddy_rel :: "CEsvga2Allocator \<Rightarrow> heap \<Rightarrow> bool" where
  "buddy_rel s h \<longleftrightarrow> 0 < poolStart s \<and> (\<exists>own. sound s own \<and> h = heap_of (poolBlocks s) own)"

definition buddy_malloc :: "nat \<Rightarrow> CEsvga2Allocator \<Rightarrow> nat option \<times> CEsvga2Allocator" where
  "buddy_malloc n s =
     (case Malloc n True s of (ret, p, s') \<Rightarrow> (map_option (\<lambda>p. (p - poolStart s) div 4096) p, s'))"

definition buddy_free :: "nat \<Rightarrow> CEsvga2Allocator \<Rightarrow> bool \<times> CEsvga2Allocator" where
  "buddy_free x s = (case Free (poolStart s + x * 4096) s of (ret, s') \<Rightarrow> (ret = kIOReturnSuccess, s'))"

lemma buddy_relI:
  "sound s own \<Longrightarrow> 0 < poolStart s \<Longrightarrow> buddy_rel s (heap_of (poolBlocks s) own)"
  by (auto simp: buddy_rel_def)

interpretation buddy: heap_impl buddy_rel buddy_malloc buddy_free fit_class
proof
  fix s s' :: CEsvga2Allocator and h :: heap and n x k :: nat
  assume rel: "buddy_rel s h"
  then obtain own where p: "0 < poolStart s" and snd: "sound s own" and h: "h = heap_of (poolBlocks s) own"
    by (auto simp: buddy_rel_def)
  show "heap_wf h" unfolding h by (rule heap_of_wf [OF pool_invD(2) [OF soundD(1) [OF snd]]])
  show "\<exists>k h'. fit_class n k \<and> heap_malloc x k h h' \<and> buddy_rel s' h'" if m: "buddy_malloc n s = (Some x, s')"
  proof (rule Malloc_cases [OF snd, of n])
    fix y k t own'
    assume a: "Malloc n True s = (kIOReturnSuccess, Some (poolStart s + y * 4096), t)" "fit_class n k" "allocated y k s own t own'"
    then have "y = x" "t = s'" using m by (auto simp: buddy_malloc_def)
    moreover have "sound t own'" "poolStart t = poolStart s" using a(3) by (auto simp: allocated_def kept_def)
    ultimately show ?thesis using allocated_heap [OF snd a(3)] a(2) buddy_relI [of t own'] p h by auto
  qed (use m in \<open>auto simp: buddy_malloc_def\<close>)
  show "s' = s" if m: "buddy_malloc n s = (None, s')"
    by (rule Malloc_cases [OF snd, of n]) (use m in \<open>auto simp: buddy_malloc_def\<close>)
  show "\<exists>s' h'. buddy_free x s = (True, s') \<and> heap_free x k h h' \<and> buddy_rel s' h'" if "hlive h x = Some k"
  proof -
    have x: "x < poolBlocks s" "own x = BusyC x k" using that by (auto simp: h hlive_heap_of)
    obtain t own' where f: "Free (poolStart s + x * 4096) s = (kIOReturnSuccess, t)" "released x (x + 2 ^ k) s own t own'"
      using Free_ok [OF snd x] p by auto
    then have "sound t own'" "poolStart t = poolStart s" by (auto simp: released_def kept_def)
    then show ?thesis using freed_chunk_heap [OF snd x f(2)] f(1) buddy_relI [of t own'] p h
      by (auto simp: buddy_free_def)
  qed
qed

section \<open>Reachable states\<close>

text \<open>
  The states a pool goes through, with the heap its clients believe in: initialisation, handing
  over ranges of blocks, allocation and its failures, freeing and resizing live chunks, moving
  the pool, and stores into live chunks.
\<close>

inductive alloc_reach :: "CEsvga2Allocator \<Rightarrow> heap \<Rightarrow> bool" where
  init: "Init True start bytes s0 = (kIOReturnSuccess, s) \<Longrightarrow> 0 < start \<Longrightarrow>
    alloc_reach s \<lparr>hfree = {}, hlive = (\<lambda>x. if x < bytes div 4096 then Some 0 else None)\<rparr>"
| release: "alloc_reach s h \<Longrightarrow> a < b \<Longrightarrow> heap_release a b h h' \<Longrightarrow>
    Release (a * 4096) (b * 4096) s = (ret, s') \<Longrightarrow> alloc_reach s' h'"
| malloc: "alloc_reach s h \<Longrightarrow> Malloc n True s = (kIOReturnSuccess, Some p, s') \<Longrightarrow>
    x = (p - poolStart s) div 4096 \<Longrightarrow> fit_class n k \<Longrightarrow>
    alloc_reach s' (h\<lparr>hfree := hfree h - chunk_range x k, hlive := (hlive h)(x \<mapsto> k)\<rparr>)"
| malloc_fail: "alloc_reach s h \<Longrightarrow> Malloc n True s = (ret, None, s') \<Longrightarrow> alloc_reach s' h"
| free: "alloc_reach s h \<Longrightarrow> hlive h x = Some k \<Longrightarrow> Free (poolStart s + x * 4096) s = (ret, s') \<Longrightarrow>
    alloc_reach s' (h\<lparr>hfree := hfree h \<union> chunk_range x k, hlive := (hlive h)(x := None)\<rparr>)"
| shrink: "alloc_reach s h \<Longrightarrow> hlive h x = Some k \<Longrightarrow> 0 < n \<Longrightarrow> n \<le> 2 ^ k * 4096 \<Longrightarrow> fit_class n c \<Longrightarrow>
    Realloc (poolStart s + x * 4096) n s = (ret, p, s') \<Longrightarrow>
    alloc_reach s' (h\<lparr>hfree := hfree h \<union> (chunk_range x k - chunk_range x c), hlive := (hlive h)(x \<mapsto> c)\<rparr>)"
| store: "alloc_reach s h \<Longrightarrow> hlive h x = Some k \<Longrightarrow> i \<in> cells x k \<Longrightarrow>
    alloc_reach (s\<lparr>pool := (pool s)(i := v)\<rparr>) h"
| rebase: "alloc_reach s h \<Longrightarrow> Rebase start s = (ret, s') \<Longrightarrow> 0 < start \<Longrightarrow> alloc_reach s' h"

lemma fit_class_unique: "fit_class n j \<Longrightarrow> fit_class n k \<Longrightarrow> j = k"
proof (induction j k rule: linorder_wlog)
  case (le j k)
  show ?case
  proof (rule ccontr)
    assume "j \<noteq> k"
    then have "j + 1 \<le> k" using le(1) by simp
    then have "(2::nat) ^ (j + 1) \<le> 2 ^ k" by (rule pow_mono)
    then show False using le(2,3) \<open>j + 1 \<le> k\<close> by (auto simp: fit_class_def)
  qed
qed simp

lemma shrunk_heap:
  assumes snd: "sound s own" and x: "x < poolBlocks s" "own x = BusyC x k" and c: "c \<le> k"
    and r: "shrunk x k c s own s' own'"
  shows "heap_of (poolBlocks s') own' = (heap_of (poolBlocks s) own)
    \<lparr>hfree := hfree (heap_of (poolBlocks s) own) \<union> (chunk_range x k - chunk_range x c),
     hlive := (hlive (heap_of (poolBlocks s) own))(x \<mapsto> c)\<rparr>"
proof -
  note t = tilesD [OF pool_invD(2) [OF soundD(1) [OF snd]] x] and ck = pow_mono [OF c]
  have N: "poolBlocks s' = poolBlocks s" using r by (auto simp: shrunk_def kept_def)
  have xk: "x + 2 ^ k \<le> poolBlocks s" using t(3) by (rule chunk_okD)
  have r1: "own' u = BusyC x c" if "x \<le> u" "u < x + 2 ^ c" for u using r that by (auto simp: shrunk_def)
  have r2: "is_free (own' u)" if "x + 2 ^ c \<le> u" "u < x + 2 ^ k" for u using r that by (auto simp: shrunk_def)
  have r3: "own' u = own u" if "\<not> (x \<le> u \<and> u < x + 2 ^ k)" for u using r that by (auto simp: shrunk_def)
  have free: "is_free (own' u) \<longleftrightarrow> is_free (own u) \<or> (x + 2 ^ c \<le> u \<and> u < x + 2 ^ k)" for u
    using r1 [of u] r2 [of u] r3 [of u] t(4) [of u] ck
    by (cases "x \<le> u \<and> u < x + 2 ^ k"; cases "x + 2 ^ c \<le> u") auto
  have busy: "own' y = BusyC y j \<longleftrightarrow> (if y = x then j = c else own y = BusyC y j)" for y j
    using r1 [of y] r2 [of y] r3 [of y] t(4) [of y] ck
    by (cases "x \<le> y \<and> y < x + 2 ^ k"; cases "x + 2 ^ c \<le> y") auto
  show ?thesis
    unfolding N
  proof (rule heap_of_eqI)
    fix y j
    show "hlive ((heap_of (poolBlocks s) own)
      \<lparr>hfree := hfree (heap_of (poolBlocks s) own) \<union> (chunk_range x k - chunk_range x c),
       hlive := (hlive (heap_of (poolBlocks s) own))(x \<mapsto> c)\<rparr>) y = Some j \<longleftrightarrow> y < poolBlocks s \<and> own' y = BusyC y j"
      unfolding busy using x by (cases "y = x") (auto simp: hlive_heap_of)
  qed (use xk in \<open>auto simp: free\<close>)
qed

lemma alloc_reach_rel: "alloc_reach s h \<Longrightarrow> buddy_rel s h"
proof (induction rule: alloc_reach.induct)
  case (init start bytes s0 s)
  show ?case
  proof (rule Init_cases [of True start bytes s0])
    fix s' assume i: "Init True start bytes s0 = (kIOReturnSuccess, s')" "sound s' (\<lambda>u. BusyC u 0)"
      "poolStart s' = start" "poolBlocks s' = bytes div 4096"
    have "heap_of (poolBlocks s') (\<lambda>u. BusyC u 0) = \<lparr>hfree = {}, hlive = (\<lambda>x. if x < bytes div 4096 then Some 0 else None)\<rparr>"
      by (rule heap_of_eqI) (auto simp: i(4) split: if_splits)
    then show ?thesis using buddy_relI [OF i(2)] i(1,3) init by simp
  qed (use init in auto)
next
  case (release s h a b h' ret s')
  then obtain own where p: "0 < poolStart s" and snd: "sound s own" and h: "h = heap_of (poolBlocks s) own"
    by (auto simp: buddy_rel_def)
  have busy: "u < poolBlocks s" "own u = BusyC u 0" if "a \<le> u" "u < b" for u
    using release.hyps(3) that unfolding heap_release_def h hlive_heap_of by blast+
  have ab: "a < poolBlocks s" "b \<le> poolBlocks s" using busy(1) [of a] busy(1) [of "b - 1"] release.hyps(2) by linarith+
  obtain own' where r: "released a b s own s' own'"
    using Release_ok [OF snd less_imp_le [OF release.hyps(2)] ab] busy release.hyps(4) by auto
  have "h' = heap_of (poolBlocks s') own'"
    using released_heap [OF snd r ab(2)] release.hyps(3) by (simp add: heap_release_def h)
  moreover have "sound s' own'" "poolStart s' = poolStart s" using r by (auto simp: released_def kept_def)
  ultimately show ?case using buddy_relI p by auto
next
  case (malloc s h n p s' x k)
  have "buddy_malloc n s = (Some x, s')" using malloc.hyps(2,3) by (simp add: buddy_malloc_def)
  then obtain j h' where j: "fit_class n j" "heap_malloc x j h h'" "buddy_rel s' h'"
    using buddy.malloc_some [OF malloc.IH] by blast
  then show ?case using fit_class_unique [OF j(1) malloc.hyps(4)] by (simp add: heap_malloc_def)
next
  case (malloc_fail s h n ret s')
  have "buddy_malloc n s = (None, s')" using malloc_fail.hyps(2) by (simp add: buddy_malloc_def)
  then show ?case using buddy.malloc_none [OF malloc_fail.IH] malloc_fail.IH by blast
next
  case (free s h x k ret s')
  then obtain t h' where "buddy_free x s = (True, t)" "heap_free x k h h'" "buddy_rel t h'"
    using buddy.free_live [OF free.IH] by blast
  then show ?case using free.hyps(3) by (simp add: buddy_free_def heap_free_def)
next
  case (shrink s h x k n c ret p s')
  then obtain own where p: "0 < poolStart s" and snd: "sound s own" and h: "h = heap_of (poolBlocks s) own"
    by (auto simp: buddy_rel_def)
  have x: "x < poolBlocks s" "own x = BusyC x k" using shrink.hyps(2) by (auto simp: h hlive_heap_of)
  obtain e own' where e: "fit_class n e" "e \<le> k" "shrunk x k e s own s' own'"
    using Realloc_fits [OF snd x _ shrink.hyps(3,4)] p shrink.hyps(6) by auto
  then have "e = c" using fit_class_unique shrink.hyps(5) by blast
  moreover have "sound s' own'" "poolStart s' = poolStart s" using e(3) by (auto simp: shrunk_def kept_def)
  ultimately show ?case using shrunk_heap [OF snd x e(2,3)] buddy_relI [of s' own'] p by (simp add: h)
next
  case (store s h x k i v)
  then obtain own where p: "0 < poolStart s" and snd: "sound s own" and h: "h = heap_of (poolBlocks s) own"
    by (auto simp: buddy_rel_def)
  have x: "x < poolBlocks s" "own x = BusyC x k" using store.hyps(2) by (auto simp: h hlive_heap_of)
  note t = tilesD [OF pool_invD(2) [OF soundD(1) [OF snd]] x]
  have "own (i div 1024) = BusyC x k" "i div 1024 < poolBlocks s"
    using t(4) store.hyps(3) chunk_okD(1) [OF t(3)] by (auto simp: cells_iff)
  then have "sound (s\<lparr>pool := (pool s)(i := v)\<rparr>) own"
    by (intro client_store_sound [OF snd]) (auto split: if_splits)
  then show ?case using buddy_relI p h by fastforce
next
  case (rebase s h start ret s')
  then obtain own where snd: "sound s own" and h: "h = heap_of (poolBlocks s) own" and p: "0 < poolStart s"
    by (auto simp: buddy_rel_def)
  show ?case
  proof (cases "4096 dvd start")
    case True
    then have "s' = s\<lparr>poolStart := start\<rparr> \<or> s' = s" using rebase.hyps(2) by (auto simp: Rebase_def split: if_splits)
    then have "poolBlocks s' = poolBlocks s" by auto
    moreover have "sound s' own" "poolStart s' = start"
      using Rebase_sound [OF snd, of start] rebase.hyps(2) True by (auto simp: Rebase_def split: if_splits)
    ultimately have "sound s' own" "poolStart s' = start" "poolBlocks s' = poolBlocks s" by simp_all
    then show ?thesis using buddy_relI [of s' own] rebase.hyps(3) h by simp
  next
    case False
    then show ?thesis using Rebase_sound [OF snd, of start] rebase.hyps(2) rebase.IH by simp
  qed
qed

end
