(* ===== verification/Buddy_Props.thy ===== *)
theory Buddy_Props
  imports Buddy_Heap
begin

text \<open>
  What the buddy allocator guarantees in every state that its operations can reach, stated over
  the operations of \<open>src/AC/CEsvga2Allocator.cpp\<close> and the heap the clients see.
\<close>

section \<open>From the representation to the heap\<close>

lemma alloc_reach_own:
  assumes "alloc_reach s h"
  obtains own where "0 < poolStart s" "sound s own" "h = heap_of (poolBlocks s) own"
  using alloc_reach_rel [OF assms] by (auto simp: buddy_rel_def)

lemma live_chunk:
  assumes "sound s own" "hlive (heap_of (poolBlocks s) own) x = Some k"
  shows "x < poolBlocks s" "own x = BusyC x k" "chunk_ok (poolBlocks s) x k"
    "i \<in> cells x k \<Longrightarrow> i div 1024 < poolBlocks s \<and> own (i div 1024) = BusyC x k"
proof -
  show x: "x < poolBlocks s" "own x = BusyC x k" using assms(2) by (simp_all add: hlive_heap_of)
  note t = tilesD [OF pool_invD(2) [OF soundD(1) [OF assms(1)]] x]
  show "chunk_ok (poolBlocks s) x k" by (rule t(3))
  show "i div 1024 < poolBlocks s \<and> own (i div 1024) = BusyC x k" if "i \<in> cells x k"
    using that t(4) [of "i div 1024"] chunk_okD(1) [OF t(3)] by (auto simp: cells_iff)
qed

text \<open>The memory of the live chunks is untouched.\<close>

definition live_kept :: "heap \<Rightarrow> CEsvga2Allocator \<Rightarrow> CEsvga2Allocator \<Rightarrow> bool" where
  "live_kept h s s' \<longleftrightarrow> (\<forall>x k i. hlive h x = Some k \<and> i \<in> cells x k \<longrightarrow> rd s' i = rd s i)"

lemma kept_live:
  assumes snd: "sound s own" and k: "kept (paint a b Limbo own) s s'"
    and out: "\<And>x k u. hlive h x = Some k \<Longrightarrow> own x = BusyC x k \<and> x < poolBlocks s \<and> (x \<le> u \<and> u < x + 2 ^ k \<longrightarrow> \<not> (a \<le> u \<and> u < b))"
  shows "live_kept h s s'"
  unfolding live_kept_def
proof (intro allI impI, elim conjE)
  fix x k i assume x: "hlive h x = Some k" and i: "i \<in> cells x k"
  have "hlive (heap_of (poolBlocks s) own) x = Some k" using out [OF x] by (simp add: hlive_heap_of)
  note l = live_chunk(4) [OF snd this i]
  moreover have "paint a b Limbo own (i div 1024) = own (i div 1024)"
    using out [OF x, of "i div 1024"] i by (intro paint_out) (auto simp: cells_iff)
  ultimately show "rd s' i = rd s i" using keptD(3) [OF k, of i] by simp
qed

lemma sound_free_bytes:
  assumes "sound s own"
  shows "freeBytes s = 4096 * card (hfree (heap_of (poolBlocks s) own))"
  using soundD(3) [OF assms] by (simp add: free_units_def)

lemma no_chunk_null:
  assumes snd: "sound s own" and n: "\<not> has_chunk s own k" and r: "k \<le> r" "r < 13"
  shows "freeList s ! r = OURNULL"
proof -
  obtain L where L: "lists_ok s own L" using soundD(1) [OF snd] by (rule pool_inv_lists)
  have "x \<notin> set (L r)" for x
    using lists_okD(4,5) [OF L r(2), of x] n r(1) unfolding has_chunk_def by blast
  then have "L r = []" by (cases "L r") auto
  then show ?thesis using list_null [OF soundD(1) [OF snd] L r(2)] by simp
qed

section \<open>A pool of sixteen blocks\<close>

definition blank_pool :: CEsvga2Allocator where
  "blank_pool = \<lparr>poolStart = 0, poolBlocks = 0, minBits = 0, numSizes = 0, freeList = [], pmap = [],
     pmap_null = True, freeBytes = 0, pool = (\<lambda>_. 0)\<rparr>"

definition demo_pool :: CEsvga2Allocator where "demo_pool = snd (Init True 65536 65536 blank_pool)"
definition demo_ready :: CEsvga2Allocator where "demo_ready = snd (Release 0 65536 demo_pool)"

abbreviation full_heap :: "nat \<Rightarrow> heap" where
  "full_heap n \<equiv> \<lparr>hfree = {}, hlive = (\<lambda>x. if x < n then Some 0 else None)\<rparr>"
abbreviation empty_heap :: "nat \<Rightarrow> heap" where
  "empty_heap n \<equiv> \<lparr>hfree = {..<n}, hlive = (\<lambda>x. None)\<rparr>"

lemma Init_Release:
  assumes "4096 dvd start" "0 < start" "4096 dvd bytes" "0 < bytes" "bytes < 2 ^ 32"
  shows "\<exists>s s'. Init True start bytes s0 = (kIOReturnSuccess, s) \<and> alloc_reach s (full_heap (bytes div 4096)) \<and>
    Release 0 bytes s = (kIOReturnSuccess, s') \<and> alloc_reach s' (empty_heap (bytes div 4096)) \<and>
    freeBytes s = 0 \<and> freeBytes s' = bytes \<and> poolStart s = start \<and> poolStart s' = start \<and>
    poolBlocks s = bytes div 4096 \<and> poolBlocks s' = bytes div 4096"
proof (rule Init_cases [of True start bytes s0])
  fix s assume s: "Init True start bytes s0 = (kIOReturnSuccess, s)" "sound s (\<lambda>u. BusyC u 0)"
    "poolStart s = start" "poolBlocks s = bytes div 4096" "freeBytes s = 0"
  obtain n where n: "bytes = n * 4096" "0 < n" using assms(3,4) by (auto elim!: dvdE)
  have r: "alloc_reach s (full_heap n)" using alloc_reach.init [OF s(1) assms(2)] n by simp
  obtain s' own' where s': "Release (0 * 4096) (n * 4096) s = (kIOReturnSuccess, s')" "released 0 n s (\<lambda>u. BusyC u 0) s' own'"
    using Release_ok [OF s(2), of 0 n] s(4) n by auto
  have "heap_release 0 n (full_heap n) (empty_heap n)" by (auto simp: heap_release_def)
  then have "alloc_reach s' (empty_heap n)"
    using alloc_reach.release [OF r n(2) _ s'(1)] by blast
  then show ?thesis using s s' r n by (auto simp: released_def kept_def)
qed (use assms in auto)

lemma demo_pool_reach:
  "alloc_reach demo_pool (full_heap 16)" "alloc_reach demo_ready (empty_heap 16)"
  "freeBytes demo_ready = 65536" "poolStart demo_ready = 65536" "poolBlocks demo_ready = 16"
  using Init_Release [of 65536 65536 blank_pool] by (auto simp: demo_pool_def demo_ready_def)

lemma grow16: "grow 13 0 16 0 1 = (4, 16)"
proof -
  have "grow 13 0 16 4 16 = (4, 16)" by (subst grow.simps) (simp add: Let_def)
  then have "grow 13 0 16 3 8 = (4, 16)" by (subst grow.simps) (simp add: Let_def)
  then have "grow 13 0 16 2 4 = (4, 16)" by (subst grow.simps) (simp add: Let_def)
  then have "grow 13 0 16 (Suc 0) 2 = (4, 16)" by (subst grow.simps) (simp add: Let_def numeral_2_eq_2 [symmetric])
  then show ?thesis by (subst grow.simps) (simp add: Let_def)
qed

lemma shrink16: "shrink 0 16 4 16 = Some (4, 16)"
  using shrink.simps(2) [of 0 16 3 16] by simp

lemma toFree16: assumes "numSizes s = 13" shows "toFree 0 16 False s = makeFree 0 4 False s"
  using assms by (simp add: toFree_def grow16 [unfolded One_nat_def] shrink16 toFree_loop.simps(2) [of 15 0, simplified] toFree_loop.simps(2) [of 14 16 16, simplified])

lemma demo_pool_eq: "demo_pool = \<lparr>poolStart = 65536, poolBlocks = 16, minBits = 12, numSizes = 13, freeList = replicate 13 OURNULL,
  pmap = replicate 2 0xFF, pmap_null = False, freeBytes = 0, pool = (\<lambda>_. 0)\<rparr>"
  by (simp add: demo_pool_def Init_def blank_pool_def Let_def ReleaseMap_def)

lemma demo_ready_list: "freeList demo_ready ! 4 = 0"
proof -
  have "geometry demo_pool" by (simp add: geometry_def demo_pool_eq)
  moreover have "testAll (pmap demo_pool) 0 16"
    by (simp add: demo_pool_eq testAll_def memAll_def bytes_of_def numeral_2_eq_2)
  ultimately show ?thesis 
    by (simp add: demo_ready_def Release_def geometry_def clearCheck_def toFree16)
      (simp add: demo_pool_eq makeFree_def Let_def wr_def)
qed
text \<open>Eight blocks that share a byte of the bitmap make one chunk.\<close>

lemma grow8:
  assumes "8 dvd a" "a + 8 \<le> N" "N * 4096 < 2 ^ 32"
  shows "grow 13 a (a + 8) 0 1 = (3, 8)"
proof -
  have m: "a mod 2 ^ b = 0" if "b \<le> 3" for b
    using dvd_trans [OF le_imp_power_dvd [OF that, of 2], of a] assms(1) by (simp add: dvd_eq_mod_eq_0)
  have w: "w32 (a + 2 ^ b) = a + 2 ^ b" if "b < 14" for b using add32_pow [OF assms(3) _ that] assms(2) by simp
  have "grow 13 a (a + 8) 3 8 = (3, 8)" using w [of 4] by (subst grow.simps) (simp add: Let_def)
  then have "grow 13 a (a + 8) 2 4 = (3, 8)"
    using w [of 3] m [of 3] and_mask [of a 3] sub32_pow [of 3] by (subst grow.simps) (simp add: Let_def)
  then have "grow 13 a (a + 8) (Suc 0) 2 = (3, 8)"
    using w [of 2] m [of 2] and_mask [of a 2] sub32_pow [of 2]
    by (subst grow.simps) (simp add: Let_def numeral_2_eq_2 [symmetric])
  then show ?thesis
    using w [of 1] m [of 1] and_mask [of a 1] sub32_pow [of 1] by (subst grow.simps) (simp add: Let_def)
qed

lemma shrink8:
  assumes "8 dvd a" "a + 8 \<le> N" "N * 4096 < 2 ^ 32"
  shows "shrink a (a + 8) 3 8 = Some (3, 8)"
  using assms and_mask [of a 3] sub32_pow [of 3] add32_pow [OF assms(3), of a 3] shrink.simps(2) [of a "a + 8" 2 8]
  by (simp add: dvd_eq_mod_eq_0)

section \<open>Properties\<close>

text \<open>
  C14.  In every state that initialisation, hand-over of ranges, allocation, freeing, resizing,
  moving the pool and stores of the clients lead to, the live chunks are pairwise disjoint and
  disjoint from the free blocks, each is aligned to its size and inside the pool, the byte count
  is the size of the free blocks, and \<open>Check\<close> finds the free lists intact.
\<close>

theorem alloc_reach_invariant:
  assumes "alloc_reach s h"
  shows "heap_wf h \<and> freeBytes s = 4096 * card (hfree h) \<and> fst (Check s) = kIOReturnSuccess \<and>
    (\<forall>x k. hlive h x = Some k \<longrightarrow> 2 ^ k dvd x \<and> x + 2 ^ k \<le> poolBlocks s \<and> k < 13)"
proof -
  obtain own where o: "sound s own" "h = heap_of (poolBlocks s) own" by (rule alloc_reach_own [OF assms])
  obtain L where "lists_ok s own L" using soundD(1) [OF o(1)] by (rule pool_inv_lists)
  then show ?thesis
    using Check_sound [OF o(1)] buddy.rel_wf [OF alloc_reach_rel [OF assms]] sound_free_bytes [OF o(1)] live_chunk(3) [OF o(1)]
    unfolding o(2) chunk_ok_def by auto
qed

theorem alloc_reach_invariant_witness:
  "heap_wf (empty_heap 16) \<and> freeBytes demo_ready = 65536 \<and> fst (Check demo_ready) = kIOReturnSuccess"
  using alloc_reach_invariant [OF demo_pool_reach(2)] by simp

text \<open>
  C15.  \<open>Malloc\<close> either returns the address of a chunk of the smallest power-of-two size that
  fits, taken out of the free blocks, or returns \<open>kIOReturnNoMemory\<close> when no free list of that
  size or larger has a block, or \<open>kIOReturnNoResources\<close> for more than 32 MiB; a failure changes
  nothing, and no success touches the memory of a live chunk.
\<close>

theorem Malloc_outcomes:
  assumes "alloc_reach s h"
  shows "(\<exists>x k s' h'. Malloc n True s = (kIOReturnSuccess, Some (poolStart s + x * 4096), s') \<and>
      fit_class n k \<and> heap_malloc x k h h' \<and> alloc_reach s' h' \<and> live_kept h s s' \<and>
      freeBytes s = freeBytes s' + 2 ^ k * 4096) \<or>
    (\<exists>k. Malloc n True s = (kIOReturnNoMemory, None, s) \<and> fit_class n k \<and>
      (\<forall>r. k \<le> r \<and> r < 13 \<longrightarrow> freeList s ! r = OURNULL)) \<or>
    (Malloc n True s = (kIOReturnNoResources, None, s) \<and> 2 ^ 25 < n)"
proof -
  obtain own where o: "0 < poolStart s" "sound s own" "h = heap_of (poolBlocks s) own" by (rule alloc_reach_own [OF assms])
  show ?thesis
  proof (rule Malloc_cases [OF o(2), of n])
    fix x k s' own'
    assume a: "Malloc n True s = (kIOReturnSuccess, Some (poolStart s + x * 4096), s')" "fit_class n k" "allocated x k s own s' own'"
    have h': "heap_malloc x k h (heap_of (poolBlocks s') own')" using allocated_heap [OF o(2) a(3)] o(3) by simp
    then have "alloc_reach s' (heap_of (poolBlocks s') own')"
      using alloc_reach.malloc [OF assms a(1) _ a(2), of x] by (simp add: heap_malloc_def)
    moreover have "live_kept h s s'"
      using a(3) live_chunk [OF o(2)] unfolding live_kept_def o(3) by (auto simp: allocated_def kept_def)
    moreover have "freeBytes s = freeBytes s' + 2 ^ k * 4096" using a(3) by (simp add: allocated_def)
    ultimately show ?thesis using a(1,2) h' by blast
  qed (use no_chunk_null [OF o(2)] in auto)
qed

theorem Malloc_outcomes_witness:
  "Malloc 5000 True demo_pool = (kIOReturnNoMemory, None, demo_pool) \<and>
   (\<exists>x s'. Malloc 5000 True demo_ready = (kIOReturnSuccess, Some (65536 + x * 4096), s') \<and> freeBytes s' = 57344)"
proof -
  have "k = 1" if "fit_class 5000 k" for k :: nat
    using fit_class_unique [OF that, of 1] by (simp add: fit_class_def)
  moreover have "freeBytes demo_pool = 0" by (simp add: demo_pool_eq)
  ultimately show ?thesis
    using Malloc_outcomes [OF demo_pool_reach(1), of 5000] Malloc_outcomes [OF demo_pool_reach(2), of 5000] demo_ready_list
    unfolding demo_pool_reach(3,4) by fastforce
qed

text \<open>
  C16.  Freeing a live chunk always succeeds: its blocks join the free blocks, the byte count
  grows by its size, the state stays reachable, and the memory of the other live chunks is
  untouched, whatever buddies are merged.
\<close>

theorem Free_live:
  assumes "alloc_reach s h" "hlive h x = Some k"
  shows "\<exists>s' h'. Free (poolStart s + x * 4096) s = (kIOReturnSuccess, s') \<and> heap_free x k h h' \<and>
    alloc_reach s' h' \<and> live_kept h' s s' \<and> freeBytes s' = freeBytes s + 2 ^ k * 4096"
proof -
  obtain own where o: "0 < poolStart s" "sound s own" "h = heap_of (poolBlocks s) own" by (rule alloc_reach_own [OF assms(1)])
  note x = live_chunk [OF o(2) assms(2) [unfolded o(3)]]
  obtain s' own' where f: "Free (poolStart s + x * 4096) s = (kIOReturnSuccess, s')" "released x (x + 2 ^ k) s own s' own'"
    using Free_ok [OF o(2) x(1,2)] o(1) by auto
  define h' where "h' = h\<lparr>hfree := hfree h \<union> chunk_range x k, hlive := (hlive h)(x := None)\<rparr>"
  have "alloc_reach s' h'" unfolding h'_def by (rule alloc_reach.free [OF assms f(1)])
  moreover have "heap_free x k h h'" using assms(2) by (simp add: heap_free_def h'_def)
  moreover have "live_kept h' s s'"
  proof (rule kept_live [OF o(2)])
    show "kept (paint x (x + 2 ^ k) Limbo own) s s'" using f(2) by (simp add: released_def)
    fix y j u assume "hlive h' y = Some j"
    then have y: "y \<noteq> x" "y < poolBlocks s" "own y = BusyC y j"
      by (auto simp: h'_def o(3) hlive_heap_of split: if_splits)
    then show "own y = BusyC y j \<and> y < poolBlocks s \<and> (y \<le> u \<and> u < y + 2 ^ j \<longrightarrow> \<not> (x \<le> u \<and> u < x + 2 ^ k))"
      using tiles_same [OF pool_invD(2) [OF soundD(1) [OF o(2)]] x(1,2) y(2,3), of u] by auto
  qed
  ultimately show ?thesis using f by (auto simp: released_def)
qed

theorem Free_live_witness:
  "\<exists>s'. Free (65536 + 3 * 4096) demo_pool = (kIOReturnSuccess, s') \<and> freeBytes s' = 4096"
  using Free_live [OF demo_pool_reach(1), of 3 0] by (auto simp: demo_pool_eq)

text \<open>
  C17.  A client that allocates and frees in any order, freeing only chunks it holds, never sees a
  free fail, and no two chunks it holds at the end overlap.
\<close>

theorem client_chunks_disjoint:
  assumes "alloc_reach s h" "run_ops buddy_malloc buddy_free ops s [] True = (s', held, ok)"
  shows "ok \<and> distinct held \<and> (\<exists>h'. buddy_rel s' h' \<and> set held \<subseteq> dom (hlive h') \<and>
    (\<forall>x y. x \<in> set held \<and> y \<in> set held \<and> x \<noteq> y \<longrightarrow>
      chunk_range x (the (hlive h' x)) \<inter> chunk_range y (the (hlive h' y)) = {}))"
  using buddy.held_disjoint [OF alloc_reach_rel [OF assms(1)] assms(2)] by blast

theorem client_chunks_disjoint_witness:
  "case run_ops buddy_malloc buddy_free [HMalloc 5000, HMalloc 4096, HFree 1, HMalloc 20000] demo_ready [] True of
     (s', held, ok) \<Rightarrow> ok \<and> distinct held"
proof -
  obtain s' held ok where
    r: "run_ops buddy_malloc buddy_free [HMalloc 5000, HMalloc 4096, HFree 1, HMalloc 20000] demo_ready [] True = (s', held, ok)"
    by (rule prod_cases3)
  show ?thesis using client_chunks_disjoint [OF demo_pool_reach(2) r] unfolding r by simp
qed

text \<open>
  C18.  Growing a live chunk: when the allocation of the new size succeeds, \<open>Realloc\<close> succeeds
  with the new address and the new chunk starts with the contents of the old one; when it fails,
  \<open>Realloc\<close> returns its error and changes nothing.
\<close>

theorem Realloc_grow_keeps_data:
  assumes "alloc_reach s h" "hlive h x = Some k" "2 ^ k * 4096 < n"
  shows "(\<exists>ret. Malloc n True s = (ret, None, s) \<and> Realloc (poolStart s + x * 4096) n s = (ret, None, s)) \<or>
    (\<exists>y s'. fst (snd (Malloc n True s)) = Some (poolStart s + y * 4096) \<and>
      Realloc (poolStart s + x * 4096) n s = (kIOReturnSuccess, Some (poolStart s + y * 4096), s') \<and>
      (\<forall>i < 2 ^ k * 1024. rd s' (y * 1024 + i) = rd s (x * 1024 + i)))"
proof -
  obtain own where o: "0 < poolStart s" "sound s own" "h = heap_of (poolBlocks s) own" by (rule alloc_reach_own [OF assms(1)])
  note x = live_chunk [OF o(2) assms(2) [unfolded o(3)]] and d = pool_invD [OF soundD(1) [OF o(2)]]
  have "2 ^ (k + minBits s) < n" using assms(3) unfolding d(4) by (simp add: power_add)
  then have fail: "Realloc (poolStart s + x * 4096) n s = (ret, None, s)" if "Malloc n True s = (ret, None, s)" for ret
    using that BuddyAllocSize_ok [OF soundD(1) [OF o(2)] x(1,2)] o(1) by (simp add: Realloc_def)
  show ?thesis
  proof (rule Malloc_cases [OF o(2), of n])
    fix y j s1 own1
    assume m: "Malloc n True s = (kIOReturnSuccess, Some (poolStart s + y * 4096), s1)" "fit_class n j" "allocated y j s own s1 own1"
    then show ?thesis using Realloc_grows [OF o(2) x(1,2) o(1) assms(3) m] by auto
  qed (use fail in auto)
qed

theorem Realloc_grow_keeps_data_witness:
  "Realloc (65536 + 2 * 4096) 8192 demo_pool = (kIOReturnNoMemory, None, demo_pool)"
proof -
  have "Malloc 8192 True demo_pool = (kIOReturnNoMemory, None, demo_pool)"
    using malloc_bits.simps [of 13 8192 0 4096] malloc_bits.simps [of 13 8192 1 8192]
    by (simp add: Malloc_def BuddyMalloc_def demo_pool_eq)
  then show ?thesis using Realloc_grow_keeps_data [OF demo_pool_reach(1), of 2 0 8192] by (simp add: demo_pool_eq)
qed

text \<open>
  Resizing a live chunk to a size that fits it never moves it: \<open>Realloc\<close> returns the same
  address, the chunk shrinks to the smallest power of two that fits, the rest becomes free, and
  the memory of every chunk that stays live, the shrunk one included, is untouched.
\<close>

lemma Realloc_shrink_in_place:
  assumes "alloc_reach s h" "hlive h x = Some k" "0 < n" "n \<le> 2 ^ k * 4096"
  shows "\<exists>c s' h'. fit_class n c \<and> c \<le> k \<and> alloc_reach s' h' \<and>
    Realloc (poolStart s + x * 4096) n s = (kIOReturnSuccess, Some (poolStart s + x * 4096), s') \<and>
    hlive h' = (hlive h)(x \<mapsto> c) \<and> hfree h' = hfree h \<union> {x + 2 ^ c..<x + 2 ^ k} \<and> live_kept h' s s'"
proof -
  obtain own where o: "0 < poolStart s" "sound s own" "h = heap_of (poolBlocks s) own" by (rule alloc_reach_own [OF assms(1)])
  note x = live_chunk [OF o(2) assms(2) [unfolded o(3)]]
  obtain c s' own' where c: "fit_class n c" "c \<le> k" "shrunk x k c s own s' own'"
      "Realloc (poolStart s + x * 4096) n s = (kIOReturnSuccess, Some (poolStart s + x * 4096), s')"
    using Realloc_fits [OF o(2) x(1,2) _ assms(3,4)] o(1) by auto
  define h' where "h' = h\<lparr>hfree := hfree h \<union> (chunk_range x k - chunk_range x c), hlive := (hlive h)(x \<mapsto> c)\<rparr>"
  have r: "alloc_reach s' h'" unfolding h'_def by (rule alloc_reach.shrink [OF assms c(1,4)])
  have "chunk_range x k - chunk_range x c = {x + 2 ^ c..<x + 2 ^ k}" by auto
  then have h': "hlive h' = (hlive h)(x \<mapsto> c)" "hfree h' = hfree h \<union> {x + 2 ^ c..<x + 2 ^ k}" by (simp_all add: h'_def)
  have "rd s' i = rd s i" if y: "hlive h' y = Some j" "i \<in> cells y j" for y j i
  proof -
    have "i div 1024 < poolBlocks s \<and> is_busy (own (i div 1024)) \<and> \<not> (x + 2 ^ c \<le> i div 1024 \<and> i div 1024 < x + 2 ^ k)"
    proof (cases "y = x")
      case True
      then have i: "x \<le> i div 1024" "i div 1024 < x + 2 ^ c" using y h'(1) by (simp_all add: cells_iff)
      then have "i \<in> cells x k" using pow_mono [OF c(2)] unfolding cells_iff by (auto intro: less_le_trans)
      then show ?thesis using x(4) [of i] i by simp
    next
      case False
      then have l: "hlive (heap_of (poolBlocks s) own) y = Some j" using y(1) h'(1) o(3) by simp
      note z = live_chunk [OF o(2) l]
      show ?thesis using z(4) [OF y(2)] False
          tiles_same [OF pool_invD(2) [OF soundD(1) [OF o(2)]] x(1,2) z(1,2), of "i div 1024"] y(2)
        by (auto simp: cells_iff)
    qed
    then show ?thesis using c(3) by (auto simp: shrunk_def kept_def paint_def)
  qed
  then show ?thesis using c r h' unfolding live_kept_def by blast
qed

text \<open>
  A pool that is initialised and then released as a whole offers exactly its size, and
  \<open>Available\<close> reports it.
\<close>

lemma Init_Release_available:
  assumes "4096 dvd start" "0 < start" "4096 dvd bytes" "0 < bytes" "bytes < 2 ^ 32"
  shows "\<exists>s s'. Init True start bytes s0 = (kIOReturnSuccess, s) \<and> Available True s = (kIOReturnSuccess, Some 0) \<and>
    Release 0 bytes s = (kIOReturnSuccess, s') \<and> Available True s' = (kIOReturnSuccess, Some bytes) \<and>
    alloc_reach s' (empty_heap (bytes div 4096))"
  using Init_Release [OF assms, of s0] by (auto simp: Available_def)

text \<open>
  The scans of the bitmap see every bit of a range except those of its last whole byte,
  which \<open>repe scasb\<close> compares without the result reaching the counter that is tested; clearing
  a range clears exactly its bits.
\<close>

lemma bitmap_ranges:
  assumes "firstBit \<le> pastBit" "pastBit \<le> 8 * length m"
  shows "(testAll m firstBit pastBit \<longleftrightarrow> (\<forall>u. firstBit \<le> u \<and> u < pastBit \<and> \<not> unscanned firstBit pastBit u \<longrightarrow> BITTEST m u)) \<and>
    (testAny m firstBit pastBit \<longleftrightarrow> (\<exists>u. firstBit \<le> u \<and> u < pastBit \<and> \<not> unscanned firstBit pastBit u \<and> BITTEST m u)) \<and>
    (\<forall>u. BITTEST (clearAll firstBit pastBit m) u \<longleftrightarrow> \<not> (firstBit \<le> u \<and> u < pastBit) \<and> BITTEST m u)"
proof -
  have "pastBit div 8 \<le> length m" using assms(2) by linarith
  then show ?thesis using testAll_iff [OF assms(1)] testAny_iff [OF assms(1)] clearAll_iff [OF assms] by blast
qed

text \<open>
  C19.  \<open>Release\<close> of eight blocks that share one byte of the bitmap always succeeds, also when
  they are already free: the byte count then grows by their size a second time.
\<close>

theorem Release_unchecked_byte:
  assumes "geometry s" "8 dvd a" "a + 8 \<le> poolBlocks s"
  shows "\<exists>s'. Release (a * 4096) ((a + 8) * 4096) s = (kIOReturnSuccess, s') \<and>
    freeBytes s' = w32 (freeBytes s + 32768) \<and> freeList s' ! 3 = a"
proof -
  define s1 where "s1 = s\<lparr>pmap := clearAll a (a + 8) (pmap s)\<rparr>"
  have g: "minBits s = 12" "numSizes s = 13" "length (freeList s) = 13" "poolBlocks s * 4096 < 2 ^ 32"
    using assms(1) by (auto simp: geometry_def)
  have "toFree a (a + 8) False s1 = makeFree a 3 False s1"
    using grow8 [OF assms(2), of "poolBlocks s"] shrink8 [OF assms(2), of "poolBlocks s"] assms(3) g
      toFree_loop.simps(2) [of 7 a "a + 8" 0 1 False s1] toFree_loop.simps(2) [of 6 "a + 8" "a + 8" 3 8 False "makeFree a 3 False s1"]
    by (simp add: toFree_def s1_def)
  moreover have "freeBytes (makeFree a 3 False s1) = w32 (freeBytes s + 32768)" "freeList (makeFree a 3 False s1) ! 3 = a"
    using g by (simp_all add: makeFree_def Let_def s1_def wr_def)
  ultimately show ?thesis using Release_byte [OF assms] by (simp add: s1_def)
qed

theorem Release_unchecked_byte_witness:
  "\<exists>s'. Release 0 32768 demo_ready = (kIOReturnSuccess, s') \<and> freeBytes s' = 98304 \<and> poolBlocks demo_ready * 4096 = 65536"
proof -
  obtain own where "sound demo_ready own" by (rule alloc_reach_own [OF demo_pool_reach(2)])
  then have "geometry demo_ready" by (rule pool_invD(1) [OF soundD(1)])
  then show ?thesis using Release_unchecked_byte [of demo_ready 0] demo_pool_reach(3,5) by auto
qed

end
