(* ===== verification/Accel_Ids.thy ===== *)
theory Accel_Ids
  imports SVGA_Screen Buddy_Props
begin

text \<open>
  The accelerator object \<open>CEsvga2Accel\<close> (\<open>src/AC/CEsvga2Accel.h\<close>) and its identifiers of surfaces,
  contexts, video streams and guest memory regions (\<open>src/AC/CEsvga2Accel.cpp\<close>): bit masks of the
  identifiers in use, searched for the lowest free bit.  The locale \<open>id_pool\<close> is the contract the
  rest of the driver relies on; the four kinds of identifiers are its instances.  \<open>lockAccel\<close> and
  \<open>lockDevice\<close> serialise the callers, so that an operation is one step on the state.
\<close>

section \<open>The accelerator\<close>

record FenceTracker =
  counter :: nat
  fences :: "u32 list"

text \<open>
  A pointer that is only tested is its being non-null; \<open>m_allocator\<close> is the allocator it points
  to, \<open>vram_map\<close> the address of \<open>m_vram_kernel_map\<close>, and a task its number.  \<open>options_ac\<close> is the
  global \<open>ce1_options_ac\<close>.  The lock, the logging levels, the cached result of the blit test, the
  table of device capabilities and the \<open>IOSurface\<close> root are not part of the state.
\<close>

record 'h CEsvga2Accel =
  m_framebuffer :: bool
  m_svga :: "'h SVGADevice"
  vram_map :: "u64 option"
  m_allocator :: "CEsvga2Allocator option"
  m_updating_ga :: "nat option"
  options_ac :: u32
  bHaveSVGA3D :: bool
  bHaveScreenObject :: bool
  m_surface_id_mask :: "u64 list"
  m_context_id_mask :: u64
  m_gmr_id_mask :: "u64 list"
  m_surface_ids_unmanaged :: u32
  m_context_ids_unmanaged :: u32
  m_surface_id_idx :: u32
  m_gmr_id_idx :: u32
  m_master_surface_retain_count :: u32
  m_master_surface_id :: u32
  m_primary_screen :: "u32 \<times> u32"
  m_present_tracker :: FenceTracker
  m_stream_id_mask :: u32

definition FenceTracker_init :: "FenceTracker \<Rightarrow> FenceTracker" where
  "FenceTracker_init t = \<lparr>counter = 0, fences = replicate (length (fences t)) 0\<rparr>"

definition FenceTracker_before :: "FenceTracker \<Rightarrow> u32" where
  "FenceTracker_before t = fences t ! counter t"

definition FenceTracker_after :: "u32 \<Rightarrow> FenceTracker \<Rightarrow> FenceTracker" where
  "FenceTracker_after fence t =
     (let t = t\<lparr>fences := (fences t)[counter t := fence]\<rparr>;
          t = t\<lparr>counter := counter t + 1\<rparr>
      in if counter t = length (fences t) then t\<lparr>counter := 0\<rparr> else t)"

definition initPrimaryScreen :: "'h CEsvga2Accel \<Rightarrow> 'h CEsvga2Accel" where
  "initPrimaryScreen s = s\<lparr>m_primary_screen := (- 1, - 1)\<rparr>"

definition cleanupPrimaryScreen :: "'h CEsvga2Accel \<Rightarrow> 'h CEsvga2Accel" where
  "cleanupPrimaryScreen s = s\<lparr>m_primary_screen := (- 1, - 1)\<rparr>"

abbreviation (input) SVGA_ID_INVALID :: u32 where "SVGA_ID_INVALID \<equiv> - 1"

text \<open>\<open>init\<close>, after the superclass has succeeded.\<close>

definition Accel_init :: "'h CEsvga2Accel \<Rightarrow> 'h CEsvga2Accel" where
  "Accel_init s =
     initPrimaryScreen (s\<lparr>m_master_surface_id := SVGA_ID_INVALID,
       m_present_tracker := FenceTracker_init (m_present_tracker s)\<rparr>)"

section \<open>Bit searches\<close>

definition log_2_32 :: "u32 \<Rightarrow> int" where
  "log_2_32 x =
     (let y = 0;
          (y, x) = (if x AND 0xFFFF0000 \<noteq> 0 then (y OR 16, drop_bit 16 x) else (y, x));
          (y, x) = (if x AND 0xFF00 \<noteq> 0 then (y OR 8, drop_bit 8 x) else (y, x));
          (y, x) = (if x AND 0xF0 \<noteq> 0 then (y OR 4, drop_bit 4 x) else (y, x));
          (y, x) = (if x AND 0xC \<noteq> 0 then (y OR 2, drop_bit 2 x) else (y, x));
          (y, x) = (if x AND 0x2 \<noteq> 0 then (y OR 1, drop_bit 1 x) else (y, x))
      in if x AND 1 = 0 then -1 else y)"

definition log_2_64 :: "u64 \<Rightarrow> int" where
  "log_2_64 x =
     (let y = 0;
          (y, x) = (if x AND 0xFFFFFFFF00000000 \<noteq> 0 then (y OR 32, drop_bit 32 x) else (y, x))
      in y OR log_2_32 (ucast x))"

text \<open>The searches, from entry \<open>i div 64\<close> on; they mark the bit they return.\<close>

fun find_bit_in_array32 :: "int \<Rightarrow> u32 list \<Rightarrow> u32 \<times> u32 list" where
  "find_bit_in_array32 i [] = (of_int (-1), [])"
| "find_bit_in_array32 i (a # as) =
     (let x = NOT a AND (a + 1)
      in if x = 0 then (case find_bit_in_array32 (i + 32) as of (r, as) \<Rightarrow> (r, a # as))
         else (of_int (i + log_2_32 x), (a OR x) # as))"

fun find_bit_in_array64 :: "int \<Rightarrow> u64 list \<Rightarrow> u32 \<times> u64 list" where
  "find_bit_in_array64 i [] = (of_int (-1), [])"
| "find_bit_in_array64 i (a # as) =
     (let x = NOT a AND (a + 1)
      in if x = 0 then (case find_bit_in_array64 (i + 64) as of (r, as) \<Rightarrow> (r, a # as))
         else (of_int (i + log_2_64 x), (a OR x) # as))"

definition set64 :: "u64 list \<Rightarrow> nat \<Rightarrow> u64 list" where
  "set64 m i = m[i div 64 := m ! (i div 64) OR push_bit (i mod 64) 1]"

definition clear64 :: "u64 list \<Rightarrow> nat \<Rightarrow> u64 list" where
  "clear64 m i = m[i div 64 := m ! (i div 64) AND NOT (push_bit (i mod 64) 1)]"

definition mask_array64 :: "u64 list \<Rightarrow> nat \<Rightarrow> nat \<Rightarrow> u64 list" where
  "mask_array64 m mask_start mask_end =
     (let firstFull = (mask_start + 63) div 64 * 64;
          pastFull = mask_end div 64 * 64;
          past = (if mask_end \<ge> firstFull then firstFull else mask_end);
          m = fold (\<lambda>i m. set64 m i) [mask_start..<past] m;
          m = (if pastFull > firstFull
               then fold (\<lambda>i m. m[i := -1]) [firstFull div 64..<pastFull div 64] m else m)
      in fold (\<lambda>i m. set64 m i) [max pastFull past..<mask_end] m)"

section \<open>Identifiers\<close>

text \<open>An identifier of which the sign bit is set is a failure.\<close>

abbreviation id_failed :: "u32 \<Rightarrow> bool" where "id_failed r \<equiv> sint r < 0"

definition AllocSurfaceID :: "'h CEsvga2Accel \<Rightarrow> u32 \<times> 'h CEsvga2Accel" where
  "AllocSurfaceID s =
     (let num_entries = 4; idx = unat (m_surface_id_idx s);
          (r, found) = find_bit_in_array64 0 (take (num_entries - idx) (drop idx (m_surface_id_mask s)));
          s = s\<lparr>m_surface_id_mask := take idx (m_surface_id_mask s) @ found\<rparr>
      in if id_failed r
         then (of_nat (num_entries * 64) + m_surface_ids_unmanaged s,
               s\<lparr>m_surface_ids_unmanaged := m_surface_ids_unmanaged s + 1,
                 m_surface_id_idx := of_nat num_entries\<rparr>)
         else let t = drop_bit 6 r; r = r + push_bit 6 (m_surface_id_idx s)
              in (r, s\<lparr>m_surface_id_idx := m_surface_id_idx s + t\<rparr>))"

definition FreeSurfaceID :: "u32 \<Rightarrow> 'h CEsvga2Accel \<Rightarrow> 'h CEsvga2Accel" where
  "FreeSurfaceID sid s =
     (let r = drop_bit 6 sid
      in if r \<ge> 4 then s
         else let s = s\<lparr>m_surface_id_mask := clear64 (m_surface_id_mask s) (unat sid)\<rparr>
              in if r < m_surface_id_idx s then s\<lparr>m_surface_id_idx := r\<rparr> else s)"

definition AllocContextID :: "'h CEsvga2Accel \<Rightarrow> u32 \<times> 'h CEsvga2Accel" where
  "AllocContextID s =
     (let (r, found) = find_bit_in_array64 0 [m_context_id_mask s];
          s = s\<lparr>m_context_id_mask := hd found\<rparr>
      in if id_failed r
         then (8 * 8 + m_context_ids_unmanaged s, s\<lparr>m_context_ids_unmanaged := m_context_ids_unmanaged s + 1\<rparr>)
         else (r, s))"

definition FreeContextID :: "u32 \<Rightarrow> 'h CEsvga2Accel \<Rightarrow> 'h CEsvga2Accel" where
  "FreeContextID cid s =
     (if cid \<ge> 8 * 8 then s
      else s\<lparr>m_context_id_mask := m_context_id_mask s AND NOT (push_bit (unat cid) 1)\<rparr>)"

definition AllocStreamID :: "'h CEsvga2Accel \<Rightarrow> u32 \<times> 'h CEsvga2Accel" where
  "AllocStreamID s =
     (let (r, found) = find_bit_in_array32 0 [m_stream_id_mask s]
      in (r, s\<lparr>m_stream_id_mask := hd found\<rparr>))"

definition FreeStreamID :: "u32 \<Rightarrow> 'h CEsvga2Accel \<Rightarrow> 'h CEsvga2Accel" where
  "FreeStreamID streamId s =
     (if streamId \<ge> 8 * 4 then s
      else s\<lparr>m_stream_id_mask := m_stream_id_mask s AND NOT (push_bit (unat streamId) 1)\<rparr>)"

definition AllocGMRID :: "'h CEsvga2Accel \<Rightarrow> u32 \<times> 'h CEsvga2Accel" where
  "AllocGMRID s =
     (let num_entries = 2; idx = unat (m_gmr_id_idx s);
          (r, found) = find_bit_in_array64 0 (take (num_entries - idx) (drop idx (m_gmr_id_mask s)));
          s = s\<lparr>m_gmr_id_mask := take idx (m_gmr_id_mask s) @ found\<rparr>
      in if id_failed r then (r, s\<lparr>m_gmr_id_idx := of_nat num_entries\<rparr>)
         else let t = drop_bit 6 r; r = r + push_bit 6 (m_gmr_id_idx s)
              in (r, s\<lparr>m_gmr_id_idx := m_gmr_id_idx s + t\<rparr>))"

definition FreeGMRID :: "u32 \<Rightarrow> 'h CEsvga2Accel \<Rightarrow> 'h CEsvga2Accel" where
  "FreeGMRID gmrId s =
     (let r = drop_bit 6 gmrId
      in if r \<ge> 2 then s
         else let s = s\<lparr>m_gmr_id_mask := clear64 (m_gmr_id_mask s) (unat gmrId)\<rparr>
              in if r < m_gmr_id_idx s then s\<lparr>m_gmr_id_idx := r\<rparr> else s)"

section \<open>The lowest clear bit\<close>

lemma lowest_bit:
  fixes z :: "'a :: len word"
  assumes "z \<noteq> 0"
  obtains n where "n < LENGTH('a)" "z AND - z = push_bit n 1" "bit z n" "\<And>k. k < n \<Longrightarrow> \<not> bit z k"
proof -
  have "\<exists>n. bit z n" using assms by (metis bit_eqI bit_0_eq bot_apply bot_bool_def)
  then obtain n where n: "bit z n" "\<And>k. k < n \<Longrightarrow> \<not> bit z k" using exists_least_iff [of "bit z"] by blast
  define w where "w = drop_bit n z"
  have z: "z = push_bit n w"
  proof (rule bit_eqI)
    fix k show "bit z k \<longleftrightarrow> bit (push_bit n w) k"
      using n(2) [of k] bit_imp_le_length [of z k] by (cases "k < n") (auto simp: w_def bit_push_bit_iff bit_drop_bit_eq)
  qed
  have "odd w" using n(1) by (simp add: w_def bit_iff_odd_drop_bit)
  then have "even (NOT w)" by (simp add: even_not_iff)
  have "- w = NOT w + 1" by (simp add: not_eq_complement)
  also have "\<dots> = NOT w OR 1" using \<open>even (NOT w)\<close> by (simp add: or_one_eq)
  finally have "w AND - w = w AND (NOT w OR 1)" by simp
  also have "\<dots> = w AND 1" by (simp add: bit.conj_disj_distrib)
  also have "\<dots> = 1" using \<open>odd w\<close> by (simp add: and_one_eq odd_iff_mod_2_eq_one)
  finally have "w AND - w = 1" .
  moreover have "- z = push_bit n (- w)" by (simp add: z push_bit_eq_mult)
  ultimately have "z AND - z = push_bit n 1" by (metis z push_bit_and)
  moreover have "n < LENGTH('a)" using n(1) by (rule bit_imp_le_length)
  ultimately show thesis using that n by blast
qed

lemma clear_bit:
  fixes a :: "'a :: len word"
  assumes "NOT a AND (a + 1) \<noteq> 0"
  obtains n where "n < LENGTH('a)" "NOT a AND (a + 1) = push_bit n 1" "\<not> bit a n" "\<And>k. k < n \<Longrightarrow> bit a k"
proof -
  have m: "- NOT a = a + 1" by (simp add: not_eq_complement)
  have "NOT a \<noteq> 0" using assms by auto
  then obtain n where n: "n < LENGTH('a)" "NOT a AND - NOT a = push_bit n 1" "bit (NOT a) n" "\<And>k. k < n \<Longrightarrow> \<not> bit (NOT a) k"
    using lowest_bit by blast
  have "bit a k" if "k < n" for k using n(4) [OF that] n(1) that by (simp add: bit_not_iff)
  then show thesis using that [OF n(1)] n(2,3) m by (simp add: bit_not_iff)
qed

lemma no_clear_bit:
  fixes a :: "'a :: len word"
  assumes "NOT a AND (a + 1) = 0" "k < LENGTH('a)"
  shows "bit a k"
proof (rule ccontr)
  assume "\<not> bit a k"
  then have "NOT a \<noteq> 0" using assms(2) by (metis bit_not_iff bit_0_eq bot_apply bot_bool_def possible_bit_word)
  then obtain n where "NOT a AND - NOT a = push_bit n 1" "n < LENGTH('a)" by (rule lowest_bit)
  moreover have "- NOT a = a + 1" by (simp add: not_eq_complement)
  ultimately show False using assms(1) by (metis push_bit_eq_0_iff exp_eq_0_imp_not_bit bit_push_bit_iff bit_1_0 diff_self_eq_0 le_refl bit_0_eq bot_apply bot_bool_def possible_bit_word)
qed

lemma log_2_32_pow: "n < 32 \<Longrightarrow> log_2_32 (push_bit n 1) = int n"
proof -
  have "list_all (\<lambda>n. log_2_32 (push_bit n 1) = int n) [0..<32]" by code_simp
  then show "n < 32 \<Longrightarrow> ?thesis" by (simp add: list_all_iff)
qed

lemma log_2_64_pow:
  assumes "n < 64"
  shows "log_2_64 (push_bit n 1) = int n"
proof -
  have m: "(0xFFFFFFFF00000000 :: u64) = NOT (mask 32)" by (simp add: mask_eq_exp_minus_1)
  have z: "push_bit n (1 :: u64) AND 0xFFFFFFFF00000000 = (if n < 32 then 0 else push_bit n 1)"
    unfolding m by (rule bit_eqI) (use assms in \<open>auto simp: bit_simps\<close>)
  have nz: "push_bit n (1 :: u64) \<noteq> 0" using assms by (simp add: push_bit_eq_0_iff)
  have l: "list_all (\<lambda>k. 32 OR int k = 32 + int k) [0..<32]" by code_simp
  show ?thesis
  proof (cases "n < 32")
    case True
    have "ucast (push_bit n (1 :: u64)) = (push_bit n 1 :: u32)" by (rule bit_eqI) (use True in \<open>auto simp: bit_simps\<close>)
    then show ?thesis using True z log_2_32_pow [OF True] by (simp add: log_2_64_def)
  next
    case False
    then obtain k where k: "n = 32 + k" "k < 32" using assms by (metis add_less_cancel_left le_Suc_ex not_less numeral_Bit0)
    have "ucast (drop_bit 32 (push_bit n (1 :: u64))) = (push_bit k 1 :: u32)"
      by (rule bit_eqI) (use k in \<open>auto simp: bit_simps\<close>)
    then show ?thesis using False z nz l k log_2_32_pow [OF k(2)] by (simp add: log_2_64_def list_all_iff)
  qed
qed

section \<open>Masks as bit arrays\<close>

definition test64 :: "u64 list \<Rightarrow> nat \<Rightarrow> bool" where
  "test64 m i \<longleftrightarrow> bit (m ! (i div 64)) (i mod 64)"

interpretation bits64: bit_array test64 set64 clear64 "\<lambda>m. 64 * length m"
proof
  fix i j :: nat and m :: "u64 list"
  assume i: "i < 64 * length m"
  have len: "i div 64 < length m" using i by (simp add: less_mult_imp_div_less mult.commute)
  have same: "i div 64 = j div 64 \<Longrightarrow> (i mod 64 = j mod 64) = (j = i)" by (metis div_mult_mod_eq)
  show "test64 (set64 m i) j \<longleftrightarrow> j = i \<or> test64 m j"
    using len same by (cases "i div 64 = j div 64") (auto simp: test64_def set64_def bit_or_iff bit_exp_iff nth_list_update)
  show "test64 (clear64 m i) j \<longleftrightarrow> j \<noteq> i \<and> test64 m j"
    using len same by (cases "i div 64 = j div 64") (auto simp: test64_def clear64_def bit_and_iff bit_not_iff bit_exp_iff nth_list_update)
qed (simp_all add: set64_def clear64_def)

lemma test64_Cons: "test64 (a # as) i \<longleftrightarrow> (if i < 64 then bit a i else test64 as (i - 64))"
proof (cases "i < 64")
  case False
  then obtain k where "i = 64 + k" by (metis le_Suc_ex not_less)
  moreover have "(64 + k) div 64 = Suc (k div 64)" "(64 + k) mod 64 = k mod 64" by simp_all
  ultimately show ?thesis by (simp only: test64_def) simp
qed (simp add: test64_def)

lemma set64_Cons: "set64 (a # as) i = (if i < 64 then (a OR push_bit i 1) # as else a # set64 as (i - 64))"
proof (cases "i < 64")
  case False
  then obtain k where "i = 64 + k" by (metis le_Suc_ex not_less)
  moreover have "(64 + k) div 64 = Suc (k div 64)" "(64 + k) mod 64 = k mod 64" by simp_all
  ultimately show ?thesis by (simp only: set64_def) simp
qed (simp add: set64_def)

lemma find_bit_in_array64_cases:
  obtains (full) "find_bit_in_array64 (int b) as = (- 1, as)" "\<And>i. i < 64 * length as \<Longrightarrow> test64 as i"
  | (found) n where "n < 64 * length as" "find_bit_in_array64 (int b) as = (of_nat (b + n), set64 as n)"
      "\<not> test64 as n" "\<And>k. k < n \<Longrightarrow> test64 as k"
proof (induction as arbitrary: b thesis)
  case Nil
  then show ?case by simp
next
  case (Cons a as)
  show ?case
  proof (cases "NOT a AND (a + 1) = 0")
    case True
    then have a: "\<And>k. k < 64 \<Longrightarrow> bit a k" using no_clear_bit [of a] by simp
    have e: "int b + 64 = int (b + 64)" by simp
    show ?thesis
    proof (rule Cons.IH [of "b + 64"])
      assume "find_bit_in_array64 (int (b + 64)) as = (- 1, as)" "\<And>i. i < 64 * length as \<Longrightarrow> test64 as i"
      then show ?thesis using True a by (intro Cons.prems(1)) (auto simp: Let_def e test64_Cons simp del: of_nat_add)
    next
      fix n assume n: "n < 64 * length as" "find_bit_in_array64 (int (b + 64)) as = (of_nat (b + 64 + n), set64 as n)"
        "\<not> test64 as n" "\<And>k. k < n \<Longrightarrow> test64 as k"
      show ?thesis
      proof (rule Cons.prems(2) [of "64 + n"])
        show "find_bit_in_array64 (int b) (a # as) = (of_nat (b + (64 + n)), set64 (a # as) (64 + n))"
          using True n(2) by (simp add: Let_def e set64_Cons add.assoc del: of_nat_add)
        show "test64 (a # as) k" if "k < 64 + n" for k using that a n(4) [of "k - 64"] by (auto simp: test64_Cons)
      qed (use n in \<open>simp_all add: test64_Cons\<close>)
    qed
  next
    case False
    then obtain n where n: "n < 64" "NOT a AND (a + 1) = push_bit n 1" "\<not> bit a n" "\<And>k. k < n \<Longrightarrow> bit a k"
      by (rule clear_bit) auto
    show ?thesis
    proof (rule Cons.prems(2) [of n])
      have "of_int (int b + log_2_64 (push_bit n 1)) = (of_nat (b + n) :: u32)"
        using log_2_64_pow [OF n(1)] by simp
      then show "find_bit_in_array64 (int b) (a # as) = (of_nat (b + n), set64 (a # as) n)"
        using False n by (simp add: Let_def set64_Cons)
    qed (use n in \<open>auto simp: test64_Cons\<close>)
  qed
qed

text \<open>A search that starts behind full entries.\<close>

lemma mask_search:
  assumes len: "length ms = N" and idx: "i \<le> N" and full: "\<And>k. k < 64 * i \<Longrightarrow> test64 ms k"
  obtains (none) "find_bit_in_array64 0 (take (N - i) (drop i ms)) = (- 1, drop i ms)"
      "\<And>k. k < 64 * N \<Longrightarrow> test64 ms k"
  | (some) n where "64 * i + n < 64 * N" "find_bit_in_array64 0 (take (N - i) (drop i ms)) = (of_nat n, set64 (drop i ms) n)"
      "take i ms @ set64 (drop i ms) n = set64 ms (64 * i + n)"
      "\<not> test64 ms (64 * i + n)" "\<And>k. k < 64 * i + n \<Longrightarrow> test64 ms k"
proof -
  define as where "as = drop i ms"
  have as: "take (N - i) (drop i ms) = as" "ms = take i ms @ as" "length (take i ms) = i" "length as = N - i"
    using len idx by (simp_all add: as_def)
  have shift: "test64 as k = test64 ms (64 * i + k)" if "k < 64 * (N - i)" for k
    using that len idx by (simp add: test64_def as_def)
  have split: "test64 ms k" if "k < 64 * i + m" "\<And>j. j < m \<Longrightarrow> test64 as j" "m \<le> 64 * (N - i)" for k m
  proof (cases "k < 64 * i")
    case False
    then obtain j where "k = 64 * i + j" by (metis le_Suc_ex not_less)
    then show ?thesis using that shift [of j] by simp
  qed (rule full)
  show thesis
  proof (rule find_bit_in_array64_cases [of 0 as])
    assume f: "find_bit_in_array64 (int 0) as = (- 1, as)" "\<And>k. k < 64 * length as \<Longrightarrow> test64 as k"
    have "test64 ms k" if "k < 64 * N" for k
      using that idx as(4) f(2) by (intro split [of k "64 * (N - i)"]) auto
    then show thesis using f(1) as(1) by (intro none) (simp_all add: as_def)
  next
    fix n assume n: "n < 64 * length as" "find_bit_in_array64 (int 0) as = (of_nat (0 + n), set64 as n)"
      "\<not> test64 as n" "\<And>k. k < n \<Longrightarrow> test64 as k"
    have j: "64 * i + n < 64 * N" "n < 64 * (N - i)" using n(1) as(4) idx by simp_all
    have "take i ms @ set64 as n = set64 (take i ms @ as) (64 * i + n)"
      using as(3) n(1) by (simp add: set64_def list_update_append nth_append)
    then show thesis
      using j n as shift [OF j(2)] split [of _ n] by (intro some [of n]) (simp_all add: as_def)
  qed
qed

section \<open>The contract of identifiers\<close>

datatype id_op = IAlloc | IFree nat

text \<open>A client keeps the identifiers it got and gives back some of them, by position.\<close>

fun run_ids ::
  "('s \<Rightarrow> u32 \<times> 's) \<Rightarrow> (u32 \<Rightarrow> 's \<Rightarrow> 's) \<Rightarrow> id_op list \<Rightarrow> 's \<Rightarrow> u32 list \<Rightarrow> 's \<times> u32 list" where
  "run_ids alloc free [] s held = (s, held)"
| "run_ids alloc free (IAlloc # ops) s held =
     (case alloc s of (r, s) \<Rightarrow> run_ids alloc free ops s (if id_failed r then held else r # held))"
| "run_ids alloc free (IFree i # ops) s held =
     (if i < length held
      then run_ids alloc free ops (free (held ! i) s) (take i held @ drop (Suc i) held)
      else run_ids alloc free ops s held)"

text \<open>\<open>ok n\<close>: the state is consistent and \<open>n\<close> more identifiers do not wrap a counter.\<close>

locale id_pool =
  fixes alloc :: "'s \<Rightarrow> u32 \<times> 's"
    and free :: "u32 \<Rightarrow> 's \<Rightarrow> 's"
    and used :: "'s \<Rightarrow> u32 set"
    and valid :: "u32 \<Rightarrow> bool"
    and ok :: "nat \<Rightarrow> 's \<Rightarrow> bool"
  assumes alloc_new: "ok (Suc n) s \<Longrightarrow> alloc s = (r, s') \<Longrightarrow> \<not> id_failed r \<Longrightarrow>
      valid r \<and> r \<notin> used s \<and> used s' = insert r (used s) \<and> ok n s'"
    and alloc_none: "ok (Suc n) s \<Longrightarrow> alloc s = (r, s') \<Longrightarrow> id_failed r \<Longrightarrow> used s' = used s \<and> ok n s'"
    and free_used: "ok n s \<Longrightarrow> valid r \<Longrightarrow>
      used s - {r} \<subseteq> used (free r s) \<and> used (free r s) \<subseteq> used s \<and> ok n (free r s)"
    and ok_less: "ok (Suc n) s \<Longrightarrow> ok n s"
begin

lemma run_ids_distinct:
  assumes "ok (length ops) s" "distinct held" "set held \<subseteq> used s" "\<forall>r \<in> set held. valid r"
    and "run_ids alloc free ops s held = (s', held')"
  shows "distinct held' \<and> set held' \<subseteq> used s' \<and> (\<forall>r \<in> set held'. valid r)"
  using assms
proof (induction ops arbitrary: s held)
  case (Cons op ops)
  have ok: "ok (Suc (length ops)) s" using Cons.prems(1) by simp
  show ?case
  proof (cases op)
    case IAlloc
    obtain r t where r: "alloc s = (r, t)" by fastforce
    then have run: "run_ids alloc free ops t (if id_failed r then held else r # held) = (s', held')"
      using Cons.prems(5) IAlloc by simp
    show ?thesis
    proof (cases "id_failed r")
      case True
      then show ?thesis using alloc_none [OF ok r True] Cons.IH [of t held, OF _ Cons.prems(2)] Cons.prems(3,4) run by auto
    next
      case False
      note new = alloc_new [OF ok r False]
      then have "distinct (r # held)" "set (r # held) \<subseteq> used t" "\<forall>q \<in> set (r # held). valid q"
        using Cons.prems(2,3,4) by auto
      then show ?thesis using Cons.IH [of t "r # held"] new run False unfolding if_not_P [OF False] by blast
    qed
  next
    case (IFree i)
    show ?thesis
    proof (cases "i < length held")
      case True
      define h where "h = take i held @ drop (Suc i) held"
      have "held = take i held @ held ! i # drop (Suc i) held" using True by (rule id_take_nth_drop)
      then have "distinct (take i held @ held ! i # drop (Suc i) held)"
        "set held = set (take i held @ held ! i # drop (Suc i) held)" using Cons.prems(2) by metis+
      then have d: "distinct h" "held ! i \<notin> set h" "set h \<subseteq> set held" "valid (held ! i)"
        using Cons.prems(4) by (auto simp: h_def)
      note f = free_used [OF ok_less [OF ok] d(4)]
      have "set h \<subseteq> used (free (held ! i) s)" using f d(2,3) Cons.prems(3) by blast
      moreover have "\<forall>r \<in> set h. valid r" using Cons.prems(4) d(3) by blast
      ultimately show ?thesis
        using Cons.IH [of "free (held ! i) s" h, OF _ d(1)] f Cons.prems(5) True IFree by (simp add: h_def)
    qed (use Cons.IH [OF ok_less [OF ok] Cons.prems(2,3,4)] Cons.prems(5) IFree in simp)
  qed
qed simp

end

section \<open>The four kinds of identifiers\<close>

lemma small_id [simp]: "n < 2 ^ 31 \<Longrightarrow> \<not> id_failed (of_nat n)" "n < 2 ^ 31 \<Longrightarrow> unat (of_nat n :: u32) = n"
proof -
  assume n: "n < 2 ^ 31"
  show u: "unat (of_nat n :: u32) = n" by (rule unat_of_nat_small) (use n in simp)
  show "\<not> id_failed (of_nat n)" using sint_nonneg_iff [of "of_nat n"] u n by simp
qed

definition surface_used :: "'h CEsvga2Accel \<Rightarrow> u32 set" where
  "surface_used s =
     {r. unat r < 256 \<and> test64 (m_surface_id_mask s) (unat r)} \<union>
     {r. 256 \<le> unat r \<and> unat r < 256 + unat (m_surface_ids_unmanaged s)}"

definition surface_ok :: "nat \<Rightarrow> 'h CEsvga2Accel \<Rightarrow> bool" where
  "surface_ok n s \<longleftrightarrow>
     length (m_surface_id_mask s) = 4 \<and> unat (m_surface_id_idx s) \<le> 4 \<and>
     (\<forall>k < 64 * unat (m_surface_id_idx s). test64 (m_surface_id_mask s) k) \<and>
     unat (m_surface_ids_unmanaged s) + n \<le> 2 ^ 31 - 256"

text \<open>The word arithmetic of a search that found bit \<open>n\<close> behind entry \<open>idx\<close>.\<close>

lemma found_id:
  fixes idx :: u32
  assumes "unat idx \<le> N" "N \<le> 4" "64 * unat idx + n < 64 * N"
  shows "of_nat n + push_bit 6 idx = (of_nat (64 * unat idx + n) :: u32)"
    "unat (idx + drop_bit 6 (of_nat n)) = (64 * unat idx + n) div 64"
proof -
  have n: "n < 256" using assms by linarith
  have "push_bit 6 idx = of_nat (64 * unat idx)" by (simp add: push_bit_eq_mult mult.commute)
  then show "of_nat n + push_bit 6 idx = (of_nat (64 * unat idx + n) :: u32)" by (simp add: add.commute)
  have "unat (drop_bit 6 (of_nat n :: u32)) = n div 64"
    using n by (simp add: drop_bit_eq_div unat_div_distrib unat_of_nat take_bit_nat_eq_self)
  then show "unat (idx + drop_bit 6 (of_nat n)) = (64 * unat idx + n) div 64"
    using assms(1,2) n by (subst unat_add_small) simp_all
qed

lemma found_full:
  assumes "m < 64 * length ms" "\<And>k. k < m \<Longrightarrow> test64 ms k" "k < 64 * (m div 64)"
  shows "test64 (set64 ms m) k"
proof -
  have "k < m" using assms(3) by linarith
  then show ?thesis using assms(1,2) by (simp add: bits64.test_put)
qed

lemma AllocSurfaceID_cases:
  assumes ok: "surface_ok (Suc n) s"
  obtains m where "m < 256" "\<not> test64 (m_surface_id_mask s) m" "fst (AllocSurfaceID s) = of_nat m"
      "snd (AllocSurfaceID s) = s\<lparr>m_surface_id_mask := set64 (m_surface_id_mask s) m, m_surface_id_idx := of_nat (m div 64)\<rparr>"
      "\<And>k. k < m \<Longrightarrow> test64 (m_surface_id_mask s) k"
  | "fst (AllocSurfaceID s) = of_nat (256 + unat (m_surface_ids_unmanaged s))"
      "snd (AllocSurfaceID s) = s\<lparr>m_surface_ids_unmanaged := m_surface_ids_unmanaged s + 1, m_surface_id_idx := 4\<rparr>"
      "\<And>k. k < 256 \<Longrightarrow> test64 (m_surface_id_mask s) k"
proof -
  define i where "i = unat (m_surface_id_idx s)"
  have l: "length (m_surface_id_mask s) = 4" "i \<le> 4" "\<And>k. k < 64 * i \<Longrightarrow> test64 (m_surface_id_mask s) k"
    using ok by (auto simp: surface_ok_def i_def)
  show thesis
  proof (rule mask_search [OF l])
    assume f: "find_bit_in_array64 0 (take (4 - i) (drop i (m_surface_id_mask s))) = (- 1, drop i (m_surface_id_mask s))"
      "\<And>k. k < 64 * 4 \<Longrightarrow> test64 (m_surface_id_mask s) k"
    show thesis using f by (intro that(2)) (simp_all add: AllocSurfaceID_def Let_def flip: i_def)
  next
    fix m assume m: "64 * i + m < 64 * 4" "find_bit_in_array64 0 (take (4 - i) (drop i (m_surface_id_mask s))) =
        (of_nat m, set64 (drop i (m_surface_id_mask s)) m)"
      "take i (m_surface_id_mask s) @ set64 (drop i (m_surface_id_mask s)) m = set64 (m_surface_id_mask s) (64 * i + m)"
      "\<not> test64 (m_surface_id_mask s) (64 * i + m)" "\<And>k. k < 64 * i + m \<Longrightarrow> test64 (m_surface_id_mask s) k"
    note w = found_id [of "m_surface_id_idx s" 4 m, folded i_def, OF l(2) _ m(1)]
    have "m_surface_id_idx s + drop_bit 6 (of_nat m) = of_nat ((64 * i + m) div 64)"
      using w(2) by (metis of_nat_unat ucast_id order_refl)
    then show thesis using m w(1) l(2)
      by (intro that(1) [of "64 * i + m"]) (simp_all add: AllocSurfaceID_def Let_def flip: i_def)
  qed
qed

lemma unat_eq_iff: "unat r = n \<longleftrightarrow> r = of_nat n" if "n < 2 ^ 31" for r :: u32
  using small_id(2) [OF that] by (metis word_unat_eq_iff)

text \<open>Setting and clearing one bit of a mask as an insertion and a removal of an identifier.\<close>

lemma used_set64:
  assumes "m < 64 * length ms" "length ms \<le> 4"
  shows "{r :: u32. unat r < 64 * length ms \<and> test64 (set64 ms m) (unat r)} =
    insert (of_nat m) {r. unat r < 64 * length ms \<and> test64 ms (unat r)}"
proof -
  have "m < 2 ^ 31" using assms by simp
  then show ?thesis using assms(1) unat_eq_iff [of m] by (auto simp: bits64.test_put)
qed

lemma used_clear64:
  assumes "unat r < 64 * length ms"
  shows "{q :: u32. unat q < 64 * length ms \<and> test64 (clear64 ms (unat r)) (unat q)} =
    {q. unat q < 64 * length ms \<and> test64 ms (unat q)} - {r}"
  using assms by (auto simp: bits64.test_clear word_unat_eq_iff)

lemma length_set64 [simp]: "length (set64 ms m) = length ms" "length (clear64 ms m) = length ms"
  by (simp_all add: set64_def clear64_def)

lemma unat_entry: "unat (drop_bit 6 r) = unat r div 64" for r :: u32
  by (simp add: drop_bit_eq_div unat_div_distrib)

lemma entry_less: "drop_bit 6 r < i \<longleftrightarrow> unat r div 64 < unat i" for r :: u32
  unfolding word_less_nat_alt unat_entry ..

text \<open>After clearing a bit the search index is still behind full entries.\<close>

lemma cleared_full:
  fixes r i :: u32
  assumes "unat r < 64 * length ms" "\<And>k. k < 64 * unat i \<Longrightarrow> test64 ms k"
    and "k < 64 * unat (if drop_bit 6 r < i then drop_bit 6 r else i)"
  shows "test64 (clear64 ms (unat r)) k"
proof -
  have "k < 64 * unat i \<and> k \<noteq> unat r"
  proof (cases "drop_bit 6 r < i")
    case True
    then have "unat r div 64 < unat i" by (simp add: entry_less)
    then show ?thesis using assms(3) True by (auto simp: unat_entry entry_less)
  next
    case False
    then have "unat i \<le> unat r div 64" by (simp add: entry_less)
    then show ?thesis using assms(3) False by auto
  qed
  then show ?thesis using assms(1,2) by (simp add: bits64.test_clear)
qed

interpretation surface_ids: id_pool "AllocSurfaceID :: 'h CEsvga2Accel \<Rightarrow> _" FreeSurfaceID surface_used "\<lambda>_. True" surface_ok
proof
  fix n s r and s' :: "'h CEsvga2Accel"
  assume ok: "surface_ok (Suc n) s" and a: "AllocSurfaceID s = (r, s')"
  have l: "length (m_surface_id_mask s) = 4" "unat (m_surface_ids_unmanaged s) + Suc n \<le> 2 ^ 31 - 256"
    using ok by (auto simp: surface_ok_def)
  have "\<not> id_failed r \<and> r \<notin> surface_used s \<and> surface_used s' = insert r (surface_used s) \<and> surface_ok n s'"
  proof (rule AllocSurfaceID_cases [OF ok])
    fix m assume m: "m < 256" "\<not> test64 (m_surface_id_mask s) m" "fst (AllocSurfaceID s) = of_nat m"
      "snd (AllocSurfaceID s) = s\<lparr>m_surface_id_mask := set64 (m_surface_id_mask s) m, m_surface_id_idx := of_nat (m div 64)\<rparr>"
      "\<And>k. k < m \<Longrightarrow> test64 (m_surface_id_mask s) k"
    have "surface_used s' = insert r (surface_used s)"
      using used_set64 [of m "m_surface_id_mask s"] m(1,3,4) l(1) a by (simp add: surface_used_def)
    moreover have "surface_ok n s'"
      using m(1,4) l a found_full [of m "m_surface_id_mask s"] m(5) by (simp add: surface_ok_def)
    ultimately show ?thesis using m a by (simp add: surface_used_def)
  next
    assume m: "fst (AllocSurfaceID s) = of_nat (256 + unat (m_surface_ids_unmanaged s))"
      "snd (AllocSurfaceID s) = s\<lparr>m_surface_ids_unmanaged := m_surface_ids_unmanaged s + 1, m_surface_id_idx := 4\<rparr>"
      "\<And>k. k < 256 \<Longrightarrow> test64 (m_surface_id_mask s) k"
    define u where "u = unat (m_surface_ids_unmanaged s)"
    have u: "256 + u < 2 ^ 31" using l(2) by (simp add: u_def)
    have u1: "unat (m_surface_ids_unmanaged s + 1) = Suc u"
      unfolding u_def using u by (subst unat_add_small) (simp_all add: u_def)
    have r: "r = of_nat (256 + u)" using m(1) a by (simp add: u_def)
    then have ur: "unat r = 256 + u" using small_id(2) [OF u] by simp
    have s': "s' = s\<lparr>m_surface_ids_unmanaged := m_surface_ids_unmanaged s + 1, m_surface_id_idx := 4\<rparr>" using m(2) a by simp
    have "256 \<le> unat q \<and> unat q < 256 + Suc u \<longleftrightarrow> q = r \<or> 256 \<le> unat q \<and> unat q < 256 + u" for q
      using ur word_unat_eq_iff [of q r] by auto
    then have "surface_used s' = insert r (surface_used s)"
      unfolding surface_used_def s' by (auto simp: u1 simp flip: u_def)
    moreover have "surface_ok n s'" using l m(3) u1 unfolding surface_ok_def s' by (simp flip: u_def)
    moreover have "r \<notin> surface_used s" using ur by (simp add: surface_used_def flip: u_def)
    moreover have "\<not> id_failed r" unfolding r by (rule small_id(1) [OF u])
    ultimately show ?thesis by simp
  qed
  then show "True \<and> r \<notin> surface_used s \<and> surface_used s' = insert r (surface_used s) \<and> surface_ok n s'"
    "id_failed r \<Longrightarrow> surface_used s' = surface_used s \<and> surface_ok n s'" by simp_all
next
  fix n r and s :: "'h CEsvga2Accel"
  assume ok: "surface_ok n s"
  have l: "length (m_surface_id_mask s) = 4" "unat (m_surface_id_idx s) \<le> 4"
    "\<And>k. k < 64 * unat (m_surface_id_idx s) \<Longrightarrow> test64 (m_surface_id_mask s) k" using ok by (auto simp: surface_ok_def)
  show "surface_used s - {r} \<subseteq> surface_used (FreeSurfaceID r s) \<and> surface_used (FreeSurfaceID r s) \<subseteq> surface_used s \<and>
      surface_ok n (FreeSurfaceID r s)"
  proof (cases "drop_bit 6 r \<ge> 4")
    case False
    then have r: "unat r < 64 * length (m_surface_id_mask s)" "unat r div 64 < 4"
      using l(1) by (simp_all add: not_le entry_less)
    let ?i = "if drop_bit 6 r < m_surface_id_idx s then drop_bit 6 r else m_surface_id_idx s"
    have f: "FreeSurfaceID r s = s\<lparr>m_surface_id_mask := clear64 (m_surface_id_mask s) (unat r), m_surface_id_idx := ?i\<rparr>"
      using False by (simp add: FreeSurfaceID_def Let_def)
    have "unat ?i \<le> 4" using l(2) r(2) by (simp add: unat_entry)
    then have "surface_ok n (FreeSurfaceID r s)"
      using ok cleared_full [OF r(1) l(3)] unfolding f surface_ok_def by simp
    moreover have "surface_used (FreeSurfaceID r s) \<subseteq> surface_used s" "surface_used s - {r} \<subseteq> surface_used (FreeSurfaceID r s)"
      using used_clear64 [OF r(1)] l(1) unfolding f surface_used_def by auto
    ultimately show ?thesis by simp
  qed (use ok in \<open>auto simp: FreeSurfaceID_def Let_def\<close>)
qed (auto simp: surface_ok_def)

text \<open>Guest memory regions: identifiers from \<open>lim\<close> on are masked out at start-up.\<close>

definition gmr_used :: "'h CEsvga2Accel \<Rightarrow> u32 set" where
  "gmr_used s = {r. unat r < 128 \<and> test64 (m_gmr_id_mask s) (unat r)}"

definition gmr_ok :: "nat \<Rightarrow> nat \<Rightarrow> 'h CEsvga2Accel \<Rightarrow> bool" where
  "gmr_ok lim n s \<longleftrightarrow>
     length (m_gmr_id_mask s) = 2 \<and> unat (m_gmr_id_idx s) \<le> 2 \<and>
     (\<forall>k < 64 * unat (m_gmr_id_idx s). test64 (m_gmr_id_mask s) k) \<and>
     (\<forall>k. lim \<le> k \<and> k < 128 \<longrightarrow> test64 (m_gmr_id_mask s) k)"

lemma AllocGMRID_cases:
  assumes ok: "gmr_ok lim n s"
  obtains m where "m < 128" "\<not> test64 (m_gmr_id_mask s) m" "fst (AllocGMRID s) = of_nat m"
      "snd (AllocGMRID s) = s\<lparr>m_gmr_id_mask := set64 (m_gmr_id_mask s) m, m_gmr_id_idx := of_nat (m div 64)\<rparr>"
      "\<And>k. k < m \<Longrightarrow> test64 (m_gmr_id_mask s) k"
  | "fst (AllocGMRID s) = - 1" "snd (AllocGMRID s) = s\<lparr>m_gmr_id_idx := 2\<rparr>"
      "\<And>k. k < 128 \<Longrightarrow> test64 (m_gmr_id_mask s) k"
proof -
  define i where "i = unat (m_gmr_id_idx s)"
  have l: "length (m_gmr_id_mask s) = 2" "i \<le> 2" "\<And>k. k < 64 * i \<Longrightarrow> test64 (m_gmr_id_mask s) k"
    using ok by (auto simp: gmr_ok_def i_def)
  show thesis
  proof (rule mask_search [OF l])
    assume f: "find_bit_in_array64 0 (take (2 - i) (drop i (m_gmr_id_mask s))) = (- 1, drop i (m_gmr_id_mask s))"
      "\<And>k. k < 64 * 2 \<Longrightarrow> test64 (m_gmr_id_mask s) k"
    show thesis using f by (intro that(2)) (simp_all add: AllocGMRID_def Let_def flip: i_def)
  next
    fix m assume m: "64 * i + m < 64 * 2" "find_bit_in_array64 0 (take (2 - i) (drop i (m_gmr_id_mask s))) =
        (of_nat m, set64 (drop i (m_gmr_id_mask s)) m)"
      "take i (m_gmr_id_mask s) @ set64 (drop i (m_gmr_id_mask s)) m = set64 (m_gmr_id_mask s) (64 * i + m)"
      "\<not> test64 (m_gmr_id_mask s) (64 * i + m)" "\<And>k. k < 64 * i + m \<Longrightarrow> test64 (m_gmr_id_mask s) k"
    note w = found_id [of "m_gmr_id_idx s" 2 m, folded i_def, OF l(2) _ m(1)]
    have "m_gmr_id_idx s + drop_bit 6 (of_nat m) = of_nat ((64 * i + m) div 64)"
      using w(2) by (metis of_nat_unat ucast_id numeral_le_iff semiring_norm(68,69,71) one_le_numeral)
    then show thesis using m w(1) l(2)
      by (intro that(1) [of "64 * i + m"]) (simp_all add: AllocGMRID_def Let_def flip: i_def)
  qed
qed

interpretation gmr_ids: id_pool "AllocGMRID :: 'h CEsvga2Accel \<Rightarrow> _" FreeGMRID gmr_used "\<lambda>r. unat r < lim" "gmr_ok lim" for lim
proof
  fix n s r and s' :: "'h CEsvga2Accel"
  assume ok: "gmr_ok lim (Suc n) s" and a: "AllocGMRID s = (r, s')"
  have l: "length (m_gmr_id_mask s) = 2" "\<And>k. lim \<le> k \<Longrightarrow> k < 128 \<Longrightarrow> test64 (m_gmr_id_mask s) k"
    using ok by (auto simp: gmr_ok_def)
  have "if id_failed r then gmr_used s' = gmr_used s \<and> gmr_ok lim n s'
    else unat r < lim \<and> r \<notin> gmr_used s \<and> gmr_used s' = insert r (gmr_used s) \<and> gmr_ok lim n s'"
  proof (rule AllocGMRID_cases [OF ok])
    fix m assume m: "m < 128" "\<not> test64 (m_gmr_id_mask s) m" "fst (AllocGMRID s) = of_nat m"
      "snd (AllocGMRID s) = s\<lparr>m_gmr_id_mask := set64 (m_gmr_id_mask s) m, m_gmr_id_idx := of_nat (m div 64)\<rparr>"
      "\<And>k. k < m \<Longrightarrow> test64 (m_gmr_id_mask s) k"
    have "m < lim" using m(1,2) l(2) [of m] by force
    moreover have "gmr_used s' = insert r (gmr_used s)"
      using used_set64 [of m "m_gmr_id_mask s"] m(1,3,4) l(1) a by (simp add: gmr_used_def)
    moreover have "gmr_ok lim n s'"
      using m(1,4) l a found_full [of m "m_gmr_id_mask s"] m(5) by (simp add: gmr_ok_def bits64.test_put)
    ultimately show ?thesis using m a by (simp add: gmr_used_def)
  qed (use ok a l(1) in \<open>simp add: gmr_ok_def gmr_used_def\<close>)
  then show "\<not> id_failed r \<Longrightarrow> unat r < lim \<and> r \<notin> gmr_used s \<and> gmr_used s' = insert r (gmr_used s) \<and> gmr_ok lim n s'"
    "id_failed r \<Longrightarrow> gmr_used s' = gmr_used s \<and> gmr_ok lim n s'" by simp_all
next
  fix n and r :: u32 and s :: "'h CEsvga2Accel"
  assume ok: "gmr_ok lim n s" and lim: "unat r < lim"
  have l: "length (m_gmr_id_mask s) = 2" "unat (m_gmr_id_idx s) \<le> 2"
    "\<And>k. k < 64 * unat (m_gmr_id_idx s) \<Longrightarrow> test64 (m_gmr_id_mask s) k" using ok by (auto simp: gmr_ok_def)
  show "gmr_used s - {r} \<subseteq> gmr_used (FreeGMRID r s) \<and> gmr_used (FreeGMRID r s) \<subseteq> gmr_used s \<and>
      gmr_ok lim n (FreeGMRID r s)"
  proof (cases "drop_bit 6 r \<ge> 2")
    case False
    then have r: "unat r < 64 * length (m_gmr_id_mask s)" "unat r div 64 < 2"
      using l(1) by (simp_all add: not_le entry_less)
    let ?i = "if drop_bit 6 r < m_gmr_id_idx s then drop_bit 6 r else m_gmr_id_idx s"
    have f: "FreeGMRID r s = s\<lparr>m_gmr_id_mask := clear64 (m_gmr_id_mask s) (unat r), m_gmr_id_idx := ?i\<rparr>"
      using False by (simp add: FreeGMRID_def Let_def)
    have "unat ?i \<le> 2" using l(2) r(2) by (simp add: unat_entry)
    then have "gmr_ok lim n (FreeGMRID r s)"
      using ok lim r(1) cleared_full [OF r(1) l(3)] unfolding f gmr_ok_def by (simp add: bits64.test_clear)
    moreover have "gmr_used (FreeGMRID r s) \<subseteq> gmr_used s" "gmr_used s - {r} \<subseteq> gmr_used (FreeGMRID r s)"
      using used_clear64 [OF r(1)] l(1) unfolding f gmr_used_def by auto
    ultimately show ?thesis by simp
  qed (use ok in \<open>auto simp: FreeGMRID_def Let_def\<close>)
qed (auto simp: gmr_ok_def)

text \<open>Contexts: one entry and a counter.\<close>

definition context_used :: "'h CEsvga2Accel \<Rightarrow> u32 set" where
  "context_used s =
     {r. unat r < 64 \<and> bit (m_context_id_mask s) (unat r)} \<union>
     {r. 64 \<le> unat r \<and> unat r < 64 + unat (m_context_ids_unmanaged s)}"

definition context_ok :: "nat \<Rightarrow> 'h CEsvga2Accel \<Rightarrow> bool" where
  "context_ok n s \<longleftrightarrow> unat (m_context_ids_unmanaged s) + n \<le> 2 ^ 31 - 64"

interpretation context_ids: id_pool "AllocContextID :: 'h CEsvga2Accel \<Rightarrow> _" FreeContextID context_used "\<lambda>_. True" context_ok
proof
  fix n s r and s' :: "'h CEsvga2Accel"
  assume ok: "context_ok (Suc n) s" and a: "AllocContextID s = (r, s')"
  have "\<not> id_failed r \<and> r \<notin> context_used s \<and> context_used s' = insert r (context_used s) \<and> context_ok n s'"
  proof (rule find_bit_in_array64_cases [of 0 "[m_context_id_mask s]"])
    assume f: "find_bit_in_array64 (int 0) [m_context_id_mask s] = (- 1, [m_context_id_mask s])"
    define u where "u = unat (m_context_ids_unmanaged s)"
    have u: "64 + u < 2 ^ 31" using ok by (simp add: u_def context_ok_def)
    have u1: "unat (m_context_ids_unmanaged s + 1) = Suc u"
      unfolding u_def using u by (subst unat_add_small) (simp_all add: u_def)
    have r: "r = of_nat (64 + u)" and s': "s' = s\<lparr>m_context_ids_unmanaged := m_context_ids_unmanaged s + 1\<rparr>"
      using f a by (simp_all add: AllocContextID_def Let_def u_def)
    have ur: "unat r = 64 + u" unfolding r by (rule small_id(2) [OF u])
    have "64 \<le> unat q \<and> unat q < 64 + Suc u \<longleftrightarrow> q = r \<or> 64 \<le> unat q \<and> unat q < 64 + u" for q
      using ur word_unat_eq_iff [of q r] by auto
    then have "context_used s' = insert r (context_used s)"
      unfolding context_used_def s' by (auto simp: u1 simp flip: u_def)
    moreover have "context_ok n s'" using ok u1 unfolding context_ok_def s' by (simp flip: u_def)
    moreover have "r \<notin> context_used s" using ur by (simp add: context_used_def flip: u_def)
    moreover have "\<not> id_failed r" unfolding r by (rule small_id(1) [OF u])
    ultimately show ?thesis by simp
  next
    fix m assume m: "m < 64 * length [m_context_id_mask s]" "\<not> test64 [m_context_id_mask s] m"
      "find_bit_in_array64 (int 0) [m_context_id_mask s] = (of_nat (0 + m), set64 [m_context_id_mask s] m)"
    then have s': "r = of_nat m" "s' = s\<lparr>m_context_id_mask := m_context_id_mask s OR push_bit m 1\<rparr>"
      using a by (simp_all add: AllocContextID_def Let_def set64_Cons)
    moreover have ur: "unat r = m" using m(1) s'(1) by simp
    moreover have "bit (m_context_id_mask s OR push_bit m 1) (unat q) \<longleftrightarrow> q = r \<or> bit (m_context_id_mask s) (unat q)"
      if "unat q < 64" for q :: u32
      using that ur word_unat_eq_iff [of q r] by (auto simp: bit_or_iff bit_exp_iff)
    ultimately show ?thesis
      using m(1,2) ok by (auto simp: context_used_def context_ok_def test64_Cons bit_or_iff bit_exp_iff)
  qed
  then show "True \<and> r \<notin> context_used s \<and> context_used s' = insert r (context_used s) \<and> context_ok n s'"
    "id_failed r \<Longrightarrow> context_used s' = context_used s \<and> context_ok n s'" by simp_all
next
  fix n and r :: u32 and s :: "'h CEsvga2Accel"
  assume "context_ok n s"
  moreover have "unat r < 64" if "\<not> 64 \<le> r" using that by (simp add: word_le_nat_alt)
  moreover have "bit (m_context_id_mask s AND NOT (push_bit (unat r) 1)) (unat q) \<longleftrightarrow> q \<noteq> r \<and> bit (m_context_id_mask s) (unat q)"
    if "unat q < 64" for q :: u32
    using that word_unat_eq_iff [of q r] by (auto simp: bit_and_iff bit_not_iff bit_exp_iff)
  ultimately show "context_used s - {r} \<subseteq> context_used (FreeContextID r s) \<and> context_used (FreeContextID r s) \<subseteq> context_used s \<and>
      context_ok n (FreeContextID r s)"
    by (auto simp: context_used_def context_ok_def FreeContextID_def)
qed (auto simp: context_ok_def)

text \<open>Video streams: one entry of 32 bits, and no identifier when it is full.\<close>

definition stream_used :: "'h CEsvga2Accel \<Rightarrow> u32 set" where
  "stream_used s = {r. unat r < 32 \<and> bit (m_stream_id_mask s) (unat r)}"

interpretation stream_ids: id_pool "AllocStreamID :: 'h CEsvga2Accel \<Rightarrow> _" FreeStreamID stream_used "\<lambda>r. unat r < 32" "\<lambda>_ _. True"
proof
  fix n :: nat and s r and s' :: "'h CEsvga2Accel"
  assume a: "AllocStreamID s = (r, s')"
  let ?m = "m_stream_id_mask s"
  have "if id_failed r then stream_used s' = stream_used s
    else unat r < 32 \<and> r \<notin> stream_used s \<and> stream_used s' = insert r (stream_used s)"
  proof (cases "NOT ?m AND (?m + 1) = 0")
    case True
    then have "r = - 1" "s' = s" using a by (simp_all add: AllocStreamID_def Let_def)
    then show ?thesis by simp
  next
    case False
    then obtain m where m: "m < 32" "NOT ?m AND (?m + 1) = push_bit m 1" "\<not> bit ?m m" using clear_bit [OF False] by auto
    have r: "r = of_nat m" and s': "s' = s\<lparr>m_stream_id_mask := ?m OR push_bit m 1\<rparr>"
      using a False m(2) log_2_32_pow [OF m(1)] by (simp_all add: AllocStreamID_def Let_def)
    have ur: "unat r = m" using m(1) r by simp
    have "bit (?m OR push_bit m 1) (unat q) \<longleftrightarrow> q = r \<or> bit ?m (unat q)" if "unat q < 32" for q :: u32
      using that ur word_unat_eq_iff [of q r] by (auto simp: bit_or_iff bit_exp_iff)
    then have "stream_used s' = insert r (stream_used s)" using ur m(1) unfolding stream_used_def s' by auto
    moreover have "\<not> id_failed r" unfolding r by (rule small_id(1)) (use m(1) in simp)
    ultimately show ?thesis using ur m by (simp add: stream_used_def)
  qed
  then show "\<not> id_failed r \<Longrightarrow> unat r < 32 \<and> r \<notin> stream_used s \<and> stream_used s' = insert r (stream_used s) \<and> True"
    "id_failed r \<Longrightarrow> stream_used s' = stream_used s \<and> True" by simp_all
next
  fix r :: u32 and s :: "'h CEsvga2Accel"
  assume "unat r < 32"
  moreover have "bit (m_stream_id_mask s AND NOT (push_bit (unat r) 1)) (unat q) \<longleftrightarrow> q \<noteq> r \<and> bit (m_stream_id_mask s) (unat q)"
    if "unat q < 32" for q :: u32
    using that word_unat_eq_iff [of q r] by (auto simp: bit_and_iff bit_not_iff bit_exp_iff)
  ultimately show "stream_used s - {r} \<subseteq> stream_used (FreeStreamID r s) \<and> stream_used (FreeStreamID r s) \<subseteq> stream_used s \<and> True"
    by (auto simp: stream_used_def FreeStreamID_def)
qed auto

section \<open>Masking out a range\<close>

lemma test_fold_set64:
  "\<forall>i \<in> set is. i < 64 * length m \<Longrightarrow> test64 (fold (\<lambda>i m. set64 m i) is m) j \<longleftrightarrow> j \<in> set is \<or> test64 m j"
  by (induction "is" arbitrary: m) (auto simp: bits64.test_put)

lemma length_fold_set64 [simp]: "length (fold (\<lambda>i m. set64 m i) is m) = length m"
  by (induction "is" arbitrary: m) simp_all

lemma length_fold_ones [simp]: "length (fold (\<lambda>i m. m[i := - 1]) is m) = length m"
  by (induction "is" arbitrary: m) simp_all

lemma test_fold_ones:
  "\<forall>i \<in> set is. i < length m \<Longrightarrow>
   test64 (fold (\<lambda>i m. m[i := - 1]) is m) j \<longleftrightarrow> j div 64 \<in> set is \<or> test64 m j"
proof (induction "is" arbitrary: m)
  case (Cons i "is")
  have "test64 (m[i := - 1]) j \<longleftrightarrow> j div 64 = i \<or> test64 m j"
    using Cons.prems by (auto simp: test64_def nth_list_update)
  then show ?case using Cons.IH [of "m[i := - 1]"] Cons.prems by auto
qed simp

lemma mask_array64_iff:
  assumes "mask_end \<le> 64 * length m"
  shows "test64 (mask_array64 m mask_start mask_end) j \<longleftrightarrow> mask_start \<le> j \<and> j < mask_end \<or> test64 m j"
proof -
  define A B where "A = (mask_start + 63) div 64" and "B = mask_end div 64"
  define c where "c = j div 64"
  have b: "mask_start \<le> A * 64" "A * 64 < mask_start + 64" "B * 64 \<le> mask_end" "mask_end < B * 64 + 64"
    "c * 64 \<le> j" "j < c * 64 + 64" "B \<le> length m"
    using assms unfolding A_def B_def c_def by linarith+
  define past where "past = (if mask_end \<ge> A * 64 then A * 64 else mask_end)"
  define m1 where "m1 = fold (\<lambda>i m. set64 m i) [mask_start..<past] m"
  define m2 where "m2 = (if A < B then fold (\<lambda>i m. m[i := - 1]) [A..<B] m1 else m1)"
  have "mask_array64 m mask_start mask_end = fold (\<lambda>i m. set64 m i) [max (B * 64) past..<mask_end] m2"
    by (simp add: mask_array64_def Let_def m2_def m1_def past_def A_def B_def)
  moreover have "test64 m1 j \<longleftrightarrow> mask_start \<le> j \<and> j < past \<or> test64 m j"
    unfolding m1_def using assms by (subst test_fold_set64) (auto simp: past_def)
  moreover have "test64 m2 j \<longleftrightarrow> A < B \<and> A \<le> c \<and> c < B \<or> test64 m1 j"
    using b(7) test_fold_ones [of "[A..<B]" m1 j] by (auto simp: m2_def m1_def c_def)
  moreover have "length m2 = length m" by (simp add: m2_def m1_def)
  ultimately have "test64 (mask_array64 m mask_start mask_end) j \<longleftrightarrow>
      max (B * 64) past \<le> j \<and> j < mask_end \<or> A < B \<and> A \<le> c \<and> c < B \<or> mask_start \<le> j \<and> j < past \<or> test64 m j"
    using assms test_fold_set64 [of "[max (B * 64) past..<mask_end]" m2 j] by auto
  also have "\<dots> \<longleftrightarrow> mask_start \<le> j \<and> j < mask_end \<or> test64 m j"
    using b(1-6) by (auto simp: past_def max_def)
  finally show ?thesis .
qed

section \<open>Properties\<close>

text \<open>The object as the kernel allocates it, zero-filled, after \<open>init\<close>.\<close>

definition new_accel :: "'h SVGADevice \<Rightarrow> 'h CEsvga2Accel" where
  "new_accel device = Accel_init
     \<lparr>m_framebuffer = True, m_svga = device, vram_map = None, m_allocator = None, m_updating_ga = None,
      options_ac = 0, bHaveSVGA3D = True, bHaveScreenObject = True,
      m_surface_id_mask = replicate 4 0, m_context_id_mask = 0, m_gmr_id_mask = replicate 2 0,
      m_surface_ids_unmanaged = 0, m_context_ids_unmanaged = 0, m_surface_id_idx = 0, m_gmr_id_idx = 0,
      m_master_surface_retain_count = 0, m_master_surface_id = 0, m_primary_screen = (0, 0),
      m_present_tracker = \<lparr>counter = 0, fences = [0, 0]\<rparr>, m_stream_id_mask = 0\<rparr>"

lemma new_accel_ok: "n \<le> 2 ^ 31 - 256 \<Longrightarrow> surface_ok n (new_accel d)" "n \<le> 2 ^ 31 - 64 \<Longrightarrow> context_ok n (new_accel d)"
  by (simp_all add: surface_ok_def context_ok_def new_accel_def Accel_init_def initPrimaryScreen_def)

text \<open>
  C20.  As long as fewer than \<open>2 ^ 31 - 256\<close> surface identifiers are requested, no two surfaces
  that are alive at the same time have the same identifier, in whatever order identifiers are
  allocated and freed, also when the 256 managed identifiers are exhausted.
\<close>

theorem surface_ids_distinct:
  fixes s :: "'h CEsvga2Accel"
  assumes "surface_ok (length ops) s" "run_ids AllocSurfaceID FreeSurfaceID ops s [] = (s', held)"
  shows "distinct held \<and> set held \<subseteq> surface_used s'"
  using surface_ids.run_ids_distinct [OF assms(1) _ _ _ assms(2)] by simp

theorem surface_ids_distinct_witness:
  "case run_ids AllocSurfaceID FreeSurfaceID [IAlloc, IAlloc, IFree 0, IAlloc] (new_accel (demo_device 1220 1200)) [] of
     (s', held) \<Rightarrow> distinct held"
proof -
  obtain s' held where
    r: "run_ids AllocSurfaceID FreeSurfaceID [IAlloc, IAlloc, IFree 0, IAlloc] (new_accel (demo_device 1220 1200)) [] = (s', held)"
    by (rule prod.exhaust)
  show ?thesis using surface_ids_distinct [OF new_accel_ok(1) r] unfolding r by simp
qed

text \<open>
  C21.  Once the identifiers from \<open>getMaxGMRIDs()\<close> on are masked out, as \<open>start\<close> does, every
  guest memory region gets an identifier below that limit, and no two live regions share one.
\<close>

theorem gmr_ids_bounded:
  fixes s :: "'h CEsvga2Accel"
  assumes "m_gmr_id_mask s = mask_array64 (replicate 2 0) lim 128" "m_gmr_id_idx s = 0"
    and "run_ids AllocGMRID FreeGMRID ops s [] = (s', held)"
  shows "distinct held \<and> (\<forall>r \<in> set held. unat r < lim) \<and> set held \<subseteq> gmr_used s'"
proof -
  have "test64 (mask_array64 (replicate 2 0) lim 128) k" if "lim \<le> k" "k < 128" for k
    using that mask_array64_iff [of 128 "replicate 2 0"] by simp
  moreover have "length (mask_array64 (replicate 2 0) lim 128) = 2" by (simp add: mask_array64_def Let_def)
  ultimately have "gmr_ok lim (length ops) s" using assms(1,2) by (simp add: gmr_ok_def)
  from gmr_ids.run_ids_distinct [OF this _ _ _ assms(3)] show ?thesis by simp
qed

theorem gmr_ids_bounded_witness:
  "case run_ids AllocGMRID FreeGMRID [IAlloc, IAlloc, IAlloc]
      ((new_accel (demo_device 1220 1200))\<lparr>m_gmr_id_mask := mask_array64 (replicate 2 0) 2 128\<rparr>) [] of
     (s', held) \<Rightarrow> distinct held \<and> list_all (\<lambda>r. unat r < 2) held"
proof -
  let ?s = "(new_accel (demo_device 1220 1200))\<lparr>m_gmr_id_mask := mask_array64 (replicate 2 0) 2 128\<rparr>"
  obtain s' held where r: "run_ids AllocGMRID FreeGMRID [IAlloc, IAlloc, IAlloc] ?s [] = (s', held)" by (rule prod.exhaust)
  have "m_gmr_id_idx ?s = 0" by (simp add: new_accel_def Accel_init_def initPrimaryScreen_def)
  then show ?thesis using gmr_ids_bounded [OF _ _ r, of 2] unfolding r by (simp add: list_all_iff)
qed

text \<open>
  Context identifiers, of which 64 are managed, and stream identifiers, of which there are
  32, are never shared by two live holders; stream identifiers stay below 32.
\<close>

lemma context_and_stream_ids_distinct:
  fixes s :: "'h CEsvga2Accel"
  assumes "context_ok (length ops) s" "run_ids AllocContextID FreeContextID ops s [] = (s', cids)"
    and "run_ids AllocStreamID FreeStreamID ops s [] = (s'', streams)"
  shows "distinct cids \<and> distinct streams \<and> (\<forall>r \<in> set streams. unat r < 32)"
  using context_ids.run_ids_distinct [OF assms(1) _ _ _ assms(2)] stream_ids.run_ids_distinct [OF _ _ _ _ assms(3)] by simp

text \<open>
  \<open>find_bit_in_array64\<close> returns the position of the lowest clear bit and marks exactly that
  bit, or returns -1 and changes nothing when every bit is set: the search by \<open>~x & (x + 1)\<close>
  and the shift cascade of \<open>log_2_64\<close> are exact.
\<close>

lemma find_bit_lowest:
  assumes "find_bit_in_array64 0 ms = (r, ms')" "length ms \<le> 4"
  shows "if r = - 1 then ms' = ms \<and> (\<forall>k < 64 * length ms. test64 ms k)
    else unat r < 64 * length ms \<and> \<not> test64 ms (unat r) \<and> (\<forall>k < unat r. test64 ms k) \<and>
      (\<forall>k. test64 ms' k \<longleftrightarrow> k = unat r \<or> test64 ms k)"
proof (rule find_bit_in_array64_cases [of 0 ms])
  fix n assume n: "n < 64 * length ms" "find_bit_in_array64 (int 0) ms = (of_nat (0 + n), set64 ms n)"
    "\<not> test64 ms n" "\<And>k. k < n \<Longrightarrow> test64 ms k"
  have u: "unat r = n" "\<not> id_failed r" using n(1,2) assms by auto
  then have "r \<noteq> - 1" by auto
  then show ?thesis using n u assms(1) by (simp add: bits64.test_put)
qed (use assms in auto)

end
