(* ===== verification/Accel_Ops.thy ===== *)
theory Accel_Ops
  imports Accel_Ids
begin

text \<open>
  The operations of \<open>CEsvga2Accel\<close> (\<open>src/AC/CEsvga2Accel.cpp\<close>) that talk to the device: the 2D
  methods, the methods for surfaces and contexts, the screen methods, video, and the shared
  master surface.  A pointer argument that may be null is an option; the rectangles of a region
  are an array in memory.  \<open>None\<close> as the result of an operation is a wait that never ends.
\<close>

section \<open>Regions\<close>

text \<open>The fields of \<open>IOAccelBounds\<close> are signed 16-bit integers.\<close>

record IOAccelBounds =
  bd_x :: u16
  bd_y :: u16
  bd_w :: u16
  bd_h :: u16

record IOAccelDeviceRegion =
  rg_num_rects :: u32
  rg_bounds :: IOAccelBounds
  rg_rect :: "nat \<Rightarrow> IOAccelBounds"

abbreviation int16 :: "u16 \<Rightarrow> u32" where "int16 \<equiv> scast"

record ExtraInfo =
  mem_offset_in_gmr :: u64
  mem_pitch :: u64
  srcDeltaX :: u32
  srcDeltaY :: u32
  dstDeltaX :: u32
  dstDeltaY :: u32
  mem_gmr_id :: u32

record ExtraInfoEx =
  mem_offset_in_gmr_ex :: u64
  mem_pitch_ex :: u64
  mem_limit_ex :: u64
  mem_gmr_id_ex :: u32
  suffix_flags_ex :: u32

text \<open>\<open>rgn ? rgn->num_rects : 0\<close>, and the rectangles a loop over the region visits.\<close>

definition region_rects :: "IOAccelDeviceRegion option \<Rightarrow> IOAccelBounds list" where
  "region_rects region =
     (case region of None \<Rightarrow> [] | Some rgn \<Rightarrow> map (rg_rect rgn) [0..<unat (rg_num_rects rgn)])"

definition set_region :: "u32 \<Rightarrow> u32 \<Rightarrow> u32 \<Rightarrow> u32 \<Rightarrow> IOAccelDeviceRegion" where
  "set_region x y w h =
     (let bounds = \<lparr>bd_x = ucast x, bd_y = ucast y, bd_w = ucast w, bd_h = ucast h\<rparr>
      in \<lparr>rg_num_rects = 1, rg_bounds = bounds, rg_rect = (\<lambda>_. bounds)\<rparr>)"

definition convert_rect :: "IOAccelBounds \<Rightarrow> SVGASignedPoint option \<Rightarrow> SVGASignedRect" where
  "convert_rect src_rect delta =
     (let left = int16 (bd_x src_rect) + (case delta of None \<Rightarrow> 0 | Some d \<Rightarrow> sp_x d);
          top = int16 (bd_y src_rect) + (case delta of None \<Rightarrow> 0 | Some d \<Rightarrow> sp_y d)
      in \<lparr>sr_left = left, sr_top = top, sr_right = left + int16 (bd_w src_rect),
          sr_bottom = top + int16 (bd_h src_rect)\<rparr>)"

definition GMR_VRAM :: u32 where "GMR_VRAM = - 2"

text \<open>The bodies of the loops that fill copy boxes and copy rectangles.\<close>

definition copy_box :: "ExtraInfo \<Rightarrow> IOAccelBounds \<Rightarrow> SVGA3dCopyBox" where
  "copy_box extra src =
     \<lparr>cb_x = int16 (bd_x src) + dstDeltaX extra, cb_y = int16 (bd_y src) + dstDeltaY extra, cb_z = 0,
      cb_w = int16 (bd_w src), cb_h = int16 (bd_h src), cb_d = 1,
      cb_srcx = int16 (bd_x src) + srcDeltaX extra, cb_srcy = int16 (bd_y src) + srcDeltaY extra, cb_srcz = 0\<rparr>"

definition copy_rect :: "ExtraInfo \<Rightarrow> IOAccelBounds \<Rightarrow> SVGA3dCopyRect" where
  "copy_rect extra src =
     \<lparr>cr_x = int16 (bd_x src) + dstDeltaX extra, cr_y = int16 (bd_y src) + dstDeltaY extra,
      cr_w = int16 (bd_w src), cr_h = int16 (bd_h src),
      cr_srcx = int16 (bd_x src) + srcDeltaX extra, cr_srcy = int16 (bd_y src) + srcDeltaY extra\<rparr>"

definition rect_of :: "IOAccelBounds \<Rightarrow> SVGA3dRect" where
  "rect_of src = \<lparr>rc_x = int16 (bd_x src), rc_y = int16 (bd_y src), rc_w = int16 (bd_w src), rc_h = int16 (bd_h src)\<rparr>"

definition box_of :: "IOAccelBounds \<Rightarrow> SVGA3dBox" where
  "box_of r = \<lparr>bx_x = int16 (bd_x r), bx_y = int16 (bd_y r), bx_z = 0, bx_w = int16 (bd_w r), bx_h = int16 (bd_h r), bx_d = 1\<rparr>"

abbreviation image_of :: "u32 \<Rightarrow> SVGA3dSurfaceImageId" where
  "image_of sid \<equiv> \<lparr>im_sid = sid, im_face = 0, im_mipmap = 0\<rparr>"

section \<open>Sections under the device lock\<close>

text \<open>What a method does between \<open>lockDevice\<close> and \<open>unlockDevice\<close> acts on the device.\<close>

definition on_device ::
  "('h SVGADevice \<Rightarrow> ('a \<times> 'h SVGADevice) option) \<Rightarrow> 'h CEsvga2Accel \<Rightarrow> ('a \<times> 'h CEsvga2Accel) option" where
  "on_device f s = map_option (\<lambda>(r, d). (r, s\<lparr>m_svga := d\<rparr>)) (f (m_svga s))"

abbreviation dev_unit :: "('h SVGADevice \<Rightarrow> 'h SVGADevice option) \<Rightarrow> 'h SVGADevice \<Rightarrow> (unit \<times> 'h SVGADevice) option" where
  "dev_unit f d \<equiv> map_option (Pair ()) (f d)"

definition insert_fence :: "bool \<Rightarrow> 'h SVGADevice \<Rightarrow> (u32 option \<times> 'h SVGADevice) option" where
  "insert_fence want d = (if want then map_option (\<lambda>(f, d). (Some f, d)) (InsertFence d) else Some (None, d))"

definition HaveFrontBuffer :: "'h CEsvga2Accel \<Rightarrow> bool" where
  "HaveFrontBuffer s \<longleftrightarrow> bHaveScreenObject s \<or> bHaveSVGA3D s"

definition checkOptionAC :: "u32 \<Rightarrow> 'h CEsvga2Accel \<Rightarrow> bool" where
  "checkOptionAC msk s \<longleftrightarrow> options_ac s AND msk \<noteq> 0"

abbreviation (input) CE1_OPTION_AC_REGION_BOUNDS_COPY :: u32 where "CE1_OPTION_AC_REGION_BOUNDS_COPY \<equiv> 0x0400"

section \<open>Synchronisation and 2D\<close>

definition Accel_SyncFIFO :: "'h CEsvga2Accel \<Rightarrow> (IOReturn \<times> 'h CEsvga2Accel) option" where
  "Accel_SyncFIFO s =
     (if \<not> m_framebuffer s then Some (kIOReturnNoDevice, s)
      else do { ((), s) \<leftarrow> on_device (dev_unit SyncFIFO) s; Some (kIOReturnSuccess, s) })"

definition Accel_RingDoorBell :: "'h CEsvga2Accel \<Rightarrow> IOReturn \<times> 'h CEsvga2Accel" where
  "Accel_RingDoorBell s =
     (if \<not> m_framebuffer s then (kIOReturnNoDevice, s)
      else (kIOReturnSuccess, s\<lparr>m_svga := RingDoorBell (m_svga s)\<rparr>))"

definition Accel_SyncToFence :: "u32 \<Rightarrow> 'h CEsvga2Accel \<Rightarrow> (IOReturn \<times> 'h CEsvga2Accel) option" where
  "Accel_SyncToFence fence s =
     (if \<not> m_framebuffer s then Some (kIOReturnNoDevice, s)
      else do { ((), s) \<leftarrow> on_device (dev_unit (SyncToFence fence)) s; Some (kIOReturnSuccess, s) })"

text \<open>\<open>useAccelUpdates\<close>: the third component is the call it passes on to the framebuffer, if any.\<close>

definition useAccelUpdates :: "bool \<Rightarrow> nat \<Rightarrow> 'h CEsvga2Accel \<Rightarrow> IOReturn \<times> 'h CEsvga2Accel \<times> bool option" where
  "useAccelUpdates state owningTask s =
     (if m_updating_ga s \<noteq> None \<and> m_updating_ga s \<noteq> Some owningTask then (kIOReturnSuccess, s, None)
      else if \<not> m_framebuffer s then (kIOReturnNoDevice, s, None)
      else (kIOReturnSuccess, s\<lparr>m_updating_ga := (if state then Some owningTask else None)\<rparr>, Some state))"

text \<open>
  The loops that send one command per rectangle and stop at the first that is refused.
\<close>

fun send_each :: "('h SVGADevice \<Rightarrow> (bool \<times> 'h SVGADevice) option) list \<Rightarrow> bool \<Rightarrow> 'h SVGADevice \<Rightarrow> (bool \<times> 'h SVGADevice) option" where
  "send_each [] rc d = Some (rc, d)"
| "send_each (f # fs) rc d = do { (rc, d) \<leftarrow> f d; if rc then send_each fs rc d else Some (rc, d) }"

definition rc_result :: "bool \<Rightarrow> IOReturn" where
  "rc_result rc = (if rc then kIOReturnSuccess else kIOReturnNoMemory)"

text \<open>
  \<open>CopyRegion\<close>.  With no rectangles the source leaves \<open>rc\<close> uninitialised; \<open>garbage\<close> is its value.
\<close>

definition copy_words :: "u32 \<Rightarrow> u32 \<Rightarrow> IOAccelBounds \<Rightarrow> nat \<Rightarrow> u32" where
  "copy_words x y rect = (\<lambda>i. [int16 (bd_x rect), int16 (bd_y rect), x, y, int16 (bd_w rect), int16 (bd_h rect)] ! i)"

definition CopyRegion ::
  "bool \<Rightarrow> u32 \<Rightarrow> u32 \<Rightarrow> IOAccelDeviceRegion option \<Rightarrow> u64 \<Rightarrow> 'h CEsvga2Accel \<Rightarrow> (IOReturn \<times> 'h CEsvga2Accel) option" where
  "CopyRegion garbage destX destY region regionSize s =
     (case region of
        None \<Rightarrow> Some (kIOReturnBadArgument, s)
      | Some rgn \<Rightarrow>
          if regionSize < 12 + ucast (rg_num_rects rgn) * 8 then Some (kIOReturnBadArgument, s)
          else if HaveFrontBuffer s then Some (kIOReturnSuccess, s)
          else if \<not> m_framebuffer s then Some (kIOReturnNoDevice, s)
          else
            let rect = rg_bounds rgn;
                deltaX = destX - int16 (bd_x rect); deltaY = destY - int16 (bd_y rect);
                cmds = (if checkOptionAC CE1_OPTION_AC_REGION_BOUNDS_COPY s
                        then [RectCopy (copy_words destX destY rect)]
                        else map (\<lambda>rect. RectCopy (copy_words (int16 (bd_x rect) + deltaX) (int16 (bd_y rect) + deltaY) rect))
                               (region_rects region))
            in do { (rc, s) \<leftarrow> on_device (send_each cmds garbage) s; Some (rc_result rc, s) })"

text \<open>
  \<open>RectCopy\<close> and \<open>RectFill\<close>: \<open>copyRects\<close> is the array of rectangles, each an array of dwords
  (\<open>sourceX\<close>, \<open>sourceY\<close>, \<open>x\<close>, \<open>y\<close>, \<open>width\<close>, \<open>height\<close>).
\<close>

fun copy_regions ::
  "(nat \<Rightarrow> u32) list \<Rightarrow> IOReturn \<Rightarrow> 'h CEsvga2Accel \<Rightarrow> (IOReturn \<times> 'h CEsvga2Accel) option" where
  "copy_regions [] rv s = Some (rv, s)"
| "copy_regions (r # rs) rv s =
     do { (rv, s) \<leftarrow> CopyRegion False (r 2) (r 3) (Some (set_region (r 0) (r 1) (r 4) (r 5))) 20 s;
          if rv \<noteq> kIOReturnSuccess then Some (rv, s) else copy_regions rs rv s }"

definition Accel_RectCopy ::
  "(nat \<Rightarrow> nat \<Rightarrow> u32) option \<Rightarrow> u64 \<Rightarrow> 'h CEsvga2Accel \<Rightarrow> (IOReturn \<times> 'h CEsvga2Accel) option" where
  "Accel_RectCopy copyRects copyRectsSize s =
     (let count = unat (copyRectsSize div 24)
      in case copyRects of
           None \<Rightarrow> Some (kIOReturnBadArgument, s)
         | Some rects \<Rightarrow>
             if count = 0 then Some (kIOReturnBadArgument, s)
             else if HaveFrontBuffer s then copy_regions (map rects [0..<count]) kIOReturnSuccess s
             else if \<not> m_framebuffer s then Some (kIOReturnNoDevice, s)
             else do { (rc, s) \<leftarrow> on_device (send_each (map (\<lambda>i. RectCopy (rects i)) [0..<count]) False) s;
                       Some (rc_result rc, s) })"

definition Accel_RectFill ::
  "u32 \<Rightarrow> (nat \<Rightarrow> nat \<Rightarrow> u32) option \<Rightarrow> u64 \<Rightarrow> 'h CEsvga2Accel \<Rightarrow> (IOReturn \<times> 'h CEsvga2Accel) option" where
  "Accel_RectFill color rects rectsSize s =
     (let count = unat (rectsSize div 16)
      in case rects of
           None \<Rightarrow> Some (kIOReturnBadArgument, s)
         | Some rects \<Rightarrow>
             if count = 0 then Some (kIOReturnBadArgument, s)
             else if \<not> m_framebuffer s then Some (kIOReturnNoDevice, s)
             else do { (rc, s) \<leftarrow> on_device (send_each (map (\<lambda>i. RectFill color (rects i)) [0..<count]) False) s;
                       Some (rc_result rc, s) })"

definition UpdateFramebufferAutoRing ::
  "(nat \<Rightarrow> u32) option \<Rightarrow> 'h CEsvga2Accel \<Rightarrow> (IOReturn \<times> 'h CEsvga2Accel) option" where
  "UpdateFramebufferAutoRing rect s =
     (case rect of
        None \<Rightarrow> Some (kIOReturnBadArgument, s)
      | Some rect \<Rightarrow>
          if HaveFrontBuffer s then Some (kIOReturnSuccess, s)
          else if \<not> m_framebuffer s then Some (kIOReturnNoDevice, s)
          else do { (rc, s) \<leftarrow> on_device (\<lambda>d. map_option (\<lambda>(b, d). (b, RingDoorBell d)) (UpdateFramebuffer2 rect d)) s;
                    Some (kIOReturnSuccess, s) })"

section \<open>Surfaces and contexts\<close>

text \<open>
  A \<open>Begin\<close> method of \<open>SVGA3D\<close>, the stores of its caller and the commit; a refused reservation
  jumps to \<open>exit\<close>.  \<open>createSurface\<close> stores only the mip levels of the first face; the others stay at the zeros of the
  \<open>Begin\<close> method.
\<close>

definition createSurface ::
  "u32 \<Rightarrow> u32 \<Rightarrow> u32 \<Rightarrow> u32 \<Rightarrow> u32 \<Rightarrow> 'h CEsvga2Accel \<Rightarrow> (IOReturn \<times> 'h CEsvga2Accel) option" where
  "createSurface sid surfaceFlags surfaceFormat width height s =
     (if \<not> bHaveSVGA3D s then Some (kIOReturnNoDevice, s)
      else do {
        (rc, s) \<leftarrow> on_device (\<lambda>d. map_option
            (fill_commit2 [1] (size_words \<lparr>sz_width = width, sz_height = height, sz_depth = 1\<rparr>))
            (BeginDefineSurface sid surfaceFlags surfaceFormat 1 d)) s;
        Some (kIOReturnSuccess, s) })"

definition destroySurface :: "u32 \<Rightarrow> 'h CEsvga2Accel \<Rightarrow> (IOReturn \<times> 'h CEsvga2Accel) option" where
  "destroySurface sid s =
     (if \<not> bHaveSVGA3D s then Some (kIOReturnNoDevice, s)
      else do { (rc, s) \<leftarrow> on_device (DestroySurface sid) s; Some (kIOReturnSuccess, s) })"

definition surfaceDMA2D ::
  "u32 \<Rightarrow> u32 \<Rightarrow> IOAccelDeviceRegion option \<Rightarrow> ExtraInfo option \<Rightarrow> bool \<Rightarrow> 'h CEsvga2Accel \<Rightarrow>
   (IOReturn \<times> u32 option \<times> 'h CEsvga2Accel) option" where
  "surfaceDMA2D sid transfer region extra fence s =
     (case extra of
        None \<Rightarrow> Some (kIOReturnBadArgument, None, s)
      | Some ex \<Rightarrow>
          if \<not> bHaveSVGA3D s then Some (kIOReturnNoDevice, None, s)
          else
            let guestImage = \<lparr>gi_ptr = \<lparr>gp_gmrId = mem_gmr_id ex, gp_offset = ucast (mem_offset_in_gmr ex)\<rparr>,
                              gi_pitch = ucast (mem_pitch ex)\<rparr>
            in do {
              (f, s) \<leftarrow> on_device (\<lambda>d. do {
                  (rc, d) \<leftarrow> map_option (fill_commit (concat (map copybox_words (map (copy_box ex) (region_rects region)))))
                    (BeginSurfaceDMA guestImage (image_of sid) transfer (of_nat (length (region_rects region))) d);
                  if rc then insert_fence fence d else Some (None, d) }) s;
              Some (kIOReturnSuccess, f, s) })"

definition surfaceCopy ::
  "u32 \<Rightarrow> u32 \<Rightarrow> IOAccelDeviceRegion option \<Rightarrow> ExtraInfo option \<Rightarrow> 'h CEsvga2Accel \<Rightarrow> (IOReturn \<times> 'h CEsvga2Accel) option" where
  "surfaceCopy src_sid dst_sid region extra s =
     (case extra of
        None \<Rightarrow> Some (kIOReturnBadArgument, s)
      | Some ex \<Rightarrow>
          if \<not> bHaveSVGA3D s then Some (kIOReturnNoDevice, s)
          else do {
            (rc, s) \<leftarrow> on_device (\<lambda>d. map_option (fill_commit (concat (map copybox_words (map (copy_box ex) (region_rects region)))))
                (BeginSurfaceCopy (image_of src_sid) (image_of dst_sid) (of_nat (length (region_rects region))) d)) s;
            Some (kIOReturnSuccess, s) })"

definition surfaceStretch ::
  "u32 \<Rightarrow> u32 \<Rightarrow> u32 \<Rightarrow> IOAccelBounds \<Rightarrow> IOAccelBounds \<Rightarrow> 'h CEsvga2Accel \<Rightarrow> (IOReturn \<times> 'h CEsvga2Accel) option" where
  "surfaceStretch src_sid dst_sid mode src_rect dest_rect s =
     (if \<not> bHaveSVGA3D s then Some (kIOReturnNoDevice, s)
      else do {
        (rc, s) \<leftarrow> on_device (SurfaceStretchBlt (image_of src_sid) (image_of dst_sid) (box_of src_rect) (box_of dest_rect) mode) s;
        Some (kIOReturnSuccess, s) })"

text \<open>The presentation waits for the fence of the presentation two calls before.\<close>

definition surfacePresentAutoSync ::
  "u32 \<Rightarrow> IOAccelDeviceRegion option \<Rightarrow> ExtraInfo option \<Rightarrow> 'h CEsvga2Accel \<Rightarrow> (IOReturn \<times> 'h CEsvga2Accel) option" where
  "surfacePresentAutoSync sid region extra s =
     (case extra of
        None \<Rightarrow> Some (kIOReturnBadArgument, s)
      | Some ex \<Rightarrow>
          if \<not> bHaveSVGA3D s then Some (kIOReturnNoDevice, s)
          else do {
            ((), s) \<leftarrow> on_device (dev_unit (SyncToFence (FenceTracker_before (m_present_tracker s)))) s;
            (rc, s) \<leftarrow> on_device (\<lambda>d. map_option (fill_commit (concat (map copyrect_words (map (copy_rect ex) (region_rects region)))))
                (BeginPresent sid (of_nat (length (region_rects region))) d)) s;
            if rc then do {
              (fence, s) \<leftarrow> on_device InsertFence s;
              Some (kIOReturnSuccess, s\<lparr>m_present_tracker := FenceTracker_after fence (m_present_tracker s)\<rparr>) }
            else Some (kIOReturnSuccess, s) })"

definition surfacePresentReadback ::
  "IOAccelDeviceRegion option \<Rightarrow> 'h CEsvga2Accel \<Rightarrow> (IOReturn \<times> 'h CEsvga2Accel) option" where
  "surfacePresentReadback region s =
     (if \<not> bHaveSVGA3D s then Some (kIOReturnNoDevice, s)
      else do {
        (rc, s) \<leftarrow> on_device (\<lambda>d. map_option (fill_commit (concat (map rect_words (map rect_of (region_rects region)))))
            (BeginPresentReadback (of_nat (length (region_rects region))) d)) s;
        Some (kIOReturnSuccess, s) })"

definition Accel_setRenderTarget :: "u32 \<Rightarrow> u32 \<Rightarrow> u32 \<Rightarrow> 'h CEsvga2Accel \<Rightarrow> (IOReturn \<times> 'h CEsvga2Accel) option" where
  "Accel_setRenderTarget cid rtype sid s =
     (if \<not> bHaveSVGA3D s then Some (kIOReturnNoDevice, s)
      else do { (rc, s) \<leftarrow> on_device (SetRenderTarget cid rtype (image_of sid)) s; Some (kIOReturnSuccess, s) })"

definition Accel_clear ::
  "u32 \<Rightarrow> u32 \<Rightarrow> IOAccelDeviceRegion option \<Rightarrow> u32 \<Rightarrow> u32 \<Rightarrow> u32 \<Rightarrow> 'h CEsvga2Accel \<Rightarrow> (IOReturn \<times> 'h CEsvga2Accel) option" where
  "Accel_clear cid flags region color depth stencil s =
     (if \<not> bHaveSVGA3D s then Some (kIOReturnNoDevice, s)
      else do {
        (rc, s) \<leftarrow> on_device (\<lambda>d. map_option (fill_commit (concat (map rect_words (map rect_of (region_rects region)))))
            (BeginClear cid flags color depth stencil (of_nat (length (region_rects region))) d)) s;
        Some (kIOReturnSuccess, s) })"

definition createContext :: "u32 \<Rightarrow> 'h CEsvga2Accel \<Rightarrow> (IOReturn \<times> 'h CEsvga2Accel) option" where
  "createContext cid s =
     (if \<not> bHaveSVGA3D s then Some (kIOReturnNoDevice, s)
      else do { (rc, s) \<leftarrow> on_device (DefineContext cid) s; Some (kIOReturnSuccess, s) })"

definition destroyContext :: "u32 \<Rightarrow> 'h CEsvga2Accel \<Rightarrow> (IOReturn \<times> 'h CEsvga2Accel) option" where
  "destroyContext cid s =
     (if \<not> bHaveSVGA3D s then Some (kIOReturnNoDevice, s)
      else do { (rc, s) \<leftarrow> on_device (DestroyContext cid) s; Some (kIOReturnSuccess, s) })"

text \<open>Arrays of structures are lists: a vertex declaration of nine dwords, a range of seven.\<close>

definition drawPrimitives ::
  "u32 \<Rightarrow> u32 list list \<Rightarrow> u32 list list \<Rightarrow> 'h CEsvga2Accel \<Rightarrow> (IOReturn \<times> 'h CEsvga2Accel) option" where
  "drawPrimitives cid decls ranges s =
     (if \<not> bHaveSVGA3D s then Some (kIOReturnNoDevice, s)
      else do {
        (rc, s) \<leftarrow> on_device (\<lambda>d. map_option (fill_commit2 (concat decls) (concat ranges))
            (BeginDrawPrimitives cid (of_nat (length decls)) (of_nat (length ranges)) d)) s;
        Some (kIOReturnSuccess, s) })"

definition setTextureState ::
  "u32 \<Rightarrow> (u32 \<times> u32 \<times> u32) list \<Rightarrow> 'h CEsvga2Accel \<Rightarrow> (IOReturn \<times> 'h CEsvga2Accel) option" where
  "setTextureState cid states s =
     (if \<not> bHaveSVGA3D s then Some (kIOReturnNoDevice, s)
      else do {
        (rc, s) \<leftarrow> on_device (\<lambda>d. map_option (fill_commit (texstate_words states))
            (BeginSetTextureState cid (of_nat (length states)) d)) s;
        Some (kIOReturnSuccess, s) })"

definition setRenderState ::
  "u32 \<Rightarrow> (u32 \<times> u32) list \<Rightarrow> 'h CEsvga2Accel \<Rightarrow> (IOReturn \<times> 'h CEsvga2Accel) option" where
  "setRenderState cid states s =
     (if \<not> bHaveSVGA3D s then Some (kIOReturnNoDevice, s)
      else do {
        (rc, s) \<leftarrow> on_device (\<lambda>d. map_option (fill_commit (renderstate_words states))
            (BeginSetRenderState cid (of_nat (length states)) d)) s;
        Some (kIOReturnSuccess, s) })"

definition surfaceDMA3DEx ::
  "SVGA3dSurfaceImageId \<Rightarrow> u32 \<Rightarrow> SVGA3dCopyBox option \<Rightarrow> ExtraInfoEx option \<Rightarrow> bool \<Rightarrow> 'h CEsvga2Accel \<Rightarrow>
   (IOReturn \<times> u32 option \<times> 'h CEsvga2Accel) option" where
  "surfaceDMA3DEx hostImage transfer copyBox extra fence s =
     (case (extra, copyBox) of
        (Some ex, Some box) \<Rightarrow>
          if \<not> bHaveSVGA3D s then Some (kIOReturnNoDevice, None, s)
          else
            let guestImage = \<lparr>gi_ptr = \<lparr>gp_gmrId = mem_gmr_id_ex ex, gp_offset = ucast (mem_offset_in_gmr_ex ex)\<rparr>,
                              gi_pitch = ucast (mem_pitch_ex ex)\<rparr>
            in do {
              (f, s) \<leftarrow> on_device (\<lambda>d. do {
                  (rc, d) \<leftarrow> map_option (fill_commit (copybox_words box))
                    (BeginSurfaceDMAwithSuffix guestImage hostImage transfer 1 (ucast (mem_limit_ex ex)) (suffix_flags_ex ex) d);
                  if rc then insert_fence fence d else Some (None, d) }) s;
              Some (kIOReturnSuccess, f, s) }
      | _ \<Rightarrow> Some (kIOReturnBadArgument, None, s))"

section \<open>Screens\<close>

definition screen_object :: "u32 \<Rightarrow> u32 \<Rightarrow> nat \<Rightarrow> u32" where
  "screen_object width height =
     (\<lambda>i. [44, 0, 1 OR 2, width, height, 0, 0, GMR_VRAM, 0, ucast ((ucast width * 4 + 7) AND (- 8) :: u64), 0] ! i)"

definition createPrimaryScreen :: "u32 \<Rightarrow> u32 \<Rightarrow> 'h CEsvga2Accel \<Rightarrow> (IOReturn \<times> 'h CEsvga2Accel) option" where
  "createPrimaryScreen width height s =
     (if \<not> bHaveScreenObject s then Some (kIOReturnNoDevice, s)
      else if m_primary_screen s = (width, height) then Some (kIOReturnSuccess, s)
      else do {
        (rc, s) \<leftarrow> on_device (DefineScreen (screen_object width height)) s;
        Some (kIOReturnSuccess, s\<lparr>m_primary_screen := (width, height)\<rparr>) })"

definition isPrimaryScreenActive :: "'h CEsvga2Accel \<Rightarrow> bool" where
  "isPrimaryScreenActive s \<longleftrightarrow>
     bHaveScreenObject s \<and> sint (fst (m_primary_screen s)) > 0 \<and> sint (snd (m_primary_screen s)) > 0"

text \<open>A list of commands whose results are ignored.\<close>

fun send_all :: "('h SVGADevice \<Rightarrow> (bool \<times> 'h SVGADevice) option) list \<Rightarrow> 'h SVGADevice \<Rightarrow> 'h SVGADevice option" where
  "send_all [] d = Some d"
| "send_all (f # fs) d = do { (rc, d) \<leftarrow> f d; send_all fs d }"

definition blitFromScreen ::
  "u32 \<Rightarrow> IOAccelDeviceRegion option \<Rightarrow> ExtraInfo option \<Rightarrow> bool \<Rightarrow> 'h CEsvga2Accel \<Rightarrow>
   (IOReturn \<times> u32 option \<times> 'h CEsvga2Accel) option" where
  "blitFromScreen srcScreenId region extra fence s =
     (case extra of
        None \<Rightarrow> Some (kIOReturnBadArgument, None, s)
      | Some ex \<Rightarrow>
          if \<not> bHaveScreenObject s then Some (kIOReturnNoDevice, None, s)
          else
            let guestPtr = \<lparr>gp_gmrId = mem_gmr_id ex, gp_offset = ucast (mem_offset_in_gmr ex)\<rparr>;
                blit = (\<lambda>src. BlitToGMRFB \<lparr>sp_x = int16 (bd_x src) + dstDeltaX ex, sp_y = int16 (bd_y src) + dstDeltaY ex\<rparr>
                         (convert_rect src (Some \<lparr>sp_x = srcDeltaX ex, sp_y = srcDeltaY ex\<rparr>)) srcScreenId)
            in do {
              (f, s) \<leftarrow> on_device (\<lambda>d. do {
                  d \<leftarrow> send_all (DefineGMRFB guestPtr (ucast (mem_pitch ex)) 0x1820 # map blit (region_rects region)) d;
                  insert_fence fence d }) s;
              Some (kIOReturnSuccess, f, s) })"

definition blitToScreen ::
  "u32 \<Rightarrow> IOAccelDeviceRegion option \<Rightarrow> ExtraInfo option \<Rightarrow> bool \<Rightarrow> 'h CEsvga2Accel \<Rightarrow>
   (IOReturn \<times> u32 option \<times> 'h CEsvga2Accel) option" where
  "blitToScreen destScreenId region extra fence s =
     (case extra of
        None \<Rightarrow> Some (kIOReturnBadArgument, None, s)
      | Some ex \<Rightarrow>
          if \<not> bHaveScreenObject s then Some (kIOReturnNoDevice, None, s)
          else
            let guestPtr = \<lparr>gp_gmrId = mem_gmr_id ex, gp_offset = ucast (mem_offset_in_gmr ex)\<rparr>;
                blit = (\<lambda>src. BlitFromGMRFB \<lparr>sp_x = int16 (bd_x src) + srcDeltaX ex, sp_y = int16 (bd_y src) + srcDeltaY ex\<rparr>
                         (convert_rect src (Some \<lparr>sp_x = dstDeltaX ex, sp_y = dstDeltaY ex\<rparr>)) destScreenId)
            in do {
              (f, s) \<leftarrow> on_device (\<lambda>d. do {
                  d \<leftarrow> send_all (DefineGMRFB guestPtr (ucast (mem_pitch ex)) 0x1820 # map blit (region_rects region)) d;
                  (f, d) \<leftarrow> insert_fence fence d;
                  Some (f, RingDoorBell d) }) s;
              Some (kIOReturnSuccess, f, s) })"

text \<open>The region is dereferenced for its bounds, so it is not null.\<close>

definition blitSurfaceToScreen ::
  "u32 \<Rightarrow> u32 \<Rightarrow> IOAccelBounds \<Rightarrow> IOAccelDeviceRegion \<Rightarrow> 'h CEsvga2Accel \<Rightarrow> (IOReturn \<times> 'h CEsvga2Accel) option" where
  "blitSurfaceToScreen src_sid destScreenId src_rect dest_region s =
     (if \<not> bHaveScreenObject s then Some (kIOReturnNoDevice, s)
      else
        let rects = region_rects (Some dest_region);
            srcRect = convert_rect src_rect None;
            destRect = convert_rect (rg_bounds dest_region) None;
            shift = \<lparr>sp_x = - sr_left destRect, sp_y = - sr_top destRect\<rparr>
        in do {
          (rc, s) \<leftarrow> on_device (\<lambda>d. map_option (\<lambda>r.
              case fill_commit (concat (map signed_rect_words (map (\<lambda>r. convert_rect r (Some shift)) rects))) r of
                (rc, d) \<Rightarrow> (rc, if rc then RingDoorBell d else d))
              (BeginBlitSurfaceToScreen (image_of src_sid) srcRect destScreenId destRect (rg_num_rects dest_region) d)) s;
          Some (kIOReturnSuccess, s) })"

section \<open>Video\<close>

definition Accel_VideoSetRegsInRange ::
  "u32 \<Rightarrow> (u32 \<Rightarrow> u32) option \<Rightarrow> u32 \<Rightarrow> u32 \<Rightarrow> bool \<Rightarrow> 'h CEsvga2Accel \<Rightarrow> (IOReturn \<times> u32 option \<times> 'h CEsvga2Accel) option" where
  "Accel_VideoSetRegsInRange streamId regs regMin regMax fence s =
     (if \<not> m_framebuffer s then Some (kIOReturnNoDevice, None, s)
      else do {
        (f, s) \<leftarrow> on_device (\<lambda>d. do {
            d \<leftarrow> send_all ((case regs of None \<Rightarrow> [] | Some regs \<Rightarrow> [VideoSetRegsInRange streamId regs regMin regMax]) @
                   [VideoFlush streamId]) d;
            (f, d) \<leftarrow> insert_fence fence d;
            Some (f, RingDoorBell d) }) s;
        Some (kIOReturnSuccess, f, s) })"

definition Accel_VideoSetReg ::
  "u32 \<Rightarrow> u32 \<Rightarrow> u32 \<Rightarrow> bool \<Rightarrow> 'h CEsvga2Accel \<Rightarrow> (IOReturn \<times> u32 option \<times> 'h CEsvga2Accel) option" where
  "Accel_VideoSetReg streamId registerId value fence s =
     (if \<not> m_framebuffer s then Some (kIOReturnNoDevice, None, s)
      else do {
        (f, s) \<leftarrow> on_device (\<lambda>d. do {
            d \<leftarrow> send_all [VideoSetReg streamId registerId value, VideoFlush streamId] d;
            (f, d) \<leftarrow> insert_fence fence d;
            Some (f, RingDoorBell d) }) s;
        Some (kIOReturnSuccess, f, s) })"

section \<open>The master surface\<close>

abbreviation (input) SVGA3D_X8R8G8B8 :: u32 where "SVGA3D_X8R8G8B8 \<equiv> 1"

definition createMasterSurface :: "u32 \<Rightarrow> u32 \<Rightarrow> 'h CEsvga2Accel \<Rightarrow> (bool \<times> 'h CEsvga2Accel) option" where
  "createMasterSurface width height s =
     (case AllocSurfaceID s of
        (sid, s) \<Rightarrow> do {
          (rc, s) \<leftarrow> createSurface sid 0 SVGA3D_X8R8G8B8 width height (s\<lparr>m_master_surface_id := sid\<rparr>);
          if rc \<noteq> kIOReturnSuccess
          then Some (False, (FreeSurfaceID (m_master_surface_id s) s)\<lparr>m_master_surface_id := SVGA_ID_INVALID\<rparr>)
          else Some (True, s) })"

definition destroyMasterSurface :: "'h CEsvga2Accel \<Rightarrow> 'h CEsvga2Accel option" where
  "destroyMasterSurface s =
     (if sint (m_master_surface_id s) < 0 then Some s
      else do {
        (rc, s) \<leftarrow> destroySurface (m_master_surface_id s) s;
        Some ((FreeSurfaceID (m_master_surface_id s) s)\<lparr>m_master_surface_id := SVGA_ID_INVALID\<rparr>) })"

definition retainMasterSurface :: "'h CEsvga2Accel \<Rightarrow> (bool \<times> 'h CEsvga2Accel) option" where
  "retainMasterSurface s =
     (if \<not> bHaveSVGA3D s then Some (False, s)
      else
        let v = m_master_surface_retain_count s;
            s = s\<lparr>m_master_surface_retain_count := v + 1\<rparr>
        in if v = 0 then do {
               (rc, s) \<leftarrow> createMasterSurface (m_width (m_svga s)) (m_height (m_svga s)) s;
               Some (rc, if rc then s else s\<lparr>m_master_surface_retain_count := 0\<rparr>) }
           else Some (True, s))"

definition releaseMasterSurface :: "'h CEsvga2Accel \<Rightarrow> 'h CEsvga2Accel option" where
  "releaseMasterSurface s =
     (if \<not> bHaveSVGA3D s then Some s
      else
        let v = m_master_surface_retain_count s;
            s = s\<lparr>m_master_surface_retain_count := v - 1\<rparr>
        in if sint v \<le> 0 then Some (s\<lparr>m_master_surface_retain_count := 0\<rparr>)
           else if v = 1 then destroyMasterSurface s
           else Some s)"

end
