(* ===== verification/Accel_Surface.thy ===== *)
theory Accel_Surface
  imports Accel_Ops
begin

text \<open>
  What the device methods of \<open>CEsvga2Accel\<close> send, that they return, and how the present fences and
  the shared master surface behave over sequences of calls.
\<close>

section \<open>One command per method\<close>

datatype AccelOp =
    CreateSurfaceA u32 u32 u32 u32 u32
  | DestroySurfaceA u32
  | SurfaceCopyA u32 u32 "IOAccelDeviceRegion option" ExtraInfo
  | SurfaceStretchA u32 u32 u32 IOAccelBounds IOAccelBounds
  | PresentReadbackA "IOAccelDeviceRegion option"
  | SetRenderTargetA u32 u32 u32
  | ClearA u32 u32 "IOAccelDeviceRegion option" u32 u32 u32
  | CreateContextA u32
  | DestroyContextA u32
  | DrawPrimitivesA u32 "u32 list list" "u32 list list"
  | SetTextureStateA u32 "(u32 \<times> u32 \<times> u32) list"
  | SetRenderStateA u32 "(u32 \<times> u32) list"

primrec accel_run :: "AccelOp \<Rightarrow> 'h CEsvga2Accel \<Rightarrow> (IOReturn \<times> 'h CEsvga2Accel) option" where
  "accel_run (CreateSurfaceA sid fl fmt w h) s = createSurface sid fl fmt w h s"
| "accel_run (DestroySurfaceA sid) s = destroySurface sid s"
| "accel_run (SurfaceCopyA a b rgn ex) s = surfaceCopy a b rgn (Some ex) s"
| "accel_run (SurfaceStretchA a b m p q) s = surfaceStretch a b m p q s"
| "accel_run (PresentReadbackA rgn) s = surfacePresentReadback rgn s"
| "accel_run (SetRenderTargetA cid ty sid) s = Accel_setRenderTarget cid ty sid s"
| "accel_run (ClearA cid fl rgn co de st) s = Accel_clear cid fl rgn co de st s"
| "accel_run (CreateContextA cid) s = createContext cid s"
| "accel_run (DestroyContextA cid) s = destroyContext cid s"
| "accel_run (DrawPrimitivesA cid ds rs) s = drawPrimitives cid ds rs s"
| "accel_run (SetTextureStateA cid ts) s = setTextureState cid ts s"
| "accel_run (SetRenderStateA cid ts) s = setRenderState cid ts s"

text \<open>The command a method stands for, with its rectangles converted.\<close>

primrec accel_command :: "AccelOp \<Rightarrow> SVGA3dCommand" where
  "accel_command (CreateSurfaceA sid fl fmt w h) =
     DefineSurfaceC sid fl fmt [1, 0, 0, 0, 0, 0] [\<lparr>sz_width = w, sz_height = h, sz_depth = 1\<rparr>]"
| "accel_command (DestroySurfaceA sid) = DestroySurfaceC sid"
| "accel_command (SurfaceCopyA a b rgn ex) = SurfaceCopyC (image_of a) (image_of b) (map (copy_box ex) (region_rects rgn))"
| "accel_command (SurfaceStretchA a b m p q) = StretchBltC (image_of a) (image_of b) (box_of p) (box_of q) m"
| "accel_command (PresentReadbackA rgn) = PresentReadbackC (map rect_of (region_rects rgn))"
| "accel_command (SetRenderTargetA cid ty sid) = SetRenderTargetC cid ty (image_of sid)"
| "accel_command (ClearA cid fl rgn co de st) = ClearC cid fl co de st (map rect_of (region_rects rgn))"
| "accel_command (CreateContextA cid) = DefineContextC cid"
| "accel_command (DestroyContextA cid) = DestroyContextC cid"
| "accel_command (DrawPrimitivesA cid ds rs) = DrawPrimitivesC cid ds rs"
| "accel_command (SetTextureStateA cid ts) = SetTextureStateC cid ts"
| "accel_command (SetRenderStateA cid ts) = SetRenderStateC cid ts"

text \<open>The stores of \<open>createSurface\<close> leave the other five faces at 0.\<close>

lemma fill_first_face:
  "map_option (fill_commit2 [1] ws) (BeginDefineSurface sid fl fmt n d) =
   map_option (fill_commit2 [1, 0, 0, 0, 0, 0] ws) (BeginDefineSurface sid fl fmt n d)"
proof -
  have p: "poke q [1] (poke q (replicate (6 + k) 0) d) = poke q [1, 0, 0, 0, 0, 0] (poke q (replicate (6 + k) 0) d)"
    for q k and d :: "'a SVGADevice"
    by (cases q) (auto simp: write_words_def fun_eq_iff nth_Cons' intro!: SVGADevice.fold_congs)
  have "fill_commit2 [1] ws (let (faces, s) = begin_fill us (6 + k) r in (map_option (\<lambda>f. (f, fptr_add f 6)) faces, s)) =
      fill_commit2 [1, 0, 0, 0, 0, 0] ws (let (faces, s) = begin_fill us (6 + k) r in (map_option (\<lambda>f. (f, fptr_add f 6)) faces, s))"
    for us k and r :: "fptr option \<times> 'a SVGADevice"
    by (cases r; cases "fst r") (simp_all only: begin_fill.simps Let_def prod.case fst_conv option.map fill_commit2.simps p)
  then show ?thesis unfolding BeginDefineSurface_def option.map_comp comp_def by simp
qed

lemma on_device_then:
  "Option.bind (on_device f s) (\<lambda>(rc, s). Some (k, s)) = map_option (\<lambda>(b, d). (k, s\<lparr>m_svga := d\<rparr>)) (f (m_svga s))"
  by (cases "f (m_svga s)") (auto simp: on_device_def)

lemma accel_run_command:
  assumes "bHaveSVGA3D s"
  shows "accel_run op s =
    map_option (\<lambda>(b, d). (kIOReturnSuccess, s\<lparr>m_svga := d\<rparr>)) (command_run (accel_command op) (m_svga s))"
  using assms
  by (cases op)
    (simp_all add: createSurface_def destroySurface_def surfaceCopy_def surfaceStretch_def surfacePresentReadback_def
      Accel_setRenderTarget_def Accel_clear_def createContext_def destroyContext_def drawPrimitives_def
      setTextureState_def setRenderState_def on_device_then fill_first_face)

lemma host_progress_frame: "fifo_frame s t \<Longrightarrow> host_progress t = host_progress s"
  unfolding host_progress_def by (simp only: fifo_frame_fields(5-7))

text \<open>The device can take the command: it is ready, its host makes progress, and the ring is larger.\<close>

definition accepts :: "'h SVGADevice \<Rightarrow> nat \<Rightarrow> bool" where
  "accepts d n \<longleftrightarrow> fifo_ready d \<and> host_progress d \<and> 0 < n \<and> n \<le> 0x4000 \<and> n < ring_size (fifo d)"

lemma accepts_sent: "fifo_sent ws d d' \<Longrightarrow> accepts d n \<Longrightarrow> accepts d' n"
  by (auto simp: accepts_def fifo_sent_def host_progress_frame)

lemma accepts_transmit:
  assumes "accepts d n" "length ws \<le> n" "ws \<noteq> []"
  obtains d' where "FIFOTransmit ws d = Some (True, d')" "fifo_sent ws d d'" "accepts d' n"
proof -
  have "length ws \<le> 0x4000" "length ws < ring_size (fifo d)" using assms by (simp_all add: accepts_def)
  then obtain d' where "FIFOTransmit ws d = Some (True, d')" "fifo_sent ws d d'"
    using transmit_total [of d ws] assms by (auto simp: accepts_def)
  then show thesis using that accepts_sent assms(1) by blast
qed

lemma command_words_ne [simp]: "command_words c \<noteq> []" "length (command_words c) = 2 + length (snd (command_body c))"
  by (simp_all add: command_words_def split: prod.split)

lemma accel_run_sent:
  assumes "bHaveSVGA3D s" "command_wf (accel_command op)" "accepts (m_svga s) n" "length (command_words (accel_command op)) \<le> n"
  obtains d' where "accel_run op s = Some (kIOReturnSuccess, s\<lparr>m_svga := d'\<rparr>)"
    "fifo_sent (command_words (accel_command op)) (m_svga s) d'" "accepts d' n"
proof -
  have "length (snd (command_body (accel_command op))) < 2 ^ 30" using assms(3,4) by (simp add: accepts_def)
  then have "command_run (accel_command op) (m_svga s) = FIFOTransmit (command_words (accel_command op)) (m_svga s)"
    by (rule command_run_words [OF assms(2)])
  moreover obtain d' where "FIFOTransmit (command_words (accel_command op)) (m_svga s) = Some (True, d')"
      "fifo_sent (command_words (accel_command op)) (m_svga s) d'" "accepts d' n"
    using accepts_transmit [OF assms(3,4)] command_words_ne(1) by blast
  ultimately show thesis using that accel_run_command [OF assms(1), of op] by simp
qed

section \<open>The messages, dword by dword\<close>

text \<open>
  The rectangles of a region, each with the differences of the destination and of the source added, as integers that are
  stored in 32 bits.
\<close>

definition rects_in :: "IOAccelDeviceRegion option \<Rightarrow> IOAccelBounds list" where
  "rects_in region = (case region of None \<Rightarrow> [] | Some rgn \<Rightarrow> map (rg_rect rgn) [0..<unat (rg_num_rects rgn)])"

definition rect_dwords :: "IOAccelBounds \<Rightarrow> u32 list" where
  "rect_dwords r = map word_of_int [sint (bd_x r), sint (bd_y r), sint (bd_w r), sint (bd_h r)]"

definition box_dwords :: "IOAccelBounds \<Rightarrow> u32 list" where
  "box_dwords r = map word_of_int [sint (bd_x r), sint (bd_y r), 0, sint (bd_w r), sint (bd_h r), 1]"

definition copybox_dwords :: "ExtraInfo \<Rightarrow> IOAccelBounds \<Rightarrow> u32 list" where
  "copybox_dwords ex r = map word_of_int
     [sint (bd_x r) + sint (dstDeltaX ex), sint (bd_y r) + sint (dstDeltaY ex), 0, sint (bd_w r), sint (bd_h r), 1,
      sint (bd_x r) + sint (srcDeltaX ex), sint (bd_y r) + sint (srcDeltaY ex), 0]"

definition copyrect_dwords :: "ExtraInfo \<Rightarrow> IOAccelBounds \<Rightarrow> u32 list" where
  "copyrect_dwords ex r = map word_of_int
     [sint (bd_x r) + sint (dstDeltaX ex), sint (bd_y r) + sint (dstDeltaY ex), sint (bd_w r), sint (bd_h r),
      sint (bd_x r) + sint (srcDeltaX ex), sint (bd_y r) + sint (srcDeltaY ex)]"

primrec accel_message :: "AccelOp \<Rightarrow> u32 \<times> u32 list" where
  "accel_message (CreateSurfaceA sid fl fmt w h) = (1040, [sid, fl, fmt, 1, 0, 0, 0, 0, 0, w, h, 1])"
| "accel_message (DestroySurfaceA sid) = (1041, [sid])"
| "accel_message (SurfaceCopyA a b rgn ex) = (1042, [a, 0, 0, b, 0, 0] @ concat (map (copybox_dwords ex) (rects_in rgn)))"
| "accel_message (SurfaceStretchA a b m p q) = (1043, [a, 0, 0, b, 0, 0] @ box_dwords p @ box_dwords q @ [m])"
| "accel_message (PresentReadbackA rgn) = (1068, concat (map rect_dwords (rects_in rgn)))"
| "accel_message (SetRenderTargetA cid ty sid) = (1050, [cid, ty, sid, 0, 0])"
| "accel_message (ClearA cid fl rgn co de st) = (1057, [cid, fl, co, de, st] @ concat (map rect_dwords (rects_in rgn)))"
| "accel_message (CreateContextA cid) = (1045, [cid])"
| "accel_message (DestroyContextA cid) = (1046, [cid])"
| "accel_message (DrawPrimitivesA cid ds rs) = (1063, [cid, of_nat (length ds), of_nat (length rs)] @ concat ds @ concat rs)"
| "accel_message (SetTextureStateA cid ts) = (1051, cid # concat (map (\<lambda>(st, n, v). [st, n, v]) ts))"
| "accel_message (SetRenderStateA cid ts) = (1049, cid # concat (map (\<lambda>(st, v). [st, v]) ts))"

fun accel_wf :: "AccelOp \<Rightarrow> bool" where
  "accel_wf (DrawPrimitivesA cid ds rs) \<longleftrightarrow> list_all (\<lambda>d. length d = 9) ds \<and> list_all (\<lambda>r. length r = 7) rs"
| "accel_wf op \<longleftrightarrow> True"

lemmas dword_defs = rects_in_def rect_dwords_def box_dwords_def copybox_dwords_def copyrect_dwords_def

lemma converted_dwords:
  "region_rects rgn = rects_in rgn" "copybox_words (copy_box ex r) = copybox_dwords ex r" "copyrect_words (copy_rect ex r) = copyrect_dwords ex r"
  "rect_words (rect_of r) = rect_dwords r" "box_words (box_of r) = box_dwords r"
  by (simp_all add: region_rects_def copy_box_def copy_rect_def rect_of_def box_of_def struct_words dword_defs)

lemma accel_command_message: "command_message (accel_command op) = accel_message op"
proof -
  have c: "concat (map (copybox_words \<circ> copy_box ex) rs) = concat (map (copybox_dwords ex) rs)" "concat (map (rect_words \<circ> rect_of) rs) = concat (map rect_dwords rs)"
    for ex rs by (simp_all add: comp_def converted_dwords)
  show ?thesis
    by (cases op) (simp_all add: command_message_body c converted_dwords texstate_words_def renderstate_words_def, simp_all add: image_words_def size_words_def)
qed

lemma command_words_message: "command_message c = (i, ws) \<Longrightarrow> command_words c = i # of_nat (4 * length ws) # ws"
  by (auto simp: command_message_body command_words_def map_prod_def split: prod.splits)

lemma accel_wf_command: "accel_wf op \<Longrightarrow> command_wf (accel_command op)"
  by (cases op) (simp_all add: list_all_iff)

section \<open>Methods with fences\<close>

text \<open>What \<open>InsertFence\<close> does: the next number that is not 0 is sent, or 1 is returned if the host has no fences.\<close>

definition fence_inserted :: "u32 \<Rightarrow> 'h SVGADevice \<Rightarrow> 'h SVGADevice \<Rightarrow> bool" where
  "fence_inserted n d d' \<longleftrightarrow>
     (if HasFIFOCap SVGA_FIFO_CAP_FENCE d
      then n = (if m_next_fence d = 0 then 1 else m_next_fence d) \<and> fifo_sent [30, n] (d\<lparr>m_next_fence := n + 1\<rparr>) d'
      else n = 1 \<and> d' = d)"

lemma InsertFence_inserted:
  assumes "accepts d k" "2 \<le> k"
  shows "\<exists>n d'. InsertFence d = Some (n, d') \<and> fence_inserted n d d'"
proof (cases "HasFIFOCap SVGA_FIFO_CAP_FENCE d")
  case True
  define n where "n = (if m_next_fence d = 0 then 1 else m_next_fence d)"
  obtain d' where d': "FIFOTransmit [30, n] (d\<lparr>m_next_fence := n + 1\<rparr>) = Some (True, d')" "fifo_sent [30, n] (d\<lparr>m_next_fence := n + 1\<rparr>) d'"
    using transmit_total [of "d\<lparr>m_next_fence := n + 1\<rparr>" "[30, n]"] assms by (auto simp: accepts_def)
  then have "InsertFence d = Some (n, d')" using InsertFence_words [OF True] by (simp add: Let_def flip: n_def)
  then show ?thesis using d'(2) True n_def by (auto simp: fence_inserted_def)
qed (auto simp: InsertFence_def fence_inserted_def)

text \<open>The methods that send a command and then a fence; \<open>want\<close> is whether the caller asks for it.\<close>

datatype FencedOp =
    SurfaceDMA2DA u32 u32 "IOAccelDeviceRegion option" ExtraInfo bool
  | SurfaceDMA3DExA SVGA3dSurfaceImageId u32 SVGA3dCopyBox ExtraInfoEx bool
  | PresentAutoSyncA u32 "IOAccelDeviceRegion option" ExtraInfo

primrec fenced_run :: "FencedOp \<Rightarrow> 'h CEsvga2Accel \<Rightarrow> (IOReturn \<times> u32 option \<times> 'h CEsvga2Accel) option" where
  "fenced_run (SurfaceDMA2DA sid t rgn ex want) s = surfaceDMA2D sid t rgn (Some ex) want s"
| "fenced_run (SurfaceDMA3DExA img t box ex want) s = surfaceDMA3DEx img t (Some box) (Some ex) want s"
| "fenced_run (PresentAutoSyncA sid rgn ex) s = map_option (\<lambda>(rc, s). (rc, None, s)) (surfacePresentAutoSync sid rgn (Some ex) s)"

primrec fenced_message :: "FencedOp \<Rightarrow> u32 \<times> u32 list" where
  "fenced_message (SurfaceDMA2DA sid t rgn ex want) =
     (1044, [mem_gmr_id ex, ucast (mem_offset_in_gmr ex), ucast (mem_pitch ex), sid, 0, 0, t] @ concat (map (copybox_dwords ex) (rects_in rgn)))"
| "fenced_message (SurfaceDMA3DExA img t box ex want) =
     (1044, [mem_gmr_id_ex ex, ucast (mem_offset_in_gmr_ex ex), ucast (mem_pitch_ex ex), im_sid img, im_face img, im_mipmap img, t,
        cb_x box, cb_y box, cb_z box, cb_w box, cb_h box, cb_d box, cb_srcx box, cb_srcy box, cb_srcz box,
        12, ucast (mem_limit_ex ex), suffix_flags_ex ex])"
| "fenced_message (PresentAutoSyncA sid rgn ex) = (1058, sid # concat (map (copyrect_dwords ex) (rects_in rgn)))"

definition dma_guest :: "u32 \<Rightarrow> u64 \<Rightarrow> u64 \<Rightarrow> SVGA3dGuestImage" where
  "dma_guest gmr off pitch = \<lparr>gi_ptr = \<lparr>gp_gmrId = gmr, gp_offset = ucast off\<rparr>, gi_pitch = ucast pitch\<rparr>"

primrec fenced_command :: "FencedOp \<Rightarrow> SVGA3dCommand" where
  "fenced_command (SurfaceDMA2DA sid t rgn ex want) =
     SurfaceDMAC (dma_guest (mem_gmr_id ex) (mem_offset_in_gmr ex) (mem_pitch ex)) (image_of sid) t (map (copy_box ex) (region_rects rgn))"
| "fenced_command (SurfaceDMA3DExA img t box ex want) =
     SurfaceDMASuffixC (dma_guest (mem_gmr_id_ex ex) (mem_offset_in_gmr_ex ex) (mem_pitch_ex ex)) img t [box] (ucast (mem_limit_ex ex)) (suffix_flags_ex ex)"
| "fenced_command (PresentAutoSyncA sid rgn ex) = PresentC sid (map (copy_rect ex) (region_rects rgn))"

lemma fenced_command_message: "command_message (fenced_command op) = fenced_message op" "command_wf (fenced_command op)"
proof -
  have c: "concat (map (copybox_words \<circ> copy_box ex) rs) = concat (map (copybox_dwords ex) rs)"
    "concat (map (copyrect_words \<circ> copy_rect ex) rs) = concat (map (copyrect_dwords ex) rs)" for ex rs
    by (simp_all add: comp_def converted_dwords)
  show "command_message (fenced_command op) = fenced_message op"
    by (cases op) (simp_all add: command_message_body c converted_dwords, simp_all add: image_words_def guest_words_def copybox_words_def dma_guest_def)
  show "command_wf (fenced_command op)" by (cases op) simp_all
qed

lemma fenced_transmit:
  assumes "fenced_message op = (i, ws)" "accepts d n" "length ws + 2 \<le> n"
  shows "\<exists>d'. command_run (fenced_command op) d = Some (True, d') \<and> fifo_sent (i # of_nat (4 * length ws) # ws) d d' \<and> accepts d' n"
proof -
  have m: "command_words (fenced_command op) = i # of_nat (4 * length ws) # ws"
    using assms(1) by (intro command_words_message) (simp add: fenced_command_message)
  have "length ws + 2 \<le> 0x4000" using assms(2,3) by (simp add: accepts_def)
  then have "length (snd (command_body (fenced_command op))) < 2 ^ 30"
    using assms(1) fenced_command_message(1) [of op] by (auto simp: command_message_body map_prod_def split: prod.splits)
  then have "command_run (fenced_command op) d = FIFOTransmit (command_words (fenced_command op)) d"
    by (rule command_run_words [OF fenced_command_message(2)])
  then show ?thesis using accepts_transmit [OF assms(2), of "command_words (fenced_command op)"] assms(3) unfolding m by auto
qed

lemma FenceTracker_after_eq:
  "FenceTracker_after n t =
   \<lparr>counter = if counter t + 1 = length (fences t) then 0 else counter t + 1, fences = (fences t)[counter t := n]\<rparr>"
  by (cases t) (simp add: FenceTracker_after_def Let_def)

lemma surfaceDMA2D_run:
  "bHaveSVGA3D s \<Longrightarrow> surfaceDMA2D sid t rgn (Some ex) want s =
     do { (f, s) \<leftarrow> on_device (\<lambda>d. do { (rc, d) \<leftarrow> command_run (fenced_command (SurfaceDMA2DA sid t rgn ex want)) d;
                                    if rc then insert_fence want d else Some (None, d) }) s;
          Some (kIOReturnSuccess, f, s) }"
  by (simp add: surfaceDMA2D_def dma_guest_def Let_def)

lemma surfaceDMA3DEx_run:
  "bHaveSVGA3D s \<Longrightarrow> surfaceDMA3DEx img t (Some box) (Some ex) want s =
     do { (f, s) \<leftarrow> on_device (\<lambda>d. do { (rc, d) \<leftarrow> command_run (fenced_command (SurfaceDMA3DExA img t box ex want)) d;
                                    if rc then insert_fence want d else Some (None, d) }) s;
          Some (kIOReturnSuccess, f, s) }"
  by (simp add: surfaceDMA3DEx_def dma_guest_def Let_def)

lemma surfacePresentAutoSync_run:
  "bHaveSVGA3D s \<Longrightarrow> surfacePresentAutoSync sid rgn (Some ex) s =
     do { ((), s) \<leftarrow> on_device (dev_unit (SyncToFence (FenceTracker_before (m_present_tracker s)))) s;
          (rc, s) \<leftarrow> on_device (command_run (fenced_command (PresentAutoSyncA sid rgn ex))) s;
          if rc then do { (fence, s) \<leftarrow> on_device InsertFence s;
                          Some (kIOReturnSuccess, s\<lparr>m_present_tracker := FenceTracker_after fence (m_present_tracker s)\<rparr>) }
          else Some (kIOReturnSuccess, s) }"
proof -
  assume h: "bHaveSVGA3D s"
  have e: "command_run (fenced_command (PresentAutoSyncA sid rgn ex)) =
      (\<lambda>d. map_option (fill_commit (concat (map copyrect_words (map (copy_rect ex) (region_rects rgn)))))
        (BeginPresent sid (of_nat (length (region_rects rgn))) d))" by (rule ext) simp
  show ?thesis unfolding surfacePresentAutoSync_def e using h by simp
qed

section \<open>The fences of presentations\<close>

lemma after_ring:
  assumes "counter t < n" "length (fences t) = n"
  shows "counter (fold FenceTracker_after fs t) = (counter t + length fs) mod n \<and>
    length (fences (fold FenceTracker_after fs t)) = n \<and>
    (\<forall>j < length fs. length fs \<le> j + n \<longrightarrow> fences (fold FenceTracker_after fs t) ! ((counter t + j) mod n) = fs ! j)"
proof (induction fs rule: rev_induct)
  case Nil
  then show ?case using assms by simp
next
  case (snoc f fs)
  define u where "u = fold FenceTracker_after fs t"
  define c where "c = (counter t + length fs) mod n"
  have u: "counter u = c" "length (fences u) = n"
    "\<And>j. j < length fs \<Longrightarrow> length fs \<le> j + n \<Longrightarrow> fences u ! ((counter t + j) mod n) = fs ! j"
    using snoc by (auto simp: u_def c_def)
  have n: "0 < n" using assms by simp
  have e: "fold FenceTracker_after (fs @ [f]) t =
      \<lparr>counter = (if Suc c = n then 0 else Suc c), fences = (fences u)[c := f]\<rparr>"
    using u by (simp add: FenceTracker_after_def Let_def flip: u_def)
  have c': "(if Suc c = n then 0 else Suc c) = (counter t + length (fs @ [f])) mod n"
    using mod_Suc [of "counter t + length fs" n] by (simp add: c_def)
  have "((fences u)[c := f]) ! ((counter t + j) mod n) = (fs @ [f]) ! j"
    if j: "j < length (fs @ [f])" "length (fs @ [f]) \<le> j + n" for j
  proof (cases "j = length fs")
    case True
    then show ?thesis using u(2) n by (simp add: c_def)
  next
    case False
    then have j': "j < length fs" "length fs - j < n" using j by auto
    have "(counter t + j) mod n \<noteq> c"
    proof
      assume "(counter t + j) mod n = c"
      then have "n dvd length fs - j"
        using mod_eq_dvd_iff_nat [of "counter t + j" "counter t + length fs" n] j'(1) by (simp add: c_def)
      then show False using j' by (simp add: nat_dvd_not_less)
    qed
    then show ?thesis using u(3) [of j] j' by (simp add: nth_append)
  qed
  then show ?case unfolding e using c' u(2) by simp
qed

section \<open>The master surface\<close>

text \<open>
  The reference count is non-negative, and the surface exists exactly while it is positive.
\<close>

definition master_inv :: "nat \<Rightarrow> 'h CEsvga2Accel \<Rightarrow> bool" where
  "master_inv n s \<longleftrightarrow>
     bHaveSVGA3D s \<and> surface_ok n s \<and> unat (m_master_surface_retain_count s) < 2 ^ 31 \<and>
     (if m_master_surface_retain_count s = 0 then m_master_surface_id s = SVGA_ID_INVALID
      else \<not> id_failed (m_master_surface_id s) \<and> m_master_surface_id s \<in> surface_used s)"

text \<open>
  The messages about the master surface of a screen of \<open>w\<close> times \<open>h\<close> pixels, dword by dword, and the surfaces that the host
  has after them.  Defining a surface that exists and destroying one that does not are errors.
\<close>

datatype surface_event = Defined u32 | Destroyed u32

primrec event_message :: "u32 \<Rightarrow> u32 \<Rightarrow> surface_event \<Rightarrow> u32 list" where
  "event_message w h (Defined sid) = [1040, 48, sid, 0, 1, 1, 0, 0, 0, 0, 0, w, h, 1]"
| "event_message w h (Destroyed sid) = [1041, 4, sid]"

fun host_surfaces :: "surface_event list \<Rightarrow> u32 set \<Rightarrow> u32 set option" where
  "host_surfaces [] S = Some S"
| "host_surfaces (Defined sid # es) S = (if sid \<in> S then None else host_surfaces es (insert sid S))"
| "host_surfaces (Destroyed sid # es) S = (if sid \<in> S then host_surfaces es (S - {sid}) else None)"

lemma host_surfaces_append: "host_surfaces (es @ fs) S = Option.bind (host_surfaces es S) (host_surfaces fs)"
  by (induction es S rule: host_surfaces.induct) simp_all

definition master_surface :: "'h CEsvga2Accel \<Rightarrow> u32 set" where
  "master_surface s = (if m_master_surface_retain_count s = 0 then {} else {m_master_surface_id s})"

text \<open>From \<open>s\<close> to \<open>t\<close>, the host is told exactly what changes its surfaces from the master surface of \<open>s\<close> to that of \<open>t\<close>.\<close>

definition master_told :: "'h CEsvga2Accel \<Rightarrow> 'h CEsvga2Accel \<Rightarrow> bool" where
  "master_told s t \<longleftrightarrow> (\<exists>es. sent_all (map (event_message (m_width (m_svga s)) (m_height (m_svga s))) es) (m_svga s) (m_svga t) \<and>
     host_surfaces es (master_surface s) = Some (master_surface t))"

lemma fifo_frame_mode: "fifo_frame d e \<Longrightarrow> m_width e = m_width d \<and> m_height e = m_height d"
  by (cases d; cases e) (simp add: fifo_frame_def)

lemma master_told_trans:
  assumes "master_told s t" "master_told t u"
  shows "master_told s u"
proof -
  obtain es fs where e: "sent_all (map (event_message (m_width (m_svga s)) (m_height (m_svga s))) es) (m_svga s) (m_svga t)"
      "host_surfaces es (master_surface s) = Some (master_surface t)"
      "sent_all (map (event_message (m_width (m_svga t)) (m_height (m_svga t))) fs) (m_svga t) (m_svga u)"
      "host_surfaces fs (master_surface t) = Some (master_surface u)"
    using assms by (auto simp: master_told_def)
  have "m_width (m_svga t) = m_width (m_svga s)" "m_height (m_svga t) = m_height (m_svga s)"
    using sent_all_frame [OF e(1)] fifo_frame_mode by auto
  then have "sent_all (map (event_message (m_width (m_svga s)) (m_height (m_svga s))) (es @ fs)) (m_svga s) (m_svga u)"
    using sent_all_append [OF e(1,3)] by simp
  then show ?thesis using e(2,4) by (auto simp: master_told_def host_surfaces_append intro!: exI [of _ "es @ fs"])
qed

lemma master_told_quiet: "fifo_ready (m_svga s) \<Longrightarrow> m_svga t = m_svga s \<Longrightarrow> master_surface t = master_surface s \<Longrightarrow> master_told s t"
  unfolding master_told_def by (rule exI [of _ "[]"]) (simp add: fifo_sent_nil)

lemma event_words:
  "command_words (accel_command (CreateSurfaceA sid 0 SVGA3D_X8R8G8B8 w h)) = event_message w h (Defined sid)"
  "command_words (DestroySurfaceC sid) = event_message w h (Destroyed sid)"
  by (simp_all add: command_words_def size_words_def)

lemma ids_update [simp]:
  "surface_used (s\<lparr>m_svga := d\<rparr>) = surface_used s" "surface_ok n (s\<lparr>m_svga := d\<rparr>) = surface_ok n s"
  "surface_used (s\<lparr>m_master_surface_id := i\<rparr>) = surface_used s" "surface_ok n (s\<lparr>m_master_surface_id := i\<rparr>) = surface_ok n s"
  "surface_used (s\<lparr>m_master_surface_retain_count := c\<rparr>) = surface_used s"
  "surface_ok n (s\<lparr>m_master_surface_retain_count := c\<rparr>) = surface_ok n s"
  by (simp_all add: surface_used_def surface_ok_def)

lemma AllocSurfaceID_frame:
  assumes "AllocSurfaceID s = (r, t)"
  shows "m_svga t = m_svga s" "bHaveSVGA3D t = bHaveSVGA3D s"
    "m_master_surface_retain_count t = m_master_surface_retain_count s"
  using assms by (auto simp: AllocSurfaceID_def Let_def split: prod.splits if_splits)

lemma FreeSurfaceID_frame [simp]:
  "m_svga (FreeSurfaceID r s) = m_svga s" "bHaveSVGA3D (FreeSurfaceID r s) = bHaveSVGA3D s"
  "m_master_surface_retain_count (FreeSurfaceID r s) = m_master_surface_retain_count s"
  by (simp_all add: FreeSurfaceID_def Let_def)

lemma surface_ok_mono: "surface_ok (Suc n) s \<Longrightarrow> surface_ok n s"
  by (rule surface_ids.ok_less)

lemma AllocSurfaceID_good:
  assumes "surface_ok (Suc n) s" "AllocSurfaceID s = (sid, t)"
  shows "\<not> id_failed sid"
proof (rule AllocSurfaceID_cases [OF assms(1)])
  fix m :: nat assume "m < 256" "fst (AllocSurfaceID s) = of_nat m"
  then show ?thesis using assms(2) by simp
next
  assume "fst (AllocSurfaceID s) = of_nat (256 + unat (m_surface_ids_unmanaged s))"
  moreover have "256 + unat (m_surface_ids_unmanaged s) < 2 ^ 31" using assms(1) by (simp add: surface_ok_def)
  ultimately show ?thesis using assms(2) small_id(1) by (metis fst_conv)
qed

lemma createMasterSurface_ok:
  assumes have3d: "bHaveSVGA3D s" and ok: "surface_ok (Suc n) s" and acc: "accepts (m_svga s) 14"
  obtains sid s' where "createMasterSurface w h s = Some (True, s')" "\<not> id_failed sid" "m_master_surface_id s' = sid"
    "sid \<notin> surface_used s" "surface_used s' = insert sid (surface_used s)" "surface_ok n s'" "bHaveSVGA3D s'"
    "m_master_surface_retain_count s' = m_master_surface_retain_count s"
    "fifo_sent (command_words (accel_command (CreateSurfaceA sid 0 SVGA3D_X8R8G8B8 w h))) (m_svga s) (m_svga s')"
proof -
  obtain sid t where a: "AllocSurfaceID s = (sid, t)" by fastforce
  note f = AllocSurfaceID_frame [OF a]
  note good = AllocSurfaceID_good [OF ok a]
  note new = surface_ids.alloc_new [OF ok a good]
  let ?t = "t\<lparr>m_master_surface_id := sid\<rparr>"
  let ?op = "CreateSurfaceA sid 0 SVGA3D_X8R8G8B8 w h"
  have "accepts (m_svga ?t) 14" "bHaveSVGA3D ?t" using f acc have3d by simp_all
  then obtain d where d: "accel_run ?op ?t = Some (kIOReturnSuccess, ?t\<lparr>m_svga := d\<rparr>)"
      "fifo_sent (command_words (accel_command ?op)) (m_svga ?t) d"
    using accel_run_sent [of ?t ?op 14] by (auto simp: size_words_def)
  then have "createMasterSurface w h s = Some (True, ?t\<lparr>m_svga := d\<rparr>)"
    using a by (simp add: createMasterSurface_def)
  then show thesis using that [of "?t\<lparr>m_svga := d\<rparr>" sid] good new f have3d d(2) by simp
qed

lemma destroyMasterSurface_ok:
  assumes have3d: "bHaveSVGA3D s" and ok: "surface_ok n s" and acc: "accepts (m_svga s) 14" and id: "\<not> id_failed (m_master_surface_id s)"
  obtains s' where "destroyMasterSurface s = Some s'" "m_master_surface_id s' = SVGA_ID_INVALID" "surface_ok n s'" "bHaveSVGA3D s'"
    "m_master_surface_retain_count s' = m_master_surface_retain_count s"
    "fifo_sent (command_words (DestroySurfaceC (m_master_surface_id s))) (m_svga s) (m_svga s')"
proof -
  let ?op = "DestroySurfaceA (m_master_surface_id s)"
  obtain d where d: "accel_run ?op s = Some (kIOReturnSuccess, s\<lparr>m_svga := d\<rparr>)"
      "fifo_sent (command_words (accel_command ?op)) (m_svga s) d"
    using accel_run_sent [OF have3d, of ?op 14] acc by auto
  let ?s = "(FreeSurfaceID (m_master_surface_id s) (s\<lparr>m_svga := d\<rparr>))\<lparr>m_master_surface_id := SVGA_ID_INVALID\<rparr>"
  have "destroyMasterSurface s = Some ?s" using d(1) id by (simp add: destroyMasterSurface_def)
  moreover have "surface_ok n ?s" using surface_ids.free_used [of n "s\<lparr>m_svga := d\<rparr>" "m_master_surface_id s"] ok by simp
  ultimately show thesis using that [of ?s] d(2) have3d by simp
qed

lemma count_succ: "unat c < 2 ^ 31 \<Longrightarrow> unat (c + 1) = Suc (unat c)" for c :: u32
  by (subst unat_add_small) simp_all

lemma retainMasterSurface_ok:
  assumes inv: "master_inv (Suc n) s" and acc: "accepts (m_svga s) 14" and c: "unat (m_master_surface_retain_count s) < 2 ^ 31 - 1"
  obtains s' where "retainMasterSurface s = Some (True, s')" "master_inv n s'" "accepts (m_svga s') 14" "master_told s s'"
    "unat (m_master_surface_retain_count s') = Suc (unat (m_master_surface_retain_count s))"
proof -
  define v where "v = m_master_surface_retain_count s"
  let ?s = "s\<lparr>m_master_surface_retain_count := v + 1\<rparr>"
  have i: "bHaveSVGA3D s" "surface_ok (Suc n) s" using inv by (simp_all add: master_inv_def)
  have v: "unat (v + 1) = Suc (unat v)" "v + 1 \<noteq> 0" "unat (v + 1) < 2 ^ 31"
    using count_succ [of v] c by (auto simp: v_def)
  show thesis
  proof (cases "v = 0")
    case True
    have pre: "bHaveSVGA3D ?s" "surface_ok (Suc n) ?s" "accepts (m_svga ?s) 14" using i acc by simp_all
    show thesis
    proof (rule createMasterSurface_ok [OF pre, of "m_width (m_svga s)" "m_height (m_svga s)"])
      fix sid t
      assume t: "createMasterSurface (m_width (m_svga s)) (m_height (m_svga s)) ?s = Some (True, t)"
          "\<not> id_failed sid" "m_master_surface_id t = sid" "surface_used t = insert sid (surface_used ?s)" "surface_ok n t"
          "bHaveSVGA3D t" "m_master_surface_retain_count t = m_master_surface_retain_count ?s"
          "fifo_sent (command_words (accel_command (CreateSurfaceA sid 0 SVGA3D_X8R8G8B8 (m_width (m_svga s)) (m_height (m_svga s)))))
             (m_svga ?s) (m_svga t)"
      have "retainMasterSurface s = Some (True, t)" using True i(1) t(1) by (simp add: retainMasterSurface_def v_def)
      moreover have "master_inv n t" using t v by (simp add: master_inv_def)
      moreover have "accepts (m_svga t) 14" using accepts_sent [OF t(8)] acc by simp
      moreover have "master_told s t"
        unfolding master_told_def using t(3,7) True v(2) sent_all_single [OF t(8) [unfolded event_words(1)]]
        by (intro exI [of _ "[Defined sid]"]) (simp add: master_surface_def v_def del: sent_all.simps)
      ultimately show thesis using that t(7) v(1) by (simp add: v_def)
    qed
  next
    case False
    then have "retainMasterSurface s = Some (True, ?s)" using i(1) by (simp add: retainMasterSurface_def v_def)
    moreover have "master_inv n ?s"
      using inv False v surface_ok_mono [OF i(2)] by (simp add: master_inv_def v_def)
    moreover have "master_told s ?s" using acc False v(2) by (intro master_told_quiet) (simp_all add: accepts_def master_surface_def v_def)
    ultimately show thesis using that [of ?s] acc v(1) by (simp add: v_def)
  qed
qed

lemma releaseMasterSurface_ok:
  assumes inv: "master_inv n s" and acc: "accepts (m_svga s) 14"
  obtains s' where "releaseMasterSurface s = Some s'" "master_inv n s'" "accepts (m_svga s') 14" "master_told s s'"
    "unat (m_master_surface_retain_count s') = unat (m_master_surface_retain_count s) - 1"
proof -
  define v where "v = m_master_surface_retain_count s"
  let ?s = "s\<lparr>m_master_surface_retain_count := v - 1\<rparr>"
  have i: "bHaveSVGA3D s" "surface_ok n s" "unat v < 2 ^ 31" using inv by (simp_all add: master_inv_def v_def)
  have sv: "sint v \<le> 0 \<longleftrightarrow> v = 0" using i(3) sint_nonneg_iff [of v] by (metis antisym signed_0 sint_0 signed_eq_0_iff order_refl)
  consider "v = 0" | "v = 1" | "v \<noteq> 0" "v \<noteq> 1" by blast
  then show thesis
  proof cases
    case 1
    then have "s\<lparr>m_master_surface_retain_count := 0\<rparr> = s" by (simp add: v_def)
    then have "releaseMasterSurface s = Some s" using 1 i(1) by (simp add: releaseMasterSurface_def v_def)
    then show thesis using that [of s] inv acc 1 master_told_quiet [of s s] by (simp add: v_def accepts_def)
  next
    case 2
    then have pre: "bHaveSVGA3D ?s" "surface_ok n ?s" "accepts (m_svga ?s) 14" "\<not> id_failed (m_master_surface_id ?s)"
      using i acc inv by (simp_all add: master_inv_def v_def)
    show thesis
    proof (rule destroyMasterSurface_ok [OF pre])
      fix t assume t: "destroyMasterSurface ?s = Some t" "m_master_surface_id t = SVGA_ID_INVALID" "surface_ok n t" "bHaveSVGA3D t"
        "m_master_surface_retain_count t = m_master_surface_retain_count ?s"
        "fifo_sent (command_words (DestroySurfaceC (m_master_surface_id ?s))) (m_svga ?s) (m_svga t)"
      have "releaseMasterSurface s = Some t" using 2 i(1) t(1) sv by (simp add: releaseMasterSurface_def v_def)
      moreover have "master_inv n t" using t 2 by (simp add: master_inv_def)
      moreover have "accepts (m_svga t) 14" using accepts_sent [OF t(6)] acc by simp
      moreover have "master_told s t"
        unfolding master_told_def using t(2,5,6) 2 sent_all_single [OF t(6)]
        by (intro exI [of _ "[Destroyed (m_master_surface_id s)]"])
          (simp add: event_words [of _ "m_width (m_svga s)" "m_height (m_svga s)"] master_surface_def v_def del: sent_all.simps)
      ultimately show thesis using that t(5) 2 by (simp add: v_def)
    qed
  next
    case 3
    then have u: "unat (v - 1) = unat v - 1" "v - 1 \<noteq> 0" "unat (v - 1) < 2 ^ 31"
      using i(3) by (simp_all add: unat_minus_one)
    have "releaseMasterSurface s = Some ?s" using 3 i(1) sv by (simp add: releaseMasterSurface_def v_def)
    moreover have "master_inv n ?s" using inv 3 u(2,3) by (simp add: master_inv_def v_def)
    moreover have "master_told s ?s" using acc 3 u(2) by (intro master_told_quiet) (simp_all add: accepts_def master_surface_def v_def)
    ultimately show thesis using that [of ?s] acc u(1) by (simp add: v_def)
  qed
qed

text \<open>A sequence of retains (\<open>True\<close>) and releases (\<open>False\<close>), with what the retains return, and the count it should give.\<close>

fun run_master :: "bool list \<Rightarrow> 'h CEsvga2Accel \<Rightarrow> (bool list \<times> 'h CEsvga2Accel) option" where
  "run_master [] s = Some ([], s)"
| "run_master (True # ops) s = do { (rc, s) \<leftarrow> retainMasterSurface s; (rcs, s) \<leftarrow> run_master ops s; Some (rc # rcs, s) }"
| "run_master (False # ops) s = do { s \<leftarrow> releaseMasterSurface s; run_master ops s }"

fun retain_depth :: "bool list \<Rightarrow> nat \<Rightarrow> nat" where
  "retain_depth [] n = n"
| "retain_depth (True # ops) n = retain_depth ops (Suc n)"
| "retain_depth (False # ops) n = retain_depth ops (n - 1)"

lemma master_inv_mono: "master_inv (Suc n) s \<Longrightarrow> master_inv n s"
  using surface_ok_mono by (auto simp: master_inv_def)

lemma run_master_ok:
  assumes "master_inv (length ops) s" "accepts (m_svga s) 14" "unat (m_master_surface_retain_count s) + length ops < 2 ^ 31"
  shows "\<exists>rcs s'. run_master ops s = Some (rcs, s') \<and> False \<notin> set rcs \<and> master_inv 0 s' \<and> master_told s s' \<and>
    unat (m_master_surface_retain_count s') = retain_depth ops (unat (m_master_surface_retain_count s))"
  using assms
proof (induction ops arbitrary: s)
  case Nil
  then show ?case using master_told_quiet [of s s] by (simp add: accepts_def)
next
  case (Cons op ops)
  show ?case
  proof (cases op)
    case True
    show ?thesis
    proof (rule retainMasterSurface_ok [of "length ops" s])
      fix t assume t: "retainMasterSurface s = Some (True, t)" "master_inv (length ops) t" "accepts (m_svga t) 14" "master_told s t"
        "unat (m_master_surface_retain_count t) = Suc (unat (m_master_surface_retain_count s))"
      then show ?thesis using Cons.IH [OF t(2,3)] Cons.prems(3) True master_told_trans [OF t(4)] by fastforce
    qed (use Cons.prems in simp_all)
  next
    case False
    show ?thesis
    proof (rule releaseMasterSurface_ok [of "length ops" s])
      show "master_inv (length ops) s" using Cons.prems(1) master_inv_mono by simp
      fix t assume t: "releaseMasterSurface s = Some t" "master_inv (length ops) t" "accepts (m_svga t) 14" "master_told s t"
        "unat (m_master_surface_retain_count t) = unat (m_master_surface_retain_count s) - 1"
      then show ?thesis using Cons.IH [OF t(2,3)] Cons.prems(3) False master_told_trans [OF t(4)] by fastforce
    qed (use Cons.prems in simp)
  qed
qed

section \<open>Properties\<close>

lemma demo_accepts: "0 < n \<Longrightarrow> n < 16 \<Longrightarrow> accepts (demo_device 1220 1200) n"
  using SVGA_Startup.demo_ready [of 1220 1200] demo_progress [of 1220 1200] by (simp add: accepts_def)

lemma new_accel_sel [simp]: "m_svga (new_accel d) = d" "bHaveSVGA3D (new_accel d)" "bHaveScreenObject (new_accel d)"
  by (simp_all add: new_accel_def Accel_init_def initPrimaryScreen_def)

text \<open>
  C22.  With a device that has 3D support and a ring that can hold the command, every surface and context method that sends
  one command returns \<open>kIOReturnSuccess\<close> after appending exactly one message to the queue, given here dword by dword: the
  16-bit rectangles of the region are sign-extended and shifted by the differences of source and destination.
\<close>

theorem accel_ops_send:
  assumes "bHaveSVGA3D s" "accel_wf op" "accel_message op = (i, ws)"
    and "fifo_ready (m_svga s)" "host_progress (m_svga s)"
    and "length ws + 2 \<le> 0x4000" "length ws + 2 < ring_size (fifo (m_svga s))"
  shows "\<exists>d. accel_run op s = Some (kIOReturnSuccess, s\<lparr>m_svga := d\<rparr>) \<and> fifo_sent (i # of_nat (4 * length ws) # ws) (m_svga s) d"
proof -
  have m: "command_words (accel_command op) = i # of_nat (4 * length ws) # ws"
    using assms(3) by (intro command_words_message) (simp add: accel_command_message)
  have "accepts (m_svga s) (length ws + 2)" using assms(4-7) by (simp add: accepts_def)
  then show ?thesis using accel_run_sent [OF assms(1) accel_wf_command [OF assms(2)]] unfolding m by (metis add_2_eq_Suc' length_Cons order_refl)
qed

abbreviation demo_region :: IOAccelDeviceRegion where
  "demo_region \<equiv> \<lparr>rg_num_rects = 1, rg_bounds = \<lparr>bd_x = 0, bd_y = 0, bd_w = 4, bd_h = 4\<rparr>, rg_rect = (\<lambda>_. \<lparr>bd_x = - 1, bd_y = 2, bd_w = 4, bd_h = 3\<rparr>)\<rparr>"

theorem accel_ops_send_witness:
  "\<exists>d. Accel_clear 7 1 (Some demo_region) 255 0 0 (new_accel (demo_device 1220 1200)) =
      Some (kIOReturnSuccess, (new_accel (demo_device 1220 1200))\<lparr>m_svga := d\<rparr>) \<and>
    fifo_sent [1057, 36, 7, 1, 255, 0, 0, - 1, 2, 4, 3] (demo_device 1220 1200) d"
  using accel_ops_send [of "new_accel (demo_device 1220 1200)" "ClearA 7 1 (Some demo_region) 255 0 0"]
    SVGA_Startup.demo_ready [of 1220 1200] demo_progress [of 1220 1200]
  by (simp add: dword_defs)


abbreviation demo_extra :: ExtraInfo where
  "demo_extra \<equiv> \<lparr>mem_offset_in_gmr = 64, mem_pitch = 32, srcDeltaX = 1, srcDeltaY = 0, dstDeltaX = 5, dstDeltaY = 0, mem_gmr_id = 3\<rparr>"

lemma new_accel_tracker: "fences (m_present_tracker (new_accel d)) ! counter (m_present_tracker (new_accel d)) = 0"
  by (simp add: new_accel_def Accel_init_def initPrimaryScreen_def FenceTracker_init_def)


text \<open>
  C23.  A command that does not fit is dropped without a trace: when the reservation is refused,
  the surface and context methods change nothing and still return \<open>kIOReturnSuccess\<close>.
\<close>

theorem accel_ops_drop_silently:
  assumes "bHaveSVGA3D s" "command_wf (accel_command op)" "fifo_ready (m_svga s)"
    and "length (command_words (accel_command op)) < 2 ^ 30" "\<not> cmd_fits (command_words (accel_command op)) (m_svga s)"
  shows "accel_run op s = Some (kIOReturnSuccess, s)"
proof -
  have "command_run (accel_command op) (m_svga s) = FIFOTransmit (command_words (accel_command op)) (m_svga s)"
    using assms(4) by (intro command_run_words [OF assms(2)]) simp
  also have "\<dots> = Some (False, m_svga s)" using assms(4) by (intro FIFOTransmit_refused [OF assms(3,5)]) simp
  finally show ?thesis using accel_run_command [OF assms(1), of op] by simp
qed

theorem accel_ops_drop_silently_witness:
  "drawPrimitives 1 (replicate 9 (replicate 9 0)) [] (new_accel (demo_device 1220 1200)) =
     Some (kIOReturnSuccess, new_accel (demo_device 1220 1200))"
  using accel_ops_drop_silently [of "new_accel (demo_device 1220 1200)" "DrawPrimitivesA 1 (replicate 9 (replicate 9 0)) []"]
    SVGA_Startup.demo_ready [of 1220 1200]
  by (simp add: cmd_fits_def length_concat_const)

text \<open>
  The present tracker returns the fence of the presentation as many calls before as it has
  slots (two in the driver), and 0, which means no wait, before that many presentations.
\<close>

lemma present_fence_delay:
  assumes "length (fences t) = n" "0 < n"
  shows "FenceTracker_before (fold FenceTracker_after fs (FenceTracker_init t)) =
    (if length fs < n then 0 else fs ! (length fs - n))"
proof -
  let ?t = "FenceTracker_init t" and ?z = "replicate n (0 :: u32)"
  have i: "counter ?t = 0" "fences ?t = ?z" using assms(1) by (simp_all add: FenceTracker_init_def)
  note r = after_ring [of ?t n, unfolded i, simplified, OF assms(2)]
  have "fences (fold FenceTracker_after ?z ?t) = ?z"
    using r [of ?z] by (intro nth_equalityI) auto
  then have "fold FenceTracker_after ?z ?t = ?t" using r [of ?z] i by (intro FenceTracker.equality) simp_all
  then have "fold FenceTracker_after fs ?t = fold FenceTracker_after (?z @ fs) ?t" by simp
  moreover have "FenceTracker_before (fold FenceTracker_after (?z @ fs) ?t) = (?z @ fs) ! length fs"
    using r [of "?z @ fs"] assms(2) by (simp add: FenceTracker_before_def del: fold_append)
  ultimately show ?thesis by (simp add: nth_append)
qed

text \<open>
  C24.  The master surface is reference-counted.  After any sequence of retains and releases, of which every call returns and
  no retain fails, the count is the balance, with surplus releases ignored.  The host is told exactly to define the
  surface, with the size of the screen, whenever the count leaves 0, and to destroy it whenever the count returns to 0,
  so that the host has the surface exactly while the count is positive; its identifier is then in use, and invalid
  otherwise.
\<close>

theorem master_surface_counted:
  assumes "master_inv (length ops) s" "accepts (m_svga s) 14" "unat (m_master_surface_retain_count s) + length ops < 2 ^ 31"
  shows "\<exists>rcs s' es. run_master ops s = Some (rcs, s') \<and> False \<notin> set rcs \<and>
    unat (m_master_surface_retain_count s') = retain_depth ops (unat (m_master_surface_retain_count s)) \<and>
    sent_all (map (event_message (m_width (m_svga s)) (m_height (m_svga s))) es) (m_svga s) (m_svga s') \<and>
    host_surfaces es (master_surface s) = Some (master_surface s') \<and>
    (if retain_depth ops (unat (m_master_surface_retain_count s)) = 0
     then master_surface s' = {} \<and> m_master_surface_id s' = SVGA_ID_INVALID
     else master_surface s' = {m_master_surface_id s'} \<and> m_master_surface_id s' \<in> surface_used s' \<and>
       m_master_surface_id s' \<noteq> SVGA_ID_INVALID)"
proof -
  obtain rcs s' where s': "run_master ops s = Some (rcs, s')" "False \<notin> set rcs" "master_inv 0 s'" "master_told s s'"
      "unat (m_master_surface_retain_count s') = retain_depth ops (unat (m_master_surface_retain_count s))"
    using run_master_ok [OF assms] by blast
  have "retain_depth ops (unat (m_master_surface_retain_count s)) = 0 \<longleftrightarrow> m_master_surface_retain_count s' = 0"
    using s'(5) by (metis unat_eq_zero)
  then show ?thesis using s' by (auto simp: master_inv_def master_told_def master_surface_def)
qed

theorem master_surface_counted_witness:
  "\<exists>rcs s' es. run_master [True, True, False, False, False, True] (new_accel (demo_device 1220 1200)) = Some (rcs, s') \<and>
    unat (m_master_surface_retain_count s') = 1 \<and> m_master_surface_id s' \<noteq> SVGA_ID_INVALID \<and>
    host_surfaces es {} = Some {m_master_surface_id s'} \<and> sent_all (map (event_message 640 480) es) (demo_device 1220 1200) (m_svga s')"
proof -
  let ?ops = "[True, True, False, False, False, True]" and ?s = "new_accel (demo_device 1220 1200)"
  have c: "m_master_surface_retain_count ?s = 0" by (simp add: new_accel_def Accel_init_def initPrimaryScreen_def)
  have w: "m_width (demo_device 1220 1200) = 640" "m_height (demo_device 1220 1200) = 480" by (simp_all add: demo_device_def)
  have "surface_ok (length ?ops) ?s" by (rule new_accel_ok) simp
  then have "master_inv (length ?ops) ?s"
    by (simp add: master_inv_def c) (simp add: new_accel_def Accel_init_def initPrimaryScreen_def)
  moreover have "accepts (m_svga ?s) 14" using demo_accepts [of 14] by simp
  moreover have "master_surface ?s = {}" by (simp add: master_surface_def c)
  ultimately show ?thesis using master_surface_counted [of ?ops ?s] by (auto simp: c w)
qed

end
