(* ===== verification/Accel_Blit.thy ===== *)
theory Accel_Blit
  imports Accel_Surface
begin

text \<open>
  Copies and fills of \<open>CEsvga2Accel\<close> (\<open>src/AC/CEsvga2Accel.cpp\<close>) that the processor does in mapped
  memory, and the clipping they rely on.  A blit is the list of its \<open>memcpy\<close> calls, in order, and
  its effect on memory.  Addresses are 64-bit words; \<open>IOBlitRectangleStruct\<close> has \<open>int\<close> fields.
\<close>

section \<open>Copies\<close>

record SVGAGuestImage =
  ig_limit :: u32
  ig_pitch :: u32

text \<open>
  As in the source, \<open>ig_limit\<close> is the field \<open>ptr.offset\<close>, used as the limit relative to the base.
  The product with the unsigned pitch is computed in 32 bits and zero-extended, the product with
  \<open>bytes_per_pixel\<close> is an \<open>int\<close> and sign-extended.
\<close>

definition blit_addr :: "u64 \<Rightarrow> SVGAGuestImage \<Rightarrow> SVGASignedPoint \<Rightarrow> IOAccelBounds \<Rightarrow> u8 \<Rightarrow> u64" where
  "blit_addr base img delta rect bpp =
     base + ucast ((int16 (bd_y rect) + sp_y delta) * ig_pitch img)
          + scast ((int16 (bd_x rect) + sp_x delta) * ucast bpp)"

text \<open>A call of \<open>memcpy\<close>: destination, source and length.\<close>

type_synonym mem_copy = "u64 \<times> u64 \<times> u64"

text \<open>
  The rows of one rectangle.  A row outside the limits is skipped with \<open>continue\<close>, before the
  addresses are advanced.
\<close>

fun blit_rows :: "u64 \<times> u64 \<Rightarrow> u64 \<times> u64 \<Rightarrow> u64 \<Rightarrow> u64 \<Rightarrow> u64 \<Rightarrow> nat \<Rightarrow> u64 \<Rightarrow> u64 \<Rightarrow> mem_copy list" where
  "blit_rows dst src l pitch1 pitch2 0 addr1 addr2 = []"
| "blit_rows dst src l pitch1 pitch2 (Suc n) addr1 addr2 =
     (if addr1 < fst dst \<or> addr1 + l > snd dst \<or> addr2 < fst src \<or> addr2 + l > snd src
      then blit_rows dst src l pitch1 pitch2 n addr1 addr2
      else (addr1, addr2, l) # blit_rows dst src l pitch1 pitch2 n (addr1 + pitch1) (addr2 + pitch2))"

definition blit_rect ::
  "u64 \<Rightarrow> SVGAGuestImage \<Rightarrow> SVGASignedPoint \<Rightarrow> u64 \<Rightarrow> SVGAGuestImage \<Rightarrow> SVGASignedPoint \<Rightarrow> u8 \<Rightarrow>
   IOAccelBounds \<Rightarrow> mem_copy list" where
  "blit_rect dst_base dst_image dst_delta src_base src_image src_delta bpp rect =
     (if sint (bd_w rect) \<le> 0 \<or> sint (bd_h rect) \<le> 0 then []
      else blit_rows (dst_base, dst_base + ucast (ig_limit dst_image)) (src_base, src_base + ucast (ig_limit src_image))
             (scast (bd_w rect) * ucast bpp) (ucast (ig_pitch dst_image)) (ucast (ig_pitch src_image)) (nat (sint (bd_h rect)))
             (blit_addr dst_base dst_image dst_delta rect bpp) (blit_addr src_base src_image src_delta rect bpp))"

definition memcpy :: "mem_copy \<Rightarrow> (u64 \<Rightarrow> u8) \<Rightarrow> u64 \<Rightarrow> u8" where
  "memcpy c mem = (case c of (dst, src, l) \<Rightarrow> (\<lambda>a. if a - dst < l then mem (src + (a - dst)) else mem a))"

definition genericBlitCopy ::
  "u64 \<Rightarrow> SVGAGuestImage option \<Rightarrow> SVGASignedPoint option \<Rightarrow> u64 \<Rightarrow> SVGAGuestImage option \<Rightarrow> SVGASignedPoint option \<Rightarrow>
   IOAccelDeviceRegion option \<Rightarrow> u8 \<Rightarrow> (u64 \<Rightarrow> u8) \<Rightarrow> IOReturn \<times> mem_copy list \<times> (u64 \<Rightarrow> u8)" where
  "genericBlitCopy dst_base dst_image dst_delta src_base src_image src_delta region bpp mem =
     (case (dst_image, dst_delta, src_image, src_delta) of
        (Some di, Some dd, Some si, Some sd) \<Rightarrow>
          if dst_base = 0 \<or> src_base = 0 then (kIOReturnBadArgument, [], mem)
          else let copies = concat (map (blit_rect dst_base di dd src_base si sd bpp) (region_rects region))
               in (kIOReturnSuccess, copies, fold memcpy copies mem)
      | _ \<Rightarrow> (kIOReturnBadArgument, [], mem))"

text \<open>\<open>blitGFB\<close>: between the guest framebuffer and a guest memory region.\<close>

definition blitGFB ::
  "IOAccelDeviceRegion option \<Rightarrow> ExtraInfo option \<Rightarrow> u64 \<Rightarrow> u64 \<Rightarrow> bool \<Rightarrow> 'h CEsvga2Accel \<Rightarrow> (u64 \<Rightarrow> u8) \<Rightarrow>
   IOReturn \<times> mem_copy list \<times> (u64 \<Rightarrow> u8)" where
  "blitGFB region extra gmrPtr limitFromGmrPtr direction s mem =
     (case (extra, vram_map s) of
        (None, _) \<Rightarrow> (kIOReturnBadArgument, [], mem)
      | (Some ex, None) \<Rightarrow> (kIOReturnNotReady, [], mem)
      | (Some ex, Some vram) \<Rightarrow>
          if \<not> m_framebuffer s then (kIOReturnNotReady, [], mem)
          else if gmrPtr = 0 \<and> mem_gmr_id ex \<noteq> GMR_VRAM then (kIOReturnBadArgument, [], mem)
          else
            let gmrPtr = (if gmrPtr = 0 then vram else gmrPtr);
                gfb_base = vram + ucast (m_fb_offset (m_svga s));
                gfb_image = \<lparr>ig_limit = m_fb_size (m_svga s), ig_pitch = m_pitch (m_svga s)\<rparr>;
                gmr_base = gmrPtr + mem_offset_in_gmr ex;
                gmr_image = \<lparr>ig_limit = ucast (limitFromGmrPtr - mem_offset_in_gmr ex), ig_pitch = ucast (mem_pitch ex)\<rparr>;
                gmr_delta = \<lparr>sp_x = dstDeltaX ex, sp_y = dstDeltaY ex\<rparr>;
                gfb_delta = \<lparr>sp_x = srcDeltaX ex, sp_y = srcDeltaY ex\<rparr>
            in if direction
               then genericBlitCopy gfb_base (Some gfb_image) (Some gfb_delta) gmr_base (Some gmr_image) (Some gmr_delta) region 4 mem
               else genericBlitCopy gmr_base (Some gmr_image) (Some gmr_delta) gfb_base (Some gfb_image) (Some gfb_delta) region 4 mem)"

section \<open>Clipping and fills\<close>

text \<open>
  The fields are C \<open>int\<close>s; the sums of the source are taken not to overflow.
\<close>

record IOBlitRectangleStruct =
  br_x :: int
  br_y :: int
  br_width :: int
  br_height :: int

definition clip_rect :: "int \<Rightarrow> int \<Rightarrow> IOBlitRectangleStruct \<Rightarrow> IOBlitRectangleStruct" where
  "clip_rect w h rect =
     (let rect = (if br_x rect < 0 then rect\<lparr>br_x := 0\<rparr> else rect);
          rect = (if br_y rect < 0 then rect\<lparr>br_y := 0\<rparr> else rect);
          rect = (if br_width rect < 0 then rect\<lparr>br_width := 0\<rparr> else rect);
          rect = (if br_height rect < 0 then rect\<lparr>br_height := 0\<rparr> else rect);
          rect = (if br_x rect + br_width rect > w then rect\<lparr>br_width := w - br_x rect\<rparr> else rect)
      in if br_y rect + br_height rect > h then rect\<lparr>br_height := h - br_y rect\<rparr> else rect)"

text \<open>A call of \<open>memset32\<close>: address, value and number of dwords, an \<open>int\<close> converted to \<open>size_t\<close>.
  \<open>vram\<close> is the address of the mapping, which the method does not check.\<close>

definition fill_rect :: "u32 \<Rightarrow> int \<Rightarrow> int \<Rightarrow> IOBlitRectangleStruct \<Rightarrow> (int \<times> u32 \<times> int) list" where
  "fill_rect color gfb_start gfb_pitch rect =
     (let addr = gfb_start + br_y rect * gfb_pitch + br_x rect * 4
      in if br_width rect * 4 = gfb_pitch then [(addr, color, (br_height rect * br_width rect) mod 2 ^ 64)]
         else map (\<lambda>j. (addr + int j * gfb_pitch, color, br_width rect mod 2 ^ 64)) [0..<nat (br_height rect)])"

definition clearGFB ::
  "u32 \<Rightarrow> IOBlitRectangleStruct list \<Rightarrow> u64 \<Rightarrow> 'h CEsvga2Accel \<Rightarrow> IOReturn \<times> (int \<times> u32 \<times> int) list" where
  "clearGFB color rects vram s =
     (if \<not> m_framebuffer s then (kIOReturnNotReady, [])
      else
        let gfb_start = uint vram + uint (m_fb_offset (m_svga s));
            gfb_w = sint (m_width (m_svga s)); gfb_h = sint (m_height (m_svga s)); gfb_pitch = sint (m_pitch (m_svga s))
        in (kIOReturnSuccess, concat (map (\<lambda>rect. fill_rect color gfb_start gfb_pitch (clip_rect gfb_w gfb_h rect)) rects)))"

section \<open>Regions of several rectangles\<close>

text \<open>
  \<open>set_region\<close> for an array of rectangles.  The loop starts at 1, so that \<open>rect[0]\<close> keeps what
  was in memory.  The bounds hold right and lower edges until the end.
\<close>

definition to16 :: "int \<Rightarrow> u16" where "to16 x = of_int x"

definition bounds_of :: "IOBlitRectangleStruct \<Rightarrow> IOAccelBounds" where
  "bounds_of r = \<lparr>bd_x = to16 (br_x r), bd_y = to16 (br_y r), bd_w = to16 (br_width r), bd_h = to16 (br_height r)\<rparr>"

definition grow_bounds :: "IOAccelBounds \<Rightarrow> IOAccelBounds \<Rightarrow> IOAccelBounds" where
  "grow_bounds d b =
     (let b = (if sint (bd_x d) < sint (bd_x b) then b\<lparr>bd_x := bd_x d\<rparr> else b);
          b = (if sint (bd_x d) + sint (bd_w d) > sint (bd_w b) then b\<lparr>bd_w := bd_x d + bd_w d\<rparr> else b);
          b = (if sint (bd_y d) < sint (bd_y b) then b\<lparr>bd_y := bd_y d\<rparr> else b)
      in if sint (bd_y d) + sint (bd_h d) > sint (bd_h b) then b\<lparr>bd_h := bd_y d + bd_h d\<rparr> else b)"

definition set_region_rects :: "IOBlitRectangleStruct list \<Rightarrow> IOAccelBounds \<Rightarrow> IOAccelDeviceRegion" where
  "set_region_rects rects garbage =
     (let r0 = hd rects;
          b = \<lparr>bd_x = to16 (br_x r0), bd_y = to16 (br_y r0), bd_w = to16 (br_x r0 + br_width r0), bd_h = to16 (br_y r0 + br_height r0)\<rparr>;
          b = fold grow_bounds (map bounds_of (tl rects)) b
      in \<lparr>rg_num_rects = of_nat (length rects), rg_bounds = b\<lparr>bd_w := bd_w b - bd_x b, bd_h := bd_h b - bd_y b\<rparr>,
          rg_rect = (\<lambda>i. (garbage # map bounds_of (tl rects)) ! i)\<rparr>)"

text \<open>
  \<open>RectFill3D\<close> clears the rectangles in the master surface through a context of its own and presents them.  The
  results of the calls between the creation of the context and the end are ignored.
\<close>

definition RectFill3D ::
  "u32 \<Rightarrow> IOBlitRectangleStruct list \<Rightarrow> bool \<Rightarrow> IOAccelBounds \<Rightarrow> 'h CEsvga2Accel \<Rightarrow> (IOReturn \<times> 'h CEsvga2Accel) option" where
  "RectFill3D color rects alloc_ok garbage s =
     (if sint (m_master_surface_retain_count s) \<le> 0 then Some (kIOReturnSuccess, s)
      else if \<not> alloc_ok then Some (kIOReturnNoMemory, s)
      else
        let rgn = set_region_rects rects garbage;
            sid = m_master_surface_id s;
            (cid, s) = AllocContextID s
        in do {
          (rc, s) \<leftarrow> createContext cid s;
          if rc \<noteq> kIOReturnSuccess then Some (kIOReturnError, FreeContextID cid s)
          else do {
            (_, s) \<leftarrow> Accel_setRenderTarget cid 2 sid s;
            (_, s) \<leftarrow> Accel_clear cid 1 (Some rgn) color 0x3F800000 0 s;
            (_, s) \<leftarrow> destroyContext cid s;
            (_, s) \<leftarrow> surfacePresentAutoSync sid (Some rgn)
              (Some \<lparr>mem_offset_in_gmr = 0, mem_pitch = 0, srcDeltaX = 0, srcDeltaY = 0, dstDeltaX = 0, dstDeltaY = 0, mem_gmr_id = 0\<rparr>)
              (FreeContextID cid s);
            Some (kIOReturnSuccess, s) } })"

section \<open>The rows of a blit\<close>

definition in_window :: "u64 \<times> u64 \<Rightarrow> u64 \<times> u64 \<Rightarrow> mem_copy \<Rightarrow> bool" where
  "in_window dst src c \<longleftrightarrow>
     (case c of (a, b, l) \<Rightarrow> fst dst \<le> a \<and> a + l \<le> snd dst \<and> fst src \<le> b \<and> b + l \<le> snd src)"

lemma blit_rows_out:
  "\<not> in_window dst src (a, b, l) \<Longrightarrow> blit_rows dst src l p q n a b = []"
  by (induction n) (auto simp: in_window_def not_le)

text \<open>The copied rows are the longest prefix of the rows that lies inside both windows.\<close>

lemma blit_rows_prefix:
  "blit_rows dst src l p q n a b =
   takeWhile (in_window dst src) (map (\<lambda>j. (a + of_nat j * p, b + of_nat j * q, l)) [0..<n])"
proof (induction n arbitrary: a b)
  case (Suc n)
  have e: "map (\<lambda>j. (a + of_nat j * p, b + of_nat j * q, l)) [0..<Suc n] =
      (a, b, l) # map (\<lambda>j. ((a + p) + of_nat j * p, (b + q) + of_nat j * q, l)) [0..<n]"
    by (simp only: upt_conv_Cons [OF zero_less_Suc] list.map map_Suc_upt [symmetric] map_map comp_def)
      (simp add: algebra_simps)
  show ?case
  proof (cases "in_window dst src (a, b, l)")
    case True
    then have "blit_rows dst src l p q (Suc n) a b = (a, b, l) # blit_rows dst src l p q n (a + p) (b + q)"
      by (auto simp: in_window_def)
    then show ?thesis unfolding e Suc.IH using True by simp
  next
    case False
    then show ?thesis unfolding e by (simp add: blit_rows_out del: blit_rows.simps)
  qed
qed simp

text \<open>
  Mappings that keep away from both ends of the address space: 64-bit sums do not wrap.
\<close>

definition far_base :: "u64 \<Rightarrow> bool" where
  "far_base b \<longleftrightarrow> 2 ^ 31 \<le> unat b \<and> unat b + 2 ^ 34 \<le> 2 ^ 64"

lemma ucast_le32: "unat (ucast (x :: u32) :: u64) < 2 ^ 32"
  using unat_u32_less [of x] by simp

lemma inside_nat:
  assumes "far_base base" "unat a < unat base + 2 ^ 33" "unat l < 2 ^ 23"
    and "base \<le> a" "a + l \<le> base + ucast (lim :: u32)"
  shows "unat base \<le> unat a \<and> unat a + unat l \<le> unat base + unat lim"
proof -
  have "unat (a + l) = unat a + unat l" using assms(1-3) by (intro unat_add_small) (simp add: far_base_def)
  moreover have "unat (base + ucast lim) = unat base + unat lim"
    using assms(1) ucast_le32 [of lim] by (subst unat_add_small) (simp_all add: far_base_def)
  ultimately show ?thesis using assms(4,5) by (simp add: word_le_nat_alt)
qed

lemma next_row:
  fixes a l base :: u64
  assumes "far_base base" "unat a + unat l \<le> unat base + unat (lim :: u32)"
  shows "unat (a + ucast (pitch :: u32)) < unat base + 2 ^ 33"
proof -
  have "unat a < 2 ^ 64 - 2 ^ 33" using assms unat_u32_less [of lim] by (simp add: far_base_def)
  then show ?thesis
    using assms(2) unat_u32_less [of lim] ucast_le32 [of pitch] by (subst unat_add_small) simp_all
qed

lemma blit_rows_inside:
  assumes "far_base d0" "far_base s0" "unat l < 2 ^ 23" "unat a < unat d0 + 2 ^ 33" "unat b < unat s0 + 2 ^ 33"
    and "(x, y, k) \<in> set (blit_rows (d0, d0 + ucast dl) (s0, s0 + ucast sl) l (ucast (p :: u32)) (ucast (q :: u32)) n a b)"
  shows "unat d0 \<le> unat x \<and> unat x + unat k \<le> unat d0 + unat (dl :: u32) \<and>
    unat s0 \<le> unat y \<and> unat y + unat k \<le> unat s0 + unat (sl :: u32)"
  using assms(4-6)
proof (induction n arbitrary: a b)
  case (Suc n)
  show ?case
  proof (cases "in_window (d0, d0 + ucast dl) (s0, s0 + ucast sl) (a, b, l)")
    case True
    then have w: "unat d0 \<le> unat a \<and> unat a + unat l \<le> unat d0 + unat dl" "unat s0 \<le> unat b \<and> unat b + unat l \<le> unat s0 + unat sl"
      using inside_nat [OF assms(1) Suc.prems(1) assms(3)] inside_nat [OF assms(2) Suc.prems(2) assms(3)] by (auto simp: in_window_def)
    have "(x, y, k) = (a, b, l) \<or> (x, y, k) \<in> set (blit_rows (d0, d0 + ucast dl) (s0, s0 + ucast sl) l (ucast p) (ucast q) n (a + ucast p) (b + ucast q))"
      using Suc.prems(3) True by (auto simp: in_window_def split: if_splits)
    then show ?thesis
      using w Suc.IH next_row [OF assms(1), of a l dl p] next_row [OF assms(2), of b l sl q] by auto
  qed (use Suc.prems(3) in \<open>simp add: blit_rows_out del: blit_rows.simps\<close>)
qed simp

lemma unat_of_int_u64: "0 \<le> k \<Longrightarrow> k < 2 ^ 64 \<Longrightarrow> unat (of_int k :: u64) = nat k"
  by (simp add: unat_eq_nat_uint uint_word_of_int_eq take_bit_int_eq_self)

lemma blit_addr_near:
  assumes "far_base base"
  shows "unat (blit_addr base img delta rect bpp) < unat base + 2 ^ 33"
proof -
  define A where "A = (int16 (bd_y rect) + sp_y delta) * ig_pitch img"
  define B where "B = (int16 (bd_x rect) + sp_x delta) * ucast bpp"
  define k where "k = uint base + uint A + sint B"
  have r: "0 \<le> uint A" "uint A < 2 ^ 32" "- (2 ^ 31) \<le> sint B" "sint B < 2 ^ 31"
    using uint_lt2p [of A] sint_ge [of B] sint_lt [of B] by simp_all
  have b: "2 ^ 31 \<le> uint base" "uint base + 2 ^ 34 \<le> 2 ^ 64"
    using assms [unfolded far_base_def, folded of_nat_le_iff [where 'a = int]] by simp_all
  have "0 \<le> k" unfolding k_def using r b by linarith
  moreover have "k < 2 ^ 64" "k < uint base + 2 ^ 33" unfolding k_def using r b by simp_all
  ultimately have k: "0 \<le> k" "k < 2 ^ 64" "k < uint base + 2 ^ 33" by simp_all
  have "blit_addr base img delta rect bpp = of_int k"
    by (simp add: blit_addr_def k_def flip: A_def B_def)
  then have "int (unat (blit_addr base img delta rect bpp)) = k" using unat_of_int_u64 [OF k(1,2)] k(1) by simp
  moreover have "int (unat base + 2 ^ 33) = uint base + 2 ^ 33" by simp
  ultimately show ?thesis using k(3) by linarith
qed

lemma blit_rect_inside:
  assumes "far_base d0" "far_base s0"
    and "(x, y, k) \<in> set (blit_rect d0 di dd s0 si sd bpp rect)"
  shows "unat d0 \<le> unat x \<and> unat x + unat k \<le> unat d0 + unat (ig_limit di) \<and>
    unat s0 \<le> unat y \<and> unat y + unat k \<le> unat s0 + unat (ig_limit si)"
proof -
  let ?l = "scast (bd_w rect) * ucast bpp :: u64"
  have pos: "\<not> (sint (bd_w rect) \<le> 0 \<or> sint (bd_h rect) \<le> 0)"
    and mem: "(x, y, k) \<in> set (blit_rows (d0, d0 + ucast (ig_limit di)) (s0, s0 + ucast (ig_limit si)) ?l
       (ucast (ig_pitch di)) (ucast (ig_pitch si)) (nat (sint (bd_h rect))) (blit_addr d0 di dd rect bpp) (blit_addr s0 si sd rect bpp))"
    using assms(3) by (auto simp: blit_rect_def split: if_splits)
  have "sint (bd_w rect) < 2 ^ 15" using sint_lt [of "bd_w rect"] by simp
  then have w: "unat (scast (bd_w rect) :: u64) < 2 ^ 15"
    using pos unat_of_int_u64 [of "sint (bd_w rect)"] by simp
  have b: "unat (ucast bpp :: u64) < 2 ^ 8" using unsigned_less [of bpp, where ?'a = nat] by (simp add: unsigned_ucast_eq take_bit_nat_eq_self)
  have "unat (scast (bd_w rect) :: u64) * unat (ucast bpp :: u64) < 2 ^ 15 * 2 ^ 8"
    by (rule mult_strict_mono) (use w b in simp_all)
  then have "unat ?l < 2 ^ 23" by (simp add: unat_word_ariths)
  then show ?thesis
    using blit_rows_inside [OF assms(1,2) _ blit_addr_near [OF assms(1)] blit_addr_near [OF assms(2)] mem] by blast
qed

text \<open>Which bytes a list of copies can change.\<close>

lemma memcpy_change:
  assumes "memcpy (x, y, k) mem a \<noteq> mem a" "unat x + unat k \<le> 2 ^ 64"
  shows "unat x \<le> unat a \<and> unat a < unat x + unat k"
proof -
  have less: "a - x < k" using assms(1) by (auto simp: memcpy_def split: if_splits)
  define d where "d = a - x"
  have "unat x + unat d < 2 ^ 64" using less assms(2) by (simp add: d_def word_less_nat_alt)
  then have "unat (x + d) = unat x + unat d" by (intro unat_add_small) simp
  moreover have "x + d = a" by (simp add: d_def)
  ultimately show ?thesis using less by (simp add: d_def word_less_nat_alt)
qed

lemma fold_memcpy_change:
  assumes "\<And>x y k. (x, y, k) \<in> set cs \<Longrightarrow> lo \<le> unat x \<and> unat x + unat k \<le> hi" "hi \<le> 2 ^ 64"
    and "fold memcpy cs mem a \<noteq> mem a"
  shows "lo \<le> unat a \<and> unat a < hi"
  using assms(1,3)
proof (induction cs arbitrary: mem)
  case (Cons c cs)
  obtain x y k where c: "c = (x, y, k)" by (cases c)
  have r: "lo \<le> unat x \<and> unat x + unat k \<le> hi" by (rule Cons.prems(1) [of x y k]) (simp add: c)
  show ?case
  proof (cases "memcpy c mem a = mem a")
    case False
    then show ?thesis using memcpy_change [of x y k mem a] r assms(2) unfolding c by linarith
  next
    case True
    have "fold memcpy cs (memcpy c mem) a \<noteq> memcpy c mem a" using Cons.prems(2) True by simp
    then show ?thesis by (rule Cons.IH [rotated]) (use Cons.prems(1) in auto)
  qed
qed simp

section \<open>Properties\<close>

text \<open>
  C25.  For mappings that keep away from the ends of the address space, a blit is memory-safe
  whatever the region, the deltas and the pitches are: every \<open>memcpy\<close> reads inside the source
  window and writes inside the destination window, and no other byte of memory changes.
\<close>

theorem genericBlitCopy_inside:
  assumes "far_base dst_base" "far_base src_base"
    and "genericBlitCopy dst_base (Some di) (Some dd) src_base (Some si) (Some sd) region bpp mem = (ret, copies, mem')"
  shows "(\<forall>(x, y, k) \<in> set copies.
      unat dst_base \<le> unat x \<and> unat x + unat k \<le> unat dst_base + unat (ig_limit di) \<and>
      unat src_base \<le> unat y \<and> unat y + unat k \<le> unat src_base + unat (ig_limit si)) \<and>
    (\<forall>a. mem' a \<noteq> mem a \<longrightarrow> unat dst_base \<le> unat a \<and> unat a < unat dst_base + unat (ig_limit di))"
proof -
  have c: "copies \<in> {[], concat (map (blit_rect dst_base di dd src_base si sd bpp) (region_rects region))}"
    and m: "mem' = fold memcpy copies mem"
    using assms(3) by (auto simp: genericBlitCopy_def Let_def split: if_splits)
  have r: "unat dst_base \<le> unat x \<and> unat x + unat k \<le> unat dst_base + unat (ig_limit di) \<and>
      unat src_base \<le> unat y \<and> unat y + unat k \<le> unat src_base + unat (ig_limit si)" if "(x, y, k) \<in> set copies" for x y k
    using that c blit_rect_inside [OF assms(1,2)] by auto
  have "unat dst_base + unat (ig_limit di) \<le> 2 ^ 64"
    using assms(1) unat_u32_less [of "ig_limit di"] by (simp add: far_base_def)
  then have "unat dst_base \<le> unat a \<and> unat a < unat dst_base + unat (ig_limit di)" if "mem' a \<noteq> mem a" for a
    using that r unfolding m by (intro fold_memcpy_change [of copies]) auto
  then show ?thesis using r by auto
qed

abbreviation demo_window :: SVGAGuestImage where "demo_window \<equiv> \<lparr>ig_limit = 4096, ig_pitch = 64\<rparr>"
abbreviation no_delta :: SVGASignedPoint where "no_delta \<equiv> \<lparr>sp_x = 0, sp_y = 0\<rparr>"

abbreviation demo_blit :: "u32 \<Rightarrow> u32 \<Rightarrow> IOReturn \<times> mem_copy list \<times> (u64 \<Rightarrow> u8)" where
  "demo_blit y h \<equiv> genericBlitCopy 0x100000000 (Some demo_window) (Some no_delta) 0x200000000 (Some demo_window)
     (Some no_delta) (Some (set_region 1 y 3 h)) 4 (\<lambda>a. ucast a)"

theorem genericBlitCopy_inside_witness:
  "fst (snd (demo_blit 2 2)) = [(0x100000084, 0x200000084, 12), (0x1000000C4, 0x2000000C4, 12)] \<and>
   snd (snd (demo_blit 2 200)) 0x100001000 = 0"
proof
  show "fst (snd (demo_blit 2 2)) = [(0x100000084, 0x200000084, 12), (0x1000000C4, 0x2000000C4, 12)]" by code_simp
  have "snd (snd (demo_blit 2 200)) a = ucast a" if "unat a = 0x100001000" for a
    using that genericBlitCopy_inside [of "0x100000000" "0x200000000" demo_window no_delta demo_window no_delta
        "Some (set_region 1 2 3 200)" 4 "\<lambda>a. ucast a" "fst (demo_blit 2 200)" "fst (snd (demo_blit 2 200))"
        "snd (snd (demo_blit 2 200))"]
    by (force simp: far_base_def)
  from this [of "0x100001000"] show "snd (snd (demo_blit 2 200)) 0x100001000 = 0" by simp
qed

text \<open>
  C26.  Of a rectangle, a blit copies exactly the rows before the first one that is not inside
  both windows: the rows of the rectangle in order, cut at the first row outside.  Rows behind it
  that are inside are not copied.
\<close>

theorem blit_rect_prefix:
  assumes "0 < sint (bd_w rect)" "0 < sint (bd_h rect)"
  shows "blit_rect d0 di dd s0 si sd bpp rect =
    takeWhile (in_window (d0, d0 + ucast (ig_limit di)) (s0, s0 + ucast (ig_limit si)))
      (map (\<lambda>j. (blit_addr d0 di dd rect bpp + of_nat j * ucast (ig_pitch di),
                 blit_addr s0 si sd rect bpp + of_nat j * ucast (ig_pitch si), scast (bd_w rect) * ucast bpp))
         [0..<nat (sint (bd_h rect))])"
  using assms by (simp add: blit_rect_def blit_rows_prefix)

text \<open>The first row of this rectangle is above the source window, the second is inside.\<close>

abbreviation above :: SVGASignedPoint where "above \<equiv> \<lparr>sp_x = - 16, sp_y = 0\<rparr>"
abbreviation two_rows :: IOAccelBounds where "two_rows \<equiv> \<lparr>bd_x = 0, bd_y = 0, bd_w = 3, bd_h = 2\<rparr>"

theorem blit_rect_prefix_witness:
  "blit_rect 0x100000000 demo_window no_delta 0x200000000 demo_window above 4 two_rows = [] \<and>
   in_window (0x100000000, 0x100001000) (0x200000000, 0x200001000) (0x100000040, 0x200000000, 12)"
proof
  have e: "[0..<nat (sint (bd_h two_rows))] = [0, 1]" by code_simp
  show "blit_rect 0x100000000 demo_window no_delta 0x200000000 demo_window above 4 two_rows = []"
    by (subst blit_rect_prefix) (code_simp, code_simp, subst e, code_simp)
  show "in_window (0x100000000, 0x100001000) (0x200000000, 0x200001000) (0x100000040, 0x200000000, 12)" by code_simp
qed

lemma new_accel_framebuffer [simp]: "m_framebuffer (new_accel d)"
  by (simp add: new_accel_def Accel_init_def initPrimaryScreen_def)

text \<open>Clipping.\<close>

lemma clip_rect_nonneg:
  "0 \<le> br_x (clip_rect w h r)" "0 \<le> br_y (clip_rect w h r)"
  by (simp_all add: clip_rect_def Let_def)

lemma clip_rect_inside:
  assumes "0 \<le> w" "0 \<le> h" "br_x r \<le> w" "br_y r \<le> h"
  shows "0 \<le> br_width (clip_rect w h r)" "0 \<le> br_height (clip_rect w h r)"
    "br_x (clip_rect w h r) + br_width (clip_rect w h r) \<le> w" "br_y (clip_rect w h r) + br_height (clip_rect w h r) \<le> h"
  using assms by (simp_all add: clip_rect_def Let_def)

lemma fill_rect_inside:
  assumes "0 \<le> br_x r" "0 \<le> br_y r" "0 \<le> br_width r" "0 \<le> br_height r" "br_x r + br_width r \<le> w" "br_y r + br_height r \<le> h"
    and "4 * w \<le> pitch" and "(addr, c, n) \<in> set (fill_rect color start pitch r)"
  shows "start \<le> addr \<and> addr + 4 * n \<le> start + h * pitch"
proof -
  have pitch: "0 \<le> pitch" using assms(1,3,5,7) by linarith
  have top: "0 \<le> br_y r * pitch" using pitch assms(2) by simp
  have mod: "k mod 2 ^ 64 \<le> k" if "0 \<le> k" for k :: int using that by (rule zmod_le_nonneg_dividend)
  have row: "(br_y r + k) * pitch \<le> h * pitch" if "br_y r + k \<le> h" for k using that pitch by (rule mult_right_mono)
  show ?thesis
  proof (cases "br_width r * 4 = pitch")
    case True
    then have x: "br_x r = 0" using assms(1,5,7) by linarith
    have "addr = start + br_y r * pitch" and n: "n = (br_height r * br_width r) mod 2 ^ 64"
      using assms(8) True x by (auto simp: fill_rect_def)
    moreover have "n \<le> br_height r * br_width r" unfolding n by (rule mod) (use assms(3,4) in simp)
    moreover have "4 * (br_height r * br_width r) = br_height r * pitch" by (simp flip: True)
    moreover have "br_y r * pitch + br_height r * pitch \<le> h * pitch" using row [of "br_height r"] assms(6) by (simp add: distrib_right)
    ultimately show ?thesis using top by linarith
  next
    case False
    then obtain j where j: "j < nat (br_height r)" and a: "addr = start + br_y r * pitch + br_x r * 4 + int j * pitch"
      and n: "n = br_width r mod 2 ^ 64"
      using assms(8) by (auto simp: fill_rect_def Let_def)
    have "n \<le> br_width r" unfolding n by (rule mod) (use assms(3) in simp)
    moreover have "(br_y r + (int j + 1)) * pitch \<le> h * pitch" by (rule row) (use j assms(6) in linarith)
    moreover have "0 \<le> int j * pitch" using pitch by simp
    ultimately show ?thesis using a assms(1,5,7) top by (simp add: distrib_right)
  qed
qed

text \<open>
  Clearing rectangles whose left upper corner is not beyond the right or lower edge of the
  screen (however far they extend, and also with negative coordinates or sizes) writes only dwords of
  the framebuffer, for a mode whose rows fit the pitch.
\<close>

lemma clearGFB_inside:
  assumes "m_framebuffer s" "0 \<le> sint (m_width (m_svga s))" "0 \<le> sint (m_height (m_svga s))"
    and "4 * sint (m_width (m_svga s)) \<le> sint (m_pitch (m_svga s))"
    and "list_all (\<lambda>r. br_x r \<le> sint (m_width (m_svga s)) \<and> br_y r \<le> sint (m_height (m_svga s))) rects"
    and "(addr, c, n) \<in> set (snd (clearGFB color rects vram s))"
  shows "uint vram + uint (m_fb_offset (m_svga s)) \<le> addr \<and>
    addr + 4 * n \<le> uint vram + uint (m_fb_offset (m_svga s)) + sint (m_height (m_svga s)) * sint (m_pitch (m_svga s))"
proof -
  obtain r where r: "r \<in> set rects" and "(addr, c, n) \<in> set (fill_rect color (uint vram + uint (m_fb_offset (m_svga s)))
      (sint (m_pitch (m_svga s))) (clip_rect (sint (m_width (m_svga s))) (sint (m_height (m_svga s))) r))"
    using assms(1,6) by (auto simp: clearGFB_def Let_def)
  then show ?thesis
    using assms(5) by (intro fill_rect_inside [OF clip_rect_nonneg clip_rect_inside [OF assms(2,3)] assms(4)]) (auto simp: list_all_iff)
qed

abbreviation demo_mode :: "unit CEsvga2Accel" where
  "demo_mode \<equiv> new_accel ((demo_device 0 0)\<lparr>m_width := 640, m_height := 480, m_pitch := 2560, m_fb_offset := 4096\<rparr>)"

text \<open>
  A rectangle that starts to the right of the screen is not clipped away: with a positive height on the
  screen, \<open>clearGFB\<close> calls \<open>memset32\<close> with a negative width converted to an unsigned size, for every row.
\<close>

lemma clearGFB_right_of_screen:
  assumes "m_framebuffer s" "0 \<le> sint (m_width (m_svga s))" "0 \<le> sint (m_pitch (m_svga s))" "sint (m_width (m_svga s)) < br_x r" "br_x r < 2 ^ 31"
    and "0 \<le> br_width r" "0 \<le> br_y r" "0 < br_height r" "br_y r + br_height r \<le> sint (m_height (m_svga s))"
  shows "length (snd (clearGFB color [r] vram s)) = nat (br_height r) \<and>
    list_all (\<lambda>(addr, c, n). n = 2 ^ 64 - (br_x r - sint (m_width (m_svga s)))) (snd (clearGFB color [r] vram s))"
proof -
  let ?w = "sint (m_width (m_svga s))"
  have clip: "clip_rect ?w (sint (m_height (m_svga s))) r = r\<lparr>br_width := ?w - br_x r\<rparr>"
    using assms by (simp add: clip_rect_def Let_def)
  have "(?w - br_x r) mod 2 ^ 64 = (?w - br_x r + 2 ^ 64) mod 2 ^ 64" by simp
  also have "\<dots> = ?w - br_x r + 2 ^ 64" by (rule mod_pos_pos_trivial) (use assms(2,4,5) in simp_all)
  finally have m: "(?w - br_x r) mod 2 ^ 64 = 2 ^ 64 - (br_x r - ?w)" by linarith
  have "(?w - br_x r) * 4 \<noteq> sint (m_pitch (m_svga s))" using assms(3,4) by (cases "(?w - br_x r) * 4 < 0") simp_all
  then show ?thesis using assms(1) m by (simp add: clearGFB_def clip fill_rect_def Let_def list_all_iff)
qed

abbreviation off_screen :: IOBlitRectangleStruct where
  "off_screen \<equiv> \<lparr>br_x = 641, br_y = 0, br_width = 5, br_height = 2\<rparr>"

theorem clearGFB_right_of_screen_witness:
  "map (snd \<circ> snd) (snd (clearGFB 7 [off_screen] 0x100000000 demo_mode)) = [2 ^ 64 - 1, 2 ^ 64 - 1]"
proof -
  have "length (snd (clearGFB 7 [off_screen] 0x100000000 demo_mode)) = 2 \<and>
      list_all (\<lambda>(addr, c, n). n = 2 ^ 64 - 1) (snd (clearGFB 7 [off_screen] 0x100000000 demo_mode))"
    using clearGFB_right_of_screen [of demo_mode off_screen 7 "0x100000000"] by simp
  then show ?thesis by (auto simp: numeral_2_eq_2 length_Suc_conv)
qed

end
