(* ===== verification/Accel_GMR.thy ===== *)
theory Accel_GMR
  imports Accel_Blit
begin

text \<open>
  Guest memory regions of \<open>CEsvga2Accel\<close> (\<open>src/AC/CEsvga2Accel.cpp\<close>): the descriptor table that
  \<open>createGMR\<close> builds and the page list that \<open>createGMR2\<close> sends.  A memory descriptor of IOKit is a
  parameter: its \<open>getPhysicalSegment\<close>, from an offset to a physical address (0 at the end) and
  a length.  What the device reads in a table is specified by \<open>gmr_walk\<close>, after the comment in
  \<open>src/ceinclude/svga_reg.h\<close>.
\<close>

section \<open>createGMR\<close>

type_synonym segments = "u64 \<Rightarrow> u64 \<times> u64"

text \<open>The first loop counts the physical ranges; it does not end if a segment is empty.\<close>

partial_function (option) count_ranges :: "segments \<Rightarrow> u64 \<Rightarrow> nat \<Rightarrow> (IOReturn + nat) option" where
  "count_ranges md offset n =
     (let (phys_addr, len) = md offset
      in if phys_addr = 0 then Some (Inr n)
         else if drop_bit 44 phys_addr \<noteq> 0 then Some (Inl kIOReturnUnsupported)
         else count_ranges md (offset + len) (n + 1))"

text \<open>
  The locals of the second loop.  \<open>helper_idx\<close> is \<open>helper_ptr\<close> as an index into the table, which
  maps an index to the pair of \<open>ppn\<close> and \<open>numPages\<close>; a page holds 512 descriptors, the last of
  which is kept for the link to the next page.
\<close>

type_synonym gmr_table = "nat \<Rightarrow> u32 \<times> u32"

record gmr_fill =
  helper_idx :: nat
  in_page_count :: nat
  next_page :: nat
  helper_ppn :: u32
  helper_length :: u64
  table :: gmr_table

definition page_number :: "u64 \<Rightarrow> u32" where "page_number phys_addr = ucast (drop_bit 12 phys_addr)"

definition gmr_desc :: "u64 \<times> u64 \<Rightarrow> u32 \<times> u32" where
  "gmr_desc sgm =
     (case sgm of (phys_addr, len) \<Rightarrow>
        let len = len + (phys_addr AND 4095); len = (len + 4095) AND (- 4096)
        in (page_number phys_addr, ucast (drop_bit 12 len)))"

text \<open>One round: write a descriptor and, when the page is full, link the next one.  \<open>False\<close> is the \<open>break\<close>.\<close>

definition put_desc :: "segments \<Rightarrow> nat \<Rightarrow> u64 \<times> u64 \<Rightarrow> gmr_fill \<Rightarrow> bool \<times> gmr_fill" where
  "put_desc helper num_pages sgm h =
     (let h = h\<lparr>table := (table h)(helper_idx h := gmr_desc sgm), helper_idx := helper_idx h + 1,
                in_page_count := in_page_count h - 1\<rparr>
      in if in_page_count h \<noteq> 0 then (True, h)
         else if \<not> 0 < sint (helper_length h) \<and> \<not> next_page h < num_pages then (False, h)
         else
           let h = (if 0 < sint (helper_length h) then h
                    else let (phys_addr, l) = helper (of_nat (next_page h) * 4096)
                         in h\<lparr>helper_ppn := page_number phys_addr, helper_length := l\<rparr>)
           in (True, h\<lparr>table := (table h)(helper_idx h := (helper_ppn h, snd (table h (helper_idx h)))),
                       helper_ppn := helper_ppn h + 1, helper_length := helper_length h - 4096,
                       helper_idx := next_page h * 512, next_page := next_page h + 1, in_page_count := 511\<rparr>))"

partial_function (option) fill_table :: "segments \<Rightarrow> segments \<Rightarrow> nat \<Rightarrow> u64 \<Rightarrow> gmr_fill \<Rightarrow> gmr_fill option" where
  "fill_table md helper num_pages offset h =
     (if fst (md offset) = 0 then Some h
      else let (continue, h) = put_desc helper num_pages (md offset) h
           in if continue then fill_table md helper num_pages (offset + snd (md offset)) h else Some h)"

definition fill_start :: "segments \<Rightarrow> gmr_fill" where
  "fill_start helper =
     (let (phys_addr, l) = helper 0
      in \<lparr>helper_idx = 0, in_page_count = 511, next_page = 1, helper_ppn = page_number phys_addr + 1,
          helper_length = l - 4096, table = (\<lambda>_. (0, 0))\<rparr>)"

text \<open>
  \<open>alloc_helper\<close> stands for the allocation of so many pages: \<open>None\<close> when there is no memory,
  otherwise the result of \<open>prepare\<close> and the segments of the buffer.  The table is part of the
  result, as the device reads it while its register is written.
\<close>

definition createGMR ::
  "u32 \<Rightarrow> segments option \<Rightarrow> (nat \<Rightarrow> (IOReturn \<times> segments) option) \<Rightarrow> 'h CEsvga2Accel \<Rightarrow>
   (IOReturn \<times> gmr_table option \<times> 'h CEsvga2Accel) option" where
  "createGMR gmrId md alloc_helper s =
     (case md of None \<Rightarrow> Some (kIOReturnBadArgument, None, s)
      | Some md \<Rightarrow>
        if \<not> m_framebuffer s then Some (kIOReturnNoDevice, None, s)
        else if \<not> HasCapability SVGA_CAP_GMR (m_svga s) then Some (kIOReturnUnsupported, None, s)
        else do {
          counted \<leftarrow> count_ranges md 0 0;
          case counted of Inl err \<Rightarrow> Some (err, None, s)
          | Inr num_physical_ranges \<Rightarrow>
            let num_pages = (num_physical_ranges + 510) div 511
            in if num_physical_ranges = 0 then Some (kIOReturnBadArgument, None, s)
               else if num_physical_ranges + num_pages > unat (m_max_gmr_descriptor_length (m_svga s))
               then Some (kIOReturnNoResources, None, s)
               else (case alloc_helper num_pages of
                       None \<Rightarrow> Some (kIOReturnNoResources, None, s)
                     | Some (rc, helper) \<Rightarrow>
                       if rc \<noteq> kIOReturnSuccess then Some (rc, None, s)
                       else do {
                         h \<leftarrow> fill_table md helper num_pages 0 (fill_start helper);
                         let s = s\<lparr>m_svga := snd (defineGMR gmrId (page_number (fst (helper 0))) (m_svga s))\<rparr>;
                         Some (kIOReturnSuccess, Some (table h), s) }) })"

definition destroyGMR :: "u32 \<Rightarrow> 'h CEsvga2Accel \<Rightarrow> IOReturn \<times> 'h CEsvga2Accel" where
  "destroyGMR gmrId s =
     (if \<not> m_framebuffer s then (kIOReturnNoDevice, s)
      else if \<not> HasCapability SVGA_CAP_GMR (m_svga s) then (kIOReturnUnsupported, s)
      else (kIOReturnSuccess, s\<lparr>m_svga := snd (defineGMR gmrId 0 (m_svga s))\<rparr>))"

section \<open>createGMR2\<close>

text \<open>The entries that the loop writes into the page list, one after the other.\<close>

definition segment_pages :: "u64 \<times> u64 \<Rightarrow> u32 list" where
  "segment_pages sgm =
     (case sgm of (phys_addr, len) \<Rightarrow>
        let len = len + (phys_addr AND 4095); len = drop_bit 12 (len + 4095)
        in map (\<lambda>j. ucast (drop_bit 12 phys_addr + of_nat j)) [0..<unat len])"

partial_function (option) list_pages :: "segments \<Rightarrow> u64 \<Rightarrow> u32 list \<Rightarrow> (IOReturn + u32 list) option" where
  "list_pages md offset ppn_list =
     (if fst (md offset) = 0 then Some (Inr ppn_list)
      else if drop_bit 44 (fst (md offset)) \<noteq> 0 then Some (Inl kIOReturnUnsupported)
      else list_pages md (offset + snd (md offset)) (ppn_list @ segment_pages (md offset)))"

text \<open>
  The descriptor comes with its \<open>getLength\<close>; \<open>fresh\<close> is the memory that \<open>IOMalloc\<close> returns, if
  any.  The second component of the result are the entries written, which may be more than the
  list has room for.
\<close>

definition createGMR2 ::
  "u32 \<Rightarrow> (u64 \<times> segments) option \<Rightarrow> (nat \<Rightarrow> u32) option \<Rightarrow> 'h CEsvga2Accel \<Rightarrow>
   (IOReturn \<times> u32 list \<times> 'h CEsvga2Accel) option" where
  "createGMR2 gmrId md fresh s =
     (case md of None \<Rightarrow> Some (kIOReturnBadArgument, [], s)
      | Some (len, md) \<Rightarrow>
        if \<not> m_framebuffer s then Some (kIOReturnNoDevice, [], s)
        else if \<not> HasCapability SVGA_CAP_GMR2 (m_svga s) then Some (kIOReturnUnsupported, [], s)
        else
          let num_pages = drop_bit 12 (len + 4096 - 1)
          in if num_pages = 0 then Some (kIOReturnBadArgument, [], s)
             else if num_pages > ucast (m_max_gmr_pages (m_svga s)) then Some (kIOReturnUnsupported, [], s)
             else (case fresh of None \<Rightarrow> Some (kIOReturnNoMemory, [], s)
                   | Some mem \<Rightarrow> do {
                       listed \<leftarrow> list_pages md 0 [];
                       case listed of Inl err \<Rightarrow> Some (err, [], s)
                       | Inr ppns \<Rightarrow> do {
                           (ok, s) \<leftarrow> on_device (defineGMR2 gmrId (ucast num_pages)) s;
                           if \<not> ok then Some (kIOReturnDeviceError, ppns, s)
                           else do {
                             (_, s) \<leftarrow> on_device (remapGMR2 gmrId 0 0 (ucast num_pages)
                               (Some (\<lambda>i. if i < length ppns then ppns ! i else mem i)) (num_pages * 4)) s;
                             Some (kIOReturnSuccess, ppns, s) } } }))"

definition destroyGMR2 :: "u32 \<Rightarrow> 'h CEsvga2Accel \<Rightarrow> (IOReturn \<times> 'h CEsvga2Accel) option" where
  "destroyGMR2 gmrId s =
     (if \<not> m_framebuffer s then Some (kIOReturnNoDevice, s)
      else if \<not> HasCapability SVGA_CAP_GMR2 (m_svga s) then Some (kIOReturnUnsupported, s)
      else do { (_, s) \<leftarrow> on_device (defineGMR2 gmrId 0) s; Some (kIOReturnSuccess, s) })"

section \<open>What the device reads\<close>

text \<open>
  The device reads at most \<open>fuel\<close> descriptors, from the physical page \<open>ppn\<close> on: a descriptor
  with pages adds a range, one without pages links to another page, and an empty one ends the list.
  It never crosses a page boundary by itself; \<open>None\<close> is a table it does not accept.
\<close>

fun gmr_walk :: "nat \<Rightarrow> (u32 \<Rightarrow> nat \<Rightarrow> u32 \<times> u32) \<Rightarrow> u32 \<Rightarrow> nat \<Rightarrow> (u32 \<times> u32) list option" where
  "gmr_walk 0 phys ppn slot = None"
| "gmr_walk (Suc fuel) phys ppn slot =
     (if 512 \<le> slot then None
      else case phys ppn slot of (p, n) \<Rightarrow>
        if n \<noteq> 0 then map_option (Cons (p, n)) (gmr_walk fuel phys ppn (slot + 1))
        else if p = 0 then Some [] else gmr_walk fuel phys p 0)"

definition helper_page :: "segments \<Rightarrow> nat \<Rightarrow> u32" where
  "helper_page helper k = page_number (fst (helper (of_nat k * 4096)))"

definition helper_phys :: "segments \<Rightarrow> nat \<Rightarrow> gmr_table \<Rightarrow> u32 \<Rightarrow> nat \<Rightarrow> u32 \<times> u32" where
  "helper_phys helper n tab ppn slot =
     (case find (\<lambda>k. helper_page helper k = ppn) [0..<n] of None \<Rightarrow> (0, 0) | Some k \<Rightarrow> tab (k * 512 + slot))"

text \<open>
  What IOKit guarantees: the segments of a descriptor follow each other up to its end, they are not
  empty and lie below the address limit; the pages of a buffer are distinct, and a segment
  from a page on is a run of whole pages inside the buffer.
\<close>

definition seg_ok :: "u64 \<times> u64 \<Rightarrow> bool" where
  "seg_ok sgm \<longleftrightarrow> 4096 \<le> unat (fst sgm) \<and> 0 < unat (snd sgm) \<and> unat (fst sgm) + unat (snd sgm) \<le> 2 ^ 44"

fun covers :: "segments \<Rightarrow> u64 \<Rightarrow> (u64 \<times> u64) list \<Rightarrow> bool" where
  "covers md offset [] \<longleftrightarrow> fst (md offset) = 0"
| "covers md offset (sgm # sgms) \<longleftrightarrow> md offset = sgm \<and> seg_ok sgm \<and> covers md (offset + snd sgm) sgms"

definition run_ok :: "segments \<Rightarrow> nat \<Rightarrow> nat \<Rightarrow> bool" where
  "run_ok helper n k \<longleftrightarrow>
     (let l = unat (snd (helper (of_nat k * 4096)))
      in helper_page helper k \<noteq> 0 \<and> 0 < l \<and> l mod 4096 = 0 \<and> k + l div 4096 \<le> n \<and>
         list_all (\<lambda>j. helper_page helper (k + j) = helper_page helper k + of_nat j) [0..<l div 4096])"

definition buffer_ok :: "segments \<Rightarrow> nat \<Rightarrow> bool" where
  "buffer_ok helper n \<longleftrightarrow> distinct (map (helper_page helper) [0..<n]) \<and> list_all (run_ok helper n) [0..<n]"

text \<open>The pages that a segment touches: the first one and how many.\<close>

definition page_range :: "u64 \<times> u64 \<Rightarrow> nat \<times> nat" where
  "page_range sgm = (unat (fst sgm) div 4096, (unat (fst sgm) mod 4096 + unat (snd sgm) + 4095) div 4096)"

section \<open>The loops over a descriptor\<close>

lemma covers_first:
  assumes "covers md offset (sgm # sgms)"
  shows "md offset = sgm" "fst sgm \<noteq> 0" "drop_bit 44 (fst sgm) = 0" "covers md (offset + snd sgm) sgms"
proof -
  have "unat (drop_bit 44 (fst sgm)) = unat (fst sgm) div 2 ^ 44" by (simp add: drop_bit_eq_div unat_div_distrib)
  moreover have "unat (fst sgm) < 2 ^ 44" using assms by (simp add: seg_ok_def)
  ultimately show "drop_bit 44 (fst sgm) = 0" by (simp add: unat_eq_zero [symmetric] del: unat_eq_zero)
qed (use assms in \<open>auto simp: seg_ok_def\<close>)

lemma count_ranges_covers: "covers md offset sgms \<Longrightarrow> count_ranges md offset n = Some (Inr (n + length sgms))"
proof (induction sgms arbitrary: offset n)
  case Nil
  then show ?case by (subst count_ranges.simps) (simp add: case_prod_beta)
next
  case (Cons sgm sgms)
  then show ?case using covers_first [OF Cons.prems] by (subst count_ranges.simps) (simp add: case_prod_beta Let_def)
qed

lemma list_pages_covers: "covers md offset sgms \<Longrightarrow> list_pages md offset ppns = Some (Inr (ppns @ concat (map segment_pages sgms)))"
proof (induction sgms arbitrary: offset ppns)
  case Nil
  then show ?case by (subst list_pages.simps) simp
next
  case (Cons sgm sgms)
  then show ?case using covers_first [OF Cons.prems] by (subst list_pages.simps) simp
qed

section \<open>The table\<close>

text \<open>The table of a list of descriptors, in closed form.\<close>

definition gmr_tab :: "(nat \<Rightarrow> u32) \<Rightarrow> nat \<Rightarrow> (u32 \<times> u32) list \<Rightarrow> gmr_table" where
  "gmr_tab hp n ds i =
     (let q = i div 512; r = i mod 512
      in if r < 511 then if q * 511 + r < length ds then ds ! (q * 511 + r) else (0, 0)
         else if (q + 1) * 511 \<le> length ds \<and> q + 1 < n then (hp (q + 1), 0) else (0, 0))"

lemma gmr_tab_entry: "r < 511 \<Longrightarrow> gmr_tab hp n ds (q * 512 + r) = (if q * 511 + r < length ds then ds ! (q * 511 + r) else (0, 0))"
  by (simp add: gmr_tab_def)

lemma gmr_tab_link:
  "gmr_tab hp n ds (q * 512 + 511) = (if (q + 1) * 511 \<le> length ds \<and> q + 1 < n then (hp (q + 1), 0) else (0, 0))"
  by (simp add: gmr_tab_def div_add1_eq mod_add_left_eq [symmetric])

lemma pos_unique:
  fixes q r q' r' :: nat
  assumes "q * k + r = q' * k + r'" "r < k" "r' < k"
  shows "q = q' \<and> r = r'"
  using arg_cong [OF assms(1), of "\<lambda>x. x div k"] arg_cong [OF assms(1), of "\<lambda>x. x mod k"] assms(2,3) by simp

lemma gmr_tab_snoc:
  assumes "length ds = q * 511 + r" "r < 511"
  shows "gmr_tab hp n (ds @ [d]) =
    (let t = (gmr_tab hp n ds)(q * 512 + r := d) in if r = 510 \<and> q + 1 < n then t(q * 512 + 511 := (hp (q + 1), 0)) else t)"
proof
  fix i
  obtain q' r' :: nat where i: "i = q' * 512 + r'" and r': "r' < 512" by (rule that [of "i div 512" "i mod 512"]) simp_all
  show "gmr_tab hp n (ds @ [d]) i =
      (let t = (gmr_tab hp n ds)(q * 512 + r := d) in if r = 510 \<and> q + 1 < n then t(q * 512 + 511 := (hp (q + 1), 0)) else t) i"
  proof (cases "r' < 511")
    case True
    have 1: "q' * 511 + r' = q * 511 + r \<longleftrightarrow> q' = q \<and> r' = r" using pos_unique [of q' 511 r' q r] True assms(2) by blast
    have 2: "q' * 512 + r' = q * 512 + r \<longleftrightarrow> q' = q \<and> r' = r" using pos_unique [of q' 512 r' q r] r' assms(2) by auto
    have 3: "q' * 512 + r' \<noteq> q * 512 + 511" using pos_unique [of q' 512 r' q 511] r' True by auto
    have "(ds @ [d]) ! (q' * 511 + r') = (if q' = q \<and> r' = r then d else ds ! (q' * 511 + r'))"
      if "q' * 511 + r' < q * 511 + r + 1"
      using that 1 assms(1) by (cases "q' * 511 + r' = q * 511 + r") (auto simp: nth_append)
    then show ?thesis
      unfolding i Let_def using True 1 3
      by (cases "q' = q \<and> r' = r") (auto simp: gmr_tab_entry 2 assms(1) less_Suc_eq)
  next
    case False
    then have l: "r' = 511" using r' by simp
    have 1: "q' * 511 + 511 = q * 511 + r + 1 \<longleftrightarrow> q' = q \<and> r = 510"
      using pos_unique [of q' 511 510 q r] assms(2) by auto
    have 2: "q' * 512 + 511 \<noteq> q * 512 + r" using pos_unique [of q' 512 511 q r] assms(2) by auto
    have "q' * 511 + 511 \<le> q * 511 + r + 1 \<longleftrightarrow> q' * 511 + 511 \<le> q * 511 + r \<or> q' = q \<and> r = 510" using 1 by linarith
    then show ?thesis
      unfolding i l Let_def using 2 gmr_tab_link [of hp n ds q'] gmr_tab_link [of hp n "ds @ [d]" q'] assms(1)
      by (cases "q' = q \<and> r = 510") (auto simp: algebra_simps)
  qed
qed

definition run_left :: "segments \<Rightarrow> nat \<Rightarrow> nat \<Rightarrow> u32 \<Rightarrow> u64 \<Rightarrow> bool" where
  "run_left helper n p ppn l \<longleftrightarrow>
     (\<exists>c. unat l = c * 4096 \<and> p + c \<le> n \<and> (\<forall>j<c. helper_page helper (p + j) = ppn + of_nat j))"

definition fill_inv :: "segments \<Rightarrow> nat \<Rightarrow> (u32 \<times> u32) list \<Rightarrow> gmr_fill \<Rightarrow> bool" where
  "fill_inv helper n ds h \<longleftrightarrow>
     (\<exists>q r. length ds = q * 511 + r \<and> r < 511 \<and> helper_idx h = q * 512 + r \<and> in_page_count h = 511 - r \<and>
        next_page h = q + 1 \<and> table h = gmr_tab (helper_page helper) n ds \<and>
        run_left helper n (q + 1) (helper_ppn h) (helper_length h))"

lemma run_left_step:
  assumes "run_left helper n p ppn l" "l \<noteq> 0"
  shows "helper_page helper p = ppn" "run_left helper n (p + 1) (ppn + 1) (l - 4096)"
proof -
  obtain c where c: "unat l = c * 4096" "p + c \<le> n" "\<And>j. j < c \<Longrightarrow> helper_page helper (p + j) = ppn + of_nat j"
    using assms(1) by (auto simp: run_left_def)
  have "unat l \<noteq> 0" using assms(2) by (simp add: unat_eq_zero)
  then have "c \<noteq> 0" using c(1) by (cases c) simp_all
  then obtain e where e: "c = Suc e" by (cases c) auto
  show "helper_page helper p = ppn" using c(3) [of 0] e by simp
  have "unat (l - 4096) = e * 4096" using c(1) e by (subst unat_sub) (simp_all add: word_le_nat_alt)
  moreover have "helper_page helper (p + 1 + j) = ppn + 1 + of_nat j" if "j < e" for j
    using c(3) [of "Suc j"] that e by (simp add: algebra_simps)
  ultimately show "run_left helper n (p + 1) (ppn + 1) (l - 4096)" using c(2) e unfolding run_left_def by auto
qed

lemma run_left_fresh:
  assumes "buffer_ok helper n" "k < n"
  shows "run_left helper n k (helper_page helper k) (snd (helper (of_nat k * 4096)))" "snd (helper (of_nat k * 4096)) \<noteq> 0"
proof -
  let ?l = "unat (snd (helper (of_nat k * 4096)))"
  have r: "0 < ?l" "?l mod 4096 = 0" "k + ?l div 4096 \<le> n"
    "\<And>j. j < ?l div 4096 \<Longrightarrow> helper_page helper (k + j) = helper_page helper k + of_nat j"
    using assms by (auto simp: buffer_ok_def run_ok_def list_all_iff Let_def)
  show "snd (helper (of_nat k * 4096)) \<noteq> 0" using r(1) by auto
  show "run_left helper n k (helper_page helper k) (snd (helper (of_nat k * 4096)))"
    unfolding run_left_def using r by (intro exI [of _ "?l div 4096"]) auto
qed

lemma run_left_positive:
  assumes "run_left helper n p ppn l" "n < 2 ^ 32"
  shows "0 < sint l \<longleftrightarrow> l \<noteq> 0"
proof -
  obtain c where c: "unat l = c * 4096" "c \<le> n" using assms(1) by (auto simp: run_left_def)
  have "int (unat l) < 2 ^ 63" unfolding c(1) using c(2) assms(2) by simp
  then have "uint l < 2 ^ 63" by simp
  moreover have "- (2 ^ 63) \<le> uint l" by (rule order_trans [of _ 0]) simp_all
  ultimately have "signed_take_bit 63 (uint l) = uint l" by (intro signed_take_bit_int_eq_self)
  then have "sint l = uint l" by (simp add: sint_uint)
  then show ?thesis by (simp add: word_neq_0_conv word_less_def)
qed

lemma put_desc_inv:
  assumes "buffer_ok helper n" "n < 2 ^ 32" "fill_inv helper n ds h" "put_desc helper n sgm h = (go, h')"
  shows "if go then fill_inv helper n (ds @ [gmr_desc sgm]) h'
    else table h' = gmr_tab (helper_page helper) n (ds @ [gmr_desc sgm]) \<and> length ds + 1 = n * 511"
proof -
  obtain q r where h: "length ds = q * 511 + r" "r < 511" "helper_idx h = q * 512 + r" "in_page_count h = 511 - r"
      "next_page h = q + 1" "table h = gmr_tab (helper_page helper) n ds" and left: "run_left helper n (q + 1) (helper_ppn h) (helper_length h)"
    using assms(3) by (auto simp: fill_inv_def)
  note pos = run_left_positive [OF left assms(2)]
  have qn: "q + 1 \<le> n" using left by (auto simp: run_left_def)
  show ?thesis
  proof (cases "r = 510")
    case False
    then have "go" "h' = h\<lparr>table := (table h)(helper_idx h := gmr_desc sgm), helper_idx := q * 512 + (r + 1), in_page_count := 511 - (r + 1)\<rparr>"
      using assms(4) h by (auto simp: put_desc_def Let_def)
    moreover have "gmr_tab (helper_page helper) n (ds @ [gmr_desc sgm]) = (table h)(q * 512 + r := gmr_desc sgm)"
      using gmr_tab_snoc [OF h(1,2)] False h(6) by simp
    ultimately have "fill_inv helper n (ds @ [gmr_desc sgm]) h'"
      unfolding fill_inv_def using h left False by (intro exI [of _ q] exI [of _ "r + 1"]) simp
    then show ?thesis using \<open>go\<close> by simp
  next
    case r: True
    have tab: "gmr_tab (helper_page helper) n (ds @ [gmr_desc sgm]) =
        (if q + 1 < n then (table h)(q * 512 + 510 := gmr_desc sgm, q * 512 + 511 := (helper_page helper (q + 1), 0))
         else (table h)(q * 512 + 510 := gmr_desc sgm))"
      using gmr_tab_snoc [OF h(1,2)] r h(6) by simp
    have old: "snd (gmr_tab (helper_page helper) n ds (q * 512 + 511)) = 0" by (simp add: gmr_tab_link)
    show ?thesis
    proof (cases "q + 1 < n")
      case False
      then have "unat (helper_length h) = 0" using left by (auto simp: run_left_def)
      then have "\<not> 0 < sint (helper_length h)" using pos by (simp add: unat_eq_zero)
      then show ?thesis using assms(4) h r tab False qn by (auto simp: put_desc_def Let_def)
    next
      case True
      define l where "l = (if 0 < sint (helper_length h) then helper_length h else snd (helper (of_nat (q + 1) * 4096)))"
      define ppn where "ppn = (if 0 < sint (helper_length h) then helper_ppn h else helper_page helper (q + 1))"
      have "run_left helper n (q + 1) ppn l \<and> l \<noteq> 0"
        using left pos run_left_fresh [OF assms(1) True] by (auto simp: l_def ppn_def)
      then have step: "helper_page helper (q + 1) = ppn" "run_left helper n (q + 1 + 1) (ppn + 1) (l - 4096)"
        using run_left_step by blast+
      have go: "go" and h': "h' = h\<lparr>table := (table h)(q * 512 + 510 := gmr_desc sgm, q * 512 + 511 := (ppn, 0)),
          helper_ppn := ppn + 1, helper_length := l - 4096, helper_idx := (q + 1) * 512, next_page := q + 2, in_page_count := 511\<rparr>"
        using assms(4) h r True old by (auto simp: put_desc_def Let_def case_prod_beta l_def ppn_def helper_page_def add.commute [of 511 "q * 512"])
      have "fill_inv helper n (ds @ [gmr_desc sgm]) h'"
        unfolding fill_inv_def h' using h(1) r step tab True by (intro exI [of _ "q + 1"] exI [of _ 0]) simp
      then show ?thesis using go by simp
    qed
  qed
qed

lemma fill_table_covers:
  assumes "buffer_ok helper n" "n < 2 ^ 32"
  shows "covers md offset sgms \<Longrightarrow> fill_inv helper n ds h \<Longrightarrow> length ds + length sgms \<le> n * 511 \<Longrightarrow>
    \<exists>h'. fill_table md helper n offset h = Some h' \<and> table h' = gmr_tab (helper_page helper) n (ds @ map gmr_desc sgms)"
proof (induction sgms arbitrary: offset ds h)
  case Nil
  then show ?case by (subst fill_table.simps) (auto simp: fill_inv_def)
next
  case (Cons sgm sgms)
  obtain go h' where p: "put_desc helper n sgm h = (go, h')" by (rule prod.exhaust)
  note inv = put_desc_inv [OF assms Cons.prems(2) p]
  have step: "fill_table md helper n offset h = (if go then fill_table md helper n (offset + snd sgm) h' else Some h')"
    using covers_first [OF Cons.prems(1)] by (subst fill_table.simps) (simp add: p)
  show ?case
  proof (cases go)
    case True
    then show ?thesis
      using Cons.IH [OF covers_first(4) [OF Cons.prems(1)], of "ds @ [gmr_desc sgm]" h'] inv Cons.prems(3) step by simp
  next
    case False
    then have "length ds + 1 = n * 511" using inv by simp
    then have "length sgms = 0" using Cons.prems(3) by (simp del: length_0_conv)
    then have "sgms = []" by simp
    then show ?thesis using False inv step by simp
  qed
qed

text \<open>The walk over a table in closed form recovers the descriptors.\<close>

lemma gmr_walk_tab:
  assumes "\<And>q slot. q < n \<Longrightarrow> phys (hp q) slot = gmr_tab hp n ds (q * 512 + slot)" "\<And>q. q < n \<Longrightarrow> hp q \<noteq> 0"
    and "list_all (\<lambda>d. snd d \<noteq> 0) ds" "length ds \<le> n * 511" "(n - 1) * 511 < length ds"
  shows "q < n \<Longrightarrow> r < 512 \<Longrightarrow> q * 511 + r \<le> length ds \<Longrightarrow> length ds - (q * 511 + r) + (n - q) \<le> fuel \<Longrightarrow>
    gmr_walk fuel phys (hp q) r = Some (drop (q * 511 + r) ds)"
proof (induction fuel arbitrary: q r)
  case (Suc fuel)
  show ?case
  proof (cases "r < 511 \<and> q * 511 + r < length ds")
    case True
    then have "snd (ds ! (q * 511 + r)) \<noteq> 0" using assms(3) by (simp add: list_all_iff)
    moreover have "gmr_walk fuel phys (hp q) (r + 1) = Some (drop (q * 511 + (r + 1)) ds)"
      using Suc.prems True by (intro Suc.IH) auto
    ultimately show ?thesis
      using True assms(1) [OF Suc.prems(1), of r] by (simp add: gmr_tab_entry case_prod_beta Cons_nth_drop_Suc)
  next
    case stop: False
    show ?thesis
    proof (cases "q * 511 + r < length ds")
      case True
      then have r: "r = 511" using stop Suc.prems(2) by simp
      have next_q: "q + 1 < n"
      proof (rule ccontr)
        assume "\<not> ?thesis"
        then have "n = q + 1" using Suc.prems(1) by simp
        then show False using True r assms(4) by simp
      qed
      have "phys (hp q) r = (hp (q + 1), 0)"
        using assms(1) [OF Suc.prems(1), of r] gmr_tab_link [of hp n ds q] True next_q unfolding r by simp
      moreover have "gmr_walk fuel phys (hp (q + 1)) 0 = Some (drop ((q + 1) * 511 + 0) ds)"
        using Suc.prems True next_q unfolding r by (intro Suc.IH) auto
      ultimately show ?thesis using assms(2) [OF next_q] by (simp add: r algebra_simps)
    next
      case False
      then have e: "q * 511 + r = length ds" using Suc.prems(3) by simp
      have "\<not> (r = 511 \<and> q + 1 < n)" using assms(5) e Suc.prems(1) by auto
      then have "phys (hp q) r = (0, 0)"
        using assms(1) [OF Suc.prems(1), of r] e Suc.prems(2) gmr_tab_entry [of r hp n ds q] gmr_tab_link [of hp n ds q]
        by (cases "r = 511") simp_all
      then show ?thesis using Suc.prems(2) e by simp
    qed
  qed
qed simp

section \<open>Page numbers\<close>

lemma drop_bit_12: "unat (drop_bit 12 x) = unat x div 4096" for x :: u64
  by (simp add: drop_bit_eq_div unat_div_distrib)

lemma and_4095: "unat (x AND 4095) = unat x mod 4096" for x :: u64
proof -
  have "(4095 :: u64) = mask 12" by (simp add: mask_eq_exp_minus_1)
  then have "x AND 4095 = take_bit 12 x" by (simp only: take_bit_eq_mask)
  then show ?thesis by (simp add: take_bit_eq_mod unat_mod_distrib)
qed

lemma drop_aligned: "drop_bit 12 (x AND - 4096) = drop_bit 12 x" for x :: u64
proof -
  have m: "(- 4096 :: u64) = NOT (mask 12)" by (simp add: mask_eq_exp_minus_1 not_eq_complement)
  show ?thesis unfolding m by (rule bit_eqI) (auto simp: bit_simps dest: bit_imp_le_length)
qed

lemma covers_set: "covers md offset sgms \<Longrightarrow> sgm \<in> set sgms \<Longrightarrow> seg_ok sgm"
  by (induction sgms arbitrary: offset) auto

lemma page_range_bounds:
  assumes "seg_ok sgm"
  shows "0 < snd (page_range sgm)" "fst (page_range sgm) + snd (page_range sgm) \<le> 2 ^ 32" "0 < fst (page_range sgm)"
proof -
  define a l where "a = unat (fst sgm)" and "l = unat (snd sgm)"
  have r: "page_range sgm = (a div 4096, (a mod 4096 + l + 4095) div 4096)" by (simp add: page_range_def a_def l_def)
  have b: "4096 \<le> a" "0 < l" "a + l \<le> 2 ^ 44" using assms by (simp_all add: seg_ok_def a_def l_def)
  define k where "k = a div 4096"
  have "a = 4096 * k + a mod 4096" by (simp add: k_def)
  then have "4096 * k + (a mod 4096 + l + 4095) \<le> 2 ^ 44 + 4095" using b(3) by linarith
  then show "fst (page_range sgm) + snd (page_range sgm) \<le> 2 ^ 32" by (simp add: r flip: k_def)
  show "0 < snd (page_range sgm)" "0 < fst (page_range sgm)" using b(1,2) by (simp_all add: r div_greater_zero_iff)
qed

lemma segment_length:
  assumes "seg_ok sgm"
  shows "unat (drop_bit 12 (snd sgm + (fst sgm AND 4095) + 4095)) = snd (page_range sgm)"
proof -
  have b: "unat (snd sgm) \<le> 2 ^ 44" using assms by (simp add: seg_ok_def)
  have m: "unat (fst sgm AND 4095) < 4096" by (simp add: and_4095)
  have "unat (snd sgm) + unat (fst sgm AND 4095) < 2 ^ LENGTH(64)" using b m by simp
  then have e: "unat (snd sgm + (fst sgm AND 4095)) = unat (snd sgm) + unat (fst sgm AND 4095)" by (rule unat_add_small)
  have "unat (snd sgm + (fst sgm AND 4095)) + unat (4095 :: u64) < 2 ^ LENGTH(64)" unfolding e using b m by simp
  then have "unat (snd sgm + (fst sgm AND 4095) + 4095) = unat (snd sgm) + unat (fst sgm AND 4095) + unat (4095 :: u64)"
    unfolding e [symmetric] by (rule unat_add_small)
  also have "\<dots> = unat (fst sgm) mod 4096 + unat (snd sgm) + 4095" by (simp only: and_4095) simp
  finally show ?thesis by (simp only: drop_bit_12 page_range_def snd_conv)
qed

lemma unat_ucast_down: "unat (x :: u64) < 2 ^ 32 \<Longrightarrow> unat (ucast x :: u32) = unat x"
  by (simp add: unsigned_ucast_eq take_bit_nat_eq_self)

lemma gmr_desc_range:
  assumes "seg_ok sgm"
  shows "(unat (fst (gmr_desc sgm)), unat (snd (gmr_desc sgm))) = page_range sgm" "snd (gmr_desc sgm) \<noteq> 0"
proof -
  note pb = page_range_bounds [OF assms]
  have lt: "fst (page_range sgm) < 2 ^ 32" "snd (page_range sgm) < 2 ^ 32" using pb by simp_all
  have "unat (snd (gmr_desc sgm)) = unat (ucast (drop_bit 12 (snd sgm + (fst sgm AND 4095) + 4095)) :: u32)"
    by (simp only: gmr_desc_def case_prod_beta Let_def snd_conv drop_aligned)
  also have "\<dots> = snd (page_range sgm)" using lt(2) by (subst unat_ucast_down) (simp_all only: segment_length [OF assms])
  finally have s: "unat (snd (gmr_desc sgm)) = snd (page_range sgm)" .
  have "unat (fst (gmr_desc sgm)) = unat (ucast (drop_bit 12 (fst sgm)) :: u32)"
    by (simp only: gmr_desc_def case_prod_beta Let_def fst_conv page_number_def)
  also have "\<dots> = fst (page_range sgm)"
    using lt(1) by (subst unat_ucast_down) (simp_all only: drop_bit_12 page_range_def fst_conv)
  finally show "(unat (fst (gmr_desc sgm)), unat (snd (gmr_desc sgm))) = page_range sgm" using s by simp
  show "snd (gmr_desc sgm) \<noteq> 0" using s pb(1) by auto
qed

lemma segment_pages_range:
  assumes "seg_ok sgm"
  shows "segment_pages sgm = map of_nat [fst (page_range sgm)..<fst (page_range sgm) + snd (page_range sgm)]"
proof -
  have "drop_bit 12 (fst sgm) = of_nat (fst (page_range sgm))"
    unfolding word_unat_eq_iff drop_bit_12
    using page_range_bounds(2) [OF assms] by (subst unat_of_nat_small) (simp_all add: page_range_def)
  then have "segment_pages sgm = map (\<lambda>j. ucast (of_nat (fst (page_range sgm) + j) :: u64)) [0..<snd (page_range sgm)]"
    by (simp only: segment_pages_def case_prod_beta Let_def segment_length [OF assms] of_nat_add)
  also have "\<dots> = map of_nat (map (\<lambda>j. fst (page_range sgm) + j) [0..<snd (page_range sgm)])"
    by (simp only: ucast_down_nat map_map comp_def)
  finally show ?thesis by (simp only: upt_shift add_0_right)
qed

lemma helper_phys_page:
  assumes "buffer_ok helper n" "q < n"
  shows "helper_phys helper n tab (helper_page helper q) slot = tab (q * 512 + slot)"
proof -
  have inj: "inj_on (helper_page helper) {0..<n}" using assms(1) by (simp add: buffer_ok_def distinct_map)
  have "find (\<lambda>k. helper_page helper k = helper_page helper q) [0..<n] = Some q"
    unfolding find_Some_iff using assms(2) inj by (intro exI [of _ q]) (auto dest: inj_onD)
  then show ?thesis by (simp add: helper_phys_def)
qed

section \<open>Properties\<close>

lemma fill_start_inv: "buffer_ok helper n \<Longrightarrow> 0 < n \<Longrightarrow> fill_inv helper n [] (fill_start helper)"
  using run_left_step [OF run_left_fresh [of helper n 0]]
  by (auto simp: fill_inv_def fill_start_def case_prod_beta gmr_tab_def helper_page_def fun_eq_iff Let_def)

text \<open>
  C27.  The descriptor table of \<open>createGMR\<close> describes the memory: reading it the way the device
  does, with the limit on descriptors that the device reports, gives the ranges of pages
  of the segments, in order and complete, however many pages the table takes and however these are
  scattered.  The register that makes the device read it gets the page number of its first page.
\<close>

theorem createGMR_table:
  assumes "m_framebuffer s" "HasCapability SVGA_CAP_GMR (m_svga s)" "covers md 0 sgms" "sgms \<noteq> []"
    and "n = (length sgms + 510) div 511" "length sgms + n \<le> unat (m_max_gmr_descriptor_length (m_svga s))"
    and "alloc_helper n = Some (kIOReturnSuccess, helper)" "buffer_ok helper n"
  shows "\<exists>tab. createGMR gmrId (Some md) alloc_helper s = Some (kIOReturnSuccess, Some tab,
      s\<lparr>m_svga := WriteReg SVGA_REG_GMR_DESCRIPTOR (helper_page helper 0) (WriteReg SVGA_REG_GMR_ID gmrId (m_svga s))\<rparr>) \<and>
    map_option (map (\<lambda>(p, k). (unat p, unat k)))
      (gmr_walk (unat (m_max_gmr_descriptor_length (m_svga s))) (helper_phys helper n tab) (helper_page helper 0) 0) =
    Some (map page_range sgms)"
proof -
  let ?ds = "map gmr_desc sgms" and ?hp = "helper_page helper"
  have len: "0 < length sgms" using assms(4) by simp
  then have n: "0 < n" "length sgms \<le> n * 511" "(n - 1) * 511 < length sgms" using assms(5) by linarith+
  have "n < 2 ^ 32" using assms(6) unat_u32_less [of "m_max_gmr_descriptor_length (m_svga s)"] by linarith
  then obtain h where h: "fill_table md helper n 0 (fill_start helper) = Some h" "table h = gmr_tab ?hp n ?ds"
    using fill_table_covers [OF assms(8) _ assms(3) fill_start_inv [OF assms(8) n(1)]] n(2) by auto
  have "createGMR gmrId (Some md) alloc_helper s = Some (kIOReturnSuccess, Some (table h),
      s\<lparr>m_svga := WriteReg SVGA_REG_GMR_DESCRIPTOR (helper_page helper 0) (WriteReg SVGA_REG_GMR_ID gmrId (m_svga s))\<rparr>)"
    using assms(1,2,6,7) len count_ranges_covers [OF assms(3), of 0] h(1)
    by (simp add: createGMR_def defineGMR_def helper_page_def Let_def flip: assms(5))
  moreover have "gmr_walk (unat (m_max_gmr_descriptor_length (m_svga s))) (helper_phys helper n (table h)) (?hp 0) 0 = Some (drop (0 * 511 + 0) ?ds)"
  proof (rule gmr_walk_tab [where n = n and hp = ?hp])
    show "?hp q \<noteq> 0" if "q < n" for q using assms(8) that by (simp add: buffer_ok_def run_ok_def list_all_iff Let_def)
    show "list_all (\<lambda>d. snd d \<noteq> 0) ?ds" using covers_set [OF assms(3)] gmr_desc_range(2) by (auto simp: list_all_iff)
  qed (use n assms(6) in \<open>simp_all add: helper_phys_page [OF assms(8)] h(2)\<close>)
  moreover have "map (\<lambda>(p, k). (unat p, unat k)) ?ds = map page_range sgms"
    using covers_set [OF assms(3)] gmr_desc_range(1) by (simp add: case_prod_beta)
  ultimately show ?thesis by auto
qed

abbreviation demo_md :: segments where
  "demo_md \<equiv> \<lambda>offset. if offset = 0 then (0x5000, 0x2000) else if offset = 0x2000 then (0x9800, 0x1000) else (0, 0)"

abbreviation demo_helper :: segments where
  "demo_helper \<equiv> \<lambda>offset. if offset = 0 then (0x100000, 0x1000) else (0, 0)"

abbreviation gmr_device :: "unit SVGADevice" where
  "gmr_device \<equiv> (demo_device 1220 1200)\<lparr>m_capabilities := SVGA_CAP_GMR OR SVGA_CAP_GMR2,
     m_max_gmr_descriptor_length := 8, m_max_gmr_pages := 100\<rparr>"

theorem createGMR_table_witness:
  "\<exists>tab s'. createGMR 3 (Some demo_md) (\<lambda>_. Some (kIOReturnSuccess, demo_helper)) (new_accel gmr_device) = Some (kIOReturnSuccess, Some tab, s') \<and>
     map_option (map (\<lambda>(p, k). (unat p, unat k))) (gmr_walk 8 (helper_phys demo_helper 1 tab) 0x100 0) = Some [(5, 2), (9, 2)]"
proof -
  let ?sgms = "[(0x5000, 0x2000), (0x9800, 0x1000)]"
  have p: "helper_page demo_helper 0 = 0x100" by code_simp
  have b: "buffer_ok demo_helper 1" by (simp add: buffer_ok_def run_ok_def helper_page_def page_number_def)
  have c: "covers demo_md 0 ?sgms" by (simp add: seg_ok_def)
  have r: "map page_range ?sgms = [(5, 2), (9, 2)]" by (simp add: page_range_def)
  have len: "unat (m_max_gmr_descriptor_length (m_svga (new_accel gmr_device))) = 8" by simp
  have "HasCapability SVGA_CAP_GMR (m_svga (new_accel gmr_device))" by (simp add: HasCapability_def)
  from createGMR_table [OF new_accel_framebuffer this c _ _ _ _ b, of "\<lambda>_. Some (kIOReturnSuccess, demo_helper)" 3, unfolded p r len]
  show ?thesis by auto
qed

text \<open>
  C28.  For a descriptor of whole pages, \<open>createGMR2\<close> defines the region and then maps it to
  exactly the pages of the segments, in order, if the list fits a command of 64 KB.  For a larger
  region (from 16380 pages on) the command that maps it is refused, and \<open>createGMR2\<close> returns
  \<open>kIOReturnSuccess\<close> with the region defined and not mapped.
\<close>

theorem createGMR2_pages:
  assumes "m_framebuffer s" "HasCapability SVGA_CAP_GMR2 (m_svga s)" "covers md 0 sgms"
    and "n = sum_list (map (snd \<circ> page_range) sgms)" "0 < n" "unat len = n * 4096" "n \<le> unat (m_max_gmr_pages (m_svga s))"
    and "accepts (m_svga s) (if n + 5 \<le> 0x4000 then n + 5 else 3)"
    and "ppns = map of_nat (concat (map (\<lambda>(a, k). [a..<a + k]) (map page_range sgms)))"
  shows "\<exists>d d'. createGMR2 gmrId (Some (len, md)) (Some mem) s = Some (kIOReturnSuccess, ppns, s\<lparr>m_svga := d'\<rparr>) \<and>
    fifo_sent [SVGA_CMD_DEFINE_GMR2, gmrId, of_nat n] (m_svga s) d \<and>
    (if n + 5 \<le> 0x4000 then fifo_sent ([SVGA_CMD_REMAP_GMR2, gmrId, 0, 0, of_nat n] @ ppns) d d' else d' = d)"
proof -
  have "n < 2 ^ 32" using assms(7) unat_u32_less [of "m_max_gmr_pages (m_svga s)"] by linarith
  then have small: "n < 2 ^ 62" by simp
  have pages: "drop_bit 12 (len + 4096 - 1) = of_nat n"
  proof -
    have "unat (4095 :: u64) + unat len < 2 ^ LENGTH(64)" using \<open>n < 2 ^ 32\<close> by (simp add: assms(6))
    then have "unat (4095 + len) = n * 4096 + 4095" using unat_add_small [of 4095 len] by (simp add: assms(6))
    then show ?thesis using small by (simp add: word_unat_eq_iff drop_bit_12 unat_of_nat_small)
  qed
  have listed: "concat (map segment_pages sgms) = ppns"
    using segment_pages_range covers_set [OF assms(3)] by (simp add: assms(9) map_concat case_prod_beta comp_def cong: map_cong)
  have len: "length ppns = n" by (simp add: assms(4,9) length_concat comp_def case_prod_beta)
  obtain d where d: "FIFOTransmit [SVGA_CMD_DEFINE_GMR2, gmrId, of_nat n] (m_svga s) = Some (True, d)"
      "fifo_sent [SVGA_CMD_DEFINE_GMR2, gmrId, of_nat n] (m_svga s) d" "accepts d (if n + 5 \<le> 0x4000 then n + 5 else 3)"
    by (rule accepts_transmit [OF assms(8), of "[SVGA_CMD_DEFINE_GMR2, gmrId, of_nat n]"]) auto
  let ?remap = "[SVGA_CMD_REMAP_GMR2, gmrId, 0, 0, of_nat n] @ ppns"
  have "\<exists>ok d'. FIFOTransmit ?remap d = Some (ok, d') \<and> (if n + 5 \<le> 0x4000 then fifo_sent ?remap d d' else d' = d)"
  proof (cases "n + 5 \<le> 0x4000")
    case True
    obtain d' where "FIFOTransmit ?remap d = Some (True, d')" "fifo_sent ?remap d d'"
      by (rule accepts_transmit [OF d(3), of ?remap]) (use True len in auto)
    then show ?thesis using True by auto
  next
    case False
    then show ?thesis using FIFOTransmit_refused [of d ?remap] d(3) len \<open>n < 2 ^ 32\<close> by (auto simp: accepts_def cmd_fits_def)
  qed
  then obtain ok d' where d': "FIFOTransmit ?remap d = Some (ok, d')" "if n + 5 \<le> 0x4000 then fifo_sent ?remap d d' else d' = d" by blast
  have words: "map (\<lambda>i. if i < length ppns then ppns ! i else mem i) [0..<n] = ppns"
    by (rule nth_equalityI) (simp_all add: len)
  have "remapGMR2 gmrId 0 0 (of_nat n) (Some (\<lambda>i. if i < length ppns then ppns ! i else mem i)) (of_nat n * 4) d = Some (ok, d')"
    using remapGMR2_words [OF small, of gmrId 0 0 "of_nat n" "\<lambda>i. if i < length ppns then ppns ! i else mem i" d] d'(1)
    unfolding words by (simp add: mult.commute)
  moreover have "unat (of_nat n :: u64) = n" using \<open>n < 2 ^ 32\<close> by (intro unat_of_nat_small) simp
  then have "(of_nat n :: u64) \<noteq> 0" "\<not> ucast (m_max_gmr_pages (m_svga s)) < (of_nat n :: u64)"
    using assms(5,7) by (auto simp: word_less_nat_alt)
  ultimately have "createGMR2 gmrId (Some (len, md)) (Some mem) s = Some (kIOReturnSuccess, ppns, s\<lparr>m_svga := d'\<rparr>)"
    using assms(1,2) pages list_pages_covers [OF assms(3), of "[]"] listed d(1)
    by (simp add: createGMR2_def on_device_def defineGMR2_words ucast_down_nat Let_def)
  then show ?thesis using d(2) d'(2) by blast
qed

abbreviation page_md :: segments where
  "page_md \<equiv> \<lambda>offset. if offset = 0 then (0x5000, 0x2000) else if offset = 0x2000 then (0x9000, 0x1000) else (0, 0)"

theorem createGMR2_pages_witness:
  "\<exists>d d'. createGMR2 7 (Some (0x3000, page_md)) (Some (\<lambda>_. 0)) (new_accel gmr_device) =
      Some (kIOReturnSuccess, [5, 6, 9], (new_accel gmr_device)\<lparr>m_svga := d'\<rparr>) \<and>
    fifo_sent [SVGA_CMD_DEFINE_GMR2, 7, 3] gmr_device d \<and> fifo_sent [SVGA_CMD_REMAP_GMR2, 7, 0, 0, 3, 5, 6, 9] d d'"
proof -
  let ?sgms = "[(0x5000, 0x2000), (0x9000, 0x1000)]"
  have c: "covers page_md 0 ?sgms" by (simp add: seg_ok_def)
  have r: "map page_range ?sgms = [(5, 2), (9, 1)]" by (simp add: page_range_def)
  have n: "3 = sum_list (map (snd \<circ> page_range) ?sgms)" by (simp add: page_range_def)
  have ppns: "[5, 6, 9 :: u32] = map of_nat (concat (map (\<lambda>(a, k). [a..<a + k]) (map page_range ?sgms)))" unfolding r by code_simp
  have "accepts gmr_device 8"
    using demo_accepts [of 8] by (simp add: accepts_def fifo_ready_def host_wf_def host_progress_def)
  then have a: "accepts (m_svga (new_accel gmr_device)) (if 3 + 5 \<le> (0x4000 :: nat) then 3 + 5 else 3)" by simp
  have cap: "HasCapability SVGA_CAP_GMR2 (m_svga (new_accel gmr_device))" by (simp add: HasCapability_def)
  show ?thesis
    using createGMR2_pages [OF new_accel_framebuffer cap c n _ _ _ a ppns, of "0x3000" 7 "\<lambda>_. 0"] by simp
qed

end
