(* ===== verification/Accel_VRAM.thy ===== *)
theory Accel_VRAM
  imports Accel_GMR
begin

text \<open>
  The video memory of \<open>CEsvga2Accel\<close> (\<open>src/AC/CEsvga2Accel.cpp\<close>): \<open>setupAllocator\<close>, which puts the
  allocator of \<open>Buddy_Model\<close> to work on the mapping of the video memory, and the methods through
  which clients use it.  Without a front buffer of the host (no screen objects and no 3D), the first
  16 MB belong to the framebuffer, and no client gets a byte of them.
\<close>

section \<open>Operations\<close>

text \<open>
  \<open>vram_length\<close> is the length of the memory descriptor \<open>m_vram\<close>, if there is one, \<open>mapping\<close> the address
  at which so many bytes of it are mapped, if that succeeds, and \<open>map_ok\<close> whether \<open>Init\<close> gets the
  memory for its bit map.  The allocator exists.
\<close>

definition SVGA_FB_MAX_TRACEABLE_SIZE :: nat where "SVGA_FB_MAX_TRACEABLE_SIZE = 0x1000000"

definition release_all ::
  "nat \<Rightarrow> bool \<Rightarrow> CEsvga2Allocator \<Rightarrow> IOReturn \<times> CEsvga2Allocator" where
  "release_all s front a =
     (let bytes_reserve = SVGA_FB_MAX_TRACEABLE_SIZE;
          (rc, a) = (if bytes_reserve < s then Release bytes_reserve s a else (kIOReturnSuccess, a))
      in if rc \<noteq> kIOReturnSuccess then (rc, a)
         else
           let (s, bytes_reserve) = (if bytes_reserve < s then (bytes_reserve, 0) else (s, bytes_reserve))
           in if front then
                let (rc, a) = Release 0 s a
                in (if rc \<noteq> kIOReturnSuccess \<and> bytes_reserve = 0 then kIOReturnSuccess else rc, a)
              else (rc, a))"

definition setupAllocator ::
  "u64 option \<Rightarrow> (u64 \<Rightarrow> u64 option) \<Rightarrow> bool \<Rightarrow> 'h CEsvga2Accel \<Rightarrow> IOReturn \<times> 'h CEsvga2Accel" where
  "setupAllocator vram_length mapping map_ok acc =
     (if vram_map acc \<noteq> None then (kIOReturnSuccess, acc)
      else case vram_length of None \<Rightarrow> (kIOReturnInternalError, acc)
      | Some s \<Rightarrow>
        let s = (if ucast (m_vram_size (m_svga acc)) < s then ucast (m_vram_size (m_svga acc)) else s)
        in case mapping s of None \<Rightarrow> (kIOReturnInternalError, acc)
           | Some p \<Rightarrow>
             let s = s AND NOT 4095
             in if p = 0 \<or> s = 0 then (kIOReturnNoMemory, acc)
                else
                  let (rc, a) = Init map_ok (unat p) (unat s) (the (m_allocator acc));
                      (rc, a) = (if rc \<noteq> kIOReturnSuccess then (rc, a) else release_all (unat s) (HaveFrontBuffer acc) a)
                  in (rc, acc\<lparr>m_allocator := Some a, vram_map := (if rc \<noteq> kIOReturnSuccess then None else Some p)\<rparr>))"

text \<open>A pointer is its address, the null pointer is \<open>None\<close> as a result and 0 as an argument.\<close>

definition VRAMMalloc :: "nat \<Rightarrow> 'h CEsvga2Accel \<Rightarrow> nat option \<times> 'h CEsvga2Accel" where
  "VRAMMalloc bytes s =
     (case m_allocator s of None \<Rightarrow> (None, s)
      | Some a \<Rightarrow> let (rc, p, a) = Malloc bytes True a in (p, s\<lparr>m_allocator := Some a\<rparr>))"

definition VRAMRealloc :: "nat \<Rightarrow> nat \<Rightarrow> 'h CEsvga2Accel \<Rightarrow> nat option \<times> 'h CEsvga2Accel" where
  "VRAMRealloc ptr bytes s =
     (case m_allocator s of None \<Rightarrow> (None, s)
      | Some a \<Rightarrow> let (rc, newp, a) = Realloc ptr bytes a in (newp, s\<lparr>m_allocator := Some a\<rparr>))"

definition VRAMFree :: "nat \<Rightarrow> 'h CEsvga2Accel \<Rightarrow> 'h CEsvga2Accel" where
  "VRAMFree ptr s =
     (case m_allocator s of None \<Rightarrow> s
      | Some a \<Rightarrow> let (rc, a) = Free ptr a in s\<lparr>m_allocator := Some a\<rparr>)"

definition offsetInVRAM :: "u64 \<Rightarrow> 'h CEsvga2Accel \<Rightarrow> u64" where
  "offsetInVRAM vram_ptr s = (case vram_map s of None \<Rightarrow> 0 | Some base \<Rightarrow> vram_ptr - base)"

section \<open>Clients\<close>

text \<open>
  A client allocates, keeping the addresses it gets with the sizes it asked for, and frees what it
  holds.
\<close>

datatype vram_op = VAlloc nat | VFree nat

fun run_vram :: "vram_op list \<Rightarrow> 'h CEsvga2Accel \<Rightarrow> (nat \<times> nat) list \<Rightarrow> 'h CEsvga2Accel \<times> (nat \<times> nat) list" where
  "run_vram [] s held = (s, held)"
| "run_vram (VAlloc n # ops) s held =
     (case VRAMMalloc n s of (None, s) \<Rightarrow> run_vram ops s held | (Some p, s) \<Rightarrow> run_vram ops s ((p, n) # held))"
| "run_vram (VFree i # ops) s held =
     (if i < length held then run_vram ops (VRAMFree (fst (held ! i)) s) (take i held @ drop (Suc i) held)
      else run_vram ops s held)"

definition vram_held :: "nat \<Rightarrow> nat \<Rightarrow> nat \<Rightarrow> (nat \<Rightarrow> owner) \<Rightarrow> nat \<times> nat \<Rightarrow> bool" where
  "vram_held base lo n own c \<longleftrightarrow>
     (\<exists>x k. fst c = base + x * 4096 \<and> lo \<le> x \<and> x + 2 ^ k \<le> n \<and> own x = BusyC x k \<and> snd c \<le> 2 ^ k * 4096)"

definition vram_inv :: "nat \<Rightarrow> nat \<Rightarrow> nat \<Rightarrow> 'h CEsvga2Accel \<Rightarrow> (nat \<times> nat) list \<Rightarrow> bool" where
  "vram_inv base lo n s held \<longleftrightarrow>
     (\<exists>a own. m_allocator s = Some a \<and> poolStart a = base \<and> poolBlocks a = n \<and> sound a own \<and>
        (\<forall>u<lo. own u = BusyC u 0) \<and> distinct (map fst held) \<and> (\<forall>c \<in> set held. vram_held base lo n own c))"

text \<open>Two busy chunks of a tiling are the same or disjoint.\<close>

lemma busy_apart:
  assumes "sound a own" "x < poolBlocks a" "own x = BusyC x k" "own y = BusyC y j" "x \<noteq> y"
  shows "\<not> (x \<le> y \<and> y < x + 2 ^ k)"
  using tilesD(4) [OF pool_invD(2) [OF soundD(1) [OF assms(1)]] assms(2,3), of y] assms(4,5) by auto

lemma busy_disjoint:
  assumes "sound a own" "x < poolBlocks a" "y < poolBlocks a" "own x = BusyC x k" "own y = BusyC y j" "x \<noteq> y"
  shows "x + 2 ^ k \<le> y \<or> y + 2 ^ j \<le> x"
  using busy_apart [OF assms(1,2,4,5,6)] busy_apart [OF assms(1,3,5,4) assms(6) [symmetric]] by linarith

lemma vram_held_mono:
  assumes "vram_held base lo n own c" "\<And>x k. own x = BusyC x k \<Longrightarrow> fst c = base + x * 4096 \<Longrightarrow> own' x = BusyC x k"
  shows "vram_held base lo n own' c"
  using assms unfolding vram_held_def by blast

lemma VRAMMalloc_inv:
  assumes "vram_inv base lo n s held" "VRAMMalloc b s = (r, s')"
  shows "vram_map s' = vram_map s \<and> vram_inv base lo n s' (case r of None \<Rightarrow> held | Some p \<Rightarrow> (p, b) # held)"
proof -
  obtain a own where a: "m_allocator s = Some a" "poolStart a = base" "poolBlocks a = n" "sound a own"
      "\<And>u. u < lo \<Longrightarrow> own u = BusyC u 0" "distinct (map fst held)" "\<And>c. c \<in> set held \<Longrightarrow> vram_held base lo n own c"
    using assms(1) by (auto simp: vram_inv_def)
  show ?thesis
  proof (rule Malloc_cases [OF a(4), of b])
    fix x k a' own'
    assume m: "Malloc b True a = (kIOReturnSuccess, Some (poolStart a + x * 4096), a')" "fit_class b k" "allocated x k a own a' own'"
    have r: "r = Some (base + x * 4096)" "s' = s\<lparr>m_allocator := Some a'\<rparr>" using assms(2) m(1) a(1,2) by (auto simp: VRAMMalloc_def)
    have free: "is_free (own u) \<and> own' u = BusyC x k" if "x \<le> u" "u < x + 2 ^ k" for u using m(3) that by (auto simp: allocated_def)
    have same: "own' u = own u" if "\<not> is_free (own u)" for u
      using m(3) free that unfolding allocated_def by (metis)
    have x: "is_free (own x)" "own' x = BusyC x k" using free [of x] by simp_all
    have "lo \<le> x" using x(1) a(5) by (cases "x < lo") simp_all
    moreover have "x + 2 ^ k \<le> n" using m(3) a(3) by (auto simp: allocated_def dest: chunk_okD)
    ultimately have new: "vram_held base lo n own' (base + x * 4096, b)"
      using x(2) m(2) by (auto simp: vram_held_def fit_class_def)
    have "vram_held base lo n own' c" if "c \<in> set held" for c
      by (rule vram_held_mono [OF a(7) [OF that]]) (simp add: same)
    moreover have "base + x * 4096 \<notin> fst ` set held"
      using a(7) x(1) unfolding vram_held_def by fastforce
    ultimately show ?thesis
      using r new m(3) a(2,3,5,6) same by (auto simp: vram_inv_def allocated_def kept_def)
  qed (use assms a(1) in \<open>auto simp: VRAMMalloc_def vram_inv_def\<close>)
qed

lemma VRAMFree_inv:
  assumes "vram_inv base lo n s held" "0 < base" "i < length held"
  shows "vram_map (VRAMFree (fst (held ! i)) s) = vram_map s \<and>
    vram_inv base lo n (VRAMFree (fst (held ! i)) s) (take i held @ drop (Suc i) held)"
proof -
  let ?c = "held ! i" and ?held = "take i held @ drop (Suc i) held"
  obtain a own where a: "m_allocator s = Some a" "poolStart a = base" "poolBlocks a = n" "sound a own"
      "\<And>u. u < lo \<Longrightarrow> own u = BusyC u 0" "distinct (map fst held)" "\<And>c. c \<in> set held \<Longrightarrow> vram_held base lo n own c"
    using assms(1) by (auto simp: vram_inv_def)
  have split: "held = take i held @ ?c # drop (Suc i) held" using assms(3) by (rule id_take_nth_drop)
  have d: "distinct (map fst ?held)" "fst ?c \<notin> fst ` set ?held" "set ?held \<subseteq> set held"
    using a(6) arg_cong [OF split, of "map fst"] arg_cong [OF split, of set] by auto
  obtain x k where x: "fst ?c = base + x * 4096" "lo \<le> x" "x + 2 ^ k \<le> n" "own x = BusyC x k"
    using a(7) [of ?c] assms(3) by (auto simp: vram_held_def)
  have xn: "x < poolBlocks a" using x(3) a(3) by (rule_tac less_le_trans [of _ "x + 2 ^ k"]) simp_all
  obtain a' own' where f: "Free (poolStart a + x * 4096) a = (kIOReturnSuccess, a')" "released x (x + 2 ^ k) a own a' own'"
    using Free_ok [OF a(4) xn x(4)] assms(2) a(2) by auto
  have same: "own' u = own u" if "\<not> (x \<le> u \<and> u < x + 2 ^ k)" "\<not> is_free (own u)" for u
    using f(2) that by (auto simp: released_def)
  have "vram_held base lo n own' c" if "c \<in> set ?held" for c
  proof (rule vram_held_mono [OF a(7)])
    show "c \<in> set held" using that d(3) by blast
    fix y j assume y: "own y = BusyC y j" "fst c = base + y * 4096"
    have "x \<noteq> y" using d(2) that y(2) x(1) by force
    then show "own' y = BusyC y j" using same [of y] busy_apart [OF a(4) xn x(4) y(1)] y(1) by simp
  qed
  moreover have "own' u = BusyC u 0" if "u < lo" for u using same [of u] a(5) [OF that] x(2) that by simp
  moreover have "VRAMFree (fst ?c) s = s\<lparr>m_allocator := Some a'\<rparr>" using a(1,2) f(1) x(1) by (simp add: VRAMFree_def)
  ultimately show ?thesis using d(1) f(2) a(2,3) by (auto simp: vram_inv_def released_def kept_def)
qed

lemma run_vram_inv:
  assumes "vram_inv base lo n s held" "0 < base" "run_vram ops s held = (s', held')"
  shows "vram_map s' = vram_map s \<and> vram_inv base lo n s' held'"
  using assms(1,3)
proof (induction ops s held rule: run_vram.induct)
  case (2 b ops s held)
  obtain r t where m: "VRAMMalloc b s = (r, t)" by (rule prod.exhaust)
  show ?case using VRAMMalloc_inv [OF 2(3) m] 2(1,2) 2(4) m by (cases r) auto
next
  case (3 i ops s held)
  then show ?case using VRAMFree_inv [OF 3(3) assms(2), of i] by (auto split: if_splits)
qed simp

section \<open>Properties\<close>

lemma vram_inv_offsets:
  assumes "vram_inv (unat p) lo n s held" "vram_map s = Some p" "unat p + n * 4096 \<le> 2 ^ 64" "(q, b) \<in> set held"
  shows "lo * 4096 \<le> unat (offsetInVRAM (of_nat q) s)" "unat (offsetInVRAM (of_nat q) s) + b \<le> n * 4096"
proof -
  obtain x k :: nat where x: "q = unat p + x * 4096" "lo \<le> x" "x + 2 ^ k \<le> n" "b \<le> 2 ^ k * 4096"
    using assms(1,4) by (fastforce simp: vram_inv_def vram_held_def)
  have "(x + 2 ^ k) * 4096 \<le> n * 4096" using x(3) by simp
  then have e: "x * 4096 + 2 ^ k * 4096 \<le> n * 4096" by (simp only: distrib_right)
  have "offsetInVRAM (of_nat q) s = of_nat (x * 4096)" using assms(2) x(1) by (simp add: offsetInVRAM_def)
  moreover have "x * 4096 < 2 ^ LENGTH(64)"
  proof -
    have "0 < 2 ^ k * (4096 :: nat)" by simp
    then have "x * 4096 < 2 ^ 64" using e assms(3) by linarith
    then show ?thesis by simp
  qed
  ultimately have o: "unat (offsetInVRAM (of_nat q) s) = x * 4096" by (simp only: unat_of_nat_small)
  show "lo * 4096 \<le> unat (offsetInVRAM (of_nat q) s)" "unat (offsetInVRAM (of_nat q) s) + b \<le> n * 4096"
    unfolding o using x(2,4) e by linarith+
qed

lemma vram_inv_disjoint:
  assumes "vram_inv base lo n s held" "i < j" "j < length held"
  shows "fst (held ! i) + snd (held ! i) \<le> fst (held ! j) \<or> fst (held ! j) + snd (held ! j) \<le> fst (held ! i)"
proof -
  obtain a own where a: "poolBlocks a = n" "sound a own" "distinct (map fst held)" "\<And>c. c \<in> set held \<Longrightarrow> vram_held base lo n own c"
    using assms(1) by (auto simp: vram_inv_def)
  have "fst (held ! i) \<noteq> fst (held ! j)"
    using a(3) assms(2,3) nth_eq_iff_index_eq [of "map fst held" i j] by simp
  obtain x k where x: "fst (held ! i) = base + x * 4096" "x + 2 ^ k \<le> n" "own x = BusyC x k" "snd (held ! i) \<le> 2 ^ k * 4096"
    using a(4) [of "held ! i"] assms(2,3) by (auto simp: vram_held_def)
  obtain y l where y: "fst (held ! j) = base + y * 4096" "y + 2 ^ l \<le> n" "own y = BusyC y l" "snd (held ! j) \<le> 2 ^ l * 4096"
    using a(4) [of "held ! j"] assms(3) by (auto simp: vram_held_def)
  have pos: "0 < (2 :: nat) ^ k" "0 < (2 :: nat) ^ l" by simp_all
  have "x < poolBlocks a" "y < poolBlocks a" using x(2) y(2) pos a(1) by linarith+
  then have "x + 2 ^ k \<le> y \<or> y + 2 ^ l \<le> x"
    by (rule busy_disjoint [OF a(2) _ _ x(3) y(3)]) (use x(1) y(1) \<open>fst (held ! i) \<noteq> fst (held ! j)\<close> in auto)
  then have "(x + 2 ^ k) * 4096 \<le> y * 4096 \<or> (y + 2 ^ l) * 4096 \<le> x * 4096" by auto
  then show ?thesis using x(1,4) y(1,4) by (auto simp only: distrib_right)
qed

lemma floor_mask: "unat (x AND NOT (mask k)) = unat x div 2 ^ k * 2 ^ k" for x :: u64
proof -
  have "x AND NOT (mask k) = push_bit k (drop_bit k x)" by (rule bit_eqI) (auto simp: bit_simps)
  also have "\<dots> = x - take_bit k x" using bits_ident [of k x] by (simp only: eq_diff_eq)
  finally have "x AND NOT (mask k) = x - take_bit k x" .
  moreover have tb: "unat (take_bit k x) = unat x mod 2 ^ k" unfolding unsigned_take_bit_eq by (rule take_bit_eq_mod)
  then have "take_bit k x \<le> x" unfolding word_le_nat_alt by simp
  ultimately have "unat (x AND NOT (mask k)) = unat x - unat x mod 2 ^ k"
    unfolding tb [symmetric] by (simp add: unat_sub)
  then show ?thesis by (simp add: minus_mod_eq_div_mult)
qed

lemma page_floor: "unat (s AND NOT 4095) = unat s div 4096 * 4096" for s :: u64
proof -
  have "(4095 :: u64) = mask 12" by (simp add: mask_eq_exp_minus_1)
  then show ?thesis using floor_mask [of s 12] by simp
qed

lemma setup_inv:
  assumes "0x1000000 < n * 4096" "n * 4096 < 2 ^ 32" "4096 dvd base" "0 < base" "m_allocator acc = Some a0"
  obtains a where "Init True base (n * 4096) a0 = (kIOReturnSuccess, a)"
    "\<exists>a'. release_all (n * 4096) False a = (kIOReturnSuccess, a') \<and> freeBytes a' = n * 4096 - 0x1000000 \<and>
       vram_inv base 4096 n (acc\<lparr>m_allocator := Some a', vram_map := v\<rparr>) []"
proof (rule Init_cases [of True base "n * 4096" a0])
  fix a assume i: "Init True base (n * 4096) a0 = (kIOReturnSuccess, a)" "sound a (\<lambda>u. BusyC u 0)"
    "poolStart a = base" "poolBlocks a = n * 4096 div 4096" "freeBytes a = 0"
  have n: "poolBlocks a = n" "4096 < n" using i(4) assms(1) by simp_all
  obtain a' own' where r: "Release (4096 * 4096) (n * 4096) a = (kIOReturnSuccess, a')" "released 4096 n a (\<lambda>u. BusyC u 0) a' own'"
    using Release_ok [OF i(2), of 4096 n] n by auto
  have "release_all (n * 4096) False a = (kIOReturnSuccess, a')"
    using r(1) assms(1) by (simp add: release_all_def SVGA_FB_MAX_TRACEABLE_SIZE_def)
  moreover have "own' u = BusyC u 0" if "u < 4096" for u using r(2) that by (auto simp: released_def)
  then have "vram_inv base 4096 n (acc\<lparr>m_allocator := Some a', vram_map := v\<rparr>) []"
    using r(2) i(3) n(1) by (auto simp: vram_inv_def released_def kept_def)
  moreover have "freeBytes a' = n * 4096 - 0x1000000" using r(2) i(5) by (simp add: released_def)
  ultimately show thesis using that [OF i(1)] by blast
qed (use assms in auto)

text \<open>
  C29.  Without a front buffer of the host, after \<open>setupAllocator\<close> on a device with more than 16 MB of
  video memory, whatever clients allocate and free: each piece of video memory they hold lies
  behind the 16 MB of the framebuffer and inside the mapping, and no two of them overlap.
\<close>

theorem VRAM_outside_framebuffer:
  assumes "vram_map acc = None" "m_allocator acc = Some a0" "\<not> HaveFrontBuffer acc"
    and "sz = (if ucast (m_vram_size (m_svga acc)) < vlen then ucast (m_vram_size (m_svga acc)) else vlen)"
    and "mapping sz = Some p" "4096 dvd unat p" "p \<noteq> 0" "unat p + 2 ^ 32 \<le> 2 ^ 64" "0x1001000 \<le> unat sz"
  shows "\<exists>acc'. setupAllocator (Some vlen) mapping True acc = (kIOReturnSuccess, acc') \<and>
    (\<forall>ops acc'' held. run_vram ops acc' [] = (acc'', held) \<longrightarrow>
      (\<forall>(q, b) \<in> set held. 0x1000000 \<le> unat (offsetInVRAM (of_nat q) acc'') \<and>
         unat (offsetInVRAM (of_nat q) acc'') + b \<le> unat sz) \<and>
      (\<forall>i j. i < j \<and> j < length held \<longrightarrow>
         fst (held ! i) + snd (held ! i) \<le> fst (held ! j) \<or> fst (held ! j) + snd (held ! j) \<le> fst (held ! i)))"
proof -
  define n where "n = unat sz div 4096"
  have "unat sz < 2 ^ 32"
    using unat_u32_less [of "m_vram_size (m_svga acc)"] by (auto simp: assms(4) word_less_nat_alt not_less word_le_nat_alt)
  then have n: "0x1000000 < n * 4096" "n * 4096 < 2 ^ 32" "n * 4096 \<le> unat sz" using assms(9) by (auto simp: n_def)
  have base: "0 < unat p" using assms(7) by (simp add: unat_gt_0)
  obtain a where a: "Init True (unat p) (n * 4096) a0 = (kIOReturnSuccess, a)"
    "\<exists>a'. release_all (n * 4096) False a = (kIOReturnSuccess, a') \<and> freeBytes a' = n * 4096 - 0x1000000 \<and>
       vram_inv (unat p) 4096 n (acc\<lparr>m_allocator := Some a', vram_map := Some p\<rparr>) []"
    by (rule setup_inv [OF n(1,2) assms(6) base assms(2)])
  then obtain a' where a': "release_all (n * 4096) False a = (kIOReturnSuccess, a')"
    "vram_inv (unat p) 4096 n (acc\<lparr>m_allocator := Some a', vram_map := Some p\<rparr>) []" by blast
  have fl: "unat (sz AND NOT 4095) = n * 4096" by (simp only: page_floor n_def)
  then have "sz AND NOT 4095 \<noteq> 0" using n(1) by auto
  then have s: "setupAllocator (Some vlen) mapping True acc = (kIOReturnSuccess, acc\<lparr>m_allocator := Some a', vram_map := Some p\<rparr>)"
    using assms(1-3,5,7) a(1) a'(1) fl by (simp add: setupAllocator_def Let_def flip: assms(4))
  show ?thesis
  proof (intro exI [of _ "acc\<lparr>m_allocator := Some a', vram_map := Some p\<rparr>"] conjI s allI impI)
    fix ops acc'' held assume "run_vram ops (acc\<lparr>m_allocator := Some a', vram_map := Some p\<rparr>) [] = (acc'', held)"
    from run_vram_inv [OF a'(2) base this] have inv: "vram_map acc'' = Some p" "vram_inv (unat p) 4096 n acc'' held" by auto
    have "unat p + n * 4096 \<le> 2 ^ 64" using n(2) assms(8) by linarith
    note o = vram_inv_offsets [OF inv(2,1) this]
    show "\<forall>(q, b) \<in> set held. 0x1000000 \<le> unat (offsetInVRAM (of_nat q) acc'') \<and>
         unat (offsetInVRAM (of_nat q) acc'') + b \<le> unat sz"
      using o n(3) by fastforce
  qed (use vram_inv_disjoint run_vram_inv [OF a'(2) base] in blast)
qed

abbreviation plain_accel :: "unit CEsvga2Accel" where
  "plain_accel \<equiv> (new_accel ((demo_device 0 0)\<lparr>m_vram_size := 0x2000000\<rparr>))
     \<lparr>bHaveSVGA3D := False, bHaveScreenObject := False, m_allocator := Some blank_pool\<rparr>"

theorem VRAM_outside_framebuffer_witness:
  "\<exists>acc'. setupAllocator (Some 0x4000000) (\<lambda>_. Some 0x100000000) True plain_accel = (kIOReturnSuccess, acc') \<and>
    (case run_vram [VAlloc 5000, VAlloc 100, VFree 1, VAlloc 70000] acc' [] of
       (acc'', held) \<Rightarrow> list_all (\<lambda>(q, b). 0x1000000 \<le> unat (offsetInVRAM (of_nat q) acc'')) held)"
proof -
  have "vram_map plain_accel = None" by (simp add: new_accel_def Accel_init_def initPrimaryScreen_def)
  then obtain acc' where s: "setupAllocator (Some 0x4000000) (\<lambda>_. Some 0x100000000) True plain_accel = (kIOReturnSuccess, acc')"
    and r: "\<And>ops acc'' held. run_vram ops acc' [] = (acc'', held) \<Longrightarrow>
      (\<forall>(q, b) \<in> set held. 0x1000000 \<le> unat (offsetInVRAM (of_nat q) acc'') \<and> unat (offsetInVRAM (of_nat q) acc'') + b \<le> unat (0x2000000 :: u64))"
    using VRAM_outside_framebuffer [of plain_accel blank_pool "0x2000000" "0x4000000" "\<lambda>_. Some 0x100000000" "0x100000000"]
    by (auto simp: HaveFrontBuffer_def)
  obtain acc'' held where h: "run_vram [VAlloc 5000, VAlloc 100, VFree 1, VAlloc 70000] acc' [] = (acc'', held)" by (rule prod.exhaust)
  show ?thesis using s r [OF h] h by (intro exI [of _ acc']) (auto simp: list_all_iff)
qed

end
