(* ===== verification/Accel_VertexArray.thy ===== *)
theory Accel_VertexArray
  imports Accel_VRAM
begin

text \<open>
  Vertex arrays (\<open>src/AC/GL/VertexArray.cpp\<close>): a buffer in video memory that is handed out piece by
  piece, with the surface it is uploaded to.  It uses the fences, surfaces and video memory of
  \<open>CEsvga2Accel\<close>.
\<close>

section \<open>Operations\<close>

record VertexArray =
  kernel_ptr :: nat
  size_bytes :: u64
  offset_in_gmr :: u64
  next_avail :: u64
  va_sid :: u32
  va_gmr_id :: u32
  va_fence :: u32

definition VertexArray_init :: "VertexArray \<Rightarrow> VertexArray" where
  "VertexArray_init v = v\<lparr>va_sid := SVGA_ID_INVALID, va_gmr_id := SVGA_ID_INVALID\<rparr>"

text \<open>Waiting for the fence of the last upload.\<close>

definition va_sync :: "VertexArray \<Rightarrow> 'h CEsvga2Accel \<Rightarrow> (VertexArray \<times> 'h CEsvga2Accel) option" where
  "va_sync v s =
     (if va_fence v \<noteq> 0 then do { (_, s) \<leftarrow> Accel_SyncToFence (va_fence v) s; Some (v\<lparr>va_fence := 0\<rparr>, s) }
      else Some (v, s))"

definition purge :: "VertexArray \<Rightarrow> 'h CEsvga2Accel \<Rightarrow> (VertexArray \<times> 'h CEsvga2Accel) option" where
  "purge v s =
     do {
       (v, s) \<leftarrow> va_sync v s;
       let v = v\<lparr>va_gmr_id := SVGA_ID_INVALID\<rparr>;
       let (v, s) = (if kernel_ptr v \<noteq> 0
                     then (v\<lparr>kernel_ptr := 0, size_bytes := 0, offset_in_gmr := 0, next_avail := 0\<rparr>, VRAMFree (kernel_ptr v) s)
                     else (v, s));
       if \<not> id_failed (va_sid v) then do {
         (_, s) \<leftarrow> destroySurface (va_sid v) s;
         Some (v\<lparr>va_sid := SVGA_ID_INVALID\<rparr>, FreeSurfaceID (va_sid v) s) }
       else Some (v, s)
     }"

text \<open>The part of \<open>alloc\<close> that gets a new buffer, with the flags \<open>VERTEXBUFFER\<close>, \<open>DYNAMIC\<close>, \<open>WRITEONLY\<close> and the
  format \<open>SVGA3D_BUFFER\<close>; the label \<open>done\<close> is \<open>va_done\<close>.\<close>

definition va_new :: "u64 \<Rightarrow> VertexArray \<Rightarrow> 'h CEsvga2Accel \<Rightarrow> (IOReturn \<times> VertexArray \<times> 'h CEsvga2Accel) option" where
  "va_new num_bytes v s =
     (let alloc_bytes = (num_bytes + 4095) AND (- 4096);
          (sid, s) = AllocSurfaceID s;
          v = v\<lparr>va_sid := sid\<rparr>
      in do {
           (rc, s) \<leftarrow> createSurface sid (16 OR 4 OR 256) 37 (ucast alloc_bytes) 1 s;
           if rc \<noteq> kIOReturnSuccess then Some (rc, v\<lparr>va_sid := SVGA_ID_INVALID\<rparr>, FreeSurfaceID sid s)
           else case VRAMMalloc (unat alloc_bytes) s of
             (None, s) \<Rightarrow> do { (v, s) \<leftarrow> purge v s; Some (kIOReturnNoMemory, v, s) }
           | (Some p, s) \<Rightarrow>
               Some (kIOReturnSuccess,
                 v\<lparr>kernel_ptr := p, size_bytes := alloc_bytes, offset_in_gmr := offsetInVRAM (of_nat p) s, va_gmr_id := GMR_VRAM\<rparr>, s)
         })"

definition va_done :: "u64 \<Rightarrow> VertexArray \<Rightarrow> nat \<times> VertexArray" where
  "va_done num_bytes v = (kernel_ptr v + unat (next_avail v), v\<lparr>next_avail := next_avail v + num_bytes\<rparr>)"

definition VertexArray_alloc ::
  "u64 \<Rightarrow> VertexArray \<Rightarrow> 'h CEsvga2Accel option \<Rightarrow> (IOReturn \<times> nat option \<times> VertexArray \<times> 'h CEsvga2Accel option) option" where
  "VertexArray_alloc num_bytes v provider =
     (case provider of None \<Rightarrow> Some (kIOReturnNotReady, None, v, None)
      | Some s \<Rightarrow>
        let num_bytes = (num_bytes + 4 - 1) AND (- 4);
            finish = (\<lambda>(v, s). let (p, v) = va_done num_bytes v in Some (kIOReturnSuccess, Some p, v, Some s))
        in if kernel_ptr v \<noteq> 0 \<and> next_avail v + num_bytes \<le> size_bytes v then finish (v, s)
           else if kernel_ptr v \<noteq> 0 \<and> num_bytes \<le> size_bytes v
           then do { (v, s) \<leftarrow> va_sync v s; finish (v\<lparr>next_avail := 0\<rparr>, s) }
           else do {
             (v, s) \<leftarrow> (if kernel_ptr v \<noteq> 0 then purge v s else Some (v, s));
             (rc, v, s) \<leftarrow> va_new num_bytes v s;
             if rc \<noteq> kIOReturnSuccess then Some (rc, None, v, Some s) else finish (v, s) })"

text \<open>\<open>upload\<close>: the third component is the value stored through \<open>_sid\<close>, if any; the
  transfer is \<open>SVGA3D_WRITE_HOST_VRAM\<close>.\<close>

definition VertexArray_upload ::
  "nat \<Rightarrow> u64 \<Rightarrow> VertexArray \<Rightarrow> 'h CEsvga2Accel option \<Rightarrow> (IOReturn \<times> u32 option \<times> VertexArray \<times> 'h CEsvga2Accel option) option" where
  "VertexArray_upload ptr num_bytes v provider =
     (case provider of None \<Rightarrow> Some (kIOReturnNotReady, None, v, None)
      | Some s \<Rightarrow>
        if ptr < kernel_ptr v then Some (kIOReturnUnderrun, None, v, Some s)
        else
          let additional_offset = of_nat (ptr - kernel_ptr v) :: u64
          in if additional_offset + num_bytes > size_bytes v then Some (kIOReturnOverrun, None, v, Some s)
             else
               let extra = \<lparr>mem_offset_in_gmr_ex = offset_in_gmr v + additional_offset, mem_pitch_ex = 0, mem_limit_ex = num_bytes,
                            mem_gmr_id_ex = va_gmr_id v, suffix_flags_ex = 3\<rparr>;
                   copyBox = \<lparr>cb_x = 0, cb_y = 0, cb_z = 0, cb_w = ucast num_bytes, cb_h = 1, cb_d = 1, cb_srcx = 0, cb_srcy = 0, cb_srcz = 0\<rparr>
               in do {
                    (rc, f, s) \<leftarrow> surfaceDMA3DEx (image_of (va_sid v)) 1 (Some copyBox) (Some extra) True s;
                    let v = (case f of None \<Rightarrow> v | Some f \<Rightarrow> v\<lparr>va_fence := f\<rparr>);
                    Some (rc, Some (va_sid v), v, Some s) })"

section \<open>Invariant\<close>

definition va_ok :: "VertexArray \<Rightarrow> bool" where
  "va_ok v \<longleftrightarrow> unat (size_bytes v) \<le> 2 ^ 62 \<and> unat (next_avail v) \<le> unat (size_bytes v) \<and> unat (next_avail v) mod 4 = 0 \<and>
     (kernel_ptr v = 0 \<longrightarrow> size_bytes v = 0 \<and> id_failed (va_sid v) \<and> va_fence v = 0)"

definition va_held :: "VertexArray \<Rightarrow> (nat \<times> nat) list" where
  "va_held v = (if kernel_ptr v = 0 then [] else [(kernel_ptr v, unat (size_bytes v))])"

text \<open>
  What the array relies on: 3D commands are accepted and worked off, identifiers are left, and the video memory is
  in order, with the buffer of the array and what other clients hold.
\<close>

definition va_env :: "nat \<Rightarrow> nat \<Rightarrow> nat \<Rightarrow> nat \<Rightarrow> (nat \<times> nat) list \<Rightarrow> 'h CEsvga2Accel \<Rightarrow> bool" where
  "va_env base lo n ids held s \<longleftrightarrow>
     m_framebuffer s \<and> bHaveSVGA3D s \<and> accepts (m_svga s) 14 \<and> host_idles (m_svga s) \<and> surface_ok ids s \<and> 0 < base \<and>
     vram_inv base lo n s held"

lemma Accel_SyncToFence_waited:
  assumes "m_framebuffer s" "fifo_ready (m_svga s)" "host_idles (m_svga s)"
  shows "\<exists>d. Accel_SyncToFence f s = Some (kIOReturnSuccess, s\<lparr>m_svga := d\<rparr>) \<and> waited f (m_svga s) d"
proof -
  obtain d where "SyncToFence f (m_svga s) = Some d" "waited f (m_svga s) d" using SyncToFence_waited [OF assms(2,3)] by blast
  then show ?thesis using assms(1) by (auto simp: Accel_SyncToFence_def on_device_def split: unit.split)
qed

lemma va_env_sent:
  assumes "va_env base lo n ids held s" "fifo_sent ws (m_svga s) d"
  shows "va_env base lo n ids held (s\<lparr>m_svga := d\<rparr>)"
  using assms accepts_sent [OF assms(2)] host_idles_frame [of "m_svga s" d] by (simp add: va_env_def fifo_sent_def vram_inv_def)

lemma va_sync_waited:
  assumes "va_env base lo n ids held s"
  shows "\<exists>d. va_sync v s = Some (v\<lparr>va_fence := 0\<rparr>, s\<lparr>m_svga := d\<rparr>) \<and> waited (va_fence v) (m_svga s) d \<and> va_env base lo n ids held (s\<lparr>m_svga := d\<rparr>)"
proof (cases "va_fence v = 0")
  case True
  then have "v\<lparr>va_fence := 0\<rparr> = v" by (cases v) simp
  then show ?thesis using True assms fifo_sent_nil [of "m_svga s"]
    by (intro exI [of _ "m_svga s"]) (simp add: va_sync_def waited_def va_env_def accepts_def)
next
  case False
  obtain d where "Accel_SyncToFence (va_fence v) s = Some (kIOReturnSuccess, s\<lparr>m_svga := d\<rparr>)" "waited (va_fence v) (m_svga s) d"
    using Accel_SyncToFence_waited [of s] assms by (auto simp: va_env_def accepts_def)
  moreover from this(2) have "va_env base lo n ids held (s\<lparr>m_svga := d\<rparr>)" using va_env_sent [OF assms] by (auto simp: waited_def)
  ultimately show ?thesis using False by (intro exI [of _ d]) (simp add: va_sync_def)
qed

lemma vram_inv_cong: "m_allocator t = m_allocator s \<Longrightarrow> vram_inv base lo n s held \<Longrightarrow> vram_inv base lo n t held"
  by (simp add: vram_inv_def)

lemma FreeSurfaceID_allocator [simp]: "m_allocator (FreeSurfaceID r s) = m_allocator s"
  by (simp add: FreeSurfaceID_def Let_def)

lemma AllocSurfaceID_allocator: "AllocSurfaceID s = (r, t) \<Longrightarrow> m_allocator t = m_allocator s"
  by (auto simp: AllocSurfaceID_def Let_def split: prod.splits if_splits)

lemma ID_framebuffer: "m_framebuffer (FreeSurfaceID r s) = m_framebuffer s" "AllocSurfaceID s = (r, t) \<Longrightarrow> m_framebuffer t = m_framebuffer s"
  by (auto simp: FreeSurfaceID_def AllocSurfaceID_def Let_def split: prod.splits if_splits)

lemma VRAM_frame [simp]:
  "m_svga (VRAMFree p s) = m_svga s" "bHaveSVGA3D (VRAMFree p s) = bHaveSVGA3D s" "surface_ok ids (VRAMFree p s) = surface_ok ids s"
  "m_svga (snd (VRAMMalloc b s)) = m_svga s" "bHaveSVGA3D (snd (VRAMMalloc b s)) = bHaveSVGA3D s"
  "surface_ok ids (snd (VRAMMalloc b s)) = surface_ok ids s"
  "m_framebuffer (VRAMFree p s) = m_framebuffer s" "m_framebuffer (snd (VRAMMalloc b s)) = m_framebuffer s"
  by (simp_all add: VRAMFree_def VRAMMalloc_def surface_ok_def split: option.split prod.split)

text \<open>The messages that define and destroy the surface of a buffer of \<open>w\<close> bytes.\<close>

abbreviation va_define :: "u32 \<Rightarrow> u32 \<Rightarrow> u32 list" where
  "va_define sid w \<equiv> [1040, 48, sid, 276, 37, 1, 0, 0, 0, 0, 0, w, 1, 1]"

abbreviation va_destroy :: "u32 \<Rightarrow> u32 list list" where
  "va_destroy sid \<equiv> (if id_failed sid then [] else [[1041, 4, sid]])"

lemma destroy_env:
  assumes "va_env base lo n ids held s"
  shows "\<exists>s'. destroySurface sid s = Some (kIOReturnSuccess, s') \<and> va_env base lo n ids held (FreeSurfaceID sid s') \<and>
    fifo_sent [1041, 4, sid] (m_svga s) (m_svga s')"
proof -
  have e: "bHaveSVGA3D s" "accepts (m_svga s) 14" using assms by (simp_all add: va_env_def)
  obtain d where d: "destroySurface sid s = Some (kIOReturnSuccess, s\<lparr>m_svga := d\<rparr>)" "fifo_sent [1041, 4, sid] (m_svga s) d"
    using accel_run_sent [OF e(1), of "DestroySurfaceA sid" 14] e(2) by (auto simp: command_words_def)
  note v = va_env_sent [OF assms d(2)]
  have "surface_ok ids (FreeSurfaceID sid (s\<lparr>m_svga := d\<rparr>))"
    using surface_ids.free_used [of ids "s\<lparr>m_svga := d\<rparr>" sid] v by (simp add: va_env_def surface_ok_def)
  then have "va_env base lo n ids held (FreeSurfaceID sid (s\<lparr>m_svga := d\<rparr>))"
    using v vram_inv_cong [of "FreeSurfaceID sid (s\<lparr>m_svga := d\<rparr>)" "s\<lparr>m_svga := d\<rparr>" base lo n held] by (simp add: va_env_def ID_framebuffer)
  then show ?thesis using d by auto
qed

lemma purge_ok:
  assumes "va_env base lo n ids (va_held v @ held) s" "kernel_ptr v = 0 \<longrightarrow> size_bytes v = 0 \<and> next_avail v = 0"
  shows "\<exists>v' s' d. purge v s = Some (v', s') \<and> kernel_ptr v' = 0 \<and> va_ok v' \<and> next_avail v' = 0 \<and> va_fence v' = 0 \<and> va_env base lo n ids held s' \<and>
    id_failed (va_sid v') \<and> waited (va_fence v) (m_svga s) d \<and> sent_all (va_destroy (va_sid v)) d (m_svga s')"
proof -
  obtain d where d: "va_sync v s = Some (v\<lparr>va_fence := 0\<rparr>, s\<lparr>m_svga := d\<rparr>)" "waited (va_fence v) (m_svga s) d"
      "va_env base lo n ids (va_held v @ held) (s\<lparr>m_svga := d\<rparr>)" using va_sync_waited [OF assms(1)] by blast
  define s0 where "s0 = s\<lparr>m_svga := d\<rparr>"
  define s1 where "s1 = (if kernel_ptr v \<noteq> 0 then VRAMFree (kernel_ptr v) s0 else s0)"
  have env: "va_env base lo n ids held s1"
  proof (cases "kernel_ptr v = 0")
    case False
    then have "vram_inv base lo n (VRAMFree (kernel_ptr v) s0) held"
      using VRAMFree_inv [of base lo n s0 "va_held v @ held" 0] d(3) by (simp add: va_env_def va_held_def s0_def)
    then show ?thesis using d(3) False by (simp add: s0_def s1_def va_env_def)
  qed (use d(3) in \<open>simp add: s0_def s1_def va_held_def\<close>)
  have m: "m_svga s1 = d" by (simp add: s1_def s0_def)
  obtain s2 where s2: "destroySurface (va_sid v) s1 = Some (kIOReturnSuccess, s2)" "va_env base lo n ids held (FreeSurfaceID (va_sid v) s2)"
      "fifo_sent [1041, 4, va_sid v] d (m_svga s2)"
    using destroy_env [OF env, of "va_sid v"] unfolding m by blast
  have "fifo_ready d" using d(2) by (simp add: waited_def fifo_sent_def)
  then have sent: "sent_all (va_destroy (va_sid v)) d (m_svga (if id_failed (va_sid v) then s1 else s2))"
    using fifo_sent_nil sent_all_single [OF s2(3)] m by auto
  show ?thesis
    using d(1,2) assms(2) env s2(1,2) sent unfolding s0_def [symmetric]
    by (cases "kernel_ptr v = 0"; cases "id_failed (va_sid v)") (auto simp: purge_def s1_def va_ok_def)
qed

lemma create_env:
  assumes "va_env base lo n (Suc ids) held s" "AllocSurfaceID s = (sid, t)"
  shows "\<exists>t'. createSurface sid fl fm w h t = Some (kIOReturnSuccess, t') \<and> va_env base lo n ids held t' \<and> \<not> id_failed sid \<and>
    fifo_sent [1040, 48, sid, fl, fm, 1, 0, 0, 0, 0, 0, w, h, 1] (m_svga s) (m_svga t')"
proof -
  have m: "m_svga t = m_svga s" using AllocSurfaceID_frame [OF assms(2)] by simp
  have ok: "surface_ok (Suc ids) s" using assms(1) by (simp add: va_env_def)
  note good = AllocSurfaceID_good [OF ok assms(2)]
  have "surface_ok ids t" using surface_ids.alloc_new [OF ok assms(2) good] by simp
  then have t: "va_env base lo n ids held t"
    using assms(1) AllocSurfaceID_frame [OF assms(2)] AllocSurfaceID_allocator [OF assms(2)] ID_framebuffer(2) [OF assms(2)]
    by (auto simp: va_env_def intro: vram_inv_cong)
  have e: "bHaveSVGA3D t" "accepts (m_svga t) 14" using t by (simp_all add: va_env_def)
  obtain d where "createSurface sid fl fm w h t = Some (kIOReturnSuccess, t\<lparr>m_svga := d\<rparr>)"
      "fifo_sent [1040, 48, sid, fl, fm, 1, 0, 0, 0, 0, 0, w, h, 1] (m_svga t) d"
    using accel_run_sent [OF e(1), of "CreateSurfaceA sid fl fm w h" 14] e(2) by (auto simp: command_words_def size_words_def)
  then show ?thesis using va_env_sent [OF t] good m by auto
qed

lemma round_4: "unat x < 2 ^ 63 \<Longrightarrow> unat ((x + 4 - 1) AND (- 4)) = (unat x + 3) div 4 * 4" for x :: u64
proof -
  assume "unat x < 2 ^ 63"
  then have "unat (3 + x) = unat x + 3" using unat_add_small [of 3 x] by simp
  moreover have "(- 4 :: u64) = NOT (mask 2)" by (simp add: mask_eq_exp_minus_1 not_eq_complement)
  ultimately show ?thesis using floor_mask [of "3 + x" 2] by simp
qed

lemma round_page: "unat x < 2 ^ 63 \<Longrightarrow> unat ((x + 4095) AND (- 4096)) = (unat x + 4095) div 4096 * 4096" for x :: u64
proof -
  assume "unat x < 2 ^ 63"
  then have "unat (x + 4095) = unat x + 4095" using unat_add_small [of x 4095] by simp
  moreover have "(- 4096 :: u64) = NOT (mask 12)" by (simp add: mask_eq_exp_minus_1 not_eq_complement)
  ultimately show ?thesis using floor_mask [of "x + 4095" 12] by simp
qed

text \<open>What \<open>va_new\<close> sends: the surface is defined, and destroyed again if there is no memory for the buffer.\<close>

lemma va_new_ok:
  assumes "va_env base lo n (Suc ids) held s" "kernel_ptr v = 0" "va_ok v" "unat b \<le> 2 ^ 61 + 3"
  shows "\<exists>rc v' s'. va_new b v s = Some (rc, v', s') \<and>
    (rc = kIOReturnSuccess \<and> kernel_ptr v' \<noteq> 0 \<and> unat b \<le> unat (size_bytes v') \<and> unat (size_bytes v') \<le> 2 ^ 62 \<and> next_avail v' = 0 \<and> va_fence v' = 0 \<and>
       va_env base lo n ids (va_held v' @ held) s' \<and> sent_all [va_define (va_sid v') (ucast (size_bytes v'))] (m_svga s) (m_svga s') \<or>
     rc = kIOReturnNoMemory \<and> kernel_ptr v' = 0 \<and> va_ok v' \<and> va_env base lo n ids held s' \<and>
       (\<exists>sid w. sent_all [va_define sid w, [1041, 4, sid]] (m_svga s) (m_svga s')))"
proof -
  define ab where "ab = (b + 4095) AND (- 4096)"
  have "unat b < 2 ^ 63" using assms(4) by simp
  then have r: "unat ab = (unat b + 4095) div 4096 * 4096" unfolding ab_def by (rule round_page)
  have ab: "unat b \<le> unat ab" "unat ab \<le> 2 ^ 62" using assms(4) unfolding r by simp_all
  have v: "size_bytes v = 0" "va_fence v = 0" "next_avail v = 0" using assms(2,3) by (auto simp: va_ok_def unat_eq_zero)
  obtain sid t where a: "AllocSurfaceID s = (sid, t)" by (rule prod.exhaust)
  obtain t' where c: "createSurface sid (16 OR 4 OR 256) 37 (ucast ab) 1 t = Some (kIOReturnSuccess, t')" "va_env base lo n ids held t'" "\<not> id_failed sid"
      "fifo_sent (va_define sid (ucast ab)) (m_svga s) (m_svga t')"
    using create_env [OF assms(1) a, of "16 OR 4 OR 256" 37 "ucast ab" 1] by auto
  obtain r u where m: "VRAMMalloc (unat ab) t' = (r, u)" by (rule prod.exhaust)
  have inv: "vram_inv base lo n u (case r of None \<Rightarrow> held | Some p \<Rightarrow> (p, unat ab) # held)"
    using VRAMMalloc_inv [OF _ m, of base lo n held] c(2) by (simp add: va_env_def)
  note fr = VRAM_frame(4-6,8) [where s = t' and b = "unat ab", unfolded m snd_conv]
  have env: "va_env base lo n ids (case r of None \<Rightarrow> held | Some p \<Rightarrow> (p, unat ab) # held) u"
    using c(2) inv fr by (simp add: va_env_def)
  let ?v = "v\<lparr>va_sid := sid\<rparr>"
  have new: "va_new b v s = (case r of None \<Rightarrow> (do { (v, s) \<leftarrow> purge ?v u; Some (kIOReturnNoMemory, v, s) })
      | Some p \<Rightarrow> Some (kIOReturnSuccess, ?v\<lparr>kernel_ptr := p, size_bytes := ab, offset_in_gmr := offsetInVRAM (of_nat p) u, va_gmr_id := GMR_VRAM\<rparr>, u))"
    using a c(1) m by (simp add: va_new_def Let_def flip: ab_def split: option.split)
  show ?thesis
  proof (cases r)
    case None
    have "va_env base lo n ids (va_held ?v @ held) u" "kernel_ptr ?v = 0 \<longrightarrow> size_bytes ?v = 0 \<and> next_avail ?v = 0"
      using assms(2) env None v by (simp_all add: va_held_def)
    then obtain v' s' d where p: "purge ?v u = Some (v', s')" "kernel_ptr v' = 0" "va_ok v'" "va_env base lo n ids held s'"
        "waited 0 (m_svga u) d" "sent_all [[1041, 4, sid]] d (m_svga s')"
      using purge_ok [of base lo n ids ?v held u] c(3) v(2) by auto
    have "sent_all [[1041, 4, sid]] (m_svga t') (m_svga s')" using sent_all_after [OF _ p(6)] p(5) fr(1) by (simp only: waited_def)
    then have "sent_all [va_define sid (ucast ab), [1041, 4, sid]] (m_svga s) (m_svga s')" using c(4) by auto
    then show ?thesis using new None p(1-4) by auto
  next
    case (Some p)
    then have "p \<noteq> 0" using inv assms(1) by (auto simp: vram_inv_def vram_held_def va_env_def)
    then show ?thesis using new Some env ab v sent_all_single [OF c(4)] fr(1) by (simp add: va_held_def del: sent_all.simps)
  qed
qed

section \<open>Properties\<close>

lemma va_done_ok:
  assumes "kernel_ptr v \<noteq> 0" "unat (size_bytes v) \<le> 2 ^ 62" "unat (next_avail v) + unat b \<le> unat (size_bytes v)"
    and "unat (next_avail v) mod 4 = 0" "unat b mod 4 = 0"
  shows "va_ok (snd (va_done b v))" "va_held (snd (va_done b v)) = va_held v" "fst (va_done b v) = kernel_ptr v + unat (next_avail v)"
proof -
  have "unat (next_avail v + b) = unat (next_avail v) + unat b" using assms(2,3) by (intro unat_add_small) simp
  then show "va_ok (snd (va_done b v))" using assms by (simp add: va_done_def va_ok_def mod_add_eq [of _ 4, symmetric])
qed (simp_all add: va_done_def va_held_def)

lemma alloc_eq:
  assumes "b = (num_bytes + 4 - 1) AND (- 4)"
  shows "VertexArray_alloc num_bytes v (Some s) =
     (if kernel_ptr v \<noteq> 0 \<and> next_avail v + b \<le> size_bytes v
      then Some (kIOReturnSuccess, Some (fst (va_done b v)), snd (va_done b v), Some s)
      else if kernel_ptr v \<noteq> 0 \<and> b \<le> size_bytes v
      then do { (v, s) \<leftarrow> va_sync v s;
                Some (kIOReturnSuccess, Some (fst (va_done b (v\<lparr>next_avail := 0\<rparr>))), snd (va_done b (v\<lparr>next_avail := 0\<rparr>)), Some s) }
      else do { (v, s) \<leftarrow> (if kernel_ptr v \<noteq> 0 then purge v s else Some (v, s));
                (rc, v, s) \<leftarrow> va_new b v s;
                if rc \<noteq> kIOReturnSuccess then Some (rc, None, v, Some s)
                else Some (kIOReturnSuccess, Some (fst (va_done b v)), snd (va_done b v), Some s) })"
    unfolding VertexArray_alloc_def by (simp only: option.case Let_def assms [symmetric] case_prod_beta fst_conv snd_conv)

text \<open>
  The piece at \<open>p\<close> of the new array \<open>v'\<close>, and how it became free for use after \<open>v\<close>, with the devices \<open>d\<close> before and
  \<open>d'\<close> after the call: it starts where the last piece ended; or the driver has waited for the fence of the last
  upload and it starts at the beginning of the buffer; or the driver has waited likewise and replaced the buffer and its
  surface.
\<close>

definition alloc_piece :: "nat \<Rightarrow> VertexArray \<Rightarrow> VertexArray \<Rightarrow> nat \<Rightarrow> 'h SVGADevice \<Rightarrow> 'h SVGADevice \<Rightarrow> bool" where
  "alloc_piece num v v' p d d' \<longleftrightarrow>
     (\<exists>x. p = kernel_ptr v' + x \<and> x + num \<le> unat (size_bytes v') \<and> x mod 4 = 0 \<and>
        (kernel_ptr v' = kernel_ptr v \<and> x = unat (next_avail v) \<and> d' = d \<or>
         kernel_ptr v' = kernel_ptr v \<and> x = 0 \<and> va_fence v' = 0 \<and> waited (va_fence v) d d' \<or>
         x = 0 \<and> va_fence v' = 0 \<and>
           (\<exists>e. waited (va_fence v) d e \<and> sent_all (va_destroy (va_sid v) @ [va_define (va_sid v') (ucast (size_bytes v'))]) e d')))"

lemma va_done_piece:
  assumes "unat (next_avail w) + unat b \<le> unat (size_bytes w)" "unat (next_avail w) mod 4 = 0" "num \<le> unat b"
    and "kernel_ptr w = kernel_ptr v \<and> unat (next_avail w) = unat (next_avail v) \<and> d' = d \<or>
      kernel_ptr w = kernel_ptr v \<and> next_avail w = 0 \<and> va_fence w = 0 \<and> waited (va_fence v) d d' \<or>
      next_avail w = 0 \<and> va_fence w = 0 \<and>
        (\<exists>e. waited (va_fence v) d e \<and> sent_all (va_destroy (va_sid v) @ [va_define (va_sid w) (ucast (size_bytes w))]) e d')"
  shows "alloc_piece num v (snd (va_done b w)) (fst (va_done b w)) d d'"
  unfolding alloc_piece_def using assms
  by (intro exI [of _ "unat (next_avail w)"]) (auto simp: va_done_def simp del: sent_all.simps)

lemma alloc_replaces:
  assumes "va_ok v" "va_env base lo n ids (va_held v @ held) s"
  shows "\<exists>w t e. (if kernel_ptr v \<noteq> 0 then purge v s else Some (v, s)) = Some (w, t) \<and> kernel_ptr w = 0 \<and> va_ok w \<and> va_env base lo n ids held t \<and>
    waited (va_fence v) (m_svga s) e \<and> sent_all (va_destroy (va_sid v)) e (m_svga t)"
proof (cases "kernel_ptr v = 0")
  case True
  then have "id_failed (va_sid v)" "va_fence v = 0" "va_held v = []" using assms(1) by (simp_all add: va_ok_def va_held_def)
  then show ?thesis using True assms fifo_sent_nil [of "m_svga s"] by (auto simp: va_env_def accepts_def waited_def)
next
  case False
  then have "kernel_ptr v = 0 \<longrightarrow> size_bytes v = 0 \<and> next_avail v = 0" by simp
  from purge_ok [OF assms(2) this] obtain w t d where "purge v s = Some (w, t)" "kernel_ptr w = 0" "va_ok w" "va_env base lo n ids held t"
      "waited (va_fence v) (m_svga s) d" "sent_all (va_destroy (va_sid v)) d (m_svga t)" by (elim exE conjE) (rule that)
  then show ?thesis using False by (intro exI [of _ w] exI [of _ t] exI [of _ d]) simp
qed

lemma VertexArray_alloc_new:
  assumes "va_ok v" "va_env base lo n (Suc ids) (va_held v @ held) s"
    and b: "b = (num_bytes + 4 - 1) AND (- 4)" "unat b mod 4 = 0" "unat num_bytes \<le> unat b" "unat b \<le> 2 ^ 61 + 3"
    and new: "kernel_ptr v = 0 \<or> \<not> next_avail v + b \<le> size_bytes v \<and> \<not> b \<le> size_bytes v"
  shows "\<exists>rc r v' s'. VertexArray_alloc num_bytes v (Some s) = Some (rc, r, v', Some s') \<and>
    va_ok v' \<and> va_env base lo n ids (va_held v' @ held) s' \<and>
    (rc = kIOReturnNoMemory \<and> r = None \<and> kernel_ptr v' = 0 \<and>
       (\<exists>e sid w. waited (va_fence v) (m_svga s) e \<and> sent_all (va_destroy (va_sid v) @ [va_define sid w, [1041, 4, sid]]) e (m_svga s')) \<or>
     rc = kIOReturnSuccess \<and> (\<exists>p. r = Some p \<and> alloc_piece (unat num_bytes) v v' p (m_svga s) (m_svga s')))"
proof -
  obtain w t e where w: "(if kernel_ptr v \<noteq> 0 then purge v s else Some (v, s)) = Some (w, t)" "kernel_ptr w = 0" "va_ok w"
      "va_env base lo n (Suc ids) held t" "waited (va_fence v) (m_svga s) e" "sent_all (va_destroy (va_sid v)) e (m_svga t)"
    using alloc_replaces [OF assms(1,2)] by blast
  obtain rc x u where x: "va_new b w t = Some (rc, x, u)"
      "rc = kIOReturnSuccess \<and> kernel_ptr x \<noteq> 0 \<and> unat b \<le> unat (size_bytes x) \<and> unat (size_bytes x) \<le> 2 ^ 62 \<and> next_avail x = 0 \<and>
         va_fence x = 0 \<and> va_env base lo n ids (va_held x @ held) u \<and> sent_all [va_define (va_sid x) (ucast (size_bytes x))] (m_svga t) (m_svga u) \<or>
       rc = kIOReturnNoMemory \<and> kernel_ptr x = 0 \<and> va_ok x \<and> va_env base lo n ids held u \<and>
         (\<exists>sid w. sent_all [va_define sid w, [1041, 4, sid]] (m_svga t) (m_svga u))"
    using va_new_ok [OF w(4,2,3) b(4)] by blast
  have e: "VertexArray_alloc num_bytes v (Some s) = (if rc \<noteq> kIOReturnSuccess then Some (rc, None, x, Some u)
      else Some (kIOReturnSuccess, Some (fst (va_done b x)), snd (va_done b x), Some u))"
    using new w(1) x(1) by (auto simp: alloc_eq [OF b(1)])
  note app = sent_all_append [OF w(6)]
  show ?thesis
  proof (cases "rc = kIOReturnSuccess")
    case True
    then have x': "kernel_ptr x \<noteq> 0" "unat (size_bytes x) \<le> 2 ^ 62" "unat (next_avail x) + unat b \<le> unat (size_bytes x)"
        "unat (next_avail x) mod 4 = 0" "next_avail x = 0 \<and> va_fence x = 0" "va_env base lo n ids (va_held x @ held) u"
        "sent_all [va_define (va_sid x) (ucast (size_bytes x))] (m_svga t) (m_svga u)"
      using x(2) by auto
    have "alloc_piece (unat num_bytes) v (snd (va_done b x)) (fst (va_done b x)) (m_svga s) (m_svga u)"
      using w(5) app [OF x'(7)] x'(5) by (intro va_done_piece [OF x'(3,4) b(3)]) blast
    then show ?thesis using va_done_ok [OF x'(1-4) b(2)] x'(6) e True by simp
  next
    case False
    then obtain sid y where y: "rc = kIOReturnNoMemory" "kernel_ptr x = 0" "va_ok x" "va_env base lo n ids held u"
        "sent_all [va_define sid y, [1041, 4, sid]] (m_svga t) (m_svga u)" using x(2) by blast
    have "\<exists>e sid w. waited (va_fence v) (m_svga s) e \<and> sent_all (va_destroy (va_sid v) @ [va_define sid w, [1041, 4, sid]]) e (m_svga u)"
      using w(5) app [OF y(5)] by blast
    then show ?thesis using e y(1-4) by (simp add: va_held_def del: sent_all.simps)
  qed
qed


abbreviation gl_accel :: "unit CEsvga2Accel" where
  "gl_accel \<equiv> (new_accel (demo_device 1220 1200))\<lparr>m_allocator := Some demo_ready\<rparr>"

abbreviation empty_array :: VertexArray where
  "empty_array \<equiv> VertexArray_init \<lparr>kernel_ptr = 0, size_bytes = 0, offset_in_gmr = 0, next_avail = 0, va_sid = 0, va_gmr_id = 0, va_fence = 0\<rparr>"


end
