(* ===== verification/Accel_Transfer.thy ===== *)
theory Accel_Transfer
  imports Accel_VertexArray
begin

text \<open>
  \<open>src/AC/VendorTransferBuffer.cpp\<close>: client memory that is wired down and made known to the device as
  a guest memory region while it takes part in transfers.
\<close>

section \<open>Model\<close>

text \<open>
  A memory descriptor of IOKit is a parameter: its segments and what \<open>prepare\<close> answers.  \<open>md_wired\<close> counts the successful calls
  of \<open>prepare\<close> minus the calls of \<open>complete\<close>, which IOKit requires to be balanced.  The fields of
  \<open>VendorTransferBuffer\<close> that its methods do not use are left out.
\<close>

record IOMemoryDescriptor =
  md_segments :: segments
  md_prepare_rc :: IOReturn
  md_wired :: int

definition md_prepare :: "IOMemoryDescriptor \<Rightarrow> IOReturn \<times> IOMemoryDescriptor" where
  "md_prepare md = (md_prepare_rc md, if md_prepare_rc md = kIOReturnSuccess then md\<lparr>md_wired := md_wired md + 1\<rparr> else md)"

definition md_complete :: "IOMemoryDescriptor \<Rightarrow> IOMemoryDescriptor" where
  "md_complete md = md\<lparr>md_wired := md_wired md - 1\<rparr>"

record VendorTransferBuffer =
  xfer_md :: "IOMemoryDescriptor option"
  xfer_gmr_id :: u32
  xfer_fence :: u32

definition isIdValid :: "u32 \<Rightarrow> bool" where "isIdValid r \<longleftrightarrow> 0 \<le> sint r"

definition xfer_init :: "VendorTransferBuffer \<Rightarrow> VendorTransferBuffer" where
  "xfer_init v = v\<lparr>xfer_gmr_id := SVGA_ID_INVALID\<rparr>"

text \<open>
  The provider is a pointer that may be null; \<open>alloc_helper\<close> is the allocation inside \<open>createGMR\<close>.  \<open>prepare_clean1\<close> and
  \<open>prepare_clean2\<close> are what follows the labels of these names.
\<close>

definition prepare_clean1 ::
  "IOReturn \<Rightarrow> VendorTransferBuffer \<Rightarrow> 'h CEsvga2Accel \<Rightarrow> IOReturn \<times> VendorTransferBuffer \<times> 'h CEsvga2Accel option" where
  "prepare_clean1 rc v s = (rc, v\<lparr>xfer_gmr_id := SVGA_ID_INVALID\<rparr>, Some (FreeGMRID (xfer_gmr_id v) s))"

definition prepare_clean2 ::
  "IOReturn \<Rightarrow> VendorTransferBuffer \<Rightarrow> 'h CEsvga2Accel \<Rightarrow> IOReturn \<times> VendorTransferBuffer \<times> 'h CEsvga2Accel option" where
  "prepare_clean2 rc v s = prepare_clean1 rc (v\<lparr>xfer_md := map_option md_complete (xfer_md v)\<rparr>) s"

definition xfer_prepare ::
  "(nat \<Rightarrow> (IOReturn \<times> segments) option) \<Rightarrow> VendorTransferBuffer \<Rightarrow> 'h CEsvga2Accel option \<Rightarrow>
   (IOReturn \<times> VendorTransferBuffer \<times> 'h CEsvga2Accel option) option" where
  "xfer_prepare alloc_helper v provider =
     (case provider of None \<Rightarrow> Some (kIOReturnNotReady, v, None)
      | Some s \<Rightarrow>
        if isIdValid (xfer_gmr_id v) then Some (kIOReturnSuccess, v, Some s)
        else
          (case xfer_md v of None \<Rightarrow> Some (kIOReturnNotReady, v, Some s)
           | Some md \<Rightarrow>
             let (r, s) = AllocGMRID s;
                 v = v\<lparr>xfer_gmr_id := r\<rparr>
             in if \<not> isIdValid r then Some (kIOReturnNoResources, v, Some s)
                else
                  let (rc, md) = md_prepare md;
                      v = v\<lparr>xfer_md := Some md\<rparr>
                  in if rc \<noteq> kIOReturnSuccess then Some (prepare_clean1 rc v s)
                     else do {
                       (rc, tab, s) \<leftarrow> createGMR r (Some (md_segments md)) alloc_helper s;
                       Some (if rc \<noteq> kIOReturnSuccess then prepare_clean2 rc v s else (kIOReturnSuccess, v, Some s)) }))"

definition xfer_sync ::
  "VendorTransferBuffer \<Rightarrow> 'h CEsvga2Accel option \<Rightarrow> (VendorTransferBuffer \<times> 'h CEsvga2Accel option) option" where
  "xfer_sync v provider =
     (case provider of None \<Rightarrow> Some (v, None)
      | Some s \<Rightarrow>
        if xfer_fence v = 0 then Some (v, Some s)
        else do { (_, s) \<leftarrow> Accel_SyncToFence (xfer_fence v) s; Some (v\<lparr>xfer_fence := 0\<rparr>, Some s) })"

definition xfer_complete ::
  "VendorTransferBuffer \<Rightarrow> 'h CEsvga2Accel option \<Rightarrow> (VendorTransferBuffer \<times> 'h CEsvga2Accel option) option" where
  "xfer_complete v provider =
     do {
       (v, provider) \<leftarrow> xfer_sync v provider;
       case provider of None \<Rightarrow> Some (v, None)
       | Some s \<Rightarrow>
         if \<not> isIdValid (xfer_gmr_id v) then Some (v, Some s)
         else
           let (_, s) = destroyGMR (xfer_gmr_id v) s;
               v = v\<lparr>xfer_md := map_option md_complete (xfer_md v)\<rparr>;
               s = FreeGMRID (xfer_gmr_id v) s
           in Some (v\<lparr>xfer_gmr_id := SVGA_ID_INVALID\<rparr>, Some s)
     }"

text \<open>\<open>discard\<close>: the reference of the buffer to the descriptor is released.\<close>

definition xfer_discard :: "VendorTransferBuffer \<Rightarrow> VendorTransferBuffer" where
  "xfer_discard v = (case xfer_md v of None \<Rightarrow> v | Some md \<Rightarrow> v\<lparr>xfer_md := None\<rparr>)"

section \<open>Buffers of an accelerator\<close>

text \<open>
  Any number of buffers, prepared and completed in any order, with transfers in between.  A transfer runs on the
  device and stores a fence in the buffer.
\<close>

inductive xfer_reach :: "'h CEsvga2Accel \<Rightarrow> VendorTransferBuffer list \<Rightarrow> 'h CEsvga2Accel \<Rightarrow> VendorTransferBuffer list \<Rightarrow> bool"
  for s0 vs0 where
  xfer_start: "xfer_reach s0 vs0 s0 vs0"
| xfer_prepared: "xfer_reach s0 vs0 s vs \<Longrightarrow> i < length vs \<Longrightarrow>
    xfer_prepare alloc_helper (vs ! i) (Some s) = Some (rc, v, Some s') \<Longrightarrow> xfer_reach s0 vs0 s' (vs[i := v])"
| xfer_completed: "xfer_reach s0 vs0 s vs \<Longrightarrow> i < length vs \<Longrightarrow>
    xfer_complete (vs ! i) (Some s) = Some (v, Some s') \<Longrightarrow> xfer_reach s0 vs0 s' (vs[i := v])"
| xfer_transfer: "xfer_reach s0 vs0 s vs \<Longrightarrow> i < length vs \<Longrightarrow>
    xfer_reach s0 vs0 (s\<lparr>m_svga := d\<rparr>) (vs[i := (vs ! i)\<lparr>xfer_fence := f\<rparr>])"

definition xfer_prepared_ids :: "VendorTransferBuffer list \<Rightarrow> u32 list" where
  "xfer_prepared_ids vs = filter isIdValid (map xfer_gmr_id vs)"

definition xfer_wired :: "VendorTransferBuffer \<Rightarrow> int" where
  "xfer_wired v = (case xfer_md v of None \<Rightarrow> 0 | Some md \<Rightarrow> md_wired md)"

definition xfer_ok :: "nat \<Rightarrow> VendorTransferBuffer \<Rightarrow> bool" where
  "xfer_ok lim v \<longleftrightarrow> xfer_wired v = (if isIdValid (xfer_gmr_id v) then 1 else 0) \<and> (isIdValid (xfer_gmr_id v) \<longrightarrow> unat (xfer_gmr_id v) < lim)"

definition xfer_inv :: "nat \<Rightarrow> u32 set \<Rightarrow> 'h CEsvga2Accel \<Rightarrow> VendorTransferBuffer list \<Rightarrow> bool" where
  "xfer_inv lim others s vs \<longleftrightarrow>
     gmr_ok lim 0 s \<and> distinct (xfer_prepared_ids vs) \<and> set (xfer_prepared_ids vs) \<inter> others = {} \<and>
     gmr_used s = others \<union> set (xfer_prepared_ids vs) \<and> list_all (xfer_ok lim) vs"

lemma gmr_frame [simp]:
  "gmr_ok lim n (s\<lparr>m_svga := d\<rparr>) = gmr_ok lim n s" "gmr_used (s\<lparr>m_svga := d\<rparr>) = gmr_used s"
  by (simp_all add: gmr_ok_def gmr_used_def)

lemma gmr_ok_any: "gmr_ok lim n s \<longleftrightarrow> gmr_ok lim 0 s" by (simp add: gmr_ok_def)

lemma FreeGMRID_exact:
  assumes "gmr_ok lim 0 s" "r \<in> gmr_used s"
  shows "gmr_used (FreeGMRID r s) = gmr_used s - {r}"
proof -
  have l: "length (m_gmr_id_mask s) = 2" and r: "unat r < 64 * length (m_gmr_id_mask s)"
    using assms by (simp_all add: gmr_ok_def gmr_used_def)
  have "unat r div 64 < 2" using r l by simp
  then have "\<not> drop_bit 6 r \<ge> 2" by (simp add: not_le entry_less)
  then show ?thesis using used_clear64 [OF r] l by (simp add: FreeGMRID_def Let_def gmr_used_def)
qed

lemma createGMR_frame:
  "createGMR r md alloc_helper s = Some (rc, tab, s') \<Longrightarrow> gmr_ok lim n s' = gmr_ok lim n s \<and> gmr_used s' = gmr_used s"
  by (auto simp: createGMR_def Let_def split: option.splits if_splits sum.splits Option.bind_splits)

lemma destroyGMR_frame [simp]:
  "gmr_ok lim n (snd (destroyGMR r s)) = gmr_ok lim n s" "gmr_used (snd (destroyGMR r s)) = gmr_used s"
  by (simp_all add: destroyGMR_def)

lemma sync_frame:
  "Accel_SyncToFence f s = Some (rc, s') \<Longrightarrow> gmr_ok lim n s' = gmr_ok lim n s \<and> gmr_used s' = gmr_used s"
  by (auto simp: Accel_SyncToFence_def on_device_def split: if_splits Option.bind_splits unit.splits)

lemmas xfer_prepare_defs = xfer_prepare_def prepare_clean1_def prepare_clean2_def md_prepare_def md_complete_def Let_def

lemma invalid_id [simp]: "\<not> isIdValid (- 1)" by (simp add: isIdValid_def)

lemma fill_table_returns: "covers md offset sgms \<Longrightarrow> \<exists>h'. fill_table md helper n offset h = Some h'"
proof (induction sgms arbitrary: offset h)
  case (Cons sgm sgms)
  have c: "md offset = sgm" "fst sgm \<noteq> 0" "covers md (offset + snd sgm) sgms" using Cons.prems by (auto simp: seg_ok_def)
  obtain more h' where "put_desc helper n sgm h = (more, h')" by (rule prod.exhaust)
  then show ?case using c Cons.IH [OF c(3), of h'] by (subst fill_table.simps) simp
qed (subst fill_table.simps, simp)

lemma createGMR_returns: "covers md 0 sgms \<Longrightarrow> \<exists>rc tab s'. createGMR r (Some md) alloc_helper s = Some (rc, tab, s')"
proof -
  assume c: "covers md 0 sgms"
  let ?n = "(length sgms + 510) div 511"
  obtain h where "fill_table md (snd (the (alloc_helper ?n))) ?n 0 (fill_start (snd (the (alloc_helper ?n)))) = Some h"
    using fill_table_returns [OF c] by blast
  then show ?thesis using count_ranges_covers [OF c, of 0] by (cases "alloc_helper ?n") (auto simp: createGMR_def Let_def)
qed

lemma createGMR_succeeds:
  assumes "covers md 0 sgms" "sgms \<noteq> []" "m_framebuffer s" "HasCapability SVGA_CAP_GMR (m_svga s)" "fifo_ready (m_svga s)"
    and "alloc_helper ((length sgms + 510) div 511) = Some (kIOReturnSuccess, helper)"
    and "length sgms + (length sgms + 510) div 511 \<le> unat (m_max_gmr_descriptor_length (m_svga s))"
  shows "\<exists>tab d. createGMR r (Some md) alloc_helper s = Some (kIOReturnSuccess, tab, s\<lparr>m_svga := d\<rparr>) \<and> fifo_sent [] (m_svga s) d"
proof -
  have sent: "fifo_sent [] (m_svga s) (WriteReg i x (WriteReg j y (m_svga s)))" for i x j y
    using WriteReg_sent [OF assms(5), of j y] WriteReg_sent fifo_sent_after by (metis fifo_sent_def)
  show ?thesis
    using assms count_ranges_covers [OF assms(1), of 0] fill_table_returns [OF assms(1), of helper "(length sgms + 510) div 511" "fill_start helper"]
    by (auto simp: createGMR_def defineGMR_def Let_def) (rule exI, rule conjI [OF refl], rule sent)
qed

text \<open>What one call does to the identifiers in use and to the buffer.\<close>

lemma xfer_prepare_step:
  assumes "gmr_ok lim 0 s" "xfer_ok lim v" "xfer_prepare alloc_helper v (Some s) = Some (rc, v', p)"
  shows "\<exists>s'. p = Some s' \<and> gmr_ok lim 0 s' \<and> xfer_ok lim v' \<and> (rc = kIOReturnSuccess \<longleftrightarrow> isIdValid (xfer_gmr_id v')) \<and>
    (if isIdValid (xfer_gmr_id v) \<or> \<not> isIdValid (xfer_gmr_id v')
     then gmr_used s' = gmr_used s \<and> (isIdValid (xfer_gmr_id v) \<longrightarrow> v' = v)
     else xfer_gmr_id v' \<notin> gmr_used s \<and> gmr_used s' = insert (xfer_gmr_id v') (gmr_used s))"
proof (cases "isIdValid (xfer_gmr_id v) \<or> xfer_md v = None")
  case False
  then obtain md where md: "xfer_md v = Some md" and bad: "\<not> isIdValid (xfer_gmr_id v)" by auto
  then have wired: "md_wired md = 0" using assms(2) by (simp add: xfer_ok_def xfer_wired_def)
  obtain r t where a: "AllocGMRID s = (r, t)" by (rule prod.exhaust)
  have ok: "gmr_ok lim (Suc 0) s" using assms(1) by (simp add: gmr_ok_def)
  show ?thesis
  proof (cases "isIdValid r")
    case False
    then have "id_failed r" by (simp add: isIdValid_def)
    from gmr_ids.alloc_none [OF ok a this] show ?thesis
      using assms(2,3) md bad a False by (auto simp: xfer_prepare_defs xfer_ok_def xfer_wired_def)
  next
    case True
    then have "\<not> id_failed r" by (simp add: isIdValid_def)
    note new = gmr_ids.alloc_new [OF ok a this]
    have free: "gmr_used (FreeGMRID r u) = gmr_used s \<and> gmr_ok lim 0 (FreeGMRID r u)"
      if "gmr_ok lim 0 u = gmr_ok lim 0 t \<and> gmr_used u = gmr_used t" for u
      using that new FreeGMRID_exact [of lim u r] gmr_ids.free_used [of lim 0 u r] by simp
    consider (unwired) "md_prepare_rc md \<noteq> kIOReturnSuccess"
      | (made) rc' tab u where "md_prepare_rc md = kIOReturnSuccess" "createGMR r (Some (md_segments md)) alloc_helper t = Some (rc', tab, u)"
      using assms(3) md bad a True by (auto simp: xfer_prepare_defs split: Option.bind_splits if_splits)
    then show ?thesis
    proof cases
      case unwired
      then show ?thesis using assms(3) md bad a True wired free [of t] by (auto simp: xfer_prepare_defs xfer_ok_def xfer_wired_def)
    next
      case made
      note fr = createGMR_frame [OF made(2), of lim 0]
      then show ?thesis
        using assms(3) md bad a True wired free [of u] made new by (auto simp: xfer_prepare_defs xfer_ok_def xfer_wired_def split: if_splits)
    qed
  qed
qed (use assms in \<open>auto simp: xfer_prepare_defs split: if_splits\<close>)

lemma xfer_complete_step:
  assumes "gmr_ok lim 0 s" "xfer_ok lim v" "xfer_complete v (Some s) = Some (v', p)"
    and "isIdValid (xfer_gmr_id v) \<Longrightarrow> xfer_gmr_id v \<in> gmr_used s"
  shows "\<exists>s'. p = Some s' \<and> gmr_ok lim 0 s' \<and> xfer_ok lim v' \<and> \<not> isIdValid (xfer_gmr_id v') \<and>
    gmr_used s' = (if isIdValid (xfer_gmr_id v) then gmr_used s - {xfer_gmr_id v} else gmr_used s)"
proof -
  obtain w t where w: "xfer_sync v (Some s) = Some (w, Some t)" "gmr_ok lim 0 t = gmr_ok lim 0 s" "gmr_used t = gmr_used s"
      "xfer_md w = xfer_md v" "xfer_gmr_id w = xfer_gmr_id v"
    using assms(3) sync_frame [of _ s _ _ lim 0]
    by (auto simp: xfer_complete_def xfer_sync_def split: if_splits Option.bind_splits)
  show ?thesis
  proof (cases "isIdValid (xfer_gmr_id v)")
    case True
    then have "unat (xfer_gmr_id v) < lim" using assms(2) by (simp add: xfer_ok_def)
    then show ?thesis
      using True assms(2,3,4) w assms(1) FreeGMRID_exact [of lim "snd (destroyGMR (xfer_gmr_id v) t)" "xfer_gmr_id v"]
        gmr_ids.free_used [of lim 0 "snd (destroyGMR (xfer_gmr_id v) t)" "xfer_gmr_id v"]
      by (auto simp: xfer_complete_def case_prod_beta Let_def xfer_ok_def md_complete_def xfer_wired_def split: option.splits)
  qed (use assms w in \<open>auto simp: xfer_complete_def xfer_ok_def xfer_wired_def\<close>)
qed

definition xfer_held :: "VendorTransferBuffer \<Rightarrow> u32 list" where
  "xfer_held v = (if isIdValid (xfer_gmr_id v) then [xfer_gmr_id v] else [])"

lemma prepared_ids_concat: "xfer_prepared_ids vs = concat (map xfer_held vs)"
  by (induction vs) (simp_all add: xfer_prepared_ids_def xfer_held_def)

lemma xfer_inv_update:
  assumes "xfer_inv lim others s vs" "i < length vs" "gmr_ok lim 0 s'" "xfer_ok lim v"
    and "gmr_used s' = gmr_used s - set (xfer_held (vs ! i)) \<union> set (xfer_held v)"
    and "set (xfer_held v) \<inter> (gmr_used s - set (xfer_held (vs ! i))) = {}"
  shows "xfer_inv lim others s' (vs[i := v])"
proof -
  define A B where "A = concat (map xfer_held (take i vs))" and "B = concat (map xfer_held (drop (Suc i) vs))"
  have upd: "vs[i := v] = take i vs @ v # drop (Suc i) vs" using assms(2) by (rule upd_conv_take_nth_drop)
  have "vs = take i vs @ vs ! i # drop (Suc i) vs" using assms(2) by (rule id_take_nth_drop)
  from arg_cong [OF this, of "\<lambda>vs. concat (map xfer_held vs)"]
  have old: "xfer_prepared_ids vs = A @ xfer_held (vs ! i) @ B" by (simp add: prepared_ids_concat A_def B_def)
  have new: "xfer_prepared_ids (vs[i := v]) = A @ xfer_held v @ B" by (simp add: prepared_ids_concat upd A_def B_def)
  have d: "distinct (xfer_held v)" by (simp add: xfer_held_def)
  have "list_all (xfer_ok lim) (vs[i := v])"
    using assms(1,4) by (auto simp: xfer_inv_def list_all_iff dest: set_update_subset_insert [THEN subsetD])
  then show ?thesis using assms(1,3,5,6) d unfolding xfer_inv_def old new by auto
qed

lemma xfer_inv_used:
  "xfer_inv lim others s vs \<Longrightarrow> v \<in> set vs \<Longrightarrow> isIdValid (xfer_gmr_id v) \<Longrightarrow> xfer_gmr_id v \<in> gmr_used s"
  by (auto simp: xfer_inv_def xfer_prepared_ids_def)

lemma xfer_inv_nth: "xfer_inv lim others s vs \<Longrightarrow> i < length vs \<Longrightarrow> gmr_ok lim 0 s \<and> xfer_ok lim (vs ! i)"
  by (simp add: xfer_inv_def list_all_length)

lemma xfer_reach_inv:
  assumes "xfer_reach s0 vs0 s vs" "xfer_inv lim others s0 vs0"
  shows "xfer_inv lim others s vs"
  using assms
proof induction
  case (xfer_prepared s vs i alloc_helper rc v s')
  note inv = xfer_prepared.IH [OF xfer_prepared.prems]
  show ?case
    using xfer_prepare_step [OF _ _ xfer_prepared.hyps(3), of lim] xfer_inv_nth [OF inv xfer_prepared.hyps(2)]
      xfer_inv_used [OF inv nth_mem [OF xfer_prepared.hyps(2)]]
    by (intro xfer_inv_update [OF inv xfer_prepared.hyps(2)]) (auto simp: xfer_held_def split: if_splits)
next
  case (xfer_completed s vs i v s')
  note inv = xfer_completed.IH [OF xfer_completed.prems]
  show ?case
    using xfer_complete_step [OF _ _ xfer_completed.hyps(3), of lim] xfer_inv_nth [OF inv xfer_completed.hyps(2)]
      xfer_inv_used [OF inv nth_mem [OF xfer_completed.hyps(2)]]
    by (intro xfer_inv_update [OF inv xfer_completed.hyps(2)]) (auto simp: xfer_held_def split: if_splits)
next
  case (xfer_transfer s vs i d f)
  note inv = xfer_transfer.IH [OF xfer_transfer.prems]
  show ?case
    using xfer_inv_nth [OF inv xfer_transfer.hyps(2)] xfer_inv_used [OF inv nth_mem [OF xfer_transfer.hyps(2)]]
    by (intro xfer_inv_update [OF inv xfer_transfer.hyps(2)]) (auto simp: xfer_ok_def xfer_wired_def xfer_held_def)
qed

lemma xfer_prepare_returns:
  assumes "gmr_ok lim 0 s" "xfer_ok lim v" "\<And>md. xfer_md v = Some md \<Longrightarrow> \<exists>sgms. covers (md_segments md) 0 sgms"
  shows "\<exists>rc v' s'. xfer_prepare alloc_helper v (Some s) = Some (rc, v', Some s') \<and>
    (rc = kIOReturnSuccess \<longleftrightarrow> isIdValid (xfer_gmr_id v')) \<and> xfer_wired v' = (if rc = kIOReturnSuccess then 1 else 0)"
proof -
  have "xfer_prepare alloc_helper v (Some s) \<noteq> None"
  proof (cases "xfer_md v")
    case (Some md)
    then obtain sgms where c: "covers (md_segments md) 0 sgms" using assms(3) by blast
    then show ?thesis using Some createGMR_returns [OF c, of "fst (AllocGMRID s)" alloc_helper "snd (AllocGMRID s)"]
      by (auto simp: xfer_prepare_defs case_prod_beta)
  qed (auto simp: xfer_prepare_defs)
  then obtain rc v' p where "xfer_prepare alloc_helper v (Some s) = Some (rc, v', p)" by auto
  from xfer_prepare_step [OF assms(1,2) this] this show ?thesis by (auto simp: xfer_ok_def)
qed

text \<open>Completing a buffer from \<open>s\<close> to \<open>s'\<close>: first the wait, then the region and its identifier are given back.\<close>

definition xfer_completes :: "VendorTransferBuffer \<Rightarrow> 'h CEsvga2Accel \<Rightarrow> 'h CEsvga2Accel \<Rightarrow> bool" where
  "xfer_completes v s s' \<longleftrightarrow> (\<exists>d. waited (xfer_fence v) (m_svga s) d \<and>
     s' = (if isIdValid (xfer_gmr_id v) then FreeGMRID (xfer_gmr_id v) (snd (destroyGMR (xfer_gmr_id v) (s\<lparr>m_svga := d\<rparr>))) else s\<lparr>m_svga := d\<rparr>))"

lemma xfer_sync_waited:
  assumes "m_framebuffer s" "fifo_ready (m_svga s)" "host_idles (m_svga s)"
  shows "\<exists>d. xfer_sync v (Some s) = Some (v\<lparr>xfer_fence := 0\<rparr>, Some (s\<lparr>m_svga := d\<rparr>)) \<and> waited (xfer_fence v) (m_svga s) d"
proof (cases "xfer_fence v = 0")
  case True
  then have "v\<lparr>xfer_fence := 0\<rparr> = v" by (cases v) simp
  then show ?thesis using True fifo_sent_nil [OF assms(2)] by (intro exI [of _ "m_svga s"]) (simp add: xfer_sync_def waited_def)
next
  case False
  then show ?thesis using Accel_SyncToFence_waited [OF assms, of "xfer_fence v"] by (auto simp: xfer_sync_def)
qed

lemma xfer_complete_returns:
  assumes "gmr_ok lim 0 s" "xfer_ok lim v" "isIdValid (xfer_gmr_id v) \<Longrightarrow> xfer_gmr_id v \<in> gmr_used s"
    and "m_framebuffer s" "fifo_ready (m_svga s)" "host_idles (m_svga s)"
  shows "\<exists>v' s'. xfer_complete v (Some s) = Some (v', Some s') \<and> xfer_fence v' = 0 \<and> \<not> isIdValid (xfer_gmr_id v') \<and> xfer_wired v' = 0 \<and>
    xfer_completes v s s'"
proof -
  obtain d where d: "xfer_sync v (Some s) = Some (v\<lparr>xfer_fence := 0\<rparr>, Some (s\<lparr>m_svga := d\<rparr>))" "waited (xfer_fence v) (m_svga s) d"
    using xfer_sync_waited [OF assms(4-6)] by blast
  obtain v' where v: "xfer_complete v (Some s) = Some (v', Some (if isIdValid (xfer_gmr_id v)
      then FreeGMRID (xfer_gmr_id v) (snd (destroyGMR (xfer_gmr_id v) (s\<lparr>m_svga := d\<rparr>))) else s\<lparr>m_svga := d\<rparr>))" "xfer_fence v' = 0"
    using d(1) by (cases "isIdValid (xfer_gmr_id v)") (auto simp: xfer_complete_def Let_def case_prod_beta)
  from xfer_complete_step [OF assms(1,2) v(1) assms(3)] v d(2) show ?thesis by (auto simp: xfer_ok_def xfer_completes_def)
qed

section \<open>Properties\<close>

text \<open>
  C31.  However transfer buffers are prepared, used and completed, the guest memory regions in use are those of other
  holders and those of the prepared buffers, and no two share an identifier; memory is wired
  exactly once while its buffer is prepared, and not at all otherwise.  \<open>prepare\<close> always returns, and on every failure
  the buffer holds neither an identifier nor wired memory.  \<open>complete\<close> returns if the host works off its commands; it
  destroys the region only after it has waited for the fence of the last transfer, and gives everything back.
\<close>

theorem transfers_balanced:
  assumes "xfer_reach s0 vs0 s vs" "gmr_ok lim 0 s0"
    and "list_all (\<lambda>v. xfer_gmr_id v = SVGA_ID_INVALID \<and> xfer_wired v = 0) vs0"
  shows "distinct (xfer_prepared_ids vs) \<and> set (xfer_prepared_ids vs) \<inter> gmr_used s0 = {} \<and>
    gmr_used s = gmr_used s0 \<union> set (xfer_prepared_ids vs) \<and>
    list_all (\<lambda>v. xfer_wired v = (if isIdValid (xfer_gmr_id v) then 1 else 0)) vs \<and>
    (\<forall>i alloc_helper. i < length vs \<and> (\<forall>md. xfer_md (vs ! i) = Some md \<longrightarrow> (\<exists>sgms. covers (md_segments md) 0 sgms)) \<longrightarrow>
       (\<exists>rc v s'. xfer_prepare alloc_helper (vs ! i) (Some s) = Some (rc, v, Some s') \<and>
          (rc = kIOReturnSuccess \<longleftrightarrow> isIdValid (xfer_gmr_id v)) \<and> xfer_wired v = (if rc = kIOReturnSuccess then 1 else 0))) \<and>
    (\<forall>i. i < length vs \<and> m_framebuffer s \<and> fifo_ready (m_svga s) \<and> host_idles (m_svga s) \<longrightarrow>
       (\<exists>v s'. xfer_complete (vs ! i) (Some s) = Some (v, Some s') \<and> xfer_fence v = 0 \<and>
          \<not> isIdValid (xfer_gmr_id v) \<and> xfer_wired v = 0 \<and> xfer_completes (vs ! i) s s'))"
proof -
  have "filter isIdValid (map xfer_gmr_id vs0) = []" "list_all (xfer_ok lim) vs0"
    using assms(3) by (auto simp: list_all_iff filter_empty_conv xfer_ok_def)
  then have "xfer_inv lim (gmr_used s0) s0 vs0" using assms(2) by (simp add: xfer_inv_def xfer_prepared_ids_def)
  note inv = xfer_reach_inv [OF assms(1) this]
  have "gmr_ok lim 0 s" "list_all (xfer_ok lim) vs" using inv by (simp_all add: xfer_inv_def)
  then show ?thesis
    using inv xfer_prepare_returns [of lim s] xfer_complete_returns [of lim s] xfer_inv_used [OF inv]
    by (auto simp: xfer_inv_def list_all_length xfer_ok_def)
qed

abbreviation demo_xfer :: VendorTransferBuffer where
  "demo_xfer \<equiv> \<lparr>xfer_md = Some \<lparr>md_segments = demo_md, md_prepare_rc = kIOReturnSuccess, md_wired = 0\<rparr>, xfer_gmr_id = - 1, xfer_fence = 0\<rparr>"

theorem transfers_balanced_witness:
  "\<exists>v s. xfer_prepare (\<lambda>_. Some (kIOReturnSuccess, demo_helper)) demo_xfer (Some (new_accel gmr_device)) = Some (kIOReturnSuccess, v, Some s) \<and>
     gmr_used s = gmr_used (new_accel gmr_device) \<union> {0} \<and> (\<exists>v' s'. xfer_complete (v\<lparr>xfer_fence := 5\<rparr>) (Some s) = Some (v', Some s') \<and> xfer_wired v' = 0)"
proof -
  let ?s = "new_accel gmr_device" and ?helper = "\<lambda>_ :: nat. Some (kIOReturnSuccess, demo_helper)"
  have ok: "gmr_ok 128 0 ?s" by (auto simp: gmr_ok_def new_accel_def Accel_init_def initPrimaryScreen_def)
  have ready: "fifo_ready gmr_device" "host_idles gmr_device"
    using demo_accepts [of 8] demo_idles [of 1220 1200] by (simp_all add: accepts_def fifo_ready_def host_wf_def host_progress_def host_idles_def)
  have "fst (AllocGMRID ?s) = 0" by code_simp
  then obtain t where a: "AllocGMRID ?s = (0, t)" by (metis prod.collapse)
  then have t: "m_svga t = gmr_device" "m_framebuffer t" by (auto simp: AllocGMRID_def Let_def split: prod.splits if_splits)
  obtain tab d where d: "createGMR 0 (Some demo_md) ?helper t = Some (kIOReturnSuccess, tab, t\<lparr>m_svga := d\<rparr>)" "fifo_sent [] (m_svga t) d"
    using createGMR_succeeds [of demo_md "[(0x5000, 0x2000), (0x9800, 0x1000)]" t ?helper demo_helper 0] ready t by (auto simp: seg_ok_def HasCapability_def)
  let ?t = "t\<lparr>m_svga := d\<rparr>"
  obtain v where v: "xfer_prepare ?helper demo_xfer (Some ?s) = Some (kIOReturnSuccess, v, Some ?t)" "xfer_gmr_id v = 0"
    using a d(1) by (simp add: xfer_prepare_defs isIdValid_def)
  have "xfer_reach ?s [demo_xfer] ?t ([demo_xfer][0 := v])"
    by (rule xfer_prepared [OF xfer_start, where alloc_helper = ?helper]) (use v(1) in simp_all)
  from xfer_transfer [OF this, of 0 d 5] have "xfer_reach ?s [demo_xfer] ?t [v\<lparr>xfer_fence := 5\<rparr>]" by simp
  from transfers_balanced [OF this ok] show ?thesis
    using v t ready d(2) host_idles_frame [of "m_svga t" d] by (auto simp: xfer_wired_def xfer_prepared_ids_def isIdValid_def fifo_sent_def)
qed

end
