(* ===== verification/GL_Shared.thy ===== *)
theory GL_Shared
  imports Accel_Transfer
begin

text \<open>
  \<open>src/AC/GL/CEsvga2Shared.cpp\<close>: the textures that the GL contexts of a task share.  Textures are objects in a store,
  linked by pointers; a handle table maps identifiers to them, and each has a system object in memory shared with the
  client.
\<close>

section \<open>State\<close>

abbreviation (input) TEX_TYPE_SURFACE :: u8 where "TEX_TYPE_SURFACE \<equiv> 1"
abbreviation (input) TEX_TYPE_IOSURFACE :: u8 where "TEX_TYPE_IOSURFACE \<equiv> 2"
abbreviation (input) TEX_TYPE_VB :: u8 where "TEX_TYPE_VB \<equiv> 3"
abbreviation (input) TEX_TYPE_AGP :: u8 where "TEX_TYPE_AGP \<equiv> 4"
abbreviation (input) TEX_TYPE_AGPREF :: u8 where "TEX_TYPE_AGPREF \<equiv> 6"
abbreviation (input) TEX_TYPE_STD :: u8 where "TEX_TYPE_STD \<equiv> 8"
abbreviation (input) TEX_TYPE_OOB :: u8 where "TEX_TYPE_OOB \<equiv> 9"

text \<open>The system object, without the fields that the code only clears.\<close>

record GLDSysObject =
  so_object_id :: u32
  so_stamps :: "u32 \<times> u32"
  so_refcount :: u32
  so_in_use :: u8
  so_vstate :: u8
  so_type :: u8
  so_pageoff :: "u16 list"
  so_pageon :: "u16 list"

definition zero_sys_obj :: GLDSysObject where
  "zero_sys_obj = \<lparr>so_object_id = 0, so_stamps = (0, 0), so_refcount = 0, so_in_use = 0, so_vstate = 0, so_type = 0,
     so_pageoff = replicate 6 0, so_pageon = replicate 6 0\<rparr>"

text \<open>
  A texture.  Pointers to textures are addresses in the store, the pointer to the system object is an index into
  the array of these.  The members of the union are separate fields: for each type, the members that are used do
  not overlap.
\<close>

record CEsvga2TextureBuffer =
  tx_xfer :: VendorTransferBuffer
  tx_client_map :: "u64 option"
  tx_sys_obj :: "nat option"
  tx_sys_obj_client_addr :: u64
  tx_creator :: bool
  tx_sys_obj_type :: u8
  tx_num_faces :: u8
  tx_num_mipmaps :: u8
  tx_min_mipmap :: u8
  tx_width :: u32
  tx_height :: u16
  tx_depth :: u16
  tx_vram_pitch :: u32
  tx_pitch :: u32
  tx_vram_bytes :: u32
  tx_bytespp :: u16
  tx_next :: "nat option"
  tx_prev :: "nat option"
  tx_surface_id :: u32
  tx_surface_format :: u32
  tx_yuv_shadow :: u32
  tx_linked_agp :: "nat option"
  tx_agp_offset_in_page :: u64
  tx_mem_changed :: u32
  tx_agp_addr :: u64
  tx_agp_size :: u64
  tx_linked_surface :: "nat option"
  tx_fb_idx_mask :: u32
  tx_cgs_surface_id :: u32
  tx_vram_tile_pages :: u64
  tx_vram_page_bytes :: u32

record 'h CEsvga2Shared =
  sh_provider :: "'h CEsvga2Accel option"
  m_handle_table :: "nat option list option"
  m_num_handles :: nat
  m_texture_list :: "nat option"
  m_client_sys_objs_map :: "u64 option"
  sys_objs :: "GLDSysObject list"
  m_shared_lock :: bool
  textures :: "nat \<Rightarrow> CEsvga2TextureBuffer option"

abbreviation (input) NUM_TEXTURE_HANDLES :: nat where "NUM_TEXTURE_HANDLES \<equiv> 128"

text \<open>\<open>CLIENT_SYS_OBJS_SIZE / sizeof (GLDSysObject)\<close>, that is 8192 / 56.\<close>

abbreviation (input) NUM_SYS_OBJS :: nat where "NUM_SYS_OBJS \<equiv> 146"

text \<open>
  A method returns \<open>None\<close> if it follows a pointer that is null or not a live texture, or does not return because the
  device does not.
\<close>

definition update_tx ::
  "nat \<Rightarrow> (CEsvga2TextureBuffer \<Rightarrow> CEsvga2TextureBuffer) \<Rightarrow> 'h CEsvga2Shared \<Rightarrow> 'h CEsvga2Shared option" where
  "update_tx p f s = map_option (\<lambda>t. s\<lparr>textures := (textures s)(p \<mapsto> f t)\<rparr>) (textures s p)"

definition update_sys_obj :: "nat \<Rightarrow> (GLDSysObject \<Rightarrow> GLDSysObject) \<Rightarrow> 'h CEsvga2Shared \<Rightarrow> 'h CEsvga2Shared" where
  "update_sys_obj k f s = s\<lparr>sys_objs := (sys_objs s)[k := f (sys_objs s ! k)]\<rparr>"

section \<open>System objects and handles\<close>

text \<open>\<open>sys_mem\<close>: the client address of the array, if it can be allocated and mapped.\<close>

definition alloc_client_shared :: "u64 option \<Rightarrow> 'h CEsvga2Shared \<Rightarrow> IOReturn \<times> (nat \<times> u64) option \<times> 'h CEsvga2Shared" where
  "alloc_client_shared sys_mem s =
     (let s = (if m_client_sys_objs_map s \<noteq> None \<or> sys_mem = None then s
               else s\<lparr>m_client_sys_objs_map := sys_mem, sys_objs := replicate NUM_SYS_OBJS zero_sys_obj\<rparr>)
      in case m_client_sys_objs_map s of None \<Rightarrow> (kIOReturnNoMemory, None, s)
         | Some client_addr \<Rightarrow>
           (case find (\<lambda>i. so_in_use (sys_objs s ! i) = 0) [0..<NUM_SYS_OBJS] of
              None \<Rightarrow> (kIOReturnNoResources, None, s)
            | Some i \<Rightarrow> (kIOReturnSuccess, Some (i, client_addr + of_nat (i * 56)),
                        update_sys_obj i (\<lambda>_. zero_sys_obj\<lparr>so_in_use := 1\<rparr>) s)))"

definition free_client_shared :: "nat option \<Rightarrow> 'h CEsvga2Shared \<Rightarrow> 'h CEsvga2Shared" where
  "free_client_shared p s = (case p of None \<Rightarrow> s | Some k \<Rightarrow> update_sys_obj k (\<lambda>_. zero_sys_obj) s)"

definition find_client_shared :: "u32 \<Rightarrow> 'h CEsvga2Shared \<Rightarrow> nat option" where
  "find_client_shared object_id s =
     (if m_client_sys_objs_map s = None then None
      else find (\<lambda>i. so_in_use (sys_objs s ! i) \<noteq> 0 \<and> so_object_id (sys_objs s ! i) = object_id) [0..<NUM_SYS_OBJS])"

definition free_handles :: "'h CEsvga2Shared \<Rightarrow> 'h CEsvga2Shared" where
  "free_handles s = (if m_handle_table s \<noteq> None then s\<lparr>m_handle_table := None, m_num_handles := 0\<rparr> else s)"

definition alloc_handles :: "bool \<Rightarrow> 'h CEsvga2Shared \<Rightarrow> bool \<times> 'h CEsvga2Shared" where
  "alloc_handles alloc_ok s =
     (if \<not> alloc_ok then (False, s\<lparr>m_handle_table := None\<rparr>)
      else (True, s\<lparr>m_handle_table := Some (replicate NUM_TEXTURE_HANDLES None), m_num_handles := NUM_TEXTURE_HANDLES\<rparr>))"

text \<open>The table is only read if there are handles, so that a null table is never followed.\<close>

definition handles :: "'h CEsvga2Shared \<Rightarrow> nat option list" where
  "handles s = (case m_handle_table s of None \<Rightarrow> [] | Some ht \<Rightarrow> ht)"

definition alloc_buf_handle :: "nat \<Rightarrow> 'h CEsvga2Shared \<Rightarrow> u32 option \<times> 'h CEsvga2Shared" where
  "alloc_buf_handle entry s =
     (case find (\<lambda>i. handles s ! i = None) [0..<m_num_handles s] of
        None \<Rightarrow> (None, s)
      | Some i \<Rightarrow> (Some (of_nat i), s\<lparr>m_handle_table := Some ((handles s)[i := Some entry])\<rparr>))"

definition free_buf_handle :: "nat \<Rightarrow> u32 \<Rightarrow> 'h CEsvga2Shared \<Rightarrow> 'h CEsvga2Shared" where
  "free_buf_handle entry object_id s =
     (if m_handle_table s = None \<or> unat object_id \<ge> m_num_handles s \<or> handles s ! unat object_id \<noteq> Some entry then s
      else s\<lparr>m_handle_table := Some ((handles s)[unat object_id := None])\<rparr>)"

definition findTextureBuffer :: "u32 \<Rightarrow> 'h CEsvga2Shared \<Rightarrow> nat option" where
  "findTextureBuffer object_id s =
     (if m_handle_table s = None \<or> unat object_id \<ge> m_num_handles s then None else handles s ! unat object_id)"

section \<open>The list of textures\<close>

definition link_texture_at_head :: "nat \<Rightarrow> 'h CEsvga2Shared \<Rightarrow> 'h CEsvga2Shared option" where
  "link_texture_at_head texture s =
     do {
       s \<leftarrow> (case m_texture_list s of None \<Rightarrow> Some s | Some h \<Rightarrow> update_tx h (\<lambda>t. t\<lparr>tx_prev := Some texture\<rparr>) s);
       s \<leftarrow> update_tx texture (\<lambda>t. t\<lparr>tx_prev := None, tx_next := m_texture_list s\<rparr>) s;
       Some (s\<lparr>m_texture_list := Some texture\<rparr>)
     }"

definition unlink_nonhead_texture :: "nat \<Rightarrow> 'h CEsvga2Shared \<Rightarrow> 'h CEsvga2Shared option" where
  "unlink_nonhead_texture texture s =
     do {
       t \<leftarrow> textures s texture;
       q \<leftarrow> tx_prev t;
       s \<leftarrow> update_tx q (\<lambda>u. u\<lparr>tx_next := tx_next t\<rparr>) s;
       t \<leftarrow> textures s texture;
       case tx_next t of None \<Rightarrow> Some s | Some n \<Rightarrow> update_tx n (\<lambda>u. u\<lparr>tx_prev := tx_prev t\<rparr>) s
     }"

definition unlink_texture :: "nat \<Rightarrow> 'h CEsvga2Shared \<Rightarrow> 'h CEsvga2Shared option" where
  "unlink_texture texture s =
     (if m_texture_list s = Some texture then
        do {
          t \<leftarrow> textures s texture;
          let s = s\<lparr>m_texture_list := tx_next t\<rparr>;
          case tx_next t of None \<Rightarrow> Some s | Some n \<Rightarrow> update_tx n (\<lambda>u. u\<lparr>tx_prev := None\<rparr>) s
        }
      else unlink_nonhead_texture texture s)"

section \<open>Deleting\<close>

definition destroy_host :: "u32 \<Rightarrow> 'h CEsvga2Accel \<Rightarrow> 'h CEsvga2Accel option" where
  "destroy_host sid a = (if isIdValid sid then do { (_, a) \<leftarrow> destroySurface sid a; Some (FreeSurfaceID sid a) } else Some a)"

definition finalize_texture :: "nat \<Rightarrow> 'h CEsvga2Shared \<Rightarrow> 'h CEsvga2Shared option" where
  "finalize_texture texture s =
     do {
       t \<leftarrow> textures s texture;
       let t = t\<lparr>tx_client_map := None, tx_xfer := xfer_discard (tx_xfer t)\<rparr>;
       case sh_provider s of
         None \<Rightarrow> Some (s\<lparr>textures := (textures s)(texture \<mapsto> t)\<rparr>)
       | Some a \<Rightarrow>
           do {
             a \<leftarrow> destroy_host (tx_yuv_shadow t) a;
             a \<leftarrow> destroy_host (tx_surface_id t) a;
             Some (s\<lparr>sh_provider := Some a, textures := (textures s)(texture \<mapsto>
               t\<lparr>tx_yuv_shadow := if isIdValid (tx_yuv_shadow t) then SVGA_ID_INVALID else tx_yuv_shadow t,
                 tx_surface_id := if isIdValid (tx_surface_id t) then SVGA_ID_INVALID else tx_surface_id t\<rparr>)\<rparr>)
           }
     }"

definition releaseVendorTextureBuffer :: "nat \<Rightarrow> 'h CEsvga2Shared \<Rightarrow> 'h CEsvga2Shared" where
  "releaseVendorTextureBuffer p s = s\<lparr>textures := (textures s)(p := None)\<rparr>"

text \<open>The last part of \<open>delete_texture_internal\<close>.\<close>

definition drop_texture :: "nat \<Rightarrow> 'h CEsvga2Shared \<Rightarrow> 'h CEsvga2Shared option" where
  "drop_texture texture s =
     do {
       t \<leftarrow> textures s texture;
       k \<leftarrow> tx_sys_obj t;
       let s = free_buf_handle texture (so_object_id (sys_objs s ! k)) s;
       let s = free_client_shared (Some k) s;
       s \<leftarrow> unlink_texture texture s;
       s \<leftarrow> finalize_texture texture s;
       Some (releaseVendorTextureBuffer texture s)
     }"

text \<open>
  \<open>delete_texture_internal\<close> for a texture that is not null.  It is called with the shared object itself, so
  that the test of \<open>shared\<close> always succeeds.
\<close>

partial_function (option) delete_texture :: "nat \<Rightarrow> 'h CEsvga2Shared \<Rightarrow> 'h CEsvga2Shared option" where
  "delete_texture texture s =
     do {
       t \<leftarrow> textures s texture;
       s \<leftarrow> (if tx_sys_obj_type t = TEX_TYPE_AGPREF \<or> tx_sys_obj_type t = TEX_TYPE_OOB then
               (case tx_linked_agp t of None \<Rightarrow> Some s
                | Some l \<Rightarrow>
                  do {
                    ltx \<leftarrow> textures s l;
                    s \<leftarrow> (case tx_sys_obj ltx of None \<Rightarrow> delete_texture l s
                           | Some k \<Rightarrow>
                             let s' = update_sys_obj k (\<lambda>so. so\<lparr>so_refcount := so_refcount so - 1\<rparr>) s
                             in if so_refcount (sys_objs s ! k) = 1 then delete_texture l s' else Some s');
                    update_tx texture (\<lambda>t. t\<lparr>tx_linked_agp := None\<rparr>) s
                  })
             else Some s);
       drop_texture texture s
     }"

text \<open>\<open>Cleanup\<close> looks at the handles one after the other.\<close>

definition cleanup_handle :: "nat \<Rightarrow> 'h CEsvga2Shared \<Rightarrow> 'h CEsvga2Shared option" where
  "cleanup_handle i s =
     (case handles s ! i of None \<Rightarrow> Some s
      | Some texture \<Rightarrow>
        do {
          t \<leftarrow> textures s texture;
          k \<leftarrow> tx_sys_obj t;
          let s = free_buf_handle texture (so_object_id (sys_objs s ! k)) s;
          let s = free_client_shared (Some k) s;
          s \<leftarrow> finalize_texture texture s;
          Some (releaseVendorTextureBuffer texture s)
        })"

fun cleanup_handles :: "nat list \<Rightarrow> 'h CEsvga2Shared \<Rightarrow> 'h CEsvga2Shared option" where
  "cleanup_handles [] s = Some s"
| "cleanup_handles (i # is) s = do { s \<leftarrow> cleanup_handle i s; cleanup_handles is s }"

definition Shared_Cleanup :: "'h CEsvga2Shared \<Rightarrow> 'h CEsvga2Shared option" where
  "Shared_Cleanup s =
     do {
       s \<leftarrow> cleanup_handles [0..<m_num_handles s] s;
       let s = free_handles (s\<lparr>m_texture_list := None\<rparr>);
       let s = (if m_client_sys_objs_map s \<noteq> None then s\<lparr>m_client_sys_objs_map := None, sys_objs := []\<rparr> else s);
       Some (s\<lparr>m_shared_lock := False\<rparr>)
     }"

definition Shared_init :: "'h CEsvga2Accel option \<Rightarrow> bool \<Rightarrow> bool \<Rightarrow> bool \<Rightarrow> 'h CEsvga2Shared \<Rightarrow> bool \<times> 'h CEsvga2Shared" where
  "Shared_init provider super_init lock_alloc handles_alloc s =
     (if \<not> super_init then (False, s)
      else
        let s = s\<lparr>sh_provider := provider, m_texture_list := None, m_handle_table := None, m_num_handles := 0,
                  m_client_sys_objs_map := None, m_shared_lock := lock_alloc\<rparr>
        in if \<not> lock_alloc then (False, s)
           else case alloc_handles handles_alloc s of (ok, s) \<Rightarrow> if ok then (True, s) else (False, s\<lparr>m_shared_lock := False\<rparr>))"

section \<open>Creating\<close>

text \<open>
  \<open>fresh\<close> is the memory that \<open>allocVendorTextureBuffer\<close> returns, if any.  The texture is cleared, and then the fields
  are set whose initial value is not 0.
\<close>

definition new_buffer :: "nat \<Rightarrow> u64 \<Rightarrow> u8 \<Rightarrow> CEsvga2TextureBuffer" where
  "new_buffer k client_addr object_type =
     \<lparr>tx_xfer = xfer_init \<lparr>xfer_md = None, xfer_gmr_id = 0, xfer_fence = 0\<rparr>, tx_client_map = None, tx_sys_obj = Some k,
      tx_sys_obj_client_addr = client_addr, tx_creator = False, tx_sys_obj_type = object_type, tx_num_faces = 0,
      tx_num_mipmaps = 0, tx_min_mipmap = 0, tx_width = 0, tx_height = 0, tx_depth = 0, tx_vram_pitch = 0, tx_pitch = 0,
      tx_vram_bytes = 0, tx_bytespp = 0, tx_next = None, tx_prev = None, tx_surface_id = SVGA_ID_INVALID,
      tx_surface_format = 0, tx_yuv_shadow = SVGA_ID_INVALID, tx_linked_agp = None, tx_agp_offset_in_page = 0,
      tx_mem_changed = 0, tx_agp_addr = 0, tx_agp_size = 0, tx_linked_surface = None, tx_fb_idx_mask = 0,
      tx_cgs_surface_id = 0, tx_vram_tile_pages = 0, tx_vram_page_bytes = 0\<rparr>"

definition common_texture_init ::
  "u8 \<Rightarrow> nat option \<Rightarrow> u64 option \<Rightarrow> 'h CEsvga2Shared \<Rightarrow> nat option \<times> 'h CEsvga2Shared" where
  "common_texture_init object_type fresh sys_mem s =
     (case fresh of None \<Rightarrow> (None, s)
      | Some p \<Rightarrow>
        (case alloc_buf_handle p s of (None, s) \<Rightarrow> (None, s)
         | (Some object_id, s) \<Rightarrow>
           (case alloc_client_shared sys_mem s of
              (_, None, s) \<Rightarrow> (None, free_buf_handle p object_id s)
            | (_, Some (k, client_addr), s) \<Rightarrow>
                (Some p, update_sys_obj k (\<lambda>so. so\<lparr>so_object_id := object_id, so_stamps := (0, 0), so_type := object_type, so_in_use := 1\<rparr>)
                  (s\<lparr>textures := (textures s)(p \<mapsto> new_buffer k client_addr object_type)\<rparr>)))))"

text \<open>
  The services of IOKit and of the virtual memory system in \<open>new_agp_texture\<close>: a new buffer of a size (descriptor, length
  and address); whether a persistent descriptor still describes the same memory; the protection of the user
  memory at an address with a size; and a descriptor with its length for a range of addresses, given whether it is only read.
\<close>

datatype persistent_md = same_md | changed_md IOMemoryDescriptor u64 | no_md

record agp_env =
  ae_buffer :: "u64 \<Rightarrow> (IOMemoryDescriptor \<times> u64 \<times> u64) option"
  ae_persistent :: "nat \<Rightarrow> persistent_md"
  ae_region :: "u64 \<Rightarrow> u64 \<Rightarrow> u32 option"
  ae_range :: "u64 \<Rightarrow> u64 \<Rightarrow> bool \<Rightarrow> (IOMemoryDescriptor \<times> u64) option"
  ae_fresh :: "nat option"
  ae_sys_mem :: "u64 option"

definition isUserMemoryReadOnly :: "(u64 \<Rightarrow> u64 \<Rightarrow> u32 option) \<Rightarrow> u64 \<Rightarrow> u64 \<Rightarrow> int" where
  "isUserMemoryReadOnly region address sz = (case region address sz of None \<Rightarrow> - 1 | Some protection \<Rightarrow> if protection AND 2 = 0 then 1 else 0)"

text \<open>
  The search for a texture of the same memory.  \<open>Inl\<close> is a texture to use again; \<open>Inr (Some \<dots>)\<close> is the changed
  descriptor with which the code goes on to create a texture; \<open>Inr None\<close> is the end of the loop.
\<close>

definition agp_matches :: "u64 \<Rightarrow> u64 \<Rightarrow> u64 \<Rightarrow> CEsvga2TextureBuffer \<Rightarrow> bool" where
  "agp_matches offset_in_page down_pixels up_size t \<longleftrightarrow>
     tx_sys_obj_type t = TEX_TYPE_AGP \<and> tx_mem_changed t = 0 \<and> tx_agp_offset_in_page t = offset_in_page \<and>
     tx_agp_addr t = down_pixels \<and> tx_agp_size t = up_size"

partial_function (option) agp_search ::
  "(CEsvga2TextureBuffer \<Rightarrow> bool) \<Rightarrow> (nat \<Rightarrow> persistent_md) \<Rightarrow> nat option \<Rightarrow> 'h CEsvga2Shared \<Rightarrow>
   ((nat + (IOMemoryDescriptor \<times> u64) option) \<times> 'h CEsvga2Shared) option" where
  "agp_search matches persistent p1 s =
     (case p1 of None \<Rightarrow> Some (Inr None, s)
      | Some p \<Rightarrow>
        do {
          t \<leftarrow> textures s p;
          if \<not> matches t then agp_search matches persistent (tx_next t) s
          else (case persistent p of
                  same_md \<Rightarrow> Some (Inl p, s)
                | changed_md md len \<Rightarrow> do { s \<leftarrow> update_tx p (\<lambda>t. t\<lparr>tx_mem_changed := 1\<rparr>) s; Some (Inr (Some (md, len)), s) }
                | no_md \<Rightarrow> do { s \<leftarrow> update_tx p (\<lambda>t. t\<lparr>tx_mem_changed := 1\<rparr>) s; Some (Inr None, s) })
        })"

definition agp_common ::
  "agp_env \<Rightarrow> u64 \<Rightarrow> IOMemoryDescriptor \<times> u64 \<Rightarrow> u64 \<Rightarrow> 'h CEsvga2Shared \<Rightarrow> (nat option \<times> 'h CEsvga2Shared) option" where
  "agp_common env offset_in_page md down_pixels s =
     (case common_texture_init TEX_TYPE_AGP (ae_fresh env) (ae_sys_mem env) s of
        (None, s) \<Rightarrow> Some (None, s)
      | (Some p2, s) \<Rightarrow>
          do {
            s \<leftarrow> update_tx p2 (\<lambda>t. t\<lparr>tx_xfer := (tx_xfer t)\<lparr>xfer_md := Some (fst md)\<rparr>, tx_agp_offset_in_page := offset_in_page,
                   tx_agp_addr := down_pixels, tx_agp_size := snd md, tx_mem_changed := 0\<rparr>) s;
            s \<leftarrow> link_texture_at_head p2 s;
            Some (Some p2, s)
          })"

definition agp_user ::
  "agp_env \<Rightarrow> u64 \<Rightarrow> u64 \<Rightarrow> u32 \<Rightarrow> u64 \<Rightarrow> 'h CEsvga2Shared \<Rightarrow> (nat option \<times> 'h CEsvga2Shared) option" where
  "agp_user env offset_in_page up_size read_only down_pixels s =
     (let ro = isUserMemoryReadOnly (ae_region env) down_pixels up_size
      in if ro < 0 then Some (None, s)
         else (case ae_range env down_pixels up_size (read_only AND 1 \<noteq> 0 \<or> ro \<noteq> 0) of
                 None \<Rightarrow> Some (None, s)
               | Some md \<Rightarrow> agp_common env offset_in_page md down_pixels s))"

text \<open>The client address of the system object, which the code also returns, is a field of the texture.\<close>

definition new_agp_texture ::
  "agp_env \<Rightarrow> u64 \<Rightarrow> u64 \<Rightarrow> u32 \<Rightarrow> 'h CEsvga2Shared \<Rightarrow> (nat option \<times> 'h CEsvga2Shared) option" where
  "new_agp_texture env pixels texture_size read_only s =
     (let offset_in_page = pixels AND 4095;
          up_size = (offset_in_page + texture_size + 4095) AND (- 4096);
          down_pixels = pixels AND (- 4096)
      in if down_pixels = 0 then
           (case ae_buffer env up_size of None \<Rightarrow> Some (None, s)
            | Some (md, len, addr) \<Rightarrow> agp_common env offset_in_page (md, len) addr s)
         else do {
           (found, s) \<leftarrow> agp_search (agp_matches offset_in_page down_pixels up_size) (ae_persistent env) (m_texture_list s) s;
           case found of
             Inl p1 \<Rightarrow>
               (if m_texture_list s = Some p1 then Some (Some p1, s)
                else do { s \<leftarrow> unlink_nonhead_texture p1 s; s \<leftarrow> link_texture_at_head p1 s; Some (Some p1, s) })
           | Inr (Some md) \<Rightarrow> agp_common env offset_in_page md down_pixels s
           | Inr None \<Rightarrow> agp_user env offset_in_page up_size read_only down_pixels s
         })"

text \<open>
  A reference to another texture is counted in its system object.  A texture that was only made or found for
  one that could not be created is deleted again, unless it has other references.
\<close>

definition add_reference :: "nat \<Rightarrow> 'h CEsvga2Shared \<Rightarrow> 'h CEsvga2Shared option" where
  "add_reference p s =
     do { t \<leftarrow> textures s p; k \<leftarrow> tx_sys_obj t; Some (update_sys_obj k (\<lambda>so. so\<lparr>so_refcount := so_refcount so + 1\<rparr>) s) }"

definition delete_unused :: "nat option \<Rightarrow> 'h CEsvga2Shared \<Rightarrow> 'h CEsvga2Shared option" where
  "delete_unused p1 s =
     (case p1 of None \<Rightarrow> Some s
      | Some p \<Rightarrow> do { t \<leftarrow> textures s p; k \<leftarrow> tx_sys_obj t;
                      if so_refcount (sys_objs s ! k) = 0 then delete_texture p s else Some s })"

text \<open>
  \<open>new_texture\<close>, from the call of \<open>common_texture_init\<close> on.  \<open>bmd\<close> is the new descriptor together with the
  client address of its mapping, where either may fail; in \<open>new_texture\<close> it depends on the size that is asked for.
\<close>

definition new_linked_texture ::
  "u8 \<Rightarrow> nat option \<Rightarrow> u32 \<Rightarrow> nat option \<Rightarrow> u64 option \<Rightarrow> (IOMemoryDescriptor \<times> u64 option) option \<Rightarrow> 'h CEsvga2Shared \<Rightarrow>
   (nat option \<times> 'h CEsvga2Shared) option" where
  "new_linked_texture obj_type p1 size1 fresh sys_mem bmd s =
     (case common_texture_init obj_type fresh sys_mem s of
        (None, s) \<Rightarrow> do { s \<leftarrow> delete_unused p1 s; Some (None, s) }
      | (Some p2, s) \<Rightarrow>
          (case bmd of
             Some (md, Some client_addr) \<Rightarrow>
               do {
                 s \<leftarrow> update_tx p2 (\<lambda>t. t\<lparr>tx_xfer := (tx_xfer t)\<lparr>xfer_md := Some md\<rparr>, tx_creator := True,
                        tx_client_map := Some client_addr, tx_vram_bytes := size1\<rparr>) s;
                 s \<leftarrow> (if obj_type = TEX_TYPE_OOB then
                          do { l \<leftarrow> p1; s \<leftarrow> update_tx p2 (\<lambda>t. t\<lparr>tx_linked_agp := Some l\<rparr>) s; add_reference l s }
                        else Some s);
                 s \<leftarrow> link_texture_at_head p2 s;
                 Some (Some p2, s)
               }
           | _ \<Rightarrow>
               do {
                 t \<leftarrow> textures s p2;
                 k \<leftarrow> tx_sys_obj t;
                 let s = free_buf_handle p2 (so_object_id (sys_objs s ! k)) s;
                 let s = releaseVendorTextureBuffer p2 (free_client_shared (Some k) s);
                 s \<leftarrow> delete_unused p1 s;
                 Some (None, s)
               }))"

definition new_texture ::
  "agp_env \<Rightarrow> u32 \<Rightarrow> u32 \<Rightarrow> u64 \<Rightarrow> u64 \<Rightarrow> u32 \<Rightarrow> nat option \<Rightarrow> u64 option \<Rightarrow> (u64 \<Rightarrow> (IOMemoryDescriptor \<times> u64 option) option) \<Rightarrow>
   'h CEsvga2Shared \<Rightarrow> (nat option \<times> 'h CEsvga2Shared) option" where
  "new_texture env size0 size1 pixels texture_size read_only fresh sys_mem bmd s =
     (let total_size = (\<lambda>overhead. (ucast size0 + overhead + 4095) AND (- 4096) :: u64)
      in if pixels \<noteq> 0 \<and> texture_size \<noteq> 0 then
           do {
             (p1, s) \<leftarrow> new_agp_texture env pixels texture_size read_only s;
             if p1 = None then Some (None, s) else new_linked_texture TEX_TYPE_OOB p1 size1 fresh sys_mem (bmd (total_size 0x900)) s
           }
         else if size1 \<noteq> 0 then new_linked_texture TEX_TYPE_STD None size1 fresh sys_mem (bmd (total_size 0x900)) s
         else new_linked_texture TEX_TYPE_VB None size1 fresh sys_mem (bmd (total_size 0x80)) s)"

definition new_agpref_texture ::
  "agp_env \<Rightarrow> u64 \<Rightarrow> u64 \<Rightarrow> u64 \<Rightarrow> u32 \<Rightarrow> nat option \<Rightarrow> u64 option \<Rightarrow> 'h CEsvga2Shared \<Rightarrow>
   (nat option \<times> 'h CEsvga2Shared) option" where
  "new_agpref_texture env pixels1 pixels2 texture_size read_only fresh sys_mem s =
     do {
       (p1, s) \<leftarrow> new_agp_texture env pixels2 texture_size read_only s;
       case p1 of None \<Rightarrow> Some (None, s)
       | Some l \<Rightarrow>
         (case common_texture_init TEX_TYPE_AGPREF fresh sys_mem s of
            (None, s) \<Rightarrow> do { s \<leftarrow> delete_unused p1 s; Some (None, s) }
          | (Some p2, s) \<Rightarrow>
              do {
                ltx \<leftarrow> textures s l;
                s \<leftarrow> update_tx p2 (\<lambda>t. t\<lparr>tx_creator := True, tx_agp_addr := if pixels1 \<noteq> 0 then pixels1 - tx_agp_addr ltx else 0,
                       tx_linked_agp := Some l\<rparr>) s;
                s \<leftarrow> add_reference l s;
                s \<leftarrow> link_texture_at_head p2 s;
                Some (Some p2, s)
              })
     }"

text \<open>
  \<open>surface\<close>: what \<open>findSurfaceForID\<close> finds for an identifier.  The lines of these methods that use offsets in place of the names of members
  (the limit of sizes, the mapping of textures into the GART and a counter of the provider) are not C++ and have no
  counterpart here.
\<close>

definition new_surface_texture ::
  "(u32 \<Rightarrow> nat option) \<Rightarrow> u32 \<Rightarrow> u32 \<Rightarrow> nat option \<Rightarrow> u64 option \<Rightarrow> 'h CEsvga2Shared \<Rightarrow>
   (nat option \<times> 'h CEsvga2Shared) option" where
  "new_surface_texture surface surface_id fb_idx_mask fresh sys_mem s =
     (if sh_provider s = None then Some (None, s)
      else case surface surface_id of None \<Rightarrow> Some (None, s)
      | Some ptr \<Rightarrow>
        (case common_texture_init TEX_TYPE_SURFACE fresh sys_mem s of
           (None, s) \<Rightarrow> Some (None, s)
         | (Some p, s) \<Rightarrow>
             do {
               s \<leftarrow> update_tx p (\<lambda>t. t\<lparr>tx_creator := True, tx_linked_surface := Some ptr, tx_fb_idx_mask := fb_idx_mask,
                      tx_cgs_surface_id := surface_id\<rparr>) s;
               s \<leftarrow> link_texture_at_head p s;
               Some (Some p, s)
             }))"

definition initializeTexture :: "u64 \<Rightarrow> nat \<Rightarrow> 'h CEsvga2Shared \<Rightarrow> (bool \<times> 'h CEsvga2Shared) option" where
  "initializeTexture pixels2 tx s =
     do { s \<leftarrow> update_tx tx (\<lambda>t. t\<lparr>tx_vram_tile_pages := pixels2, tx_vram_page_bytes := 4096\<rparr>) s; Some (True, s) }"

end
