(* ===== verification/GL_TextureList.thy ===== *)
theory GL_TextureList
  imports GL_Shared
begin

text \<open>
  The list of textures of \<open>GL_Shared\<close> as a list of addresses: linking and unlinking on the pointers are
  \<open>Cons\<close> and removal on the list.
\<close>

section \<open>Segments\<close>

text \<open>From pointer \<open>p\<close> with predecessor \<open>pv\<close> through the nodes of a list to pointer \<open>q\<close> with predecessor \<open>l\<close>.\<close>

primrec dseg :: "(nat \<Rightarrow> CEsvga2TextureBuffer option) \<Rightarrow> nat option \<Rightarrow> nat option \<Rightarrow> nat list \<Rightarrow> nat option \<Rightarrow> nat option \<Rightarrow> bool" where
  "dseg h pv p [] l q \<longleftrightarrow> p = q \<and> pv = l"
| "dseg h pv p (x # xs) l q \<longleftrightarrow> p = Some x \<and> (\<exists>t. h x = Some t \<and> tx_prev t = pv \<and> dseg h (Some x) (tx_next t) xs l q)"

lemma dseg_append: "dseg h pv p (xs @ ys) l q \<longleftrightarrow> (\<exists>m r. dseg h pv p xs m r \<and> dseg h m r ys l q)"
  by (induction xs arbitrary: pv p) auto

lemma dseg_upd [simp]: "x \<notin> set xs \<Longrightarrow> dseg (h(x := t)) pv p xs l q = dseg h pv p xs l q"
  by (induction xs arbitrary: pv p) auto

lemma dseg_live: "dseg h pv p xs l q \<Longrightarrow> set xs \<subseteq> dom h"
  by (induction xs arbitrary: pv p) auto

lemma dseg_cong:
  assumes "\<And>x. x \<in> set xs \<Longrightarrow> map_option (\<lambda>t. (tx_prev t, tx_next t)) (h' x) = map_option (\<lambda>t. (tx_prev t, tx_next t)) (h x)"
  shows "dseg h' pv p xs l q = dseg h pv p xs l q"
  using assms
proof (induction xs arbitrary: pv p)
  case (Cons x xs)
  have "map_option (\<lambda>t. (tx_prev t, tx_next t)) (h' x) = map_option (\<lambda>t. (tx_prev t, tx_next t)) (h x)" using Cons.prems by simp
  then show ?case using Cons by (cases "h x"; cases "h' x") auto
qed simp

lemma dseg_ends: "dseg h pv p xs l q \<Longrightarrow> xs \<noteq> [] \<Longrightarrow> p = Some (hd xs) \<and> l = Some (last xs)"
  by (induction xs arbitrary: pv p) (auto split: if_splits)

text \<open>New pointers at the two ends of a segment.\<close>

lemma dseg_set_prev:
  "dseg h pv p (x # xs) l q \<Longrightarrow> x \<notin> set xs \<Longrightarrow> dseg (h(x \<mapsto> (the (h x))\<lparr>tx_prev := pv'\<rparr>)) pv' p (x # xs) l q"
  by auto

lemma dseg_set_next:
  assumes "dseg h pv p (xs @ [x]) l q" "x \<notin> set xs"
  shows "dseg (h(x \<mapsto> (the (h x))\<lparr>tx_next := q'\<rparr>)) pv p (xs @ [x]) l q'"
  using assms by (auto simp: dseg_append)

section \<open>Operations\<close>

definition list_inv :: "'h CEsvga2Shared \<Rightarrow> nat list \<Rightarrow> bool" where
  "list_inv s xs \<longleftrightarrow> distinct xs \<and> (\<exists>l. dseg (textures s) None (m_texture_list s) xs l None)"

text \<open>What linking leaves alone: everything but the pointers of the list.\<close>

definition tx_core :: "CEsvga2TextureBuffer \<Rightarrow> CEsvga2TextureBuffer" where
  "tx_core t = t\<lparr>tx_prev := None, tx_next := None\<rparr>"

definition same_core :: "'h CEsvga2Shared \<Rightarrow> 'h CEsvga2Shared \<Rightarrow> bool" where
  "same_core s s' \<longleftrightarrow> s'\<lparr>textures := textures s, m_texture_list := m_texture_list s\<rparr> = s \<and>
     map_option tx_core \<circ> textures s' = map_option tx_core \<circ> textures s"

lemma same_core_refl [simp]: "same_core s s" by (simp add: same_core_def)

lemma same_core_trans: "same_core s t \<Longrightarrow> same_core t u \<Longrightarrow> same_core s u"
  by (cases s; cases t; cases u) (simp add: same_core_def)

lemma same_core_head [simp]: "same_core s (s'\<lparr>m_texture_list := l\<rparr>) = same_core s s'"
  by (simp add: same_core_def)

lemma tx_core_upd [simp]: "tx_core (t\<lparr>tx_prev := p\<rparr>) = tx_core t" "tx_core (t\<lparr>tx_next := p\<rparr>) = tx_core t"
  by (simp_all add: tx_core_def)

lemma update_tx_core:
  assumes "textures s p = Some t" "\<And>t. tx_core (f t) = tx_core t"
  shows "update_tx p f s = Some (s\<lparr>textures := (textures s)(p \<mapsto> f t)\<rparr>)" "same_core s (s\<lparr>textures := (textures s)(p \<mapsto> f t)\<rparr>)"
  using assms by (auto simp: update_tx_def same_core_def fun_eq_iff)

lemma link_ok:
  assumes "list_inv s xs" "p \<notin> set xs" "textures s p = Some t"
  shows "\<exists>s'. link_texture_at_head p s = Some s' \<and> list_inv s' (p # xs) \<and> same_core s s'"
proof -
  obtain l where d: "distinct xs" "dseg (textures s) None (m_texture_list s) xs l None" using assms(1) by (auto simp: list_inv_def)
  show ?thesis
  proof (cases xs)
    case Nil
    then show ?thesis using d assms(3)
      by (auto simp: link_texture_at_head_def update_tx_def list_inv_def same_core_def fun_eq_iff tx_core_def)
  next
    case (Cons x ys)
    then obtain u where u: "m_texture_list s = Some x" "textures s x = Some u" using d(2) by auto
    let ?h = "(textures s)(x \<mapsto> u\<lparr>tx_prev := Some p\<rparr>)"
    have "dseg ?h (Some p) (m_texture_list s) xs l None" using dseg_set_prev [of "textures s" None] d u Cons by auto
    moreover have "link_texture_at_head p s =
        Some (s\<lparr>textures := ?h(p \<mapsto> t\<lparr>tx_prev := None, tx_next := Some x\<rparr>), m_texture_list := Some p\<rparr>)"
      using u assms(2,3) Cons by (auto simp: link_texture_at_head_def update_tx_def)
    ultimately show ?thesis
      using d(1) assms(2,3) u Cons by (auto simp: list_inv_def same_core_def fun_eq_iff tx_core_def)
  qed
qed

lemma unlink_head:
  assumes "list_inv s (p # ys)"
  shows "\<exists>s'. unlink_texture p s = Some s' \<and> list_inv s' ys \<and> same_core s s'"
proof -
  obtain l t where d: "distinct (p # ys)" "m_texture_list s = Some p" "textures s p = Some t"
      "dseg (textures s) (Some p) (tx_next t) ys l None"
    using assms by (auto simp: list_inv_def)
  show ?thesis
  proof (cases ys)
    case (Cons y zs)
    then obtain u where u: "tx_next t = Some y" "textures s y = Some u" using d(4) by auto
    show ?thesis using d u Cons dseg_set_prev [of "textures s" "Some p" "tx_next t" y zs l None None] update_tx_core [of s y u]
      by (auto simp: unlink_texture_def update_tx_def list_inv_def same_core_def fun_eq_iff tx_core_def)
  qed (use d in \<open>auto simp: unlink_texture_def list_inv_def\<close>)
qed

lemma unlink_nonhead:
  assumes "list_inv s (xs @ a # p # ys)"
  shows "\<exists>s'. unlink_nonhead_texture p s = Some s' \<and> list_inv s' (xs @ a # ys) \<and> same_core s s'"
proof -
  let ?h = "textures s"
  obtain l where dist: "distinct (xs @ a # p # ys)" and seg: "dseg ?h None (m_texture_list s) (xs @ a # p # ys) l None"
    using assms by (auto simp: list_inv_def)
  have "dseg ?h None (m_texture_list s) ((xs @ [a]) @ p # ys) l None" using seg by simp
  then obtain l1 r1 where r: "dseg ?h None (m_texture_list s) (xs @ [a]) l1 r1" "dseg ?h l1 r1 (p # ys) l None"
    unfolding dseg_append [of _ _ _ "xs @ [a]"] by blast
  have "l1 = Some a" using dseg_ends [OF r(1)] by simp
  then have m: "dseg ?h None (m_texture_list s) (xs @ [a]) (Some a) (Some p)" "dseg ?h (Some a) (Some p) (p # ys) l None" using r by auto
  then obtain t where t: "?h p = Some t" "tx_prev t = Some a" "dseg ?h (Some p) (tx_next t) ys l None" by auto
  obtain u where u: "?h a = Some u" using dseg_live [OF m(1)] by auto
  let ?h1 = "?h(a \<mapsto> u\<lparr>tx_next := tx_next t\<rparr>)"
  have first: "dseg ?h1 None (m_texture_list s) (xs @ [a]) (Some a) (tx_next t)"
    using dseg_set_next [OF m(1), of "tx_next t"] dist u by auto
  show ?thesis
  proof (cases ys)
    case Nil
    then have "unlink_nonhead_texture p s = Some (s\<lparr>textures := ?h1\<rparr>)"
      using t u dist by (auto simp: unlink_nonhead_texture_def update_tx_def)
    then show ?thesis using first t Nil dist update_tx_core(2) [OF u, of "\<lambda>u. u\<lparr>tx_next := tx_next t\<rparr>"] by (auto simp: list_inv_def)
  next
    case (Cons y zs)
    then obtain v where v: "tx_next t = Some y" "?h y = Some v" using t(3) by auto
    let ?h2 = "?h1(y \<mapsto> v\<lparr>tx_prev := Some a\<rparr>)"
    have ya: "y \<noteq> a" "y \<noteq> p" "a \<noteq> p" "y \<notin> set zs" "y \<notin> set (xs @ [a])" "a \<notin> set ys" using dist Cons by auto
    have "dseg ?h2 (Some a) (tx_next t) ys l None"
      using dseg_set_prev [of ?h "Some p" "tx_next t" y zs l None "Some a"] t(3) v ya Cons by auto
    moreover have "dseg ?h2 None (m_texture_list s) (xs @ [a]) (Some a) (tx_next t)" using first ya by simp
    ultimately have "dseg ?h2 None (m_texture_list s) ((xs @ [a]) @ ys) l None" unfolding dseg_append by blast
    moreover have "unlink_nonhead_texture p s = Some (s\<lparr>textures := ?h2\<rparr>)"
      using t u v ya by (auto simp: unlink_nonhead_texture_def update_tx_def)
    moreover have "same_core s (s\<lparr>textures := ?h2\<rparr>)" using u v ya by (auto simp: same_core_def fun_eq_iff)
    ultimately show ?thesis using dist by (auto simp: list_inv_def)
  qed
qed

lemma unlink_ok:
  assumes "list_inv s xs" "p \<in> set xs"
  shows "\<exists>s'. unlink_texture p s = Some s' \<and> list_inv s' (remove1 p xs) \<and> same_core s s'"
proof -
  obtain ys zs where xs: "xs = ys @ p # zs" "p \<notin> set ys" using assms(2) by (meson split_list_first)
  show ?thesis
  proof (cases ys rule: rev_cases)
    case Nil
    then show ?thesis using unlink_head [of s p zs] assms(1) xs by simp
  next
    case (snoc as a)
    then have l: "list_inv s (as @ a # p # zs)" using assms(1) xs by simp
    have "m_texture_list s = Some (hd xs)" using assms by (fastforce simp: list_inv_def dest: dseg_ends)
    moreover have "hd xs \<in> set ys" using xs snoc by (cases as) auto
    ultimately have "m_texture_list s \<noteq> Some p" using xs(2) by auto
    then show ?thesis using unlink_nonhead [OF l] xs snoc by (auto simp: unlink_texture_def remove1_append)
  qed
qed

text \<open>The texture found by a search is moved to the front.\<close>

lemma move_to_front:
  assumes "list_inv s xs" "p \<in> set xs" "m_texture_list s \<noteq> Some p"
  shows "\<exists>s'. do { s \<leftarrow> unlink_nonhead_texture p s; link_texture_at_head p s } = Some s' \<and> list_inv s' (p # remove1 p xs) \<and> same_core s s'"
proof -
  obtain s1 where s1: "unlink_nonhead_texture p s = Some s1" "list_inv s1 (remove1 p xs)" "same_core s s1"
    using unlink_ok [OF assms(1,2)] assms(3) by (auto simp: unlink_texture_def)
  have "textures s p \<noteq> None" using assms(1,2) by (auto simp: list_inv_def dest: dseg_live)
  moreover have "map_option tx_core (textures s1 p) = map_option tx_core (textures s p)" using s1(3) by (simp add: same_core_def fun_eq_iff)
  ultimately obtain t where "textures s1 p = Some t" by (cases "textures s1 p") auto
  moreover have "p \<notin> set (remove1 p xs)" using assms(1) by (simp add: list_inv_def)
  ultimately show ?thesis using link_ok [OF s1(2)] s1 same_core_trans by fastforce
qed

end
