(* ===== verification/GL_Textures.thy ===== *)
theory GL_Textures
  imports GL_TextureList
begin

text \<open>
  The invariant of the shared textures of \<open>GL_Shared\<close>: the list, the handle table with the system objects, and the
  counted references, and that creating and deleting textures keep it.
\<close>

section \<open>Invariant\<close>

text \<open>The fields of a texture that the invariant speaks of.\<close>

definition kof :: "'h CEsvga2Shared \<Rightarrow> nat \<Rightarrow> nat option" where "kof s p = Option.bind (textures s p) tx_sys_obj"
definition lk :: "'h CEsvga2Shared \<Rightarrow> nat \<Rightarrow> nat option" where "lk s p = Option.bind (textures s p) tx_linked_agp"
definition ty :: "'h CEsvga2Shared \<Rightarrow> nat \<Rightarrow> u8 option" where "ty s p = map_option tx_sys_obj_type (textures s p)"
definition sysobj :: "'h CEsvga2Shared \<Rightarrow> nat \<Rightarrow> GLDSysObject" where "sysobj s p = sys_objs s ! the (kof s p)"

abbreviation live :: "'h CEsvga2Shared \<Rightarrow> nat set" where "live s \<equiv> dom (textures s)"

definition has_entry :: "'h CEsvga2Shared \<Rightarrow> nat \<Rightarrow> bool" where
  "has_entry s p \<longleftrightarrow> (\<exists>k. kof s p = Some k \<and> k < 146 \<and> so_in_use (sys_objs s ! k) \<noteq> 0 \<and>
     unat (so_object_id (sys_objs s ! k)) < 128 \<and> handles s ! unat (so_object_id (sys_objs s ! k)) = Some p)"

definition table_inv :: "'h CEsvga2Shared \<Rightarrow> bool" where
  "table_inv s \<longleftrightarrow> m_handle_table s \<noteq> None \<and> length (handles s) = 128 \<and> m_num_handles s = 128 \<and>
     (if m_client_sys_objs_map s = None then live s = {} else length (sys_objs s) = 146) \<and>
     (\<forall>p \<in> live s. has_entry s p) \<and>
     (\<forall>i < 128. \<forall>p. handles s ! i = Some p \<longrightarrow> p \<in> live s \<and> unat (so_object_id (sysobj s p)) = i)"

definition link_inv :: "'h CEsvga2Shared \<Rightarrow> bool" where
  "link_inv s \<longleftrightarrow>
     (\<forall>p l. lk s p = Some l \<longrightarrow> ty s p \<in> {Some TEX_TYPE_AGPREF, Some TEX_TYPE_OOB} \<and> ty s l = Some TEX_TYPE_AGP) \<and>
     (\<forall>l \<in> live s. so_refcount (sysobj s l) = of_nat (card {p. lk s p = Some l}))"

text \<open>The provider, if there is one, has a device that accepts commands.\<close>

definition prov_ok :: "'h CEsvga2Shared \<Rightarrow> bool" where
  "prov_ok s \<longleftrightarrow> (case sh_provider s of None \<Rightarrow> True | Some a \<Rightarrow> accepts (m_svga a) 14)"

definition shared_inv :: "'h CEsvga2Shared \<Rightarrow> nat list \<Rightarrow> bool" where
  "shared_inv s xs \<longleftrightarrow> list_inv s xs \<and> set xs = live s \<and> table_inv s \<and> link_inv s \<and> prov_ok s"

lemma core_proj:
  "kof s p = Option.bind (map_option tx_core (textures s p)) tx_sys_obj"
  "lk s p = Option.bind (map_option tx_core (textures s p)) tx_linked_agp"
  "ty s p = map_option tx_sys_obj_type (map_option tx_core (textures s p))"
  by (cases "textures s p"; simp add: kof_def lk_def ty_def tx_core_def)+

lemma same_core_proj:
  assumes "same_core s s'"
  shows "kof s' = kof s" "lk s' = lk s" "ty s' = ty s" "live s' = live s" "sysobj s' = sysobj s"
    "sys_objs s' = sys_objs s" "m_handle_table s' = m_handle_table s" "handles s' = handles s" "m_num_handles s' = m_num_handles s"
    "m_client_sys_objs_map s' = m_client_sys_objs_map s" "sh_provider s' = sh_provider s"
proof -
  have c: "map_option tx_core (textures s' q) = map_option tx_core (textures s q)" for q using assms by (simp add: same_core_def fun_eq_iff)
  have e: "s'\<lparr>textures := textures s, m_texture_list := m_texture_list s\<rparr> = s" using assms by (simp add: same_core_def)
  show k: "kof s' = kof s" "lk s' = lk s" "ty s' = ty s" by (simp_all add: core_proj c fun_eq_iff)
  have "textures s' q = None \<longleftrightarrow> textures s q = None" for q using c [of q] by (metis option.map_disc_iff)
  then show "live s' = live s" by (simp add: dom_def)
  show "sys_objs s' = sys_objs s" "m_handle_table s' = m_handle_table s" "m_num_handles s' = m_num_handles s"
    "m_client_sys_objs_map s' = m_client_sys_objs_map s" "sh_provider s' = sh_provider s"
    using arg_cong [OF e, of sys_objs] arg_cong [OF e, of m_handle_table] arg_cong [OF e, of m_num_handles]
      arg_cong [OF e, of m_client_sys_objs_map] arg_cong [OF e, of sh_provider] by simp_all
  then show "sysobj s' = sysobj s" "handles s' = handles s" using k by (simp_all add: sysobj_def handles_def fun_eq_iff)
qed

lemma same_core_inv:
  assumes "same_core s s'"
  shows "table_inv s' = table_inv s" "link_inv s' = link_inv s" "prov_ok s' = prov_ok s"
  using same_core_proj [OF assms] by (simp_all add: table_inv_def link_inv_def prov_ok_def has_entry_def)

lemma entryE:
  assumes "table_inv s" "p \<in> live s"
  obtains k where "kof s p = Some k" "k < 146" "so_in_use (sys_objs s ! k) \<noteq> 0"
    "unat (so_object_id (sys_objs s ! k)) < 128" "handles s ! unat (so_object_id (sys_objs s ! k)) = Some p"
proof -
  have "has_entry s p" using assms unfolding table_inv_def by blast
  then show thesis unfolding has_entry_def using that by blast
qed

lemma kof_inj:
  assumes "table_inv s" "p \<in> live s" "q \<in> live s" "kof s p = kof s q"
  shows "p = q"
  by (rule entryE [OF assms(1,2)], rule entryE [OF assms(1,3)]) (use assms(4) in simp)

lemma live_finite: "table_inv s \<Longrightarrow> finite (live s) \<and> card (live s) \<le> 128"
proof -
  assume t: "table_inv s"
  then have l: "length (handles s) = 128" by (simp add: table_inv_def)
  have "p \<in> the ` set (handles s)" if p: "p \<in> live s" for p
  proof (rule entryE [OF t p])
    fix k assume "unat (so_object_id (sys_objs s ! k)) < 128" "handles s ! unat (so_object_id (sys_objs s ! k)) = Some p"
    then have "Some p \<in> set (handles s)" using l by (metis nth_mem)
    then show ?thesis by force
  qed
  then have sub: "live s \<subseteq> the ` set (handles s)" by blast
  have "card (the ` set (handles s)) \<le> 128" using card_image_le [of "set (handles s)" the] card_length [of "handles s"] l by simp
  then show ?thesis using sub card_mono [OF _ sub] finite_subset [OF sub] by simp
qed

lemma handles_live:
  assumes "table_inv s" "i < 128" "handles s ! i = Some p"
  shows "p \<in> live s" "unat (so_object_id (sysobj s p)) = i"
  using assms by (auto simp: table_inv_def)

section \<open>Removing a texture\<close>

lemma table_remove:
  assumes inv: "table_inv s" and p: "p \<in> live s" and k: "kof s p = Some k"
    and s': "m_handle_table s' = Some ((handles s)[unat (so_object_id (sys_objs s ! k)) := None])" "m_num_handles s' = m_num_handles s"
      "m_client_sys_objs_map s' = m_client_sys_objs_map s" "sys_objs s' = (sys_objs s)[k := zero_sys_obj]"
      "live s' = live s - {p}" "\<And>q. q \<noteq> p \<Longrightarrow> kof s' q = kof s q"
  shows "table_inv s'" "\<And>q. q \<in> live s - {p} \<Longrightarrow> sysobj s' q = sysobj s q"
proof -
  let ?i = "unat (so_object_id (sys_objs s ! k))"
  have hs: "handles s' = (handles s)[?i := None]" using s'(1) by (simp add: handles_def)
  have l: "length (handles s) = 128" "m_num_handles s = 128" "m_client_sys_objs_map s \<noteq> None" "length (sys_objs s) = 146"
    using inv p by (auto simp: table_inv_def split: if_splits)
  have diff: "kof s q \<noteq> Some k" if "q \<in> live s - {p}" for q using kof_inj [OF inv p, of q] that k by auto
  have obj: "sys_objs s' ! j = sys_objs s ! j" if "j \<noteq> k" for j using that s'(4) by simp
  show same: "sysobj s' q = sysobj s q" if q: "q \<in> live s - {p}" for q
  proof -
    obtain j where "kof s q = Some j" using entryE [OF inv, of q] q by auto
    then show ?thesis using diff [OF q] obj [of j] s'(6) [of q] q by (simp add: sysobj_def)
  qed
  have "has_entry s' q" if q: "q \<in> live s'" for q
  proof -
    have ql: "q \<in> live s - {p}" "q \<in> live s" using q s'(5) by auto
    show ?thesis
    proof (rule entryE [OF inv ql(2)])
      fix j assume j: "kof s q = Some j" "j < 146" "so_in_use (sys_objs s ! j) \<noteq> 0"
        "unat (so_object_id (sys_objs s ! j)) < 128" "handles s ! unat (so_object_id (sys_objs s ! j)) = Some q"
      have pk: "handles s ! ?i = Some p" using entryE [OF inv p] k by (metis option.inject)
      have jk: "j \<noteq> k" using diff [OF ql(1)] j(1) by auto
      have "unat (so_object_id (sys_objs s ! j)) \<noteq> ?i" using j(5) pk ql(1) by auto
      then show ?thesis using j jk obj [OF jk] s'(6) [of q] ql(1) l by (simp add: has_entry_def hs)
    qed
  qed
  moreover have "r \<in> live s' \<and> unat (so_object_id (sysobj s' r)) = i" if i: "i < 128" "handles s' ! i = Some r" for i r
  proof -
    have "i \<noteq> ?i" using i l by (auto simp: hs)
    then have h: "handles s ! i = Some r" using i by (simp add: hs)
    have "unat (so_object_id (sysobj s p)) = ?i" using k by (simp add: sysobj_def)
    then have "r \<noteq> p" using handles_live [OF inv i(1) h] \<open>i \<noteq> ?i\<close> by auto
    then show ?thesis using handles_live [OF inv i(1) h] same [of r] s'(5) by auto
  qed
  ultimately show "table_inv s'" using s' l hs by (auto simp: table_inv_def)
qed

lemma destroy_host_ok:
  assumes "accepts (m_svga a) 14"
  shows "\<exists>a'. destroy_host sid a = Some a' \<and> accepts (m_svga a') 14"
proof (cases "isIdValid sid \<and> bHaveSVGA3D a")
  case True
  then obtain d where "destroySurface sid a = Some (kIOReturnSuccess, a\<lparr>m_svga := d\<rparr>)" "accepts d 14"
    using accel_run_sent [of a "DestroySurfaceA sid" 14] assms by auto
  then show ?thesis using True by (simp add: destroy_host_def)
qed (use assms in \<open>auto simp: destroy_host_def destroySurface_def\<close>)

lemma finalize_ok:
  assumes "textures s p = Some t" "prov_ok s"
  shows "\<exists>t' a. finalize_texture p s = Some (s\<lparr>sh_provider := a, textures := (textures s)(p \<mapsto> t')\<rparr>) \<and>
    prov_ok (s\<lparr>sh_provider := a, textures := (textures s)(p \<mapsto> t')\<rparr>)"
proof (cases "sh_provider s")
  case None
  then show ?thesis using assms(1) by (intro exI [of _ "t\<lparr>tx_client_map := None, tx_xfer := xfer_discard (tx_xfer t)\<rparr>"] exI [of _ None])
      (cases s, simp add: finalize_texture_def prov_ok_def)
next
  case (Some a)
  then have "accepts (m_svga a) 14" using assms(2) by (simp add: prov_ok_def)
  then obtain a1 where a1: "destroy_host (tx_yuv_shadow t) a = Some a1" "accepts (m_svga a1) 14" using destroy_host_ok by blast
  then obtain a2 where a2: "destroy_host (tx_surface_id t) a1 = Some a2" "accepts (m_svga a2) 14" using destroy_host_ok by blast
  let ?t = "t\<lparr>tx_client_map := None, tx_xfer := xfer_discard (tx_xfer t),
      tx_yuv_shadow := if isIdValid (tx_yuv_shadow t) then SVGA_ID_INVALID else tx_yuv_shadow t,
      tx_surface_id := if isIdValid (tx_surface_id t) then SVGA_ID_INVALID else tx_surface_id t\<rparr>"
  show ?thesis using assms(1) Some a1 a2 by (intro exI [of _ ?t] exI [of _ "Some a2"]) (simp add: finalize_texture_def prov_ok_def)
qed

text \<open>
  The last part of a deletion removes the texture from the list and the tables, and gives everything back; other
  textures and their system objects stay.
\<close>

definition dropped :: "nat \<Rightarrow> 'h CEsvga2Shared \<Rightarrow> 'h CEsvga2Shared \<Rightarrow> bool" where
  "dropped p s s' \<longleftrightarrow> live s' = live s - {p} \<and> table_inv s' \<and> prov_ok s' \<and>
     (\<forall>q. q \<noteq> p \<longrightarrow> kof s' q = kof s q \<and> lk s' q = lk s q \<and> ty s' q = ty s q) \<and> (\<forall>q \<in> live s - {p}. sysobj s' q = sysobj s q)"

lemma freed_handle:
  assumes "table_inv s" "p \<in> live s" "kof s p = Some k"
  shows "free_client_shared (Some k) (free_buf_handle p (so_object_id (sys_objs s ! k)) s) =
    s\<lparr>m_handle_table := Some ((handles s)[unat (so_object_id (sys_objs s ! k)) := None]), sys_objs := (sys_objs s)[k := zero_sys_obj]\<rparr>"
proof (rule entryE [OF assms(1,2)])
  fix j assume j: "kof s p = Some j" "unat (so_object_id (sys_objs s ! j)) < 128" "handles s ! unat (so_object_id (sys_objs s ! j)) = Some p"
  have "m_handle_table s \<noteq> None" "m_num_handles s = 128" using assms(1) by (simp_all add: table_inv_def)
  then show ?thesis using j assms(3) by (simp add: free_buf_handle_def free_client_shared_def update_sys_obj_def)
qed

lemma drop_ok:
  assumes "list_inv s xs" "set xs = live s" "table_inv s" "prov_ok s" "p \<in> live s"
  shows "\<exists>s'. drop_texture p s = Some s' \<and> list_inv s' (remove1 p xs) \<and> dropped p s s'"
proof -
  obtain k where k: "kof s p = Some k" using entryE [OF assms(3,5)] by blast
  obtain t where t: "textures s p = Some t" "tx_sys_obj t = Some k" using k assms(5) by (auto simp: kof_def)
  define s1 where "s1 = free_client_shared (Some k) (free_buf_handle p (so_object_id (sys_objs s ! k)) s)"
  have s1: "s1 = s\<lparr>m_handle_table := Some ((handles s)[unat (so_object_id (sys_objs s ! k)) := None]), sys_objs := (sys_objs s)[k := zero_sys_obj]\<rparr>"
    using freed_handle [OF assms(3,5) k] by (simp add: s1_def)
  have "list_inv s1 xs" using assms(1) by (simp add: s1 list_inv_def)
  then obtain s2 where s2: "unlink_texture p s1 = Some s2" "list_inv s2 (remove1 p xs)" "same_core s1 s2"
    using unlink_ok [of s1 xs p] assms(2,5) by blast
  note proj = same_core_proj [OF s2(3)]
  have "p \<in> live s2" using proj(4) assms(5) by (simp add: s1)
  then obtain t2 where t2: "textures s2 p = Some t2" by blast
  have "prov_ok s2" using same_core_inv(3) [OF s2(3)] assms(4) by (simp add: s1 prov_ok_def)
  then obtain t3 a where f: "finalize_texture p s2 = Some (s2\<lparr>sh_provider := a, textures := (textures s2)(p \<mapsto> t3)\<rparr>)"
      "prov_ok (s2\<lparr>sh_provider := a, textures := (textures s2)(p \<mapsto> t3)\<rparr>)" using finalize_ok [OF t2] by blast
  let ?s = "s2\<lparr>sh_provider := a, textures := (textures s2)(p := None)\<rparr>"
  have r: "drop_texture p s = Some ?s" using t s2(1) f(1) by (simp add: drop_texture_def releaseVendorTextureBuffer_def flip: s1_def)
  have "p \<notin> set (remove1 p xs)" using assms(1) by (simp add: list_inv_def)
  then have li: "list_inv ?s (remove1 p xs)" using s2(2) by (simp add: list_inv_def)
  have q: "kof ?s q = kof s q \<and> lk ?s q = lk s q \<and> ty ?s q = ty s q" if "q \<noteq> p" for q
  proof -
    have "kof ?s q = kof s2 q" "lk ?s q = lk s2 q" "ty ?s q = ty s2 q" using that by (simp_all add: kof_def lk_def ty_def)
    moreover have "kof s1 q = kof s q" "lk s1 q = lk s q" "ty s1 q = ty s q" by (simp_all add: s1 kof_def lk_def ty_def)
    ultimately show ?thesis using proj(1-3) by simp
  qed
  have lv: "live ?s = live s - {p}" using proj(4) by (auto simp: s1)
  have "table_inv ?s" "\<And>q. q \<in> live s - {p} \<Longrightarrow> sysobj ?s q = sysobj s q"
    using table_remove [OF assms(3,5) k, of ?s] q lv proj by (simp_all add: s1)
  then show ?thesis using r li lv q f(2) unfolding dropped_def by (auto simp: prov_ok_def)
qed

end
