(* ===== verification/GL_Delete.thy ===== *)
theory GL_Delete
  imports GL_Textures
begin

text \<open>Deleting a texture of \<open>GL_Shared\<close>, with the one it refers to when that has no other reference.\<close>

section \<open>Small changes\<close>

text \<open>A change of a system object that keeps its identifier and its use.\<close>

lemma sys_obj_change:
  assumes inv: "table_inv s" and l: "l \<in> live s" "kof s l = Some k"
    and f: "\<And>so. so_in_use (f so) = so_in_use so \<and> so_object_id (f so) = so_object_id so"
  defines "s' \<equiv> update_sys_obj k f s"
  shows "table_inv s'" "kof s' = kof s" "lk s' = lk s" "ty s' = ty s" "textures s' = textures s" "list_inv s' xs = list_inv s xs"
    "prov_ok s' = prov_ok s" "q \<in> live s \<Longrightarrow> sysobj s' q = (if q = l then f (sysobj s l) else sysobj s q)"
proof -
  have len: "length (sys_objs s) = 146" "k < 146" using inv l entryE [OF inv l(1)] by (auto simp: table_inv_def split: if_splits)
  show p: "kof s' = kof s" "lk s' = lk s" "ty s' = ty s" "textures s' = textures s" "list_inv s' xs = list_inv s xs" "prov_ok s' = prov_ok s"
    by (simp_all add: s'_def update_sys_obj_def kof_def lk_def ty_def list_inv_def prov_ok_def fun_eq_iff)
  show o: "sysobj s' q = (if q = l then f (sysobj s l) else sysobj s q)" if q: "q \<in> live s" for q
  proof -
    obtain j where j: "kof s q = Some j" using entryE [OF inv q] by blast
    then have "j = k \<longleftrightarrow> q = l" using kof_inj [OF inv q l(1)] l(2) by auto
    then show ?thesis using j l(2) len p(1) by (auto simp: sysobj_def s'_def update_sys_obj_def)
  qed
  have h: "handles s' = handles s" by (simp add: s'_def update_sys_obj_def handles_def)
  have so: "so_in_use (sys_objs s' ! j) = so_in_use (sys_objs s ! j)" "so_object_id (sys_objs s' ! j) = so_object_id (sys_objs s ! j)" if "j < 146" for j
    using that f len by (cases "j = k"; simp add: s'_def update_sys_obj_def)+
  have "has_entry s' q" if q: "q \<in> live s" for q
    by (rule entryE [OF inv q]) (simp add: has_entry_def p(1) h so)
  moreover have "unat (so_object_id (sysobj s' r)) = i" if "i < 128" "handles s ! i = Some r" for i r
    using handles_live [OF inv that] o [of r] f by (simp split: if_splits)
  ultimately show "table_inv s'" using inv p(4) h by (auto simp: table_inv_def s'_def update_sys_obj_def)
qed

text \<open>A change of a texture that keeps its system object, its type and its place in the list.\<close>

lemma texture_change:
  assumes t: "textures s p = Some t"
    and f: "tx_sys_obj t' = tx_sys_obj t" "tx_sys_obj_type t' = tx_sys_obj_type t" "tx_prev t' = tx_prev t" "tx_next t' = tx_next t"
  defines "s' \<equiv> s\<lparr>textures := (textures s)(p \<mapsto> t')\<rparr>"
  shows "kof s' = kof s" "ty s' = ty s" "lk s' = (lk s)(p := tx_linked_agp t')" "live s' = live s" "sysobj s' = sysobj s"
    "table_inv s' = table_inv s" "list_inv s' xs = list_inv s xs" "prov_ok s' = prov_ok s"
proof -
  show k: "kof s' = kof s" "ty s' = ty s" "lk s' = (lk s)(p := tx_linked_agp t')" "live s' = live s"
    using t f by (auto simp: s'_def kof_def ty_def lk_def fun_eq_iff)
  show o: "sysobj s' = sysobj s" using k(1) by (simp add: sysobj_def fun_eq_iff s'_def)
  show "table_inv s' = table_inv s" using k(1,4) o by (simp add: table_inv_def has_entry_def s'_def handles_def)
  have "dseg (textures s') pv q xs l r = dseg (textures s) pv q xs l r" for pv q l r
    by (rule dseg_cong) (use t f in \<open>simp add: s'_def\<close>)
  then show "list_inv s' xs = list_inv s xs" "prov_ok s' = prov_ok s" by (simp_all add: list_inv_def s'_def prov_ok_def)
qed

section \<open>References\<close>

definition refs_to :: "'h CEsvga2Shared \<Rightarrow> nat \<Rightarrow> nat set" where "refs_to s l = {p. lk s p = Some l}"

lemma refs_live: "refs_to s l \<subseteq> live s" by (auto simp: refs_to_def lk_def bind_eq_Some_conv)

lemma refcount_word:
  assumes "table_inv s" "link_inv s" "l \<in> live s"
  shows "so_refcount (sysobj s l) = of_nat (card (refs_to s l))" "finite (refs_to s l)"
    "so_refcount (sysobj s l) = 1 \<longleftrightarrow> card (refs_to s l) = 1" "so_refcount (sysobj s l) = 0 \<longleftrightarrow> refs_to s l = {}"
proof -
  show c: "so_refcount (sysobj s l) = of_nat (card (refs_to s l))" using assms(2,3) by (auto simp: link_inv_def refs_to_def)
  show f: "finite (refs_to s l)" using live_finite [OF assms(1)] refs_live finite_subset by blast
  have "card (refs_to s l) \<le> 128" using live_finite [OF assms(1)] card_mono [OF _ refs_live] le_trans by blast
  then have "unat (so_refcount (sysobj s l)) = card (refs_to s l)" unfolding c by (intro unat_of_nat_small) simp
  then show "so_refcount (sysobj s l) = 1 \<longleftrightarrow> card (refs_to s l) = 1" "so_refcount (sysobj s l) = 0 \<longleftrightarrow> refs_to s l = {}"
    using f by (metis unat_1 word_unat_eq_iff, metis card_0_eq unat_eq_zero)
qed

lemma link_types:
  assumes "link_inv s" "lk s p = Some l"
  shows "ty s p = Some TEX_TYPE_AGPREF \<or> ty s p = Some TEX_TYPE_OOB" "ty s l = Some TEX_TYPE_AGP" "l \<in> live s" "p \<in> live s" "l \<noteq> p" "lk s l = None"
proof -
  show t: "ty s p = Some TEX_TYPE_AGPREF \<or> ty s p = Some TEX_TYPE_OOB" "ty s l = Some TEX_TYPE_AGP"
    using assms unfolding link_inv_def by (metis insert_iff singletonD)+
  then show "l \<in> live s" "p \<in> live s" "l \<noteq> p" by (auto simp: ty_def)
  show "lk s l = None" using assms(1) t(2) unfolding link_inv_def by (cases "lk s l") force+
qed

lemma delete_plain:
  assumes "p \<in> live s" "lk s p = None"
  shows "delete_texture p s = drop_texture p s"
  using assms by (subst delete_texture.simps) (auto simp: lk_def)

lemma delete_linked:
  assumes "link_inv s" "lk s p = Some l" "kof s l = Some k"
  shows "delete_texture p s =
    do { s \<leftarrow> (let s' = update_sys_obj k (\<lambda>so. so\<lparr>so_refcount := so_refcount so - 1\<rparr>) s
                in if so_refcount (sys_objs s ! k) = 1 then delete_texture l s' else Some s');
         s \<leftarrow> update_tx p (\<lambda>t. t\<lparr>tx_linked_agp := None\<rparr>) s; drop_texture p s }"
proof -
  note lt = link_types [OF assms(1,2)]
  obtain t where t: "textures s p = Some t" "tx_linked_agp t = Some l" using assms(2) by (auto simp: lk_def bind_eq_Some_conv)
  obtain u where u: "textures s l = Some u" "tx_sys_obj u = Some k" using assms(3) by (auto simp: kof_def bind_eq_Some_conv)
  have "tx_sys_obj_type t = TEX_TYPE_AGPREF \<or> tx_sys_obj_type t = TEX_TYPE_OOB" using lt(1) t by (simp add: ty_def)
  then show ?thesis using t u by (subst delete_texture.simps) (simp add: Let_def)
qed

lemma link_inv_cong:
  assumes "link_inv s" "ty s' = ty s" "lk s' = lk s" "\<And>q. q \<in> live s \<Longrightarrow> so_refcount (sysobj s' q) = so_refcount (sysobj s q)" "live s' = live s"
  shows "link_inv s'"
  using assms by (simp add: link_inv_def)

lemma drop_link:
  assumes "dropped p s s'" "link_inv s" "lk s p = None" "refs_to s p = {}"
  shows "link_inv s'"
proof -
  have d: "live s' = live s - {p}" "\<And>q. q \<noteq> p \<Longrightarrow> lk s' q = lk s q \<and> ty s' q = ty s q" "\<And>q. q \<in> live s - {p} \<Longrightarrow> sysobj s' q = sysobj s q"
    using assms(1) by (auto simp: dropped_def)
  have "textures s' p = None" using d(1) by auto
  then have "lk s' p = lk s p" using assms(3) by (simp add: lk_def)
  then have lk: "lk s' = lk s" using d(2) by (metis ext)
  have "ty s' q = ty s q" if "lk s r = Some q" for q r using d(2) [of q] that assms(4) by (auto simp: refs_to_def)
  moreover have "ty s' r = ty s r" if "lk s r = Some q" for q r using d(2) [of r] that assms(3) by (cases "r = p") auto
  ultimately have "ty s' r \<in> {Some TEX_TYPE_AGPREF, Some TEX_TYPE_OOB} \<and> ty s' q = Some TEX_TYPE_AGP" if "lk s r = Some q" for r q
    using that assms(2) unfolding link_inv_def by metis
  moreover have "so_refcount (sysobj s' q) = of_nat (card {r. lk s r = Some q})" if "q \<in> live s'" for q
    using that d(1) d(3) [of q] assms(2) by (simp add: link_inv_def)
  ultimately show ?thesis by (simp add: link_inv_def lk)
qed

text \<open>Taking back the reference of \<open>p\<close> to \<open>l\<close>.\<close>

definition unlinked :: "nat \<Rightarrow> 'h CEsvga2Shared \<Rightarrow> 'h CEsvga2Shared" where
  "unlinked p s = s\<lparr>textures := (textures s)(p \<mapsto> (the (textures s p))\<lparr>tx_linked_agp := None\<rparr>)\<rparr>"

lemma unlinked_eq: "p \<in> live s \<Longrightarrow> update_tx p (\<lambda>t. t\<lparr>tx_linked_agp := None\<rparr>) s = Some (unlinked p s)"
  by (auto simp: update_tx_def unlinked_def)

lemma unlinked_proj:
  assumes "p \<in> live s"
  shows "kof (unlinked p s) = kof s" "ty (unlinked p s) = ty s" "lk (unlinked p s) = (lk s)(p := None)" "live (unlinked p s) = live s"
    "sysobj (unlinked p s) = sysobj s" "table_inv (unlinked p s) = table_inv s" "list_inv (unlinked p s) xs = list_inv s xs" "prov_ok (unlinked p s) = prov_ok s"
proof -
  obtain t where "textures s p = Some t" using assms by blast
  then show "kof (unlinked p s) = kof s" "ty (unlinked p s) = ty s" "lk (unlinked p s) = (lk s)(p := None)" "live (unlinked p s) = live s"
    "sysobj (unlinked p s) = sysobj s" "table_inv (unlinked p s) = table_inv s" "list_inv (unlinked p s) xs = list_inv s xs" "prov_ok (unlinked p s) = prov_ok s"
    using texture_change [of s p t "t\<lparr>tx_linked_agp := None\<rparr>"] unfolding unlinked_def by simp_all
qed

lemma refs_remove:
  assumes "lk s' = (lk s)(p := None)"
  shows "{r. lk s' r = Some q} = refs_to s q - {p}"
  using assms by (auto simp: refs_to_def)

definition deleted_with :: "'h CEsvga2Shared \<Rightarrow> nat \<Rightarrow> nat set" where
  "deleted_with s p = insert p (case lk s p of None \<Rightarrow> {} | Some l \<Rightarrow> if refs_to s l = {p} then {l} else {})"

text \<open>Other textures of a state that has changed keep their type, their link and their system object.\<close>

definition kept_others :: "nat set \<Rightarrow> 'h CEsvga2Shared \<Rightarrow> 'h CEsvga2Shared \<Rightarrow> bool" where
  "kept_others ps s s' \<longleftrightarrow> live s' = live s - ps \<and> (\<forall>q \<in> live s - ps. kof s' q = kof s q \<and> ty s' q = ty s q \<and> lk s' q = lk s q)"

lemma finish_drop:
  assumes "list_inv s xs" "set xs = live s" "table_inv s" "prov_ok s" "link_inv s" "p \<in> live s" "lk s p = None" "refs_to s p = {}"
  shows "\<exists>s'. drop_texture p s = Some s' \<and> shared_inv s' (remove1 p xs) \<and> kept_others {p} s s'"
proof -
  obtain s' where s': "drop_texture p s = Some s'" "list_inv s' (remove1 p xs)" "dropped p s s'" using drop_ok [OF assms(1-4,6)] by blast
  have "distinct xs" using assms(1) by (simp add: list_inv_def)
  then have "set (remove1 p xs) = live s'" using s'(3) assms(2) by (simp add: dropped_def set_remove1_eq)
  then show ?thesis using s' drop_link [OF s'(3) assms(5,7,8)] by (auto simp: shared_inv_def dropped_def kept_others_def)
qed

lemma unlinked_link:
  assumes "table_inv s" "link_inv s" "lk s p = Some l" "p \<in> live s2" "lk s2 = lk s" "live s2 \<subseteq> live s"
    and ty: "\<And>q. ty s2 q = ty s q \<or> q = l \<and> refs_to s l = {p}"
    and rc: "\<And>q. q \<in> live s2 \<Longrightarrow> so_refcount (sysobj s2 q) = so_refcount (sysobj s q) - (if q = l then 1 else 0)"
  shows "link_inv (unlinked p s2)"
proof -
  note u = unlinked_proj [OF assms(4)]
  have lk: "lk (unlinked p s2) = (lk s)(p := None)" using u(3) assms(5) by simp
  have "ty s2 r \<in> {Some TEX_TYPE_AGPREF, Some TEX_TYPE_OOB} \<and> ty s2 q = Some TEX_TYPE_AGP" if r: "lk s r = Some q" "r \<noteq> p" for r q
  proof -
    have "r \<noteq> l" using r link_types(6) [OF assms(2,3)] by auto
    then have "ty s2 r = ty s r" using ty [of r] by blast
    moreover have "ty s2 q = ty s q" using ty [of q] r by (auto simp: refs_to_def)
    ultimately show ?thesis using link_types(1,2) [OF assms(2) r(1)] by auto
  qed
  moreover have "so_refcount (sysobj s2 q) = of_nat (card (refs_to s q - {p}))" if q: "q \<in> live s2" for q
  proof -
    have ql: "q \<in> live s" using q assms(6) by blast
    note c = refcount_word(1,2) [OF assms(1,2) ql]
    show ?thesis
    proof (cases "q = l")
      case True
      then have "p \<in> refs_to s q" using assms(3) by (simp add: refs_to_def)
      then have "card (refs_to s q) = Suc (card (refs_to s q - {p}))" using c(2) by (metis card_Suc_Diff1)
      then show ?thesis using rc [OF q] c(1) True by simp
    next
      case False
      then have "refs_to s q - {p} = refs_to s q" using assms(3) by (auto simp: refs_to_def)
      then show ?thesis using rc [OF q] c(1) False by simp
    qed
  qed
  ultimately show ?thesis unfolding link_inv_def refs_remove [OF lk] u(2,4,5) by (auto simp: lk)
qed

lemma delete_tail:
  assumes "list_inv s xs" "set xs = live s" "table_inv s" "prov_ok s" "link_inv (unlinked p s)" "p \<in> live s" "refs_to s p = {}"
  shows "\<exists>s'. do { s \<leftarrow> update_tx p (\<lambda>t. t\<lparr>tx_linked_agp := None\<rparr>) s; drop_texture p s } = Some s' \<and>
    shared_inv s' (remove1 p xs) \<and> kept_others {p} s s'"
proof -
  note u = unlinked_proj [OF assms(6)]
  have "refs_to (unlinked p s) p = {}" using assms(7) u(3) by (auto simp: refs_to_def split: if_splits)
  then obtain s' where "drop_texture p (unlinked p s) = Some s'" "shared_inv s' (remove1 p xs)" "kept_others {p} (unlinked p s) s'"
    using finish_drop [of "unlinked p s" xs p] assms(1-6) u by auto
  then show ?thesis using unlinked_eq [OF assms(6)] u by (auto simp: kept_others_def)
qed

text \<open>The end of a deletion, behind the count: \<open>D\<close> is the texture referred to if it is deleted as well.\<close>

lemma delete_behind_link:
  assumes i: "table_inv s" "link_inv s" "lk s p = Some l" "p \<in> live s - D" "refs_to s p = {}"
    and s2: "list_inv s2 ys" "set ys = live s2" "table_inv s2" "prov_ok s2" "lk s2 = lk s" "live s2 = live s - D"
    and D: "D \<subseteq> {l}" "D \<noteq> {} \<Longrightarrow> refs_to s l = {p}"
    and same: "\<And>q. q \<notin> D \<Longrightarrow> kof s2 q = kof s q \<and> ty s2 q = ty s q"
    and rc: "\<And>q. q \<in> live s - D \<Longrightarrow> so_refcount (sysobj s2 q) = so_refcount (sysobj s q) - (if q = l then 1 else 0)"
  shows "\<exists>s'. do { s \<leftarrow> update_tx p (\<lambda>t. t\<lparr>tx_linked_agp := None\<rparr>) s2; drop_texture p s } = Some s' \<and>
    shared_inv s' (remove1 p ys) \<and> kept_others (insert p D) s s'"
proof -
  have pl: "p \<in> live s2" using i(4) s2(6) by simp
  have ty: "ty s2 q = ty s q \<or> q = l \<and> refs_to s l = {p}" for q using same [of q] D by blast
  have sub: "live s2 \<subseteq> live s" using s2(6) by blast
  have rc2: "so_refcount (sysobj s2 q) = so_refcount (sysobj s q) - (if q = l then 1 else 0)" if "q \<in> live s2" for q
    using rc that s2(6) by blast
  have link: "link_inv (unlinked p s2)" by (rule unlinked_link [OF i(1-3) pl s2(5) sub ty rc2])
  have refs: "refs_to s2 p = {}" using i(5) s2(5) by (simp add: refs_to_def)
  obtain s' where s': "do { s \<leftarrow> update_tx p (\<lambda>t. t\<lparr>tx_linked_agp := None\<rparr>) s2; drop_texture p s } = Some s'"
      "shared_inv s' (remove1 p ys)" "kept_others {p} s2 s'"
    using delete_tail [OF s2(1-4) link pl refs] by blast
  have "kept_others (insert p D) s s'" using s'(3) same s2(5,6) unfolding kept_others_def by auto
  then show ?thesis using s' by blast
qed

lemma delete_ok:
  assumes inv: "shared_inv s xs" and p: "p \<in> live s" "refs_to s p = {}"
  shows "\<exists>s' xs'. delete_texture p s = Some s' \<and> shared_inv s' xs' \<and> kept_others (deleted_with s p) s s'"
proof -
  have i: "list_inv s xs" "set xs = live s" "table_inv s" "prov_ok s" "link_inv s" using inv by (simp_all add: shared_inv_def)
  show ?thesis
  proof (cases "lk s p")
    case None
    then show ?thesis using finish_drop [OF i p(1) None p(2)] delete_plain [OF p(1) None] by (auto simp: deleted_with_def)
  next
    case (Some l)
    note lt = link_types [OF i(5) Some]
    obtain k where k: "kof s l = Some k" using entryE [OF i(3) lt(3)] by blast
    define f :: "GLDSysObject \<Rightarrow> GLDSysObject" where "f = (\<lambda>so. so\<lparr>so_refcount := so_refcount so - 1\<rparr>)"
    define s1 where "s1 = update_sys_obj k f s"
    have "so_in_use (f so) = so_in_use so \<and> so_object_id (f so) = so_object_id so" for so by (simp add: f_def)
    note c = sys_obj_change [OF i(3) lt(3) k this, folded s1_def]
    have "p \<in> refs_to s l" using Some by (simp add: refs_to_def)
    then have "card (refs_to s l) = 1 \<longleftrightarrow> refs_to s l = {p}" by (auto simp: card_1_singleton_iff)
    then have "so_refcount (sys_objs s ! k) = 1 \<longleftrightarrow> refs_to s l = {p}"
      using refcount_word(3) [OF i(3,5) lt(3)] k by (simp add: sysobj_def)
    then have del: "delete_texture p s = do { s \<leftarrow> (if refs_to s l = {p} then delete_texture l s1 else Some s1);
        s \<leftarrow> update_tx p (\<lambda>t. t\<lparr>tx_linked_agp := None\<rparr>) s; drop_texture p s }"
      using delete_linked [OF i(5) Some k] by (simp add: Let_def f_def s1_def)
    have live1: "live s1 = live s" "refs_to s1 = refs_to s" using c(3,5) by (simp, simp add: refs_to_def [abs_def])
    have rc: "so_refcount (sysobj s1 q) = so_refcount (sysobj s q) - (if q = l then 1 else 0)" if "q \<in> live s" for q
      using c(8) [OF that] by (simp add: f_def)
    show ?thesis
    proof (cases "refs_to s l = {p}")
      case True
      have "lk s1 l = None" "l \<in> live s1" using lt c(3) live1 by simp_all
      then obtain s2 where s2: "delete_texture l s1 = Some s2" "list_inv s2 (remove1 l xs)" "dropped l s1 s2"
        using drop_ok [of s1 xs l] delete_plain [of l s1] c(1,6,7) i live1 by auto
      have d: "live s2 = live s - {l}" "table_inv s2" "prov_ok s2" "\<And>q. q \<noteq> l \<Longrightarrow> kof s2 q = kof s q \<and> lk s2 q = lk s q \<and> ty s2 q = ty s q"
          "\<And>q. q \<in> live s - {l} \<Longrightarrow> sysobj s2 q = sysobj s1 q"
        using s2(3) c(2-4) live1 by (auto simp: dropped_def)
      have "textures s2 l = None" using d(1) by auto
      then have "lk s2 l = lk s l" using lt(6) by (simp add: lk_def)
      then have lk2: "lk s2 = lk s" using d(4) by (metis ext)
      have "set (remove1 l xs) = live s2" using i(1,2) d(1) by (simp add: list_inv_def set_remove1_eq)
      then obtain s' where "do { s \<leftarrow> update_tx p (\<lambda>t. t\<lparr>tx_linked_agp := None\<rparr>) s2; drop_texture p s } = Some s'"
          "shared_inv s' (remove1 p (remove1 l xs))" "kept_others (insert p {l}) s s'"
        using delete_behind_link [OF i(3,5) Some _ p(2) s2(2) _ d(2,3) lk2 d(1)] p(1) lt(5) d(4,5) rc True by force
      moreover have "deleted_with s p = insert p {l}" using Some True by (simp add: deleted_with_def)
      ultimately show ?thesis using del True s2(1) by auto
    next
      case False
      have s1: "list_inv s1 xs" "prov_ok s1" "set xs = live s1" "live s1 = live s - {}" "p \<in> live s - {}" using c(6,7) i live1 p by simp_all
      obtain s' where "do { s \<leftarrow> update_tx p (\<lambda>t. t\<lparr>tx_linked_agp := None\<rparr>) s1; drop_texture p s } = Some s'"
          "shared_inv s' (remove1 p xs)" "kept_others {p} s s'"
        using delete_behind_link [OF i(3,5) Some s1(5) p(2) s1(1,3) c(1) s1(2) c(3) s1(4)] c(2,4) rc by auto
      moreover have "deleted_with s p = {p}" using Some False by (simp add: deleted_with_def)
      ultimately show ?thesis using del False by auto
    qed
  qed
qed

end
