(* ===== verification/GL_Create.thy ===== *)
theory GL_Create
  imports GL_Delete
begin

text \<open>
  The steps of creating a texture of \<open>GL_Shared\<close>: a place in the tables, the memory of the client, the reference and
  the list.
\<close>

section \<open>A new texture in the tables\<close>

lemma find_nat: "find P [0..<n] = Some i \<Longrightarrow> i < n \<and> P i" "find P [0..<n] = None \<Longrightarrow> i < n \<Longrightarrow> \<not> P i"
  by (auto simp: find_Some_iff find_None_iff)

lemma sysobj_at: "table_inv s \<Longrightarrow> q \<in> live s \<Longrightarrow> \<exists>k < 146. kof s q = Some k \<and> sysobj s q = sys_objs s ! k \<and> so_in_use (sys_objs s ! k) \<noteq> 0"
  by (rule entryE [of s q]) (auto simp: sysobj_def)

text \<open>The state with a texture \<open>p\<close> that is in the tables and not in the list yet.\<close>

definition made :: "'h CEsvga2Shared \<Rightarrow> nat list \<Rightarrow> nat \<Rightarrow> bool" where
  "made s xs p \<longleftrightarrow> list_inv s xs \<and> p \<notin> set xs \<and> set (p # xs) = live s \<and> table_inv s \<and> link_inv s \<and> prov_ok s"

definition half_made :: "'h CEsvga2Shared \<Rightarrow> nat list \<Rightarrow> nat \<Rightarrow> u8 \<Rightarrow> bool" where
  "half_made s xs p obj_type \<longleftrightarrow> made s xs p \<and> ty s p = Some obj_type \<and> lk s p = None \<and> refs_to s p = {}"

lemma table_add:
  assumes inv: "table_inv s" "m_client_sys_objs_map s \<noteq> None" and p: "p \<notin> live s"
    and i: "i < 128" "handles s ! i = None" and k: "k < 146" "so_in_use (sys_objs s ! k) = 0"
    and so: "so_in_use so = 1" "so_object_id so = of_nat i" and t: "tx_sys_obj t = Some k"
  defines "s' \<equiv> s\<lparr>m_handle_table := Some ((handles s)[i := Some p]), sys_objs := (sys_objs s)[k := so], textures := (textures s)(p \<mapsto> t)\<rparr>"
  shows "table_inv s'" "\<And>q. q \<in> live s \<Longrightarrow> sysobj s' q = sysobj s q" "sysobj s' p = so"
proof -
  have l: "length (handles s) = 128" "m_num_handles s = 128" "length (sys_objs s) = 146" using inv by (auto simp: table_inv_def split: if_splits)
  have hs: "handles s' = (handles s)[i := Some p]" by (simp add: s'_def handles_def)
  have kq: "kof s' q = kof s q" if "q \<noteq> p" for q using that by (simp add: kof_def s'_def)
  have kp: "kof s' p = Some k" using t by (simp add: kof_def s'_def)
  then show sp: "sysobj s' p = so" using k l by (simp add: sysobj_def s'_def)
  show same: "sysobj s' q = sysobj s q" if q: "q \<in> live s" for q
  proof -
    obtain j where j: "kof s q = Some j" "so_in_use (sys_objs s ! j) \<noteq> 0" using sysobj_at [OF inv(1) q] by blast
    have "q \<noteq> p" "j \<noteq> k" using p q k j by auto
    then show ?thesis using j kq [of q] by (simp add: sysobj_def) (simp add: s'_def)
  qed
  have ui: "unat (of_nat i :: u32) = i" using i by (intro unat_of_nat_small) simp
  have "has_entry s' q" if q: "q \<in> live s" for q
  proof (rule entryE [OF inv(1) q])
    fix j assume j: "kof s q = Some j" "j < 146" "so_in_use (sys_objs s ! j) \<noteq> 0"
      "unat (so_object_id (sys_objs s ! j)) < 128" "handles s ! unat (so_object_id (sys_objs s ! j)) = Some q"
    have "j \<noteq> k" "q \<noteq> p" "unat (so_object_id (sys_objs s ! j)) \<noteq> i" using j i k p q by auto
    moreover from this have "sys_objs s' ! j = sys_objs s ! j" by (simp add: s'_def)
    ultimately show ?thesis using j kq [of q] by (simp add: has_entry_def hs)
  qed
  moreover have "has_entry s' p" using kp k l so ui i by (simp add: has_entry_def hs) (simp add: s'_def)
  moreover have "r \<in> live s' \<and> unat (so_object_id (sysobj s' r)) = j" if j: "j < 128" "handles s' ! j = Some r" for j r
  proof (cases "j = i")
    case True
    then have "r = p" using j l by (simp add: hs)
    then show ?thesis using True sp so ui by (simp add: s'_def)
  next
    case False
    then have h: "handles s ! j = Some r" using j by (simp add: hs)
    from handles_live [OF inv(1) j(1) h] show ?thesis using same [of r] by (auto simp: s'_def)
  qed
  moreover have "live s' = insert p (live s)" by (simp add: s'_def)
  ultimately show "table_inv s'" using inv l hs by (auto simp: table_inv_def s'_def)
qed

lemma new_links:
  assumes "link_inv s" "p \<notin> live s" "live s' = insert p (live s)" "\<And>q. q \<noteq> p \<Longrightarrow> ty s' q = ty s q \<and> lk s' q = lk s q" "lk s' p = None"
    and "\<And>q. q \<in> live s \<Longrightarrow> sysobj s' q = sysobj s q" "so_refcount (sysobj s' p) = 0"
  shows "link_inv s'" "refs_to s' p = {}"
proof -
  have "textures s p = None" using assms(2) by (simp add: domIff)
  then have np: "lk s p = None" by (simp add: lk_def)
  then have lk: "lk s' = lk s" using assms(4,5) by (metis ext)
  have none: "lk s q \<noteq> Some p" for q using link_types(3) [OF assms(1)] assms(2) by blast
  then show "refs_to s' p = {}" by (simp add: refs_to_def lk)
  have "ty s' q = ty s q \<and> ty s' r = ty s r" if "lk s q = Some r" for q r
    using assms(4) none that np by (metis option.distinct(1))
  then show "link_inv s'" using assms(1,3,6,7) none unfolding link_inv_def lk by auto
qed

text \<open>The array of system objects is allocated with the first texture.\<close>

definition with_sys_objs :: "u64 option \<Rightarrow> 'h CEsvga2Shared \<Rightarrow> 'h CEsvga2Shared" where
  "with_sys_objs sys_mem s =
     (if m_client_sys_objs_map s \<noteq> None \<or> sys_mem = None then s
      else s\<lparr>m_client_sys_objs_map := sys_mem, sys_objs := replicate 146 zero_sys_obj\<rparr>)"

lemma with_sys_objs_handle:
  "with_sys_objs sys_mem (s\<lparr>m_handle_table := h\<rparr>) = (with_sys_objs sys_mem s)\<lparr>m_handle_table := h\<rparr>"
  by (simp add: with_sys_objs_def)

lemma with_sys_objs_fields [simp]:
  "textures (with_sys_objs sys_mem s) = textures s" "m_handle_table (with_sys_objs sys_mem s) = m_handle_table s"
  "m_num_handles (with_sys_objs sys_mem s) = m_num_handles s" "handles (with_sys_objs sys_mem s) = handles s"
  "kof (with_sys_objs sys_mem s) = kof s" "lk (with_sys_objs sys_mem s) = lk s" "ty (with_sys_objs sys_mem s) = ty s"
  by (simp_all add: with_sys_objs_def handles_def kof_def [abs_def] lk_def [abs_def] ty_def [abs_def])

lemma with_sys_objs_ok:
  assumes "shared_inv s xs"
  shows "shared_inv (with_sys_objs sys_mem s) xs"
proof (cases "m_client_sys_objs_map s \<noteq> None \<or> sys_mem = None")
  case False
  then have e: "live s = {}" using assms by (auto simp: shared_inv_def table_inv_def)
  have s': "with_sys_objs sys_mem s = s\<lparr>m_client_sys_objs_map := sys_mem, sys_objs := replicate 146 zero_sys_obj\<rparr>" (is "_ = ?s")
    using False by (auto simp: with_sys_objs_def)
  have "live ?s = {}" "handles ?s = handles s" using e by (simp_all add: handles_def)
  then have "table_inv ?s" using assms False e by (auto simp: shared_inv_def table_inv_def)
  moreover have "lk ?s = lk s" "ty ?s = ty s" by (simp_all add: lk_def [abs_def] ty_def [abs_def])
  then have "link_inv ?s" using assms e by (simp add: shared_inv_def link_inv_def)
  ultimately show ?thesis unfolding s' using assms by (auto simp: shared_inv_def list_inv_def prov_ok_def)
qed (use assms in \<open>auto simp: with_sys_objs_def\<close>)

lemma alloc_client_shared_cases:
  assumes "alloc_client_shared sys_mem s = (rc, r, s')"
  obtains "r = None" "s' = with_sys_objs sys_mem s"
  | k addr where "r = Some (k, addr)" "k < 146" "so_in_use (sys_objs (with_sys_objs sys_mem s) ! k) = 0"
      "m_client_sys_objs_map (with_sys_objs sys_mem s) \<noteq> None"
      "s' = update_sys_obj k (\<lambda>_. zero_sys_obj\<lparr>so_in_use := 1\<rparr>) (with_sys_objs sys_mem s)"
proof -
  have "alloc_client_shared sys_mem s =
      (case m_client_sys_objs_map (with_sys_objs sys_mem s) of None \<Rightarrow> (kIOReturnNoMemory, None, with_sys_objs sys_mem s)
       | Some client_addr \<Rightarrow>
         (case find (\<lambda>i. so_in_use (sys_objs (with_sys_objs sys_mem s) ! i) = 0) [0..<146] of
            None \<Rightarrow> (kIOReturnNoResources, None, with_sys_objs sys_mem s)
          | Some i \<Rightarrow> (kIOReturnSuccess, Some (i, client_addr + of_nat (i * 56)),
              update_sys_obj i (\<lambda>_. zero_sys_obj\<lparr>so_in_use := 1\<rparr>) (with_sys_objs sys_mem s))))"
    unfolding alloc_client_shared_def with_sys_objs_def Let_def ..
  then show thesis using assms that find_nat(1) [of "\<lambda>i. so_in_use (sys_objs (with_sys_objs sys_mem s) ! i) = 0" 146]
    by (cases "m_client_sys_objs_map (with_sys_objs sys_mem s)";
        cases "find (\<lambda>i. so_in_use (sys_objs (with_sys_objs sys_mem s) ! i) = 0) [0..<146]") auto
qed

lemma alloc_buf_handle_cases:
  assumes "table_inv s" "alloc_buf_handle p s = (r, s')"
  obtains "r = None" "s' = s"
  | i where "r = Some (of_nat i)" "i < 128" "handles s ! i = None" "unat (of_nat i :: u32) = i" "s' = s\<lparr>m_handle_table := Some ((handles s)[i := Some p])\<rparr>"
proof -
  have n: "m_num_handles s = 128" using assms(1) by (simp add: table_inv_def)
  show thesis
  proof (cases "find (\<lambda>i. handles s ! i = None) [0..<128]")
    case None
    then show thesis using assms(2) n that(1) by (simp add: alloc_buf_handle_def)
  next
    case (Some i)
    from find_nat(1) [OF this] have i: "i < 128" "handles s ! i = None" by simp_all
    have "unat (of_nat i :: u32) = i" using i by (intro unat_of_nat_small) simp
    then show thesis using assms(2) n Some i that(2) [of i] by (simp add: alloc_buf_handle_def)
  qed
qed

definition same_textures :: "'h CEsvga2Shared \<Rightarrow> 'h CEsvga2Shared \<Rightarrow> bool" where
  "same_textures s s' \<longleftrightarrow> (\<forall>q \<in> live s. kof s' q = kof s q \<and> ty s' q = ty s q \<and> lk s' q = lk s q)"

lemma common_texture_init_fails:
  assumes "shared_inv s xs" "common_texture_init obj_type fresh sys_mem s = (None, s')"
  shows "shared_inv s' xs \<and> live s' = live s \<and> same_textures s s'"
proof -
  have t: "table_inv s" "m_handle_table s = Some (handles s)" "m_num_handles s = 128" "length (handles s) = 128"
    using assms(1) by (auto simp: shared_inv_def table_inv_def handles_def)
  have "s' = s \<or> s' = with_sys_objs sys_mem s"
  proof (cases fresh)
    case (Some p)
    obtain r u where a: "alloc_buf_handle p s = (r, u)" by (rule prod.exhaust)
    show ?thesis
    proof (rule alloc_buf_handle_cases [OF t(1) a])
      fix i assume i: "r = Some (of_nat i)" "i < 128" "handles s ! i = None" "unat (of_nat i :: u32) = i" "u = s\<lparr>m_handle_table := Some ((handles s)[i := Some p])\<rparr>"
      let ?h = "(handles s)[i := Some p]" and ?w = "with_sys_objs sys_mem s"
      have "?h[i := None] = handles s" using i t by (metis list_update_id list_update_overwrite)
      moreover have "handles (?w\<lparr>m_handle_table := Some ?h\<rparr>) = ?h" by (simp add: handles_def)
      ultimately have "free_buf_handle p (of_nat i) (?w\<lparr>m_handle_table := Some ?h\<rparr>) = ?w\<lparr>m_handle_table := Some (handles s)\<rparr>"
        using i(2,4) t(3,4) by (simp add: free_buf_handle_def)
      also have "\<dots> = ?w" by (rule CEsvga2Shared.equality) (simp_all add: t(2))
      finally have f: "free_buf_handle p (of_nat i) (with_sys_objs sys_mem u) = ?w" by (simp add: i with_sys_objs_handle)
      obtain rc q v where c: "alloc_client_shared sys_mem u = (rc, q, v)" by (rule prod_cases3)
      show ?thesis
        by (rule alloc_client_shared_cases [OF c]) (use assms(2) Some a c i(1) f in \<open>auto simp: common_texture_init_def\<close>)
    qed (use assms(2) Some a in \<open>auto simp: common_texture_init_def\<close>)
  qed (use assms(2) in \<open>auto simp: common_texture_init_def\<close>)
  then show ?thesis using assms(1) with_sys_objs_ok [OF assms(1)] by (auto simp: same_textures_def)
qed

lemma common_texture_init_makes:
  assumes inv: "shared_inv s xs" and r: "common_texture_init obj_type fresh sys_mem s = (Some p, s')" and new: "p \<notin> live s"
  shows "fresh = Some p" "half_made s' xs p obj_type" "live s' = insert p (live s)" "same_textures s s'"
proof -
  have t: "table_inv s" using inv by (simp add: shared_inv_def)
  show f: "fresh = Some p" using r by (auto simp: common_texture_init_def split: option.splits prod.splits)
  obtain a u where a: "alloc_buf_handle p s = (a, u)" by (rule prod.exhaust)
  obtain i where i: "a = Some (of_nat i)" "i < 128" "handles s ! i = None" "unat (of_nat i :: u32) = i" "u = s\<lparr>m_handle_table := Some ((handles s)[i := Some p])\<rparr>"
    by (rule alloc_buf_handle_cases [OF t a]) (use r f a in \<open>auto simp: common_texture_init_def\<close>)
  obtain rc q v where c: "alloc_client_shared sys_mem u = (rc, q, v)" by (rule prod_cases3)
  let ?w = "with_sys_objs sys_mem s"
  have w: "with_sys_objs sys_mem u = ?w\<lparr>m_handle_table := Some ((handles s)[i := Some p])\<rparr>" by (simp add: i with_sys_objs_handle)
  obtain k addr where k: "q = Some (k, addr)" "k < 146" "so_in_use (sys_objs ?w ! k) = 0" "m_client_sys_objs_map ?w \<noteq> None"
      "v = update_sys_obj k (\<lambda>_. zero_sys_obj\<lparr>so_in_use := 1\<rparr>) (with_sys_objs sys_mem u)"
    by (rule alloc_client_shared_cases [OF c]) (use r f a c i(1) w in \<open>auto simp: common_texture_init_def\<close>)
  have iw: "shared_inv ?w xs" by (rule with_sys_objs_ok [OF inv])
  then have tw: "table_inv ?w" "link_inv ?w" by (simp_all add: shared_inv_def)
  have len: "length (sys_objs ?w) = 146" using tw(1) k(4) by (simp add: table_inv_def)
  define so where "so = zero_sys_obj\<lparr>so_object_id := of_nat i, so_stamps := (0, 0), so_type := obj_type, so_in_use := 1\<rparr>"
  have e: "s' = update_sys_obj k (\<lambda>so. so\<lparr>so_object_id := of_nat i, so_stamps := (0, 0), so_type := obj_type, so_in_use := 1\<rparr>)
      (v\<lparr>textures := (textures v)(p \<mapsto> new_buffer k addr obj_type)\<rparr>)"
    using r f a c i(1) k(1) by (simp add: common_texture_init_def)
  have s': "s' = ?w\<lparr>m_handle_table := Some ((handles ?w)[i := Some p]), sys_objs := (sys_objs ?w)[k := so],
      textures := (textures ?w)(p \<mapsto> new_buffer k addr obj_type)\<rparr>"
    by (rule CEsvga2Shared.equality) (use k(2) len in \<open>simp_all add: e k(5) w update_sys_obj_def so_def zero_sys_obj_def\<close>)
  have nb: "tx_sys_obj (new_buffer k addr obj_type) = Some k" "tx_sys_obj_type (new_buffer k addr obj_type) = obj_type"
    "tx_linked_agp (new_buffer k addr obj_type) = None" by (simp_all add: new_buffer_def)
  have sof: "so_in_use so = 1" "so_object_id so = of_nat i" "so_refcount so = 0" by (simp_all add: so_def zero_sys_obj_def)
  have nw: "p \<notin> live ?w" "handles ?w ! i = None" using new i(3) by simp_all
  note ta = table_add [OF tw(1) k(4) nw(1) i(2) nw(2) k(2,3) sof(1,2) nb(1), folded s']
  show lv: "live s' = insert p (live s)" by (simp add: s')
  have q: "kof s' q = kof s q \<and> ty s' q = ty s q \<and> lk s' q = lk s q" if "q \<noteq> p" for q
    using that by (simp add: s' kof_def ty_def lk_def)
  show "same_textures s s'" using q new unfolding same_textures_def by metis
  have pp: "ty s' p = Some obj_type" "lk s' p = None" using nb by (simp_all add: s' ty_def lk_def)
  have nl: "link_inv s'" "refs_to s' p = {}"
    by (rule new_links [OF tw(2) nw(1)]; use q pp lv ta sof in simp)+
  have x: "p \<notin> set xs" "set (p # xs) = live s'" using inv new lv by (simp_all add: shared_inv_def)
  moreover have "list_inv s' xs" using iw x(1) by (simp add: shared_inv_def list_inv_def s')
  moreover have "prov_ok s'" using iw by (simp add: shared_inv_def prov_ok_def s')
  ultimately show "half_made s' xs p obj_type" using ta(1) nl pp by (simp add: half_made_def made_def)
qed

section \<open>From the tables into the list\<close>

lemma same_textures_trans: "same_textures s t \<Longrightarrow> same_textures t u \<Longrightarrow> live s \<subseteq> live t \<Longrightarrow> same_textures s u"
  unfolding same_textures_def by (metis subsetD)

lemma made_link:
  assumes "made s xs p"
  shows "\<exists>s'. link_texture_at_head p s = Some s' \<and> shared_inv s' (p # xs) \<and> live s' = live s \<and> same_textures s s'"
proof -
  have m: "list_inv s xs" "p \<notin> set xs" "set (p # xs) = live s" "table_inv s" "link_inv s" "prov_ok s" using assms by (simp_all add: made_def)
  then obtain t where "textures s p = Some t" by (metis domD list.set_intros(1))
  then obtain s' where s': "link_texture_at_head p s = Some s'" "list_inv s' (p # xs)" "same_core s s'" using link_ok [OF m(1,2)] by blast
  note pr = same_core_proj [OF s'(3)]
  show ?thesis using s' m pr same_core_inv [OF s'(3)] by (simp add: shared_inv_def same_textures_def)
qed

text \<open>A change of the new texture that concerns neither its system object, its type nor the list.\<close>

definition plain_change :: "(CEsvga2TextureBuffer \<Rightarrow> CEsvga2TextureBuffer) \<Rightarrow> bool" where
  "plain_change f \<longleftrightarrow> (\<forall>t. tx_sys_obj (f t) = tx_sys_obj t \<and> tx_sys_obj_type (f t) = tx_sys_obj_type t \<and> tx_prev (f t) = tx_prev t \<and> tx_next (f t) = tx_next t)"

lemma half_made_change:
  assumes "half_made s xs p obj_type" "plain_change f" "\<And>t. tx_linked_agp (f t) = tx_linked_agp t"
  shows "\<exists>s'. update_tx p f s = Some s' \<and> half_made s' xs p obj_type \<and> live s' = live s \<and> same_textures s s'"
proof -
  have m: "made s xs p" "ty s p = Some obj_type" "lk s p = None" "refs_to s p = {}" using assms(1) by (simp_all add: half_made_def)
  then obtain t where t: "textures s p = Some t" by (metis domD list.set_intros(1) made_def)
  let ?s = "s\<lparr>textures := (textures s)(p \<mapsto> f t)\<rparr>"
  note c = texture_change [OF t, of "f t"]
  have f: "tx_sys_obj (f t) = tx_sys_obj t" "tx_sys_obj_type (f t) = tx_sys_obj_type t" "tx_prev (f t) = tx_prev t" "tx_next (f t) = tx_next t"
    using assms(2) by (simp_all add: plain_change_def)
  have "lk s p = tx_linked_agp t" using t by (simp add: lk_def)
  then have "lk ?s = lk s" using c(3) [OF f] assms(3) [of t] by (simp add: fun_upd_idem)
  then show ?thesis using m t c [OF f] link_inv_cong [of s ?s]
    by (auto simp: half_made_def made_def update_tx_def refs_to_def same_textures_def)
qed

lemma half_made_refer:
  assumes h: "half_made s xs p obj_type" and f: "plain_change f" "\<And>t. tx_linked_agp (f t) = Some l"
    and ty: "obj_type = TEX_TYPE_AGPREF \<or> obj_type = TEX_TYPE_OOB" "ty s l = Some TEX_TYPE_AGP"
  shows "\<exists>s'. do { s \<leftarrow> update_tx p f s; add_reference l s } = Some s' \<and> made s' xs p \<and> live s' = live s \<and>
    (\<forall>q \<in> live s - {p}. kof s' q = kof s q \<and> ty s' q = ty s q \<and> lk s' q = lk s q) \<and> ty s' p = Some obj_type \<and> lk s' p = Some l"
proof -
  have m: "list_inv s xs" "p \<notin> set xs" "set (p # xs) = live s" "table_inv s" "link_inv s" "prov_ok s" "ty s p = Some obj_type" "lk s p = None"
    using h by (simp_all add: half_made_def made_def)
  obtain t where t: "textures s p = Some t" using m(7) by (auto simp: ty_def)
  let ?s = "s\<lparr>textures := (textures s)(p \<mapsto> f t)\<rparr>"
  have ft: "tx_sys_obj (f t) = tx_sys_obj t" "tx_sys_obj_type (f t) = tx_sys_obj_type t" "tx_prev (f t) = tx_prev t" "tx_next (f t) = tx_next t"
    using f(1) by (simp_all add: plain_change_def)
  note c = texture_change [OF t ft]
  have l: "l \<in> live ?s" "l \<in> live s" "l \<noteq> p" using ty m(7) by (auto simp: ty_def)
  have ti: "table_inv ?s" using c(6) m(4) by simp
  obtain k where k: "kof ?s l = Some k" using entryE [OF ti l(1)] by blast
  define g :: "GLDSysObject \<Rightarrow> GLDSysObject" where "g = (\<lambda>so. so\<lparr>so_refcount := so_refcount so + 1\<rparr>)"
  define s' where "s' = update_sys_obj k g ?s"
  have "so_in_use (g so) = so_in_use so \<and> so_object_id (g so) = so_object_id so" for so by (simp add: g_def)
  note d = sys_obj_change [OF ti l(1) k this, folded s'_def]
  have lk: "lk s' = (lk s)(p := Some l)" using d(3) c(3) f(2) by simp
  have refs: "{r. lk s' r = Some q} = (if q = l then insert p (refs_to s q) else refs_to s q)" for q using m(8) by (auto simp: lk refs_to_def)
  have rcnt: "so_refcount (sysobj s' q) = of_nat (card {r. lk s' r = Some q})" if q: "q \<in> live s" for q
  proof -
    have "p \<notin> refs_to s q" using m(8) by (simp add: refs_to_def)
    then show ?thesis using refcount_word(1,2) [OF m(4,5) q] d(8) [of q] c(4,5) q unfolding refs by (cases "q = l") (simp_all add: g_def)
  qed
  have tys: "ty s' = ty s" using d(4) c(2) by simp
  have "link_inv s'" unfolding link_inv_def
    using rcnt link_types(1,2) [OF m(5)] m(7) ty d(5) c(4) by (auto simp: lk tys split: if_splits)
  moreover have "add_reference l ?s = Some s'" using k by (auto simp: add_reference_def kof_def s'_def g_def bind_eq_Some_conv)
  ultimately show ?thesis using t m d c lk f(2) [of t] by (auto simp: made_def update_tx_def)
qed

section \<open>Memory of the client\<close>

lemma agp_search_ok:
  assumes "dseg (textures s) pv p xs l None"
  shows "\<exists>r s'. agp_search matches persistent p s = Some (r, s') \<and>
    (case r of Inl q \<Rightarrow> s' = s \<and> q \<in> set xs \<and> (\<exists>t. textures s q = Some t \<and> matches t) \<and> persistent q = same_md
     | Inr m \<Rightarrow> s' = s \<and> m = None \<or>
         (\<exists>q t. textures s q = Some t \<and> s' = s\<lparr>textures := (textures s)(q \<mapsto> t\<lparr>tx_mem_changed := 1\<rparr>)\<rparr> \<and>
            persistent q = (case m of None \<Rightarrow> no_md | Some (md, len) \<Rightarrow> changed_md md len)))"
  using assms
proof (induction xs arbitrary: pv p)
  case Nil
  then show ?case by (subst agp_search.simps) simp
next
  case (Cons x xs)
  then obtain t where t: "p = Some x" "textures s x = Some t" "dseg (textures s) (Some x) (tx_next t) xs l None" by auto
  show ?case
  proof (cases "matches t")
    case True
    then show ?thesis using t by (subst agp_search.simps) (cases "persistent x"; auto simp: update_tx_def)
  next
    case False
    then have e: "agp_search matches persistent p s = agp_search matches persistent (tx_next t) s" using t by (subst agp_search.simps) simp
    show ?thesis using Cons.IH [OF t(3)] unfolding e by (fastforce split: sum.splits)
  qed
qed

lemma mem_changed_ok:
  assumes "shared_inv s xs" "textures s q = Some t" "s' = s\<lparr>textures := (textures s)(q \<mapsto> t\<lparr>tx_mem_changed := 1\<rparr>)\<rparr>"
  shows "shared_inv s' xs \<and> live s' = live s \<and> same_textures s s'"
proof -
  note c = texture_change [OF assms(2), of "t\<lparr>tx_mem_changed := 1\<rparr>", folded assms(3), simplified]
  have "lk s q = tx_linked_agp t" using assms(2) by (simp add: lk_def)
  then have "lk s' = lk s" using c(3) by (simp add: fun_upd_idem)
  then show ?thesis using assms(1) c link_inv_cong [of s s'] by (auto simp: shared_inv_def same_textures_def)
qed

text \<open>What a successful or failing creation may do: the new texture \<open>r\<close>, and the allocated addresses \<open>A\<close>.\<close>

definition grown :: "'h CEsvga2Shared \<Rightarrow> nat set \<Rightarrow> 'h CEsvga2Shared \<Rightarrow> bool" where
  "grown s A s' \<longleftrightarrow> (\<exists>xs. shared_inv s' xs) \<and> live s \<subseteq> live s' \<and> live s' \<subseteq> live s \<union> A \<and> same_textures s s'"

lemma agp_common_ok:
  assumes inv: "shared_inv s xs" and new: "set_option (ae_fresh env) \<inter> live s = {}"
  shows "\<exists>r s'. agp_common env off md down s = Some (r, s') \<and> grown s (set_option r) s' \<and>
    (\<forall>p. r = Some p \<longrightarrow> ty s' p = Some TEX_TYPE_AGP \<and> ae_fresh env = Some p)"
proof -
  obtain r u where c: "common_texture_init TEX_TYPE_AGP (ae_fresh env) (ae_sys_mem env) s = (r, u)" by (rule prod.exhaust)
  show ?thesis
  proof (cases r)
    case None
    then show ?thesis using c common_texture_init_fails [OF inv, of TEX_TYPE_AGP "ae_fresh env" "ae_sys_mem env" u] by (auto simp: agp_common_def grown_def)
  next
    case (Some p)
    have fr: "ae_fresh env = Some p" using c Some by (auto simp: common_texture_init_def split: option.splits prod.splits)
    then have "p \<notin> live s" using new by simp
    note mk = common_texture_init_makes [OF inv c [unfolded Some] this]
    let ?f = "\<lambda>t. t\<lparr>tx_xfer := (tx_xfer t)\<lparr>xfer_md := Some (fst md)\<rparr>, tx_agp_offset_in_page := off, tx_agp_addr := down, tx_agp_size := snd md, tx_mem_changed := 0\<rparr>"
    obtain v where v: "update_tx p ?f u = Some v" "half_made v xs p TEX_TYPE_AGP" "live v = live u" "same_textures u v"
      using half_made_change [OF mk(2), of ?f] by (auto simp: plain_change_def)
    obtain w where w: "link_texture_at_head p v = Some w" "shared_inv w (p # xs)" "live w = live v" "same_textures v w"
      using made_link [of v xs p] v(2) by (auto simp: half_made_def)
    have st: "same_textures s w" using same_textures_trans [OF same_textures_trans [OF mk(4) v(4)] w(4)] mk(3) v(3) by auto
    have "ty v p = Some TEX_TYPE_AGP" "p \<in> live v" using v(2) by (auto simp: half_made_def ty_def)
    then have "ty w p = Some TEX_TYPE_AGP" using w(4) by (simp add: same_textures_def)
    then show ?thesis using c Some v(1) w(1,2,3) v(3) mk(3) st fr by (auto simp: agp_common_def grown_def)
  qed
qed

end
