(* ===== verification/GL_NewTexture.thy ===== *)
theory GL_NewTexture
  imports GL_Create
begin

text \<open>
  The methods of \<open>GL_Shared\<close> that create textures always return, keep the invariant, and on failure leave the textures as
  they were.
\<close>

section \<open>Textures in client memory\<close>

lemma ty_live: "ty s p = Some k \<Longrightarrow> p \<in> live s" by (auto simp: ty_def)

lemma grown_trans: "grown s A t \<Longrightarrow> grown t B u \<Longrightarrow> grown s (A \<union> B) u"
  unfolding grown_def using same_textures_trans by blast

lemma same_textures_refl: "same_textures s s" by (simp add: same_textures_def)

lemma grown_refl: "shared_inv s xs \<Longrightarrow> grown s A s" by (auto simp: grown_def same_textures_def)

lemma new_agp_texture_ok:
  assumes inv: "shared_inv s xs" and new: "set_option (ae_fresh env) \<inter> live s = {}"
  shows "\<exists>r s'. new_agp_texture env pixels sz ro s = Some (r, s') \<and> grown s (set_option r) s' \<and>
    (\<forall>p. r = Some p \<longrightarrow> ty s' p = Some TEX_TYPE_AGP \<and> (p \<in> live s \<or> ae_fresh env = Some p))"
proof -
  let ?m = "agp_matches (pixels AND 4095) (pixels AND - 4096) ((pixels AND 4095) + sz + 4095 AND - 4096)"
  have li: "list_inv s xs" "set xs = live s" using inv by (simp_all add: shared_inv_def)
  then obtain l where "dseg (textures s) None (m_texture_list s) xs l None" by (auto simp: list_inv_def)
  from agp_search_ok [OF this, of ?m "ae_persistent env"] obtain r u where
    r: "agp_search ?m (ae_persistent env) (m_texture_list s) s = Some (r, u)"
      "case r of Inl q \<Rightarrow> u = s \<and> q \<in> set xs \<and> (\<exists>t. textures s q = Some t \<and> ?m t) \<and> ae_persistent env q = same_md
       | Inr m \<Rightarrow> u = s \<and> m = None \<or> (\<exists>q t. textures s q = Some t \<and> u = s\<lparr>textures := (textures s)(q \<mapsto> t\<lparr>tx_mem_changed := 1\<rparr>)\<rparr> \<and>
           ae_persistent env q = (case m of None \<Rightarrow> no_md | Some (md, len) \<Rightarrow> changed_md md len))" by blast
  have common: "\<exists>r s'. agp_common env off md down v = Some (r, s') \<and> grown s (set_option r) s' \<and>
      (\<forall>p. r = Some p \<longrightarrow> ty s' p = Some TEX_TYPE_AGP \<and> (p \<in> live s \<or> ae_fresh env = Some p))"
    if v: "shared_inv v xs" "live v = live s" "same_textures s v" for off md down v
  proof -
    obtain r s' where rs: "agp_common env off md down v = Some (r, s')" "grown v (set_option r) s'"
        "\<forall>p. r = Some p \<longrightarrow> ty s' p = Some TEX_TYPE_AGP \<and> ae_fresh env = Some p"
      using agp_common_ok [OF v(1), of env off md down] new v(2) by auto
    then show ?thesis using grown_trans [of s "{}" v "set_option r" s'] v by (auto simp: grown_def)
  qed
  show ?thesis
  proof (cases "pixels AND - 4096 = 0")
    case True
    then show ?thesis using common [OF inv] grown_refl [OF inv] by (auto simp: new_agp_texture_def same_textures_def Let_def split: option.split)
  next
    case False
    note e = new_agp_texture_def [of env pixels sz ro s]
    show ?thesis
    proof (cases r)
      case (Inl q)
      then have q: "u = s" "q \<in> set xs" "ty s q = Some TEX_TYPE_AGP" using r(2) by (auto simp: agp_matches_def ty_def)
      show ?thesis
      proof (cases "m_texture_list s = Some q")
        case True
        then show ?thesis using False r(1) Inl q e grown_refl [OF inv, of "{q}"] ty_live [OF q(3)] by (simp add: Let_def)
      next
        case nonhead: False
        obtain s' where s': "do { s \<leftarrow> unlink_nonhead_texture q s; link_texture_at_head q s } = Some s'" "list_inv s' (q # remove1 q xs)" "same_core s s'"
          using move_to_front [OF li(1) q(2) nonhead] by blast
        note pr = same_core_proj [OF s'(3)]
        have "set (q # remove1 q xs) = live s'" using li q(2) pr(4) by (auto simp: list_inv_def)
        then have "shared_inv s' (q # remove1 q xs)" using s'(2) inv same_core_inv [OF s'(3)] by (simp add: shared_inv_def)
        then have "grown s {q} s'" "ty s' q = Some TEX_TYPE_AGP" using pr q(3) by (auto simp: grown_def same_textures_def)
        then show ?thesis using False r(1) Inl q(1) e nonhead s'(1) ty_live [OF q(3)] by (auto simp: Let_def bind_eq_Some_conv)
      qed
    next
      case (Inr b)
      have u: "shared_inv u xs \<and> live u = live s \<and> same_textures s u"
        using r(2) mem_changed_ok [OF inv] inv same_textures_refl unfolding Inr sum.case by metis
      have g: "grown s {} u" using u by (auto simp: grown_def)
      show ?thesis using False r(1) Inr e common [of u] u g by (auto simp: Let_def agp_user_def split: option.split)
    qed
  qed
qed

section \<open>Linked textures\<close>

text \<open>Every texture of client memory has a reference.\<close>

definition no_orphans :: "'h CEsvga2Shared \<Rightarrow> bool" where
  "no_orphans s \<longleftrightarrow> (\<forall>l. ty s l = Some TEX_TYPE_AGP \<longrightarrow> refs_to s l \<noteq> {})"

definition shared_ok :: "'h CEsvga2Shared \<Rightarrow> bool" where
  "shared_ok s \<longleftrightarrow> (\<exists>xs. shared_inv s xs) \<and> no_orphans s"

lemma delete_no_orphans:
  assumes "no_orphans s" "link_inv s" "kept_others (deleted_with s p) s s'" "p \<in> live s"
  shows "no_orphans s'"
  unfolding no_orphans_def
proof (intro allI impI)
  fix l assume l: "ty s' l = Some TEX_TYPE_AGP"
  then have ll: "l \<in> live s - deleted_with s p" "ty s l = Some TEX_TYPE_AGP" using assms(3) ty_live [OF l] by (auto simp: kept_others_def)
  then obtain q where q: "lk s q = Some l" using assms(1) by (auto simp: no_orphans_def refs_to_def)
  show "refs_to s' l \<noteq> {}"
  proof (cases "\<exists>r. r \<notin> deleted_with s p \<and> lk s r = Some l")
    case True
    then obtain r where r: "r \<notin> deleted_with s p" "lk s r = Some l" by blast
    then have "lk s' r = Some l" using assms(3) link_types(4) [OF assms(2) r(2)] unfolding kept_others_def by auto
    then show ?thesis by (auto simp: refs_to_def)
  next
    case False
    have "r = p" if r: "lk s r = Some l" for r
    proof (rule ccontr)
      assume "r \<noteq> p"
      then have "lk s p = Some r" using False r by (auto simp: deleted_with_def split: option.splits if_splits)
      then show False using link_types(6) [OF assms(2)] r by fastforce
    qed
    then have "refs_to s l = {p}" using q by (auto simp: refs_to_def)
    moreover have "lk s p = Some l" using \<open>refs_to s l = {p}\<close> by (auto simp: refs_to_def)
    ultimately have "l \<in> deleted_with s p" by (simp add: deleted_with_def)
    then show ?thesis using ll(1) by simp
  qed
qed

lemma grown_refs: "grown s A s' \<Longrightarrow> refs_to s l \<subseteq> refs_to s' l"
proof
  fix r assume g: "grown s A s'" and r: "r \<in> refs_to s l"
  then have "r \<in> live s" using refs_live [of s l] by blast
  then show "r \<in> refs_to s' l" using g r by (simp add: grown_def same_textures_def refs_to_def)
qed

text \<open>A texture of client memory that was made or found for nothing: the state is as it was.\<close>

lemma delete_unused_ok:
  assumes g: "grown s A s'" "no_orphans s" and l: "link_inv s" and p: "ty s' p = Some TEX_TYPE_AGP" "live s' \<subseteq> insert p (live s)"
  shows "\<exists>s''. delete_unused (Some p) s' = Some s'' \<and> (\<exists>xs. shared_inv s'' xs) \<and> live s'' = live s \<and> same_textures s s''"
proof -
  obtain xs where inv: "shared_inv s' xs" using g(1) by (auto simp: grown_def)
  then have i: "table_inv s'" "link_inv s'" by (simp_all add: shared_inv_def)
  have pl: "p \<in> live s'" by (rule ty_live [OF p(1)])
  obtain k where k: "kof s' p = Some k" using entryE [OF i(1) pl] by blast
  have du: "delete_unused (Some p) s' = (if refs_to s' p = {} then delete_texture p s' else Some s')"
    using k refcount_word(4) [OF i pl] by (auto simp: delete_unused_def kof_def sysobj_def bind_eq_Some_conv)
  have sub: "live s \<subseteq> live s'" "same_textures s s'" using g(1) by (simp_all add: grown_def)
  show ?thesis
  proof (cases "refs_to s' p = {}")
    case True
    then have "refs_to s p = {}" using grown_refs [OF g(1)] by blast
    then have ns: "p \<notin> live s" using g(2) sub(2) p(1) unfolding no_orphans_def same_textures_def by metis
    have "lk s' p = None" using link_types(1) [OF i(2), of p] p(1) by (cases "lk s' p") auto
    then have "deleted_with s' p = {p}" by (simp add: deleted_with_def)
    then obtain s'' xs'' where d: "delete_texture p s' = Some s''" "shared_inv s'' xs''" "kept_others {p} s' s''" using delete_ok [OF inv pl True] by auto
    have "live s' = insert p (live s)" using p(2) sub(1) pl by auto
    then have lv: "live s'' = live s" "live s' - {p} = live s" using d(3) ns by (auto simp: kept_others_def)
    have "kof s'' q = kof s q \<and> ty s'' q = ty s q \<and> lk s'' q = lk s q" if q: "q \<in> live s" for q
    proof -
      have "kof s'' q = kof s' q \<and> ty s'' q = ty s' q \<and> lk s'' q = lk s' q" using d(3) q lv(2) by (simp add: kept_others_def)
      then show ?thesis using sub(2) q by (simp add: same_textures_def)
    qed
    then have "same_textures s s''" by (simp add: same_textures_def)
    then show ?thesis using du True d lv by auto
  next
    case False
    then obtain q where q: "lk s' q = Some p" by (auto simp: refs_to_def)
    then have "q \<in> live s'" "q \<noteq> p" using link_types(4,5) [OF i(2) q] by auto
    then have "q \<in> live s" using p(2) by blast
    then have "lk s q = Some p" using sub(2) q by (simp add: same_textures_def)
    then have "p \<in> live s" using link_types(3) l by blast
    then have "live s' = live s" using p(2) sub(1) by blast
    then show ?thesis using du False inv sub by auto
  qed
qed

section \<open>Creation\<close>

definition created :: "'h CEsvga2Shared \<Rightarrow> nat set \<Rightarrow> nat option \<Rightarrow> 'h CEsvga2Shared \<Rightarrow> bool" where
  "created s A r s' \<longleftrightarrow> shared_ok s' \<and> same_textures s s' \<and>
     (case r of None \<Rightarrow> live s' = live s | Some p \<Rightarrow> p \<notin> live s \<and> insert p (live s) \<subseteq> live s' \<and> live s' \<subseteq> live s \<union> A)"

lemma no_orphans_grow:
  assumes "no_orphans s" "same_textures s s'" "\<And>l. ty s' l = Some TEX_TYPE_AGP \<Longrightarrow> l \<notin> live s \<Longrightarrow> refs_to s' l \<noteq> {}"
  shows "no_orphans s'"
  unfolding no_orphans_def
proof (intro allI impI)
  fix l assume l: "ty s' l = Some TEX_TYPE_AGP"
  show "refs_to s' l \<noteq> {}"
  proof (cases "l \<in> live s")
    case True
    then have "ty s l = Some TEX_TYPE_AGP" using l assms(2) by (simp add: same_textures_def)
    then obtain r where r: "lk s r = Some l" using assms(1) by (auto simp: no_orphans_def refs_to_def)
    then have "r \<in> live s" using refs_live [of s l] by (auto simp: refs_to_def)
    then have "lk s' r = Some l" using r assms(2) by (simp add: same_textures_def)
    then show ?thesis by (auto simp: refs_to_def)
  qed (use assms(3) l in blast)
qed

lemma created_none:
  assumes "no_orphans s" "shared_inv s' xs" "live s' = live s" "same_textures s s'"
  shows "created s A None s'"
  using assms no_orphans_grow [OF assms(1,4)] ty_live [of s'] by (auto simp: created_def shared_ok_def)

text \<open>A texture that is only in the tables is taken out of them again.\<close>

lemma half_made_undo:
  assumes "half_made s xs p obj_type"
  shows "\<exists>t k. textures s p = Some t \<and> tx_sys_obj t = Some k \<and>
    (let s' = releaseVendorTextureBuffer p (free_client_shared (Some k) (free_buf_handle p (so_object_id (sys_objs s ! k)) s))
     in shared_inv s' xs \<and> kept_others {p} s s')"
proof -
  have m: "list_inv s xs" "p \<notin> set xs" "set (p # xs) = live s" "table_inv s" "link_inv s" "prov_ok s" "lk s p = None" "refs_to s p = {}"
    using assms by (simp_all add: half_made_def made_def)
  have pl: "p \<in> live s" using m(3) by auto
  obtain k where k: "kof s p = Some k" using entryE [OF m(4) pl] by blast
  obtain t where t: "textures s p = Some t" "tx_sys_obj t = Some k" using k by (auto simp: kof_def bind_eq_Some_conv)
  let ?s = "releaseVendorTextureBuffer p (free_client_shared (Some k) (free_buf_handle p (so_object_id (sys_objs s ! k)) s))"
  have e: "?s = s\<lparr>m_handle_table := Some ((handles s)[unat (so_object_id (sys_objs s ! k)) := None]), sys_objs := (sys_objs s)[k := zero_sys_obj],
      textures := (textures s)(p := None)\<rparr>"
    unfolding freed_handle [OF m(4) pl k] by (simp add: releaseVendorTextureBuffer_def)
  have q: "kof ?s q = kof s q \<and> ty ?s q = ty s q \<and> lk ?s q = lk s q" if "q \<noteq> p" for q
    using that unfolding e by (simp add: kof_def ty_def lk_def)
  have lv: "live ?s = live s - {p}" unfolding e by auto
  have "table_inv ?s" "\<And>q. q \<in> live s - {p} \<Longrightarrow> sysobj ?s q = sysobj s q"
    using table_remove [OF m(4) pl k, of ?s] q lv by (simp_all add: e)
  moreover have "prov_ok ?s" using m(6) unfolding e by (simp add: prov_ok_def)
  ultimately have d: "dropped p s ?s" using lv q by (simp add: dropped_def)
  have "list_inv ?s xs" using m(1,2) unfolding e by (simp add: list_inv_def)
  moreover have "set xs = live ?s" using m(2,3) lv by auto
  ultimately have "shared_inv ?s xs" using d drop_link [OF d m(5,7,8)] by (simp add: shared_inv_def dropped_def)
  moreover have "kept_others {p} s ?s" using lv q by (simp add: kept_others_def)
  ultimately show ?thesis using t by (auto simp: Let_def)
qed

text \<open>The rest of a creation, after the memory of the client (\<open>p1\<close>, in state \<open>s1\<close>) if any.\<close>

definition prepared :: "'h CEsvga2Shared \<Rightarrow> nat option \<Rightarrow> 'h CEsvga2Shared \<Rightarrow> bool" where
  "prepared s p1 s1 \<longleftrightarrow> shared_ok s \<and> grown s (set_option p1) s1 \<and> (\<forall>l. p1 = Some l \<longrightarrow> ty s1 l = Some TEX_TYPE_AGP)"

lemma give_up:
  assumes p: "prepared s p1 s1" and s2: "shared_inv s2 xs" "live s2 = live s1" "same_textures s1 s2"
  shows "\<exists>s'. delete_unused p1 s2 = Some s' \<and> created s A None s'"
proof -
  obtain ys where ys: "shared_inv s ys" and o: "no_orphans s" using p by (auto simp: prepared_def shared_ok_def)
  have g1: "grown s (set_option p1) s1" using p by (simp add: prepared_def)
  have "grown s1 {} s2" using s2 by (auto simp: grown_def)
  then have g: "grown s (set_option p1) s2" using grown_trans [OF g1, of "{}" s2] by simp
  show ?thesis
  proof (cases p1)
    case None
    then have "live s2 = live s" "same_textures s s2" using g by (auto simp: grown_def)
    then show ?thesis using created_none [OF o s2(1)] None by (auto simp: delete_unused_def)
  next
    case (Some l)
    then have "ty s1 l = Some TEX_TYPE_AGP" using p by (simp add: prepared_def)
    then have t: "ty s2 l = Some TEX_TYPE_AGP" using s2(3) ty_live [of s1 l] by (simp add: same_textures_def)
    have "link_inv s" using ys by (simp add: shared_inv_def)
    moreover have "live s2 \<subseteq> insert l (live s)" using g Some by (auto simp: grown_def)
    ultimately show ?thesis using delete_unused_ok [OF g o _ t] created_none [OF o] Some by blast
  qed
qed

lemma created_some:
  assumes p: "prepared s p1 s1" and s': "shared_inv s' xs" "live s' = insert p2 (live s1)" "p2 \<notin> live s1"
    and same: "\<And>q. q \<in> live s1 \<Longrightarrow> kof s' q = kof s1 q \<and> ty s' q = ty s1 q \<and> lk s' q = lk s1 q"
    and t: "ty s' p2 \<noteq> Some TEX_TYPE_AGP" "\<And>l. p1 = Some l \<Longrightarrow> lk s' p2 = Some l"
  shows "created s (insert p2 (set_option p1)) (Some p2) s'"
proof -
  have g: "live s \<subseteq> live s1" "live s1 \<subseteq> live s \<union> set_option p1" "same_textures s s1" and o: "no_orphans s"
    using p by (simp_all add: prepared_def grown_def shared_ok_def)
  have "same_textures s1 s'" using same by (simp add: same_textures_def)
  then have st: "same_textures s s'" by (rule same_textures_trans [OF g(3) _ g(1)])
  have "refs_to s' l \<noteq> {}" if l: "ty s' l = Some TEX_TYPE_AGP" "l \<notin> live s" for l
  proof -
    have "l \<noteq> p2" using t(1) l(1) by metis
    then have "l \<in> live s1" using ty_live [OF l(1)] s'(2) by simp
    then have "p1 = Some l" using g(2) l(2) by (cases p1) auto
    then show ?thesis using t(2) by (auto simp: refs_to_def)
  qed
  then have "no_orphans s'" by (rule no_orphans_grow [OF o st])
  then show ?thesis using st s' g by (auto simp: created_def shared_ok_def)
qed

text \<open>The code that all textures but those of client memory share: a texture with a change \<open>f\<close>, and a reference if there is one.\<close>

lemma insert_new:
  assumes p: "prepared s p1 s1" "shared_inv s1 xs" "p2 \<notin> live s1"
    and c: "common_texture_init obj_type fresh sys_mem s1 = (Some p2, s2)" "obj_type \<noteq> TEX_TYPE_AGP"
    and f: "plain_change f" "\<And>t. tx_linked_agp (f t) = tx_linked_agp t" "p1 = None"
  shows "\<exists>s'. do { s \<leftarrow> update_tx p2 f s2; link_texture_at_head p2 s } = Some s' \<and> created s (insert p2 (set_option p1)) (Some p2) s'"
proof -
  note mk = common_texture_init_makes [OF p(2) c(1) p(3)]
  obtain v where v: "update_tx p2 f s2 = Some v" "half_made v xs p2 obj_type" "live v = live s2" "same_textures s2 v"
    using half_made_change [OF mk(2) f(1,2)] by blast
  then have h: "made v xs p2" "ty v p2 = Some obj_type" by (simp_all add: half_made_def)
  obtain w where w: "link_texture_at_head p2 v = Some w" "shared_inv w (p2 # xs)" "live w = live v" "same_textures v w"
    using made_link [OF h(1)] by blast
  have st: "same_textures s1 w" using same_textures_trans [OF same_textures_trans [OF mk(4) v(4)] w(4)] mk(3) v(3) by auto
  have "ty w p2 = Some obj_type" using w(4) h(2) ty_live [OF h(2)] by (simp add: same_textures_def)
  then have "created s (insert p2 (set_option p1)) (Some p2) w"
    using created_some [OF p(1) w(2) _ p(3)] st w(3) v(3) mk(3) c(2) f(3) by (simp add: same_textures_def)
  then show ?thesis using v(1) w(1) by auto
qed

lemma insert_referring:
  assumes p: "prepared s (Some l) s1" "shared_inv s1 xs" "p2 \<notin> live s1"
    and c: "common_texture_init obj_type fresh sys_mem s1 = (Some p2, s2)" "obj_type = TEX_TYPE_AGPREF \<or> obj_type = TEX_TYPE_OOB"
    and f: "plain_change f" "\<And>t. tx_linked_agp (f t) = Some l"
  shows "\<exists>s'. do { s \<leftarrow> update_tx p2 f s2; s \<leftarrow> add_reference l s; link_texture_at_head p2 s } = Some s' \<and>
    created s {p2, l} (Some p2) s'"
proof -
  note mk = common_texture_init_makes [OF p(2) c(1) p(3)]
  have tl: "ty s1 l = Some TEX_TYPE_AGP" using p(1) by (simp add: prepared_def)
  then have tl2: "ty s2 l = Some TEX_TYPE_AGP" using mk(4) ty_live [OF tl] by (simp add: same_textures_def)
  obtain v where v: "do { s \<leftarrow> update_tx p2 f s2; add_reference l s } = Some v" "made v xs p2" "live v = live s2"
      "\<forall>q \<in> live s2 - {p2}. kof v q = kof s2 q \<and> ty v q = ty s2 q \<and> lk v q = lk s2 q" "ty v p2 = Some obj_type" "lk v p2 = Some l"
    using half_made_refer [OF mk(2) f c(2) tl2] by blast
  obtain w where w: "link_texture_at_head p2 v = Some w" "shared_inv w (p2 # xs)" "live w = live v" "same_textures v w"
    using made_link [OF v(2)] by blast
  have "kof w q = kof s1 q \<and> ty w q = ty s1 q \<and> lk w q = lk s1 q" if q: "q \<in> live s1" for q
  proof -
    have "q \<noteq> p2" "q \<in> live s2" using q p(3) mk(3) by auto
    then show ?thesis using q mk(4) v(3,4) w(4) by (simp add: same_textures_def)
  qed
  moreover have "ty w p2 = Some obj_type" "lk w p2 = Some l" using w(4) v(5,6) ty_live [OF v(5)] by (simp_all add: same_textures_def)
  ultimately have "created s (insert p2 (set_option (Some l))) (Some p2) w"
    using created_some [OF p(1) w(2) _ p(3)] w(3) v(3) mk(3) c(2) by auto
  then show ?thesis using v(1) w(1) by (auto simp: bind_eq_Some_conv)
qed

lemma update_tx_comp: "Option.bind (update_tx p f s) (update_tx p g) = update_tx p (g \<circ> f) s"
  by (cases "textures s p") (simp_all add: update_tx_def)

lemma new_linked_texture_ok:
  assumes p: "prepared s p1 s1" "set_option fresh \<inter> live s1 = {}"
    and t: "if p1 = None then obj_type \<notin> {TEX_TYPE_AGP, TEX_TYPE_OOB} else obj_type = TEX_TYPE_OOB"
  shows "\<exists>r s'. new_linked_texture obj_type p1 size1 fresh sys_mem bmd s1 = Some (r, s') \<and>
    created s (set_option fresh \<union> set_option p1) r s'"
proof -
  obtain xs where xs: "shared_inv s1 xs" using p(1) by (auto simp: prepared_def grown_def)
  obtain r u where c: "common_texture_init obj_type fresh sys_mem s1 = (r, u)" by (rule prod.exhaust)
  show ?thesis
  proof (cases r)
    case None
    have "shared_inv u xs \<and> live u = live s1 \<and> same_textures s1 u" using common_texture_init_fails [OF xs] c None by simp
    then show ?thesis using give_up [OF p(1), of u xs "set_option fresh \<union> set_option p1"] c None by (auto simp: new_linked_texture_def)
  next
    case (Some p2)
    have fr: "fresh = Some p2" using c Some by (auto simp: common_texture_init_def split: option.splits prod.splits)
    then have new: "p2 \<notin> live s1" using p(2) by simp
    note cs = c [unfolded Some]
    note mk = common_texture_init_makes [OF xs cs new]
    consider (ok) md addr where "bmd = Some (md, Some addr)" | (bad) "\<nexists>md addr. bmd = Some (md, Some addr)" by blast
    then show ?thesis
    proof cases
      case ok
      let ?f = "\<lambda>t. t\<lparr>tx_xfer := (tx_xfer t)\<lparr>xfer_md := Some md\<rparr>, tx_creator := True, tx_client_map := Some addr, tx_vram_bytes := size1\<rparr>"
      show ?thesis
      proof (cases p1)
        case None
        then obtain s' where "do { s \<leftarrow> update_tx p2 ?f u; link_texture_at_head p2 s } = Some s'" "created s {p2} (Some p2) s'"
          using insert_new [OF p(1) xs new cs, of ?f] t by (auto simp: plain_change_def)
        then show ?thesis using c Some ok None t fr by (auto simp: new_linked_texture_def bind_eq_Some_conv)
      next
        case (Some l)
        let ?g = "(\<lambda>t. t\<lparr>tx_linked_agp := Some l\<rparr>) \<circ> ?f"
        obtain s' where "do { s \<leftarrow> update_tx p2 ?g u; s \<leftarrow> add_reference l s; link_texture_at_head p2 s } = Some s'" "created s {l, p2} (Some p2) s'"
          using insert_referring [OF p(1) [unfolded Some] xs new cs, of ?g] t Some by (auto simp: plain_change_def insert_commute)
        then show ?thesis using c \<open>r = Some p2\<close> ok Some t fr unfolding update_tx_comp [symmetric]
          by (auto simp: new_linked_texture_def bind_eq_Some_conv)
      qed
    next
      case bad
      obtain t k where k: "textures u p2 = Some t" "tx_sys_obj t = Some k"
          "let s' = releaseVendorTextureBuffer p2 (free_client_shared (Some k) (free_buf_handle p2 (so_object_id (sys_objs u ! k)) u))
           in shared_inv s' xs \<and> kept_others {p2} u s'" using half_made_undo [OF mk(2)] by blast
      let ?s = "releaseVendorTextureBuffer p2 (free_client_shared (Some k) (free_buf_handle p2 (so_object_id (sys_objs u ! k)) u))"
      have "live ?s = live s1" using k(3) mk(3) new by (auto simp: Let_def kept_others_def)
      moreover have "same_textures s1 ?s" using k(3) mk(3,4) new by (simp add: Let_def kept_others_def same_textures_def)
      ultimately obtain s' where "delete_unused p1 ?s = Some s'" "created s (set_option fresh \<union> set_option p1) None s'"
        using give_up [OF p(1), of ?s xs "set_option fresh \<union> set_option p1"] k(3) by (auto simp: Let_def)
      then show ?thesis using c Some bad k(1,2) by (cases bmd) (auto simp: new_linked_texture_def Let_def split: option.splits)
    qed
  qed
qed

definition fresh_ok :: "agp_env \<Rightarrow> nat option \<Rightarrow> 'h CEsvga2Shared \<Rightarrow> bool" where
  "fresh_ok env fresh s \<longleftrightarrow> set_option (ae_fresh env) \<inter> live s = {} \<and> set_option fresh \<inter> live s = {} \<and> set_option (ae_fresh env) \<inter> set_option fresh = {}"

lemma disjoint_grow: "C \<subseteq> D \<union> B \<Longrightarrow> B \<subseteq> D \<union> E \<Longrightarrow> A \<inter> D = {} \<Longrightarrow> E \<inter> A = {} \<Longrightarrow> A \<inter> C = {}" for A :: "'a set"
  by blast

lemma agp_prepared:
  assumes "shared_ok s" "fresh_ok env fresh s"
  shows "\<exists>r s1. new_agp_texture env pixels sz ro s = Some (r, s1) \<and> prepared s r s1 \<and> set_option fresh \<inter> live s1 = {} \<and>
    set_option r \<subseteq> live s \<union> set_option (ae_fresh env) \<and> (r = None \<longrightarrow> created s A None s1)"
proof -
  obtain xs where xs: "shared_inv s xs" and o: "no_orphans s" using assms(1) by (auto simp: shared_ok_def)
  obtain r s1 where r: "new_agp_texture env pixels sz ro s = Some (r, s1)" "grown s (set_option r) s1"
      "\<forall>p. r = Some p \<longrightarrow> ty s1 p = Some TEX_TYPE_AGP \<and> (p \<in> live s \<or> ae_fresh env = Some p)"
    using new_agp_texture_ok [OF xs, of env pixels sz ro] assms(2) by (auto simp: fresh_ok_def)
  have sub: "set_option r \<subseteq> live s \<union> set_option (ae_fresh env)" using r(3) by (cases r) auto
  have "live s1 \<subseteq> live s \<union> set_option r" using r(2) by (simp add: grown_def)
  note d = disjoint_grow [OF this sub, of "set_option fresh"]
  have d: "set_option fresh \<inter> live s1 = {}" by (rule d) (use assms(2) in \<open>simp_all add: fresh_ok_def\<close>)
  have "created s A None s1" if n: "r = None"
  proof -
    have g: "live s1 = live s" "same_textures s s1" using r(2) n unfolding grown_def by (simp_all add: subset_antisym)
    obtain ys where "shared_inv s1 ys" using r(2) by (auto simp: grown_def)
    then show ?thesis by (rule created_none [OF o _ g])
  qed
  moreover have "prepared s r s1" using r(2,3) assms(1) by (simp add: prepared_def)
  ultimately show ?thesis using r(1) sub d by blast
qed

lemma created_mono: "created s A r s' \<Longrightarrow> A \<subseteq> live s \<union> B \<Longrightarrow> created s B r s'"
  by (cases r) (auto simp: created_def)

lemma new_texture_ok:
  assumes "shared_ok s" "fresh_ok env fresh s"
  shows "\<exists>r s'. new_texture env size0 size1 pixels sz ro fresh sys_mem bmd s = Some (r, s') \<and>
    created s (set_option fresh \<union> set_option (ae_fresh env)) r s'"
proof (cases "pixels \<noteq> 0 \<and> sz \<noteq> 0")
  case True
  obtain r s1 where r: "new_agp_texture env pixels sz ro s = Some (r, s1)" "prepared s r s1" "set_option fresh \<inter> live s1 = {}"
      "set_option r \<subseteq> live s \<union> set_option (ae_fresh env)" "r = None \<longrightarrow> created s (set_option fresh \<union> set_option (ae_fresh env)) None s1"
    using agp_prepared [OF assms] by blast
  show ?thesis
  proof (cases r)
    case (Some l)
    let ?bmd = "bmd ((ucast size0 + 0x900 + 4095) AND - 4096)"
    obtain r' s' where n: "new_linked_texture TEX_TYPE_OOB r size1 fresh sys_mem ?bmd s1 = Some (r', s')" "created s (set_option fresh \<union> set_option r) r' s'"
      using new_linked_texture_ok [OF r(2,3), of TEX_TYPE_OOB size1 sys_mem ?bmd] Some by auto
    have "created s (set_option fresh \<union> set_option (ae_fresh env)) r' s'" by (rule created_mono [OF n(2)]) (use r(4) in blast)
    then show ?thesis using True r(1) Some n(1) by (simp add: new_texture_def Let_def)
  qed (use True r in \<open>auto simp: new_texture_def\<close>)
next
  case False
  obtain xs where xs: "shared_inv s xs" using assms(1) by (auto simp: shared_ok_def)
  have p: "prepared s None s" "set_option fresh \<inter> live s = {}" using assms grown_refl [OF xs] by (auto simp: prepared_def fresh_ok_def)
  have "\<exists>r s'. new_linked_texture k None size1 fresh sys_mem (bmd n) s = Some (r, s') \<and> created s (set_option fresh \<union> set_option (ae_fresh env)) r s'"
    if "k \<notin> {TEX_TYPE_AGP, TEX_TYPE_OOB}" for k n
    using new_linked_texture_ok [OF p, of k size1 sys_mem "bmd n"] that created_mono [of s "set_option fresh" _ _ "set_option fresh \<union> set_option (ae_fresh env)"]
    by auto
  then show ?thesis using False by (auto simp: new_texture_def)
qed

lemma new_agpref_texture_ok:
  assumes "shared_ok s" "fresh_ok env fresh s"
  shows "\<exists>r s'. new_agpref_texture env pixels1 pixels2 sz ro fresh sys_mem s = Some (r, s') \<and>
    created s (set_option fresh \<union> set_option (ae_fresh env)) r s'"
proof -
  let ?A = "set_option fresh \<union> set_option (ae_fresh env)"
  obtain r s1 where r: "new_agp_texture env pixels2 sz ro s = Some (r, s1)" "prepared s r s1" "set_option fresh \<inter> live s1 = {}"
      "set_option r \<subseteq> live s \<union> set_option (ae_fresh env)" "r = None \<longrightarrow> created s ?A None s1"
    using agp_prepared [OF assms] by blast
  obtain xs where xs: "shared_inv s1 xs" using r(2) by (auto simp: prepared_def grown_def)
  show ?thesis
  proof (cases r)
    case (Some l)
    obtain q u where c: "common_texture_init TEX_TYPE_AGPREF fresh sys_mem s1 = (q, u)" by (rule prod.exhaust)
    show ?thesis
    proof (cases q)
      case None
      have "shared_inv u xs \<and> live u = live s1 \<and> same_textures s1 u" using common_texture_init_fails [OF xs] c None by simp
      then obtain s' where "delete_unused r u = Some s'" "created s ?A None s'" using give_up [OF r(2), of u xs ?A] by blast
      then show ?thesis using r(1) Some c None by (simp add: new_agpref_texture_def)
    next
      case made: (Some p2)
      have fr: "fresh = Some p2" using c made by (auto simp: common_texture_init_def split: option.splits prod.splits)
      then have new: "p2 \<notin> live s1" using r(3) by simp
      note cs = c [unfolded made]
      have tl: "ty s1 l = Some TEX_TYPE_AGP" using r(2) Some by (simp add: prepared_def)
      then obtain ltx where ltx: "textures u l = Some ltx"
        using common_texture_init_makes(3) [OF xs cs new] ty_live [OF tl] by blast
      let ?f = "\<lambda>t. t\<lparr>tx_creator := True, tx_agp_addr := if pixels1 \<noteq> 0 then pixels1 - tx_agp_addr ltx else 0, tx_linked_agp := Some l\<rparr>"
      obtain s' where s': "do { s \<leftarrow> update_tx p2 ?f u; s \<leftarrow> add_reference l s; link_texture_at_head p2 s } = Some s'" "created s {p2, l} (Some p2) s'"
        using insert_referring [OF r(2) [unfolded Some] xs new cs, of ?f] by (auto simp: plain_change_def)
      have "created s ?A (Some p2) s'" by (rule created_mono [OF s'(2)]) (use r(4) fr Some in auto)
      then show ?thesis using r(1) Some cs ltx s'(1) by (auto simp: new_agpref_texture_def bind_eq_Some_conv)
    qed
  qed (use r in \<open>auto simp: new_agpref_texture_def\<close>)
qed

lemma new_surface_texture_ok:
  assumes "shared_ok s" "set_option fresh \<inter> live s = {}"
  shows "\<exists>r s'. new_surface_texture surface sid msk fresh sys_mem s = Some (r, s') \<and> created s (set_option fresh) r s'"
proof -
  obtain xs where xs: "shared_inv s xs" and o: "no_orphans s" using assms(1) by (auto simp: shared_ok_def)
  have p: "prepared s None s" using assms(1) grown_refl [OF xs] by (auto simp: prepared_def)
  have none: "created s (set_option fresh) None s" using created_none [OF o xs] same_textures_refl by blast
  show ?thesis
  proof (cases "sh_provider s = None \<or> surface sid = None")
    case False
    then obtain ptr a where sp: "surface sid = Some ptr" "sh_provider s = Some a" by auto
    obtain q u where c: "common_texture_init TEX_TYPE_SURFACE fresh sys_mem s = (q, u)" by (rule prod.exhaust)
    show ?thesis
    proof (cases q)
      case None
      have "created s (set_option fresh) None u" using common_texture_init_fails [OF xs] c None created_none [OF o] by blast
      then show ?thesis using sp c None by (simp add: new_surface_texture_def)
    next
      case (Some p2)
      have fr: "fresh = Some p2" using c Some by (auto simp: common_texture_init_def split: option.splits prod.splits)
      let ?f = "\<lambda>t. t\<lparr>tx_creator := True, tx_linked_surface := Some ptr, tx_fb_idx_mask := msk, tx_cgs_surface_id := sid\<rparr>"
      obtain s' where "do { s \<leftarrow> update_tx p2 ?f u; link_texture_at_head p2 s } = Some s'" "created s {p2} (Some p2) s'"
        using insert_new [OF p xs _ c [unfolded Some], of ?f] assms(2) fr by (auto simp: plain_change_def)
      then show ?thesis using sp c Some fr by (auto simp: new_surface_texture_def bind_eq_Some_conv)
    qed
  qed (use none in \<open>auto simp: new_surface_texture_def split: option.split\<close>)
qed

end
