(* ===== verification/GL_TextureData.thy ===== *)
theory GL_TextureData
  imports GL_NewTexture
begin

text \<open>
  What the textures that the methods of \<open>GL_Shared\<close> create contain: their type, their memory, and the texture of client
  memory to which they link.
\<close>

section \<open>Textures without their place in the list\<close>

definition unlisted :: "CEsvga2TextureBuffer \<Rightarrow> CEsvga2TextureBuffer" where
  "unlisted t = t\<lparr>tx_next := None, tx_prev := None\<rparr>"

definition content :: "'h CEsvga2Shared \<Rightarrow> nat \<Rightarrow> CEsvga2TextureBuffer option" where
  "content s p = map_option unlisted (textures s p)"

lemma content_list [simp]: "content (s\<lparr>m_texture_list := h\<rparr>) = content s"
  by (simp add: content_def fun_eq_iff)

lemma content_SomeE: "content s p = Some u \<Longrightarrow> (\<And>t. textures s p = Some t \<Longrightarrow> u = unlisted t \<Longrightarrow> thesis) \<Longrightarrow> thesis"
  by (auto simp: content_def)

lemma unlisted_update:
  assumes "update_tx p f s = Some s'" "\<And>t. unlisted (f t) = f (unlisted t)"
  shows "content s' = (content s)(p := map_option f (content s p))"
  using assms by (auto simp: update_tx_def content_def fun_eq_iff)

lemma list_update_content:
  assumes "update_tx p f s = Some s'" "\<And>t. unlisted (f t) = unlisted t"
  shows "content s' = content s"
  using assms by (auto simp: update_tx_def content_def fun_eq_iff)

lemma link_content: "link_texture_at_head p s = Some s' \<Longrightarrow> content s' = content s"
  by (cases "m_texture_list s") (auto simp: link_texture_at_head_def bind_eq_Some_conv unlisted_def dest!: list_update_content)

lemma unlink_content: "unlink_nonhead_texture p s = Some s' \<Longrightarrow> content s' = content s"
  by (auto simp: unlink_nonhead_texture_def bind_eq_Some_conv unlisted_def split: option.splits dest!: list_update_content)

lemma reference_content: "add_reference p s = Some s' \<Longrightarrow> content s' = content s"
  by (auto simp: add_reference_def bind_eq_Some_conv content_def update_sys_obj_def)

lemma init_content:
  assumes "common_texture_init obj_type fresh sys_mem s = (Some p, s')"
  shows "fresh = Some p" "\<exists>k addr. content s' = (content s)(p \<mapsto> new_buffer k addr obj_type)"
  using assms
  by (auto simp: common_texture_init_def alloc_buf_handle_def alloc_client_shared_def update_sys_obj_def content_def fun_eq_iff unlisted_def new_buffer_def Let_def
      split: option.splits prod.splits if_splits)

section \<open>Memory of the client\<close>

text \<open>
  Memory of the client at \<open>pixels\<close>, with \<open>sz\<close> bytes, in whole pages; \<open>t\<close> is a texture \<open>l\<close> for it, made from state \<open>s\<close> on.
  Without an address, it is a new buffer.  Otherwise it is at the page of the address: a texture that was there for the
  same pages and whose memory has not changed, or a new one, with the new descriptor of memory that was found to have changed or
  with a descriptor of the pages, read-only if the client says so or may not write them.
\<close>

definition whole_pages :: "u64 \<Rightarrow> u64" where "whole_pages n = (n + 4095) AND - 4096"

definition new_memory :: "agp_env \<Rightarrow> u64 \<Rightarrow> u64 \<Rightarrow> u32 \<Rightarrow> 'h CEsvga2Shared \<Rightarrow> IOMemoryDescriptor \<Rightarrow> u64 \<Rightarrow> bool" where
  "new_memory env page n ro s md len \<longleftrightarrow>
     (\<exists>q \<in> live s. ae_persistent env q = changed_md md len) \<or>
     (\<exists>protection. ae_region env page n = Some protection \<and> ae_range env page n (ro AND 1 \<noteq> 0 \<or> protection AND 2 = 0) = Some (md, len))"

definition client_memory :: "agp_env \<Rightarrow> u64 \<Rightarrow> u64 \<Rightarrow> u32 \<Rightarrow> 'h CEsvga2Shared \<Rightarrow> nat \<Rightarrow> CEsvga2TextureBuffer \<Rightarrow> bool" where
  "client_memory env pixels sz ro s l t \<longleftrightarrow>
     (let page = pixels AND - 4096; n = whole_pages ((pixels AND 4095) + sz)
      in tx_sys_obj_type t = TEX_TYPE_AGP \<and> tx_agp_offset_in_page t = pixels AND 4095 \<and> tx_mem_changed t = 0 \<and>
         (if l \<in> live s then page \<noteq> 0 \<and> tx_agp_addr t = page \<and> tx_agp_size t = n \<and> ae_persistent env l = same_md
          else \<exists>md. xfer_md (tx_xfer t) = Some md \<and>
            (if page = 0 then ae_buffer env n = Some (md, tx_agp_size t, tx_agp_addr t)
             else tx_agp_addr t = page \<and> new_memory env page n ro s md (tx_agp_size t))))"

lemma client_memory_unlisted [simp]: "client_memory env pixels sz ro s l (unlisted t) = client_memory env pixels sz ro s l t"
  by (simp add: client_memory_def unlisted_def)

lemma agp_common_content:
  assumes "agp_common env off md page s = Some (Some l, s')"
  shows "ae_fresh env = Some l" "\<exists>t. content s' l = Some t \<and> tx_sys_obj_type t = TEX_TYPE_AGP \<and> tx_agp_offset_in_page t = off \<and>
    tx_mem_changed t = 0 \<and> tx_agp_addr t = page \<and> tx_agp_size t = snd md \<and> xfer_md (tx_xfer t) = Some (fst md)"
proof -
  obtain r u where c: "common_texture_init TEX_TYPE_AGP (ae_fresh env) (ae_sys_mem env) s = (r, u)" by (rule prod.exhaust)
  with assms have r: "r = Some l" by (cases r) (auto simp: agp_common_def bind_eq_Some_conv)
  note i = init_content [OF c [unfolded r]]
  show "ae_fresh env = Some l" by (rule i)
  obtain k addr where k: "content u = (content s)(l \<mapsto> new_buffer k addr TEX_TYPE_AGP)" using i(2) by blast
  let ?f = "\<lambda>t. t\<lparr>tx_xfer := (tx_xfer t)\<lparr>xfer_md := Some (fst md)\<rparr>, tx_agp_offset_in_page := off, tx_agp_addr := page, tx_agp_size := snd md, tx_mem_changed := 0\<rparr>"
  obtain v where v: "update_tx l ?f u = Some v" "link_texture_at_head l v = Some s'"
    using assms c r by (auto simp: agp_common_def bind_eq_Some_conv)
  have "content s' l = Some (?f (new_buffer k addr TEX_TYPE_AGP))"
    unfolding link_content [OF v(2)] using unlisted_update [OF v(1)] k by (simp add: unlisted_def)
  then show "\<exists>t. content s' l = Some t \<and> tx_sys_obj_type t = TEX_TYPE_AGP \<and> tx_agp_offset_in_page t = off \<and>
    tx_mem_changed t = 0 \<and> tx_agp_addr t = page \<and> tx_agp_size t = snd md \<and> xfer_md (tx_xfer t) = Some (fst md)"
    by (simp add: new_buffer_def)
qed

lemma new_agp_texture_content:
  assumes inv: "shared_inv s xs" and new: "set_option (ae_fresh env) \<inter> live s = {}"
    and res: "new_agp_texture env pixels sz ro s = Some (Some l, s')"
  shows "\<exists>t. content s' l = Some t \<and> client_memory env pixels sz ro s l t"
proof -
  let ?page = "pixels AND - 4096" and ?n = "(pixels AND 4095) + sz + 4095 AND - 4096"
  let ?m = "agp_matches (pixels AND 4095) ?page ?n"
  have li: "list_inv s xs" "set xs = live s" using inv by (simp_all add: shared_inv_def)
  have common: ?thesis if "agp_common env (pixels AND 4095) (md, len) page u = Some (Some l, s')"
      "if ?page = 0 then ae_buffer env ?n = Some (md, len, page) else page = ?page \<and> new_memory env ?page ?n ro s md len" for md len page u
    using agp_common_content [OF that(1)] new that(2) by (auto simp: client_memory_def whole_pages_def Let_def split: if_splits)
  show ?thesis
  proof (cases "?page = 0")
    case True
    then obtain md len addr where "ae_buffer env ?n = Some (md, len, addr)" "agp_common env (pixels AND 4095) (md, len) addr s = Some (Some l, s')"
      using res by (auto simp: new_agp_texture_def Let_def split: option.splits)
    then show ?thesis using common True by simp
  next
    case False
    obtain tl where "dseg (textures s) None (m_texture_list s) xs tl None" using li by (auto simp: list_inv_def)
    from agp_search_ok [OF this, of ?m "ae_persistent env"] obtain r u where
      r: "agp_search ?m (ae_persistent env) (m_texture_list s) s = Some (r, u)" and
      c: "case r of Inl q \<Rightarrow> u = s \<and> q \<in> set xs \<and> (\<exists>t. textures s q = Some t \<and> ?m t) \<and> ae_persistent env q = same_md
       | Inr m \<Rightarrow> u = s \<and> m = None \<or> (\<exists>q t. textures s q = Some t \<and> u = s\<lparr>textures := (textures s)(q \<mapsto> t\<lparr>tx_mem_changed := 1\<rparr>)\<rparr> \<and>
           ae_persistent env q = (case m of None \<Rightarrow> no_md | Some (md, len) \<Rightarrow> changed_md md len))" by blast
    consider (found) q where "r = Inl q" | (changed) md len where "r = Inr (Some (md, len))" | (range) "r = Inr None"
      by (metis option.exhaust prod.exhaust sum.exhaust)
    then show ?thesis
    proof cases
      case found
      then have q: "u = s" "q = l" "content s' = content s" using res False r c
        by (auto simp: new_agp_texture_def Let_def bind_eq_Some_conv split: if_splits dest!: unlink_content link_content)
      then obtain t where "textures s l = Some t" "?m t" "ae_persistent env l = same_md" using c found by auto
      then show ?thesis using q(3) False by (auto simp: content_def client_memory_def agp_matches_def whole_pages_def Let_def unlisted_def)
    next
      case changed
      have "new_memory env ?page ?n ro s md len" using c changed by (auto simp: new_memory_def)
      then show ?thesis using common [of md len ?page u] res False r changed by (auto simp: new_agp_texture_def Let_def)
    next
      case range
      then obtain md len where "agp_common env (pixels AND 4095) (md, len) ?page u = Some (Some l, s')" "new_memory env ?page ?n ro s md len"
        using res False r by (auto simp: new_agp_texture_def agp_user_def isUserMemoryReadOnly_def new_memory_def Let_def split: option.splits if_splits)
      then show ?thesis using common False by simp
    qed
  qed
qed

section \<open>The textures created\<close>

lemma new_linked_texture_content:
  assumes "new_linked_texture obj_type p1 size1 fresh sys_mem bmd s = Some (Some p, s')"
  shows "\<exists>md addr k client_addr. bmd = Some (md, Some addr) \<and>
    content s' = (content s)(p \<mapsto> (new_buffer k client_addr obj_type)\<lparr>tx_xfer := \<lparr>xfer_md = Some md, xfer_gmr_id = SVGA_ID_INVALID, xfer_fence = 0\<rparr>,
      tx_creator := True, tx_client_map := Some addr, tx_vram_bytes := size1, tx_linked_agp := if obj_type = TEX_TYPE_OOB then p1 else None\<rparr>)"
proof -
  obtain r u where c: "common_texture_init obj_type fresh sys_mem s = (r, u)" by (rule prod.exhaust)
  obtain md addr where b: "r = Some p" "bmd = Some (md, Some addr)" using assms c
    by (auto simp: new_linked_texture_def bind_eq_Some_conv Let_def split: option.splits prod.splits if_splits)
  obtain k client_addr where k: "content u = (content s)(p \<mapsto> new_buffer k client_addr obj_type)"
    using init_content(2) [OF c [unfolded b(1)]] by blast
  let ?f = "\<lambda>t. t\<lparr>tx_xfer := (tx_xfer t)\<lparr>xfer_md := Some md\<rparr>, tx_creator := True, tx_client_map := Some addr, tx_vram_bytes := size1\<rparr>"
  obtain v w where v: "update_tx p ?f u = Some v" "link_texture_at_head p w = Some s'"
      "if obj_type = TEX_TYPE_OOB then \<exists>l x. p1 = Some l \<and> update_tx p (\<lambda>t. t\<lparr>tx_linked_agp := Some l\<rparr>) v = Some x \<and> add_reference l x = Some w else w = v"
    using assms c b by (cases "obj_type = TEX_TYPE_OOB") (auto simp: new_linked_texture_def bind_eq_Some_conv)
  have "content v = (content s)(p \<mapsto> ?f (new_buffer k client_addr obj_type))" using unlisted_update [OF v(1)] k by (simp add: unlisted_def)
  moreover have "content w = (if obj_type = TEX_TYPE_OOB then (content v)(p := map_option (\<lambda>t. t\<lparr>tx_linked_agp := p1\<rparr>) (content v p)) else content v)"
    using v(3) by (auto simp: unlisted_def split: if_splits dest!: reference_content unlisted_update)
  ultimately show ?thesis unfolding link_content [OF v(2)] using b(2)
    by (intro exI [of _ md] exI [of _ addr] exI [of _ k] exI [of _ client_addr]) (simp add: new_buffer_def xfer_init_def)
qed

text \<open>The texture of client memory that a new texture links to.\<close>

lemma agp_linked:
  assumes "shared_ok s" "fresh_ok env fresh s" "new_agp_texture env pixels sz ro s = Some (Some l, s1)"
  shows "fresh \<noteq> Some l" "\<exists>lt. content s1 l = Some lt \<and> client_memory env pixels sz ro s l lt"
proof -
  have "prepared s (Some l) s1" "set_option fresh \<inter> live s1 = {}" using agp_prepared [OF assms(1,2), of pixels sz ro] assms(3) by auto
  then show "fresh \<noteq> Some l" using ty_live [of s1 l] by (auto simp: prepared_def)
  obtain xs where "shared_inv s xs" using assms(1) by (auto simp: shared_ok_def)
  then show "\<exists>lt. content s1 l = Some lt \<and> client_memory env pixels sz ro s l lt"
    using new_agp_texture_content [OF _ _ assms(3)] assms(2) by (simp add: fresh_ok_def)
qed

lemma new_agpref_texture_content:
  assumes "new_agpref_texture env pixels1 pixels2 sz ro fresh sys_mem s = Some (Some p, s')" "shared_ok s" "fresh_ok env fresh s"
  shows "\<exists>l ltx k client_addr. content s' l = Some ltx \<and> client_memory env pixels2 sz ro s l ltx \<and>
    content s' p = Some ((new_buffer k client_addr TEX_TYPE_AGPREF)\<lparr>tx_creator := True,
      tx_agp_addr := if pixels1 \<noteq> 0 then pixels1 - tx_agp_addr ltx else 0, tx_linked_agp := Some l\<rparr>)"
proof -
  obtain l s1 where a: "new_agp_texture env pixels2 sz ro s = Some (Some l, s1)"
    using assms(1) by (auto simp: new_agpref_texture_def bind_eq_Some_conv split: option.split_asm)
  obtain r u where "common_texture_init TEX_TYPE_AGPREF fresh sys_mem s1 = (r, u)" by (rule prod.exhaust)
  moreover from this have "r = Some p" using assms(1) a by (cases r) (auto simp: new_agpref_texture_def bind_eq_Some_conv)
  ultimately have c: "new_agp_texture env pixels2 sz ro s = Some (Some l, s1)" "common_texture_init TEX_TYPE_AGPREF fresh sys_mem s1 = (Some p, u)"
    using a by simp_all
  note i = init_content [OF c(2)]
  note al = agp_linked [OF assms(2,3) a]
  have lp: "l \<noteq> p" using al(1) i(1) by auto
  obtain k client_addr where k: "content u = (content s1)(p \<mapsto> new_buffer k client_addr TEX_TYPE_AGPREF)" using i(2) by blast
  let ?f = "\<lambda>ltx t. t\<lparr>tx_creator := True, tx_agp_addr := if pixels1 \<noteq> 0 then pixels1 - tx_agp_addr ltx else 0, tx_linked_agp := Some l\<rparr>"
  obtain ltx v w where v: "textures u l = Some ltx" "update_tx p (?f ltx) u = Some v" "add_reference l v = Some w" "link_texture_at_head p w = Some s'"
    using assms(1) c by (auto simp: new_agpref_texture_def bind_eq_Some_conv)
  have "content s' = (content s1)(p \<mapsto> ?f ltx (new_buffer k client_addr TEX_TYPE_AGPREF))"
    unfolding link_content [OF v(4)] reference_content [OF v(3)] using unlisted_update [OF v(2)] k by (simp add: unlisted_def)
  moreover have "content s1 l = Some (unlisted ltx)" using v(1) fun_cong [OF k, of l] lp by (simp add: content_def)
  moreover from this have "client_memory env pixels2 sz ro s l (unlisted ltx)" using al(2) by simp
  moreover have "tx_agp_addr (unlisted ltx) = tx_agp_addr ltx" by (simp add: unlisted_def)
  ultimately show ?thesis using lp
    by (intro exI [of _ l] exI [of _ "unlisted ltx"] exI [of _ k] exI [of _ client_addr]) simp
qed

lemma new_surface_texture_content:
  assumes "new_surface_texture surface sid msk fresh sys_mem s = Some (Some p, s')"
  shows "\<exists>ptr k client_addr. surface sid = Some ptr \<and> content s' = (content s)(p \<mapsto> (new_buffer k client_addr TEX_TYPE_SURFACE)\<lparr>tx_creator := True,
    tx_linked_surface := Some ptr, tx_fb_idx_mask := msk, tx_cgs_surface_id := sid\<rparr>)"
proof -
  let ?f = "\<lambda>ptr t. t\<lparr>tx_creator := True, tx_linked_surface := Some ptr, tx_fb_idx_mask := msk, tx_cgs_surface_id := sid\<rparr>"
  obtain ptr u v where c: "surface sid = Some ptr" "common_texture_init TEX_TYPE_SURFACE fresh sys_mem s = (Some p, u)"
      "update_tx p (?f ptr) u = Some v" "link_texture_at_head p v = Some s'"
    using assms by (auto simp: new_surface_texture_def bind_eq_Some_conv split: option.splits prod.splits if_splits)
  obtain k client_addr where k: "content u = (content s)(p \<mapsto> new_buffer k client_addr TEX_TYPE_SURFACE)" using init_content(2) [OF c(2)] by blast
  have "content s' = (content s)(p \<mapsto> ?f ptr (new_buffer k client_addr TEX_TYPE_SURFACE))"
    unfolding link_content [OF c(4)] using unlisted_update [OF c(3)] k by (simp add: unlisted_def)
  then show ?thesis using c(1) by blast
qed

lemma new_linked_fresh: "new_linked_texture obj_type p1 size1 fresh sys_mem bmd s = Some (Some p, s') \<Longrightarrow> fresh = Some p"
  by (auto simp: new_linked_texture_def common_texture_init_def bind_eq_Some_conv Let_def split: option.splits prod.splits if_splits)

lemma new_texture_content:
  assumes "shared_ok s" "fresh_ok env fresh s" "new_texture env size0 size1 pixels sz ro fresh sys_mem bmd s = Some (Some p, s')"
  defines "k \<equiv> (if pixels \<noteq> 0 \<and> sz \<noteq> 0 then TEX_TYPE_OOB else if size1 \<noteq> 0 then TEX_TYPE_STD else TEX_TYPE_VB)"
  shows "\<exists>md addr j ca p1. bmd (whole_pages (ucast size0 + (if k = TEX_TYPE_VB then 0x80 else 0x900))) = Some (md, Some addr) \<and>
    content s' p = Some ((new_buffer j ca k)\<lparr>tx_xfer := \<lparr>xfer_md = Some md, xfer_gmr_id = SVGA_ID_INVALID, xfer_fence = 0\<rparr>,
      tx_creator := True, tx_client_map := Some addr, tx_vram_bytes := size1, tx_linked_agp := p1\<rparr>) \<and>
    (if k = TEX_TYPE_OOB then \<exists>l lt. p1 = Some l \<and> content s' l = Some lt \<and> client_memory env pixels sz ro s l lt else p1 = None)"
proof (cases "pixels \<noteq> 0 \<and> sz \<noteq> 0")
  case True
  then obtain l s1 where l: "new_agp_texture env pixels sz ro s = Some (Some l, s1)"
      "new_linked_texture TEX_TYPE_OOB (Some l) size1 fresh sys_mem (bmd (whole_pages (ucast size0 + 0x900))) s1 = Some (Some p, s')"
    using assms(3) by (auto simp: new_texture_def whole_pages_def Let_def bind_eq_Some_conv split: if_splits)
  obtain lt where lt: "content s1 l = Some lt" "client_memory env pixels sz ro s l lt" "l \<noteq> p"
    using agp_linked [OF assms(1,2) l(1)] new_linked_fresh [OF l(2)] by auto
  obtain md addr j ca where n: "bmd (whole_pages (ucast size0 + 0x900)) = Some (md, Some addr)" "content s' = (content s1)(p \<mapsto> (new_buffer j ca TEX_TYPE_OOB)
      \<lparr>tx_xfer := \<lparr>xfer_md = Some md, xfer_gmr_id = SVGA_ID_INVALID, xfer_fence = 0\<rparr>, tx_creator := True, tx_client_map := Some addr,
       tx_vram_bytes := size1, tx_linked_agp := Some l\<rparr>)" using new_linked_texture_content [OF l(2)] by auto
  show ?thesis
    by (intro exI [of _ md] exI [of _ addr] exI [of _ j] exI [of _ ca] exI [of _ "Some l"]) (use True n lt in \<open>simp add: k_def\<close>)
next
  case False
  then have "new_linked_texture k None size1 fresh sys_mem (bmd (whole_pages (ucast size0 + (if k = TEX_TYPE_VB then 0x80 else 0x900)))) s = Some (Some p, s')"
    using assms(3) by (auto simp: new_texture_def whole_pages_def Let_def k_def)
  from new_linked_texture_content [OF this] obtain md addr j ca where
    n: "bmd (whole_pages (ucast size0 + (if k = TEX_TYPE_VB then 0x80 else 0x900))) = Some (md, Some addr)" "content s' = (content s)(p \<mapsto> (new_buffer j ca k)
      \<lparr>tx_xfer := \<lparr>xfer_md = Some md, xfer_gmr_id = SVGA_ID_INVALID, xfer_fence = 0\<rparr>, tx_creator := True, tx_client_map := Some addr,
       tx_vram_bytes := size1, tx_linked_agp := if k = TEX_TYPE_OOB then None else None\<rparr>)" by (elim exE conjE) (rule that)
  show ?thesis
    by (intro exI [of _ md] exI [of _ addr] exI [of _ j] exI [of _ ca] exI [of _ None]) (use False n in \<open>auto simp: k_def\<close>)
qed

text \<open>There is room for a texture: memory for it, a handle and a system object.\<close>

definition room :: "nat option \<Rightarrow> u64 option \<Rightarrow> 'h CEsvga2Shared \<Rightarrow> bool" where
  "room fresh sys_mem s \<longleftrightarrow> fresh \<noteq> None \<and> (\<exists>i < m_num_handles s. handles s ! i = None) \<and>
     (if m_client_sys_objs_map s = None then sys_mem \<noteq> None else \<exists>k < NUM_SYS_OBJS. so_in_use (sys_objs s ! k) = 0)"

lemma find_some: "i < n \<Longrightarrow> P i \<Longrightarrow> \<exists>j. find P [0..<n] = Some j"
  by (cases "find P [0..<n]") (auto simp: find_None_iff)

lemma init_succeeds:
  assumes "room fresh sys_mem s"
  shows "\<exists>p s'. common_texture_init obj_type fresh sys_mem s = (Some p, s')"
proof -
  obtain p where p: "fresh = Some p" using assms by (auto simp: room_def)
  obtain i where i: "find (\<lambda>i. handles s ! i = None) [0..<m_num_handles s] = Some i"
    using assms find_some [of _ "m_num_handles s" "\<lambda>i. handles s ! i = None"] by (auto simp: room_def)
  let ?w = "with_sys_objs sys_mem s"
  have "m_client_sys_objs_map ?w \<noteq> None \<and> (\<exists>k < NUM_SYS_OBJS. so_in_use (sys_objs ?w ! k) = 0)"
  proof (cases "m_client_sys_objs_map s")
    case None
    then have "m_client_sys_objs_map ?w \<noteq> None" "so_in_use (sys_objs ?w ! 0) = 0"
      using assms by (auto simp: room_def with_sys_objs_def zero_sys_obj_def)
    then show ?thesis by (intro conjI exI [of _ 0]) simp_all
  qed (use assms in \<open>auto simp: room_def with_sys_objs_def\<close>)
  then obtain a k where "m_client_sys_objs_map ?w = Some a" "find (\<lambda>k. so_in_use (sys_objs ?w ! k) = 0) [0..<NUM_SYS_OBJS] = Some k"
    using find_some [of _ NUM_SYS_OBJS "\<lambda>k. so_in_use (sys_objs ?w ! k) = 0"] by blast
  then show ?thesis using p i by (auto simp: common_texture_init_def alloc_buf_handle_def alloc_client_shared_def with_sys_objs_def Let_def split: if_splits)
qed

lemma new_texture_succeeds:
  assumes "room fresh sys_mem s" "obj_type \<noteq> TEX_TYPE_OOB" "bmd = Some (md, Some addr)"
    and "new_linked_texture obj_type None size1 fresh sys_mem bmd s = Some (r, s')"
  shows "r \<noteq> None"
  using assms init_succeeds [OF assms(1), of obj_type] by (auto simp: new_linked_texture_def bind_eq_Some_conv)

end
