(* ===== verification/GL_Device.thy ===== *)
theory GL_Device
  imports GL_TextureData
begin

text \<open>
  The methods of \<open>src/AC/UC/CEsvga2Device.cpp\<close> through which a client creates and deletes textures, and what holds over
  every sequence of calls.
\<close>

section \<open>Model\<close>

record VendorNewTextureDataStruc =
  nt_type :: u32
  nt_num_faces :: u8
  nt_num_mipmaps :: u8
  nt_min_mipmap :: u8
  nt_bytespp :: u8
  nt_width :: u32
  nt_height :: u16
  nt_depth :: u16
  nt_vram_pitch :: u32
  nt_pitch :: u32
  nt_read_only :: u32
  nt_size :: "u32 \<times> u32"
  nt_pixels :: "u64 \<times> u64 \<times> u64"

text \<open>
  What the methods get from IOKit: addresses of new textures, memory of a size with its mapping, and the surface with an
  identifier.
\<close>

record texture_env =
  te_agp :: agp_env
  te_fresh :: "nat option"
  te_sys_mem :: "u64 option"
  te_bmd :: "u64 \<Rightarrow> (IOMemoryDescriptor \<times> u64 option) option"
  te_surface :: "u32 \<Rightarrow> nat option"

text \<open>The \<open>switch\<close> over the type, up to \<open>p\<close>.\<close>

definition make_texture ::
  "texture_env \<Rightarrow> VendorNewTextureDataStruc \<Rightarrow> 'h CEsvga2Shared \<Rightarrow> (nat option \<times> 'h CEsvga2Shared) option" where
  "make_texture env d s =
     (case nt_pixels d of (pixels0, pixels1, _) \<Rightarrow>
        if nt_type d = 1 then new_surface_texture (te_surface env) (fst (nt_size d)) (snd (nt_size d)) (te_fresh env) (te_sys_mem env) s
        else if nt_type d = 3
        then new_texture (te_agp env) (fst (nt_size d)) 0 0 0 (nt_read_only d) (te_fresh env) (te_sys_mem env) (te_bmd env) s
        else if nt_type d = 6
        then new_agpref_texture (te_agp env) pixels0 pixels1 (ucast (fst (nt_size d))) (nt_read_only d) (te_fresh env) (te_sys_mem env) s
        else if nt_type d = 8
        then new_texture (te_agp env) (fst (nt_size d)) (snd (nt_size d)) 0 0 (nt_read_only d) (te_fresh env) (te_sys_mem env) (te_bmd env) s
        else if nt_type d = 9
        then new_texture (te_agp env) (fst (nt_size d)) (snd (nt_size d)) pixels1 (ucast (ucast pixels0 :: u32)) (nt_read_only d)
          (te_fresh env) (te_sys_mem env) (te_bmd env) s
        else Some (None, s))"

definition set_texture_data :: "VendorNewTextureDataStruc \<Rightarrow> CEsvga2TextureBuffer \<Rightarrow> CEsvga2TextureBuffer" where
  "set_texture_data d t =
     (let t = t\<lparr>tx_num_faces := nt_num_faces d, tx_num_mipmaps := nt_num_mipmaps d, tx_min_mipmap := nt_min_mipmap d, tx_width := nt_width d,
                tx_height := nt_height d, tx_depth := nt_depth d, tx_vram_pitch := nt_vram_pitch d, tx_pitch := nt_pitch d\<rparr>
      in if nt_type d \<noteq> 1 then t\<lparr>tx_bytespp := ucast (nt_bytespp d)\<rparr> else t)"

text \<open>
  \<open>sizes_ok\<close>: the two structures have their sizes.  What is returned to the client are fields of the new texture, which is
  the second component of the result; the lock, logging and the call of \<open>acceleratorWaitEnabled\<close>, which is not declared
  anywhere, have no counterpart.
\<close>

definition Device_new_texture ::
  "texture_env \<Rightarrow> bool \<Rightarrow> VendorNewTextureDataStruc \<Rightarrow> 'h CEsvga2Shared option \<Rightarrow>
   (IOReturn \<times> nat option \<times> 'h CEsvga2Shared option) option" where
  "Device_new_texture env sizes_ok d m_shared =
     (if \<not> sizes_ok then Some (kIOReturnBadArgument, None, m_shared)
      else case m_shared of None \<Rightarrow> Some (kIOReturnNotReady, None, None)
      | Some s \<Rightarrow>
        if nt_num_faces d \<noteq> 1 \<and> nt_num_faces d \<noteq> 6 then Some (kIOReturnBadArgument, None, m_shared)
        else if unat (nt_min_mipmap d) + unat (nt_num_mipmaps d) > 12 then Some (kIOReturnBadArgument, None, m_shared)
        else if nt_type d > 2 \<and> nt_bytespp d = 0 then Some (kIOReturnBadArgument, None, m_shared)
        else do {
          (r, s) \<leftarrow> make_texture env d s;
          case r of None \<Rightarrow> Some (kIOReturnNoResources, None, Some s)
          | Some p \<Rightarrow>
              do {
                s \<leftarrow> update_tx p (set_texture_data d) s;
                (ok, s) \<leftarrow> initializeTexture (snd (snd (nt_pixels d))) p s;
                Some (if ok then kIOReturnSuccess else kIOReturnError, Some p, Some s)
              }
        })"

definition Device_delete_texture :: "u32 \<Rightarrow> 'h CEsvga2Shared option \<Rightarrow> (IOReturn \<times> 'h CEsvga2Shared option) option" where
  "Device_delete_texture texture_id m_shared =
     (case m_shared of None \<Rightarrow> Some (kIOReturnNotReady, None)
      | Some s \<Rightarrow>
        (case findTextureBuffer texture_id s of None \<Rightarrow> Some (kIOReturnSuccess, m_shared)
         | Some tx \<Rightarrow> do { s \<leftarrow> delete_texture tx s; Some (kIOReturnSuccess, Some s) }))"

section \<open>Calls of a client\<close>

definition texture_env_ok :: "texture_env \<Rightarrow> 'h CEsvga2Shared \<Rightarrow> bool" where
  "texture_env_ok env s \<longleftrightarrow> fresh_ok (te_agp env) (te_fresh env) s"

text \<open>
  The states that a client reaches from a new shared object, in any order of creations, whether they succeed or not,
  and of deletions of textures that no other texture refers to.
\<close>

inductive texture_reach :: "'h CEsvga2Accel option \<Rightarrow> 'h CEsvga2Shared \<Rightarrow> bool" for provider where
  texture_start: "Shared_init provider True True True s0 = (True, s) \<Longrightarrow> textures s0 = Map.empty \<Longrightarrow> prov_ok s \<Longrightarrow>
    texture_reach provider s"
| texture_new: "texture_reach provider s \<Longrightarrow> texture_env_ok env s \<Longrightarrow>
    Device_new_texture env sizes_ok d (Some s) = Some (rc, r, Some s') \<Longrightarrow> texture_reach provider s'"
| texture_delete: "texture_reach provider s \<Longrightarrow> (\<And>p. findTextureBuffer texture_id s = Some p \<Longrightarrow> refs_to s p = {}) \<Longrightarrow>
    Device_delete_texture texture_id (Some s) = Some (rc, Some s') \<Longrightarrow> texture_reach provider s'"

lemma make_texture_ok:
  assumes "shared_ok s" "texture_env_ok env s"
  shows "\<exists>r s'. make_texture env d s = Some (r, s') \<and> created s (set_option (te_fresh env) \<union> set_option (ae_fresh (te_agp env))) r s'"
proof -
  have f: "fresh_ok (te_agp env) (te_fresh env) s" "set_option (te_fresh env) \<inter> live s = {}" using assms(2) by (simp_all add: texture_env_ok_def fresh_ok_def)
  let ?A = "set_option (te_fresh env) \<union> set_option (ae_fresh (te_agp env))"
  obtain xs where xs: "shared_inv s xs" "no_orphans s" using assms(1) by (auto simp: shared_ok_def)
  have none: "created s ?A None s" using created_none [OF xs(2,1)] same_textures_refl by blast
  note nt = new_texture_ok [OF assms(1) f(1)] and na = new_agpref_texture_ok [OF assms(1) f(1)]
  have ns: "\<exists>r s'. new_surface_texture surface sid msk (te_fresh env) sys_mem s = Some (r, s') \<and> created s ?A r s'" for surface sid msk sys_mem
    using new_surface_texture_ok [OF assms(1) f(2)] created_mono [of s "set_option (te_fresh env)" _ _ ?A] by blast
  obtain x y z where "nt_pixels d = (x, y, z)" by (rule prod_cases3)
  then show ?thesis using nt na ns none by (simp add: make_texture_def)
qed

text \<open>The fields of a new texture that the device sets do not matter for the invariant.\<close>

lemma plain_update_ok:
  assumes "created s A (Some p) s'" "plain_change f" "\<And>t. tx_linked_agp (f t) = tx_linked_agp t"
  shows "\<exists>s''. update_tx p f s' = Some s'' \<and> created s A (Some p) s'' \<and> textures s'' p = map_option f (textures s' p)"
proof -
  have c: "shared_ok s'" "same_textures s s'" "p \<notin> live s" "insert p (live s) \<subseteq> live s'" "live s' \<subseteq> live s \<union> A" using assms(1) by (simp_all add: created_def)
  obtain t where t: "textures s' p = Some t" using c(4) by blast
  obtain xs where xs: "shared_inv s' xs" "no_orphans s'" using c(1) by (auto simp: shared_ok_def)
  let ?s = "s'\<lparr>textures := (textures s')(p \<mapsto> f t)\<rparr>"
  have f: "tx_sys_obj (f t) = tx_sys_obj t" "tx_sys_obj_type (f t) = tx_sys_obj_type t" "tx_prev (f t) = tx_prev t" "tx_next (f t) = tx_next t"
    using assms(2) by (simp_all add: plain_change_def)
  note ch = texture_change [OF t f]
  have "lk s' p = tx_linked_agp t" using t by (simp add: lk_def)
  then have lk: "lk ?s = lk s'" using ch(3) assms(3) [of t] by (simp add: fun_upd_idem)
  then have "shared_inv ?s xs" using xs(1) ch link_inv_cong [of s' ?s] by (simp add: shared_inv_def)
  moreover have "no_orphans ?s" using xs(2) ch(2) lk by (simp add: no_orphans_def refs_to_def)
  moreover have "same_textures s ?s" using c(2) ch(1,2) lk by (simp add: same_textures_def)
  ultimately have "created s A (Some p) ?s" using c ch(4) by (auto simp: created_def shared_ok_def)
  then show ?thesis using t by (simp add: update_tx_def)
qed

lemma found_by_id: "table_inv s \<Longrightarrow> p \<in> live s \<Longrightarrow> findTextureBuffer (so_object_id (sysobj s p)) s = Some p"
  by (frule (1) entryE) (auto simp: findTextureBuffer_def sysobj_def table_inv_def)

lemma found_live: "table_inv s \<Longrightarrow> findTextureBuffer i s = Some p \<Longrightarrow> p \<in> live s"
  by (rule handles_live) (auto simp: findTextureBuffer_def table_inv_def split: if_splits)

section \<open>What a new texture holds\<close>

definition valid_request :: "VendorNewTextureDataStruc \<Rightarrow> bool" where
  "valid_request d \<longleftrightarrow> nt_num_faces d \<in> {1, 6} \<and> unat (nt_min_mipmap d) + unat (nt_num_mipmaps d) \<le> 12 \<and> (nt_type d \<le> 2 \<or> nt_bytespp d \<noteq> 0)"

text \<open>The type that a texture gets: a texture in memory of the client needs an address and a size of it, and one without a size in VRAM is a vertex buffer.\<close>

definition requested_type :: "VendorNewTextureDataStruc \<Rightarrow> u8" where
  "requested_type d =
     (if nt_type d = 1 then TEX_TYPE_SURFACE
      else if nt_type d = 6 then TEX_TYPE_AGPREF
      else if nt_type d = 9 \<and> fst (snd (nt_pixels d)) \<noteq> 0 \<and> (ucast (fst (nt_pixels d)) :: u32) \<noteq> 0 then TEX_TYPE_OOB
      else if nt_type d \<noteq> 3 \<and> snd (nt_size d) \<noteq> 0 then TEX_TYPE_STD
      else TEX_TYPE_VB)"

definition has_data :: "VendorNewTextureDataStruc \<Rightarrow> CEsvga2TextureBuffer \<Rightarrow> bool" where
  "has_data d t \<longleftrightarrow>
     tx_num_faces t = nt_num_faces d \<and> tx_num_mipmaps t = nt_num_mipmaps d \<and> tx_min_mipmap t = nt_min_mipmap d \<and>
     tx_width t = nt_width d \<and> tx_height t = nt_height d \<and> tx_depth t = nt_depth d \<and>
     tx_vram_pitch t = nt_vram_pitch d \<and> tx_pitch t = nt_pitch d \<and>
     tx_bytespp t = (if nt_type d = 1 then 0 else ucast (nt_bytespp d)) \<and>
     tx_vram_tile_pages t = snd (snd (nt_pixels d)) \<and> tx_vram_page_bytes t = 4096"

text \<open>
  A texture \<open>t\<close> among the textures \<open>m\<close>, made from state \<open>s\<close> on.  A texture of a surface refers to the surface.  A texture of a
  buffer has a new buffer, mapped for the client, of the size asked for and room for its header.  A texture in memory
  of the client links to the texture of this memory; a reference also holds the distance of its address from
  the beginning of the memory.
\<close>

definition buffer_size :: "VendorNewTextureDataStruc \<Rightarrow> u64" where
  "buffer_size d = whole_pages (ucast (fst (nt_size d)) + (if requested_type d = TEX_TYPE_VB then 0x80 else 0x900))"

definition client_size :: "VendorNewTextureDataStruc \<Rightarrow> u64" where
  "client_size d = (if requested_type d = TEX_TYPE_AGPREF then ucast (fst (nt_size d)) else ucast (ucast (fst (nt_pixels d)) :: u32))"

definition has_link ::
  "texture_env \<Rightarrow> VendorNewTextureDataStruc \<Rightarrow> 'h CEsvga2Shared \<Rightarrow> (nat \<Rightarrow> CEsvga2TextureBuffer option) \<Rightarrow> CEsvga2TextureBuffer \<Rightarrow> bool" where
  "has_link env d s m t \<longleftrightarrow>
     (\<exists>l lt. tx_linked_agp t = Some l \<and> m l = Some lt \<and> client_memory (te_agp env) (fst (snd (nt_pixels d))) (client_size d) (nt_read_only d) s l lt \<and>
        (requested_type d = TEX_TYPE_AGPREF \<longrightarrow> tx_agp_addr t = (if fst (nt_pixels d) = 0 then 0 else fst (nt_pixels d) - tx_agp_addr lt)))"

definition has_source ::
  "texture_env \<Rightarrow> VendorNewTextureDataStruc \<Rightarrow> 'h CEsvga2Shared \<Rightarrow> (nat \<Rightarrow> CEsvga2TextureBuffer option) \<Rightarrow> CEsvga2TextureBuffer \<Rightarrow> bool" where
  "has_source env d s m t \<longleftrightarrow>
     tx_sys_obj_type t = requested_type d \<and> tx_creator t \<and> tx_surface_id t = SVGA_ID_INVALID \<and> tx_yuv_shadow t = SVGA_ID_INVALID \<and>
     (if requested_type d = TEX_TYPE_SURFACE
      then te_surface env (fst (nt_size d)) \<noteq> None \<and> tx_linked_surface t = te_surface env (fst (nt_size d)) \<and>
           tx_cgs_surface_id t = fst (nt_size d) \<and> tx_fb_idx_mask t = snd (nt_size d)
      else tx_linked_surface t = None) \<and>
     (if requested_type d \<in> {TEX_TYPE_VB, TEX_TYPE_STD, TEX_TYPE_OOB}
      then \<exists>md addr. te_bmd env (buffer_size d) = Some (md, Some addr) \<and> xfer_md (tx_xfer t) = Some md \<and> tx_client_map t = Some addr \<and>
           tx_vram_bytes t = (if requested_type d = TEX_TYPE_VB then 0 else snd (nt_size d))
      else xfer_md (tx_xfer t) = None \<and> tx_client_map t = None) \<and>
     (if requested_type d \<in> {TEX_TYPE_AGPREF, TEX_TYPE_OOB} then has_link env d s m t else tx_linked_agp t = None)"

lemma requested_type_not_agp: "requested_type d \<noteq> TEX_TYPE_AGP"
  by (simp add: requested_type_def)

lemma make_texture_source:
  assumes "shared_ok s" "texture_env_ok env s" "make_texture env d s = Some (Some p, s')"
  shows "\<exists>t. content s' p = Some t \<and> has_source env d s (content s') t \<and> tx_bytespp t = 0"
proof -
  have f: "fresh_ok (te_agp env) (te_fresh env) s" using assms(2) by (simp add: texture_env_ok_def)
  note m = assms(3) [unfolded make_texture_def case_prod_beta]
  have u: "(ucast (x :: u32) :: u64) = 0 \<longleftrightarrow> x = 0" for x by (simp add: word_unat_eq_iff)
  consider (surface) "nt_type d = 1" | (vb) "nt_type d = 3" | (agpref) "nt_type d = 6" | (std) "nt_type d = 8" | (oob) "nt_type d = 9"
    using m by (auto split: if_splits)
  then show ?thesis
  proof cases
    case surface
    then have "new_surface_texture (te_surface env) (fst (nt_size d)) (snd (nt_size d)) (te_fresh env) (te_sys_mem env) s = Some (Some p, s')" using m by simp
    from new_surface_texture_content [OF this] show ?thesis
      using surface by (elim exE conjE) (simp add: has_source_def has_link_def client_size_def requested_type_def new_buffer_def xfer_init_def)
  next
    case vb
    then have "new_texture (te_agp env) (fst (nt_size d)) 0 0 0 (nt_read_only d) (te_fresh env) (te_sys_mem env) (te_bmd env) s = Some (Some p, s')" using m by simp
    from new_texture_content [OF assms(1) f this] show ?thesis
      using vb by (elim exE conjE) (simp add: has_source_def has_link_def client_size_def requested_type_def buffer_size_def new_buffer_def xfer_init_def)
  next
    case agpref
    then have n: "new_agpref_texture (te_agp env) (fst (nt_pixels d)) (fst (snd (nt_pixels d))) (ucast (fst (nt_size d))) (nt_read_only d) (te_fresh env)
        (te_sys_mem env) s = Some (Some p, s')" using m by simp
    obtain l ltx j ca where "content s' l = Some ltx"
      "client_memory (te_agp env) (fst (snd (nt_pixels d))) (ucast (fst (nt_size d))) (nt_read_only d) s l ltx"
      "content s' p = Some ((new_buffer j ca TEX_TYPE_AGPREF)\<lparr>tx_creator := True,
        tx_agp_addr := if fst (nt_pixels d) \<noteq> 0 then fst (nt_pixels d) - tx_agp_addr ltx else 0, tx_linked_agp := Some l\<rparr>)"
      using new_agpref_texture_content [OF n assms(1) f] by (elim exE conjE) (rule that)
    then show ?thesis using agpref by (simp add: has_source_def has_link_def client_size_def requested_type_def new_buffer_def xfer_init_def)
  next
    case std
    then have "new_texture (te_agp env) (fst (nt_size d)) (snd (nt_size d)) 0 0 (nt_read_only d) (te_fresh env) (te_sys_mem env) (te_bmd env) s = Some (Some p, s')" using m by simp
    from new_texture_content [OF assms(1) f this] show ?thesis
      using std by (elim exE conjE) (auto simp: has_source_def has_link_def client_size_def requested_type_def buffer_size_def new_buffer_def xfer_init_def split: if_splits)
  next
    case oob
    then have "new_texture (te_agp env) (fst (nt_size d)) (snd (nt_size d)) (fst (snd (nt_pixels d))) (ucast (ucast (fst (nt_pixels d)) :: u32)) (nt_read_only d)
        (te_fresh env) (te_sys_mem env) (te_bmd env) s = Some (Some p, s')" using m by simp
    from new_texture_content [OF assms(1) f this] show ?thesis
      using oob by (elim exE conjE) (auto simp: has_source_def has_link_def client_size_def requested_type_def buffer_size_def new_buffer_def xfer_init_def u split: if_splits)
  qed
qed

text \<open>The fields that the device sets afterwards.\<close>

definition set_all :: "VendorNewTextureDataStruc \<Rightarrow> CEsvga2TextureBuffer \<Rightarrow> CEsvga2TextureBuffer" where
  "set_all d t = (set_texture_data d t)\<lparr>tx_vram_tile_pages := snd (snd (nt_pixels d)), tx_vram_page_bytes := 4096\<rparr>"

lemma set_all_plain: "plain_change (set_all d)" "tx_linked_agp (set_all d t) = tx_linked_agp t" "unlisted (set_all d t) = set_all d (unlisted t)"
  by (simp_all add: plain_change_def set_all_def set_texture_data_def unlisted_def Let_def)

lemma set_all_data: "tx_bytespp t = 0 \<Longrightarrow> has_data d (set_all d t)"
  by (simp add: has_data_def set_all_def set_texture_data_def Let_def)

lemma has_data_unlisted [simp]: "has_data d (unlisted t) = has_data d t"
  by (simp add: has_data_def unlisted_def)

lemma set_all_link:
  assumes "has_link env d s m t" "m p = Some t" "tx_sys_obj_type t \<noteq> TEX_TYPE_AGP"
  shows "has_link env d s (m(p \<mapsto> set_all d t)) (set_all d t)"
proof -
  obtain l lt where l: "tx_linked_agp t = Some l" "m l = Some lt"
    "client_memory (te_agp env) (fst (snd (nt_pixels d))) (client_size d) (nt_read_only d) s l lt"
    "requested_type d = TEX_TYPE_AGPREF \<longrightarrow> tx_agp_addr t = (if fst (nt_pixels d) = 0 then 0 else fst (nt_pixels d) - tx_agp_addr lt)"
    using assms(1) unfolding has_link_def by (elim exE conjE) (rule that)
  then have "l \<noteq> p" using assms(2,3) by (auto simp: client_memory_def Let_def)
  moreover have "tx_agp_addr (set_all d t) = tx_agp_addr t" by (simp add: set_all_def set_texture_data_def Let_def)
  ultimately show ?thesis unfolding has_link_def
    by (intro exI [of _ l] exI [of _ lt]) (use l set_all_plain(2) in simp)
qed

lemma set_all_source:
  assumes "has_source env d s m t" "m p = Some t"
  shows "has_source env d s (m(p \<mapsto> set_all d t)) (set_all d t)"
proof -
  have "has_link env d s (m(p \<mapsto> set_all d t)) (set_all d t)" if "has_link env d s m t"
    using set_all_link [OF that assms(2)] assms(1) requested_type_not_agp [of d] by (simp add: has_source_def)
  moreover have "tx_sys_obj_type (set_all d t) = tx_sys_obj_type t \<and> tx_creator (set_all d t) = tx_creator t \<and> tx_surface_id (set_all d t) = tx_surface_id t \<and>
      tx_yuv_shadow (set_all d t) = tx_yuv_shadow t \<and> tx_linked_surface (set_all d t) = tx_linked_surface t \<and> tx_cgs_surface_id (set_all d t) = tx_cgs_surface_id t \<and>
      tx_fb_idx_mask (set_all d t) = tx_fb_idx_mask t \<and> tx_xfer (set_all d t) = tx_xfer t \<and> tx_client_map (set_all d t) = tx_client_map t \<and>
      tx_vram_bytes (set_all d t) = tx_vram_bytes t"
    by (simp add: set_all_def set_texture_data_def Let_def)
  ultimately show ?thesis using assms(1) unfolding has_source_def by (simp add: set_all_plain split del: if_split split: if_split_asm)
qed

lemma has_link_listed:
  assumes "has_link env d s (content s') (unlisted t)"
  shows "has_link env d s (textures s') t"
proof -
  have e: "tx_linked_agp (unlisted t) = tx_linked_agp t" "tx_agp_addr (unlisted t) = tx_agp_addr t" by (simp_all add: unlisted_def)
  obtain l u where l: "tx_linked_agp t = Some l" "content s' l = Some u"
    "client_memory (te_agp env) (fst (snd (nt_pixels d))) (client_size d) (nt_read_only d) s l u"
    "requested_type d = TEX_TYPE_AGPREF \<longrightarrow> tx_agp_addr t = (if fst (nt_pixels d) = 0 then 0 else fst (nt_pixels d) - tx_agp_addr u)"
    using assms unfolding has_link_def e by (elim exE conjE) (rule that)
  from l(2) obtain lt where lt: "textures s' l = Some lt" "u = unlisted lt" by (rule content_SomeE)
  have "tx_agp_addr u = tx_agp_addr lt" unfolding lt(2) by (simp add: unlisted_def)
  then show ?thesis unfolding has_link_def
    by (intro exI [of _ l] exI [of _ lt]) (use l lt in simp)
qed

lemma has_source_listed: "has_source env d s (content s') (unlisted t) \<Longrightarrow> has_source env d s (textures s') t"
  using has_link_listed [of env d s s' t] unfolding has_source_def by (simp add: unlisted_def split del: if_split split: if_split_asm)

lemma set_all_run:
  "do { s \<leftarrow> update_tx p (set_texture_data d) s; initializeTexture (snd (snd (nt_pixels d))) p s } = map_option (Pair True) (update_tx p (set_all d) s)"
  by (cases "textures s p") (simp_all add: update_tx_def initializeTexture_def set_all_def)

definition new_result ::
  "texture_env \<Rightarrow> VendorNewTextureDataStruc \<Rightarrow> 'h CEsvga2Shared \<Rightarrow> IOReturn \<Rightarrow> nat option \<Rightarrow> 'h CEsvga2Shared \<Rightarrow> bool" where
  "new_result env d s rc r s' \<longleftrightarrow>
     created s (set_option (te_fresh env) \<union> set_option (ae_fresh (te_agp env))) r s' \<and> (rc = kIOReturnSuccess \<longleftrightarrow> r \<noteq> None) \<and>
     (\<forall>p. r = Some p \<longrightarrow> (\<exists>t. textures s' p = Some t \<and> has_data d t \<and> has_source env d s (textures s') t))"

lemma finish_texture:
  assumes "shared_ok s" "texture_env_ok env s" "make_texture env d s = Some (Some p, s1)"
  shows "\<exists>s'. do { s \<leftarrow> update_tx p (set_texture_data d) s1; initializeTexture (snd (snd (nt_pixels d))) p s } = Some (True, s') \<and>
    new_result env d s kIOReturnSuccess (Some p) s'"
proof -
  have c: "created s (set_option (te_fresh env) \<union> set_option (ae_fresh (te_agp env))) (Some p) s1" using make_texture_ok [OF assms(1,2), of d] assms(3) by auto
  obtain s' where s': "update_tx p (set_all d) s1 = Some s'" "created s (set_option (te_fresh env) \<union> set_option (ae_fresh (te_agp env))) (Some p) s'"
    using plain_update_ok [OF c set_all_plain(1,2)] by blast
  obtain t where t: "content s1 p = Some t" "has_source env d s (content s1) t" "tx_bytespp t = 0" using make_texture_source [OF assms] by blast
  have e: "content s' = (content s1)(p \<mapsto> set_all d t)" using unlisted_update [OF s'(1) set_all_plain(3)] t(1) by simp
  then have "content s' p = Some (set_all d t)" by simp
  then obtain u where u: "textures s' p = Some u" "set_all d t = unlisted u" by (rule content_SomeE)
  have "has_source env d s (content s') (unlisted u)" using set_all_source [OF t(2,1)] by (simp add: e u(2))
  then have "has_source env d s (textures s') u" by (rule has_source_listed)
  moreover have "has_data d u" using set_all_data [OF t(3), of d] unfolding u(2) by simp
  ultimately show ?thesis using s' u(1) unfolding set_all_run by (simp add: new_result_def)
qed

lemma Device_new_texture_ok:
  assumes "shared_ok s" "texture_env_ok env s"
  shows "\<exists>rc r s'. Device_new_texture env sizes_ok d (Some s) = Some (rc, r, Some s') \<and> new_result env d s rc r s' \<and>
    (if sizes_ok \<and> valid_request d then rc = (if r = None then kIOReturnNoResources else kIOReturnSuccess) \<and> (\<exists>s1. make_texture env d s = Some (r, s1))
     else rc = kIOReturnBadArgument)"
proof (cases "sizes_ok \<and> valid_request d")
  case False
  obtain xs where xs: "shared_inv s xs" "no_orphans s" using assms(1) by (auto simp: shared_ok_def)
  have "new_result env d s kIOReturnBadArgument None s" using created_none [OF xs(2,1)] same_textures_refl by (auto simp: new_result_def)
  moreover have "Device_new_texture env sizes_ok d (Some s) = Some (kIOReturnBadArgument, None, Some s)"
    using False by (auto simp: Device_new_texture_def valid_request_def not_le)
  ultimately show ?thesis using False by auto
next
  case True
  obtain r s1 where m: "make_texture env d s = Some (r, s1)" "created s (set_option (te_fresh env) \<union> set_option (ae_fresh (te_agp env))) r s1"
    using make_texture_ok [OF assms] by blast
  have e: "Device_new_texture env sizes_ok d (Some s) = (case r of None \<Rightarrow> Some (kIOReturnNoResources, None, Some s1)
     | Some p \<Rightarrow> do { s \<leftarrow> update_tx p (set_texture_data d) s1; (ok, s) \<leftarrow> initializeTexture (snd (snd (nt_pixels d))) p s;
                      Some (if ok then kIOReturnSuccess else kIOReturnError, Some p, Some s) })"
    using True m(1) by (auto simp: Device_new_texture_def valid_request_def not_le)
  show ?thesis
  proof (cases r)
    case None
    then show ?thesis using e True m by (auto simp: new_result_def)
  next
    case (Some p)
    from finish_texture [OF assms m(1) [unfolded Some]] show ?thesis using e True m(1) Some by (auto simp flip: Option.bind_assoc)
  qed
qed

lemma buffer_texture_succeeds:
  assumes "nt_type d \<in> {3, 8}" "room (te_fresh env) (te_sys_mem env) s" "te_bmd env (buffer_size d) = Some (md, Some addr)"
    and "make_texture env d s = Some (r, s1)"
  shows "r \<noteq> None"
proof -
  define k :: u8 where "k = requested_type d"
  have "new_linked_texture k None (if nt_type d = 3 then 0 else snd (nt_size d)) (te_fresh env) (te_sys_mem env) (te_bmd env (buffer_size d)) s = Some (r, s1)" "k \<noteq> TEX_TYPE_OOB"
    using assms(1,4) unfolding k_def
    by (auto simp: make_texture_def new_texture_def requested_type_def buffer_size_def whole_pages_def Let_def case_prod_beta split: if_splits)
  then show ?thesis using new_texture_succeeds [OF assms(2) _ assms(3)] by blast
qed

lemma Device_delete_texture_ok:
  assumes "shared_ok s" "findTextureBuffer i s = Some p" "refs_to s p = {}"
  shows "\<exists>s'. Device_delete_texture i (Some s) = Some (kIOReturnSuccess, Some s') \<and> shared_ok s' \<and> kept_others (deleted_with s p) s s'"
proof -
  obtain xs where xs: "shared_inv s xs" "no_orphans s" using assms(1) by (auto simp: shared_ok_def)
  then have l: "p \<in> live s" "link_inv s" using found_live [OF _ assms(2)] by (auto simp: shared_inv_def)
  obtain s' xs' where s': "delete_texture p s = Some s'" "shared_inv s' xs'" "kept_others (deleted_with s p) s s'" using delete_ok [OF xs(1) l(1) assms(3)] by blast
  then have "shared_ok s'" using delete_no_orphans [OF xs(2) l(2) s'(3) l(1)] by (auto simp: shared_ok_def)
  then show ?thesis using s' assms(2) by (simp add: Device_delete_texture_def)
qed

lemma texture_reach_ok: "texture_reach provider s \<Longrightarrow> shared_ok s"
proof (induction rule: texture_reach.induct)
  case (texture_start s0 s)
  then have "shared_inv s [] \<and> no_orphans s"
    by (auto simp: Shared_init_def alloc_handles_def shared_inv_def list_inv_def table_inv_def link_inv_def lk_def no_orphans_def ty_def handles_def)
  then show ?case by (auto simp: shared_ok_def)
next
  case (texture_new s env sizes_ok d rc r s')
  then show ?case using Device_new_texture_ok [of s env sizes_ok d] by (auto simp: new_result_def created_def)
next
  case (texture_delete s texture_id rc s')
  then show ?case using Device_delete_texture_ok [of s texture_id]
    by (cases "findTextureBuffer texture_id s") (auto simp: Device_delete_texture_def)
qed

section \<open>Cleaning up\<close>

lemma cleanup_handle_ok:
  assumes inv: "table_inv s" "prov_ok s" and i: "i < 128"
  shows "\<exists>s'. cleanup_handle i s = Some s' \<and> table_inv s' \<and> prov_ok s' \<and> handles s' = (handles s)[i := None]"
proof (cases "handles s ! i")
  case None
  then have "(handles s)[i := None] = handles s" using list_update_id [of "handles s" i] by simp
  then show ?thesis using inv None by (simp add: cleanup_handle_def)
next
  case (Some p)
  note h = handles_live [OF inv(1) i Some]
  obtain k where k: "kof s p = Some k" using entryE [OF inv(1) h(1)] by blast
  obtain t where t: "textures s p = Some t" "tx_sys_obj t = Some k" using k by (auto simp: kof_def bind_eq_Some_conv)
  define s1 where "s1 = free_client_shared (Some k) (free_buf_handle p (so_object_id (sys_objs s ! k)) s)"
  have id: "unat (so_object_id (sys_objs s ! k)) = i" using h(2) k by (simp add: sysobj_def)
  have s1: "s1 = s\<lparr>m_handle_table := Some ((handles s)[i := None]), sys_objs := (sys_objs s)[k := zero_sys_obj]\<rparr>"
    using freed_handle [OF inv(1) h(1) k] by (simp add: s1_def id)
  then have "textures s1 p = Some t" "prov_ok s1" using t inv(2) by (simp_all add: prov_ok_def)
  then obtain t' a where f: "finalize_texture p s1 = Some (s1\<lparr>sh_provider := a, textures := (textures s1)(p \<mapsto> t')\<rparr>)"
    "prov_ok (s1\<lparr>sh_provider := a, textures := (textures s1)(p \<mapsto> t')\<rparr>)" using finalize_ok by blast
  define s' where "s' = releaseVendorTextureBuffer p (s1\<lparr>sh_provider := a, textures := (textures s1)(p \<mapsto> t')\<rparr>)"
  have s': "textures s' = (textures s)(p := None)" "m_handle_table s' = Some ((handles s)[i := None])" "m_num_handles s' = m_num_handles s"
    "m_client_sys_objs_map s' = m_client_sys_objs_map s" "sys_objs s' = (sys_objs s)[k := zero_sys_obj]" "prov_ok s'"
    using f(2) by (simp_all add: s'_def releaseVendorTextureBuffer_def s1 prov_ok_def)
  have "table_inv s'" by (rule table_remove(1) [OF inv(1) h(1) k]) (simp_all add: s' id kof_def)
  moreover have "cleanup_handle i s = Some s'" using Some t f(1) by (simp add: cleanup_handle_def s'_def s1_def)
  moreover have "handles s' = (handles s)[i := None]" using s'(2) by (simp add: handles_def)
  ultimately show ?thesis using s'(6) by blast
qed

lemma cleanup_handles_ok:
  assumes "table_inv s" "prov_ok s" "set is \<subseteq> {..<128}"
  shows "\<exists>s'. cleanup_handles is s = Some s' \<and> table_inv s' \<and> (\<forall>i < 128. handles s' ! i = (if i \<in> set is then None else handles s ! i))"
  using assms
proof (induction "is" arbitrary: s)
  case (Cons i "is")
  then obtain s1 where s1: "cleanup_handle i s = Some s1" "table_inv s1" "prov_ok s1" "handles s1 = (handles s)[i := None]" using cleanup_handle_ok [of s i] by auto
  then obtain s' where s': "cleanup_handles is s1 = Some s'" "table_inv s'" "\<forall>j < 128. handles s' ! j = (if j \<in> set is then None else handles s1 ! j)" using Cons by force
  have "length (handles s) = 128" using Cons(2) by (simp add: table_inv_def)
  then have "\<forall>j < 128. handles s' ! j = (if j \<in> set (i # is) then None else handles s ! j)" using s'(3) s1(4) by (auto simp: nth_list_update)
  then show ?case using s' s1(1) by auto
qed simp

section \<open>A client\<close>

text \<open>A client with a texture (2) that refers to its memory at address 8192, for which there is then another texture (1).\<close>

definition ex_start :: "unit CEsvga2Shared" where
  "ex_start = \<lparr>sh_provider = None, m_handle_table = Some (replicate 128 None), m_num_handles = 128, m_texture_list = None,
     m_client_sys_objs_map = None, sys_objs = [], m_shared_lock = True, textures = Map.empty\<rparr>"

definition ex_env :: texture_env where
  "ex_env = \<lparr>te_agp = \<lparr>ae_buffer = \<lambda>_. None, ae_persistent = \<lambda>_. no_md, ae_region = \<lambda>_ _. Some 3,
       ae_range = \<lambda>page n _. Some (\<lparr>md_segments = (\<lambda>offset. (page + offset, n - offset)), md_prepare_rc = kIOReturnSuccess, md_wired = 0\<rparr>, n), ae_fresh = Some 1, ae_sys_mem = Some 65536\<rparr>,
     te_fresh = Some 2, te_sys_mem = None, te_bmd = \<lambda>_. None, te_surface = \<lambda>_. None\<rparr>"

definition ex_data :: VendorNewTextureDataStruc where
  "ex_data = \<lparr>nt_type = 6, nt_num_faces = 1, nt_num_mipmaps = 1, nt_min_mipmap = 0, nt_bytespp = 4, nt_width = 32, nt_height = 32,
     nt_depth = 1, nt_vram_pitch = 128, nt_pitch = 128, nt_read_only = 0, nt_size = (4096, 0), nt_pixels = (0, 8192, 0)\<rparr>"

definition ex_state :: "unit CEsvga2Shared" where
  "ex_state = (case Device_new_texture ex_env True ex_data (Some ex_start) of Some (_, _, Some s) \<Rightarrow> s | _ \<Rightarrow> ex_start)"

lemma ex_start_reach: "texture_reach None ex_start"
  by (rule texture_start [of None ex_start]) (simp_all add: ex_start_def Shared_init_def alloc_handles_def prov_ok_def)

lemma ex_env_ok: "texture_env_ok ex_env ex_start"
  by (simp add: texture_env_ok_def fresh_ok_def ex_env_def ex_start_def)

lemma ex_state_reach: "texture_reach None ex_state"
proof -
  obtain rc r s' where "Device_new_texture ex_env True ex_data (Some ex_start) = Some (rc, r, Some s')"
    using Device_new_texture_ok [OF texture_reach_ok [OF ex_start_reach] ex_env_ok] by blast
  moreover from this have "texture_reach None s'" by (rule texture_new [OF ex_start_reach ex_env_ok])
  ultimately show ?thesis by (simp add: ex_state_def)
qed

lemma find_first: "P 0 \<Longrightarrow> 0 < n \<Longrightarrow> find P [0..<n] = Some 0" "\<not> P 0 \<Longrightarrow> P 1 \<Longrightarrow> 1 < n \<Longrightarrow> find P [0..<n] = Some (1::nat)"
  by (simp_all add: upt_conv_Cons)

lemmas ex_eval = ex_start_def ex_env_def ex_data_def Device_new_texture_def make_texture_def new_agpref_texture_def new_agp_texture_def agp_search.simps
  agp_user_def isUserMemoryReadOnly_def agp_common_def common_texture_init_def alloc_buf_handle_def alloc_client_shared_def find_first handles_def
  update_sys_obj_def update_tx_def link_texture_at_head_def add_reference_def initializeTexture_def set_texture_data_def new_buffer_def zero_sys_obj_def

lemma ex_state_values:
  "lk ex_state 2 = Some 1" "ty ex_state 2 = Some TEX_TYPE_AGPREF" "findTextureBuffer 0 ex_state = Some 1" "findTextureBuffer 1 ex_state = Some 2"
  by (simp_all add: ex_state_def ex_eval lk_def ty_def findTextureBuffer_def Let_def)

lemma lk_live: "lk s p = Some l \<Longrightarrow> p \<in> live s" by (auto simp: lk_def bind_eq_Some_conv)

lemma ex_state_unreferenced: "refs_to ex_state 2 = {}"
proof -
  have "link_inv ex_state" using texture_reach_ok [OF ex_state_reach] by (auto simp: shared_ok_def shared_inv_def)
  then show ?thesis using link_types(2) [of ex_state _ 2] ex_state_values(2) by (auto simp: refs_to_def)
qed

section \<open>Properties\<close>

text \<open>
  C32. In every state that a client reaches with calls that create textures and calls that delete textures to which no
  other texture refers, the list of textures consists of exactly the live textures, and is linked in both
  directions; each texture is found by the identifier in its system object; the count of references of each texture is
  the number of textures that link to it; and no texture of client memory is left without a texture that uses
  it.
\<close>

theorem textures_consistent:
  assumes "texture_reach provider s"
  shows "(\<exists>xs. list_inv s xs \<and> set xs = live s) \<and>
    (p \<in> live s \<longrightarrow> findTextureBuffer (so_object_id (sysobj s p)) s = Some p \<and>
       unat (so_refcount (sysobj s p)) = card (refs_to s p) \<and> (ty s p = Some TEX_TYPE_AGP \<longrightarrow> refs_to s p \<noteq> {}))"
proof -
  obtain xs where xs: "list_inv s xs" "set xs = live s" "table_inv s" "link_inv s" "no_orphans s"
    using texture_reach_ok [OF assms] by (auto simp: shared_ok_def shared_inv_def)
  have "unat (so_refcount (sysobj s p)) = card (refs_to s p)" if p: "p \<in> live s"
  proof -
    have "card (refs_to s p) \<le> 128" using card_mono [OF _ refs_live] live_finite [OF xs(3)] by (meson le_trans)
    then show ?thesis using refcount_word(1) [OF xs(3,4) p] by (simp add: unsigned_of_nat take_bit_nat_eq_self_iff)
  qed
  then show ?thesis using xs found_by_id [OF xs(3)] by (auto simp: no_orphans_def)
qed

theorem textures_consistent_witness:
  "findTextureBuffer (so_object_id (sysobj ex_state 2)) ex_state = Some 2 \<and> unat (so_refcount (sysobj ex_state 2)) = card (refs_to ex_state 2)"
  using textures_consistent [OF ex_state_reach, of 2] lk_live [OF ex_state_values(1)] by simp



text \<open>
  C34. Deleting a texture to which no other refers succeeds in every reachable state.  It frees that texture, and the
  texture of client memory that it links to exactly if no other texture links to this; all others stay as they
  are.
\<close>

theorem delete_texture_exact:
  assumes "texture_reach provider s" "findTextureBuffer i s = Some p" "refs_to s p = {}"
  shows "\<exists>s'. Device_delete_texture i (Some s) = Some (kIOReturnSuccess, Some s') \<and>
    live s' = live s - {p} - (case lk s p of None \<Rightarrow> {} | Some l \<Rightarrow> if refs_to s l = {p} then {l} else {}) \<and>
    (q \<in> live s' \<longrightarrow> kof s' q = kof s q \<and> ty s' q = ty s q \<and> lk s' q = lk s q)"
proof -
  obtain s' where s': "Device_delete_texture i (Some s) = Some (kIOReturnSuccess, Some s')" "kept_others (deleted_with s p) s s'"
    using Device_delete_texture_ok [OF texture_reach_ok [OF assms(1)] assms(2,3)] by blast
  have l: "live s' = live s - deleted_with s p" using s'(2) unfolding kept_others_def by (rule conjunct1)
  have "live s' = live s - {p} - (case lk s p of None \<Rightarrow> {} | Some l \<Rightarrow> if refs_to s l = {p} then {l} else {})"
    unfolding l deleted_with_def by (rule Diff_insert2)
  moreover have "q \<in> live s' \<longrightarrow> kof s' q = kof s q \<and> ty s' q = ty s q \<and> lk s' q = lk s q"
    using s'(2) unfolding kept_others_def by (intro impI, elim conjE) (drule bspec, erule (1) subst)
  ultimately show ?thesis using s'(1) by (intro exI conjI)
qed

theorem delete_texture_exact_witness:
  "\<exists>s'. Device_delete_texture 1 (Some ex_state) = Some (kIOReturnSuccess, Some s') \<and> 2 \<notin> live s'"
proof -
  obtain s' where s': "Device_delete_texture 1 (Some ex_state) = Some (kIOReturnSuccess, Some s')"
    "live s' = live ex_state - {2} - (case lk ex_state 2 of None \<Rightarrow> {} | Some l \<Rightarrow> if refs_to ex_state l = {2} then {l} else {})"
    using delete_texture_exact [OF ex_state_reach ex_state_values(4) ex_state_unreferenced, of 0] by (elim exE conjE) (rule that)
  have "2 \<notin> live s'" unfolding s'(2) by simp
  then show ?thesis using s'(1) by simp
qed

text \<open>
  C35. \<open>delete_texture\<close> of the device does not look at the count of references.  In every reachable state where a
  texture links to a texture of client memory, the client can delete the latter by its identifier: the call succeeds and
  leaves a link to freed memory, which deleting the first texture then follows.
\<close>

theorem delete_referenced_dangles:
  assumes "texture_reach provider s" "lk s p = Some l" "findTextureBuffer i s = Some l"
  shows "\<exists>s'. Device_delete_texture i (Some s) = Some (kIOReturnSuccess, Some s') \<and> lk s' p = Some l \<and> l \<notin> live s' \<and>
    delete_texture p s' = None"
proof -
  obtain xs where xs: "list_inv s xs" "set xs = live s" "table_inv s" "link_inv s" "prov_ok s"
    using texture_reach_ok [OF assms(1)] by (auto simp: shared_ok_def shared_inv_def)
  note lt = link_types [OF xs(4) assms(2)]
  obtain s' where s': "drop_texture l s = Some s'" "dropped l s s'" using drop_ok [OF xs(1,2,3,5) lt(3)] by blast
  then have d: "lk s' p = Some l" "ty s' p = ty s p" "textures s' l = None" using lt(5) assms(2) by (auto simp: dropped_def)
  then obtain t where "textures s' p = Some t" "tx_linked_agp t = Some l" "tx_sys_obj_type t = TEX_TYPE_AGPREF \<or> tx_sys_obj_type t = TEX_TYPE_OOB"
    using lt(1) by (auto simp: lk_def ty_def bind_eq_Some_conv)
  then have "delete_texture p s' = None" using d(3) by (subst delete_texture.simps) auto
  then show ?thesis using d s' assms(3) delete_plain [OF lt(3,6)] by (auto simp: Device_delete_texture_def)
qed

theorem delete_referenced_dangles_witness:
  "\<exists>s'. Device_delete_texture 0 (Some ex_state) = Some (kIOReturnSuccess, Some s') \<and> lk s' 2 = Some 1 \<and> 1 \<notin> live s' \<and>
    delete_texture 2 s' = None"
  by (rule delete_referenced_dangles [OF ex_state_reach ex_state_values(1,3)])

text \<open>
  C36. \<open>Cleanup\<close> of the shared object returns from every reachable state, and frees every texture together with the list,
  the handle table and the system objects.
\<close>

theorem Shared_Cleanup_frees_all:
  assumes "texture_reach provider s"
  shows "\<exists>s'. Shared_Cleanup s = Some s' \<and> live s' = {} \<and> m_texture_list s' = None \<and> m_handle_table s' = None \<and>
    m_client_sys_objs_map s' = None"
proof -
  have inv: "table_inv s" "prov_ok s" using texture_reach_ok [OF assms] by (auto simp: shared_ok_def shared_inv_def)
  then have n: "m_num_handles s = 128" by (simp add: table_inv_def)
  obtain s1 where s1: "cleanup_handles [0..<128] s = Some s1" "table_inv s1" "\<forall>i < 128. handles s1 ! i = None"
    using cleanup_handles_ok [OF inv, of "[0..<128]"] by (auto simp: lessThan_atLeast0)
  have "live s1 = {}" using s1(3) entryE [OF s1(2)] by (metis equals0I option.distinct(1))
  moreover have "m_handle_table s1 \<noteq> None" using s1(2) by (simp add: table_inv_def)
  ultimately show ?thesis using s1(1) by (simp add: Shared_Cleanup_def n free_handles_def Let_def)
qed

theorem Shared_Cleanup_frees_all_witness:
  "\<exists>s'. Shared_Cleanup ex_state = Some s' \<and> live s' = {} \<and> m_texture_list s' = None \<and> m_handle_table s' = None \<and>
    m_client_sys_objs_map s' = None"
  by (rule Shared_Cleanup_frees_all [OF ex_state_reach])

end
