(* ===== verification/GL_DevCaps.thy ===== *)
theory GL_DevCaps
  imports Accel_Surface
begin

text \<open>
  \<open>src/AC/GL/DevCaps.c\<close>: the table of 3D capabilities, read from the records in the capability block of the FIFO
  (\<open>src/ceinclude/svga3d_caps.h\<close>), and its use in \<open>start\<close> of the accelerator.
\<close>

section \<open>Model\<close>

abbreviation (input) SVGA3D_DEVCAP_MAX :: u32 where "SVGA3D_DEVCAP_MAX \<equiv> 84"
abbreviation (input) SVGA3DCAPS_RECORD_DEVCAPS :: u32 where "SVGA3DCAPS_RECORD_DEVCAPS \<equiv> 0x100"

definition allocGPUCaps :: "bool \<Rightarrow> u32 list option" where
  "allocGPUCaps alloc_ok = (if alloc_ok then Some (replicate 84 0) else None)"

text \<open>
  Indices into the block are 32-bit numbers.  Both loops may run forever: the inner one if the length is
  \<open>0xFFFFFFFF\<close>, the outer one if the lengths lead back to an earlier record.
\<close>

definition store_cap :: "u32 \<Rightarrow> u32 \<Rightarrow> u32 list \<Rightarrow> u32 list" where
  "store_cap c v accelBlock = (if c < SVGA3D_DEVCAP_MAX then accelBlock[unat c := v] else accelBlock)"

partial_function (option) record_caps :: "(u32 \<Rightarrow> u32) \<Rightarrow> u32 \<Rightarrow> u32 \<Rightarrow> u32 \<Rightarrow> u32 list \<Rightarrow> u32 list option" where
  "record_caps deviceBlock offset len i accelBlock =
     (if i < len
      then record_caps deviceBlock offset len (i + 2)
             (store_cap (deviceBlock (offset + i)) (deviceBlock (offset + i + 1)) accelBlock)
      else Some accelBlock)"

partial_function (option) caps_loop :: "(u32 \<Rightarrow> u32) \<Rightarrow> u32 \<Rightarrow> u32 list \<Rightarrow> u32 list option" where
  "caps_loop deviceBlock offset accelBlock =
     (let len = deviceBlock offset
      in if len = 0 then Some accelBlock
         else if deviceBlock (offset + 1) \<noteq> SVGA3DCAPS_RECORD_DEVCAPS then caps_loop deviceBlock (offset + len) accelBlock
         else do {
           accelBlock \<leftarrow> record_caps deviceBlock offset len 2 accelBlock;
           caps_loop deviceBlock (offset + len) accelBlock })"

definition getGPUCaps :: "(u32 \<Rightarrow> u32) option \<Rightarrow> u32 list \<Rightarrow> u32 list option" where
  "getGPUCaps deviceBlock accelBlock =
     (case deviceBlock of None \<Rightarrow> Some accelBlock | Some block \<Rightarrow> caps_loop block 0 accelBlock)"

text \<open>In \<open>start\<close>, the block is read if the 3D hardware version is recent enough.\<close>

definition start_devcaps :: "u32 \<Rightarrow> 'h SVGADevice \<Rightarrow> u32 list \<Rightarrow> u32 list option" where
  "start_devcaps hwv d m_devcaps =
     (if hwv \<ge> 0x20000 then getGPUCaps (map_option (\<lambda>base i. fifo d (base + unat i)) (get3DCapsBlock d)) m_devcaps
      else Some m_devcaps)"

text \<open>The versions that \<open>dumpGPUCaps\<close> prints; the argument is cut to 8 bits.\<close>

definition cap_psver :: "string list" where
  "cap_psver = [''Enabled'', ''ps_1_1'', ''ps_1_2'', ''ps_1_3'', ''ps_1_4'', ''ps_2_0'', ''ps_3_0'', ''ps_4_0'']"

definition cap_vsver :: "string list" where
  "cap_vsver = [''Enabled'', ''vs_1_1'', ''vs_2_0'', ''vs_3_0'', ''vs_4_0'']"

definition cap_ps_version :: "u8 \<Rightarrow> string" where
  "cap_ps_version num = (if num AND 1 \<noteq> 0 \<and> drop_bit 1 num \<le> 7 then cap_psver ! unat (drop_bit 1 num) else ''None'')"

definition cap_vs_version :: "u8 \<Rightarrow> string" where
  "cap_vs_version num = (if num AND 1 \<noteq> 0 \<and> drop_bit 1 num \<le> 4 then cap_vsver ! unat (drop_bit 1 num) else ''None'')"

section \<open>Records of the block\<close>

text \<open>
  The format: a record is its length in words, its type and its data; a zero word ends the records.  The data of
  a record of device capabilities are pairs of an index and a value.
\<close>

type_synonym SVGA3dCapsRecord = "u32 \<times> u32 list"

definition record_words :: "SVGA3dCapsRecord \<Rightarrow> u32 list" where
  "record_words r = of_nat (2 + length (snd r)) # fst r # snd r"

definition block_words :: "SVGA3dCapsRecord list \<Rightarrow> u32 list" where
  "block_words rs = concat (map record_words rs) @ [0]"

fun cap_pairs :: "u32 list \<Rightarrow> (u32 \<times> u32) list" where
  "cap_pairs (c # v # ws) = (c, v) # cap_pairs ws"
| "cap_pairs _ = []"

definition device_caps :: "SVGA3dCapsRecord list \<Rightarrow> (u32 \<times> u32) list" where
  "device_caps rs = concat (map (\<lambda>(t, ws). if t = SVGA3DCAPS_RECORD_DEVCAPS then cap_pairs ws else []) rs)"

definition wf_record :: "SVGA3dCapsRecord \<Rightarrow> bool" where
  "wf_record r \<longleftrightarrow> 2 + length (snd r) < 2 ^ 32 \<and> (fst r = SVGA3DCAPS_RECORD_DEVCAPS \<longrightarrow> even (length (snd r)))"

text \<open>The words at an index of the block.\<close>

primrec block_holds :: "(u32 \<Rightarrow> u32) \<Rightarrow> u32 \<Rightarrow> u32 list \<Rightarrow> bool" where
  "block_holds block offset [] = True"
| "block_holds block offset (w # ws) = (block offset = w \<and> block_holds block (offset + 1) ws)"

lemma block_holds_append:
  "block_holds block offset (xs @ ys) \<longleftrightarrow>
     block_holds block offset xs \<and> block_holds block (offset + of_nat (length xs)) ys"
  by (induction xs arbitrary: offset) (simp_all add: add.assoc)

lemma record_caps_pairs:
  assumes "block_holds block (offset + i) ws" "unat i + length ws = unat len" "even (length ws)"
  shows "record_caps block offset len i accel = Some (fold (\<lambda>(c, v). store_cap c v) (cap_pairs ws) accel)"
  using assms
proof (induction ws arbitrary: i accel rule: cap_pairs.induct)
  case (1 c v ws)
  have len: "unat len < 2 ^ 32" using unsigned_less [of len] by simp
  then have "unat (i + 2) = unat i + 2" using "1.prems"(2) by (subst unat_add_small) simp_all
  moreover have "i < len" using "1.prems"(2) by (simp add: word_less_nat_alt)
  ultimately show ?case
    using "1.prems" by (subst record_caps.simps) (simp add: "1.IH" add.assoc)
qed (simp_all add: record_caps.simps word_less_nat_alt)

lemma caps_loop_records:
  assumes "block_holds block offset (block_words rs)" "list_all wf_record rs"
  shows "caps_loop block offset accel = Some (fold (\<lambda>(c, v). store_cap c v) (device_caps rs) accel)"
  using assms
proof (induction rs arbitrary: offset accel)
  case Nil
  then show ?case by (simp add: caps_loop.simps block_words_def device_caps_def)
next
  case (Cons r rs)
  obtain t ws where r: "r = (t, ws)" by (cases r)
  define len :: u32 where "len = of_nat (2 + length ws)"
  have small: "2 + length ws < 2 ^ 32" and ev: "t = SVGA3DCAPS_RECORD_DEVCAPS \<Longrightarrow> even (length ws)"
    using Cons.prems(2) by (simp_all add: r wf_record_def)
  have u: "unat len = 2 + length ws" unfolding len_def by (rule unat_of_nat_small) (use small in simp)
  then have "len \<noteq> 0" by (metis add_2_eq_Suc nat.distinct(1) unat_0)
  have h: "block offset = len" "block (offset + 1) = t" "block_holds block (offset + 2) ws"
      "block_holds block (offset + len) (block_words rs)"
    using Cons.prems(1) by (simp_all add: r len_def block_words_def record_words_def block_holds_append add.assoc)
  have "record_caps block offset len 2 accel = Some (fold (\<lambda>(c, v). store_cap c v) (cap_pairs ws) accel)"
    if "t = SVGA3DCAPS_RECORD_DEVCAPS"
    using record_caps_pairs [OF h(3)] u ev that by simp
  then show ?case
    using h \<open>len \<noteq> 0\<close> Cons.IH [OF h(4)] Cons.prems(2)
    by (subst caps_loop.simps) (simp add: r device_caps_def Let_def)
qed

lemma store_cap_nth:
  "c < 84 \<Longrightarrow> length accel = 84 \<Longrightarrow> store_cap k v accel ! c = (if k = of_nat c then v else accel ! c)"
  by (auto simp: store_cap_def nth_list_update word_less_nat_alt unat_of_nat take_bit_nat_eq_self)

lemma store_caps_nth:
  assumes "c < 84" "length accel = 84"
  shows "length (fold (\<lambda>(c, v). store_cap c v) ps accel) = 84 \<and> fold (\<lambda>(c, v). store_cap c v) ps accel ! c =
    (case map_of (rev ps) (of_nat c) of Some v \<Rightarrow> v | None \<Rightarrow> accel ! c)"
  using assms(2)
proof (induction ps rule: rev_induct)
  case (snoc p ps)
  then show ?case using assms(1) by (cases p) (auto simp: store_cap_nth, auto simp: store_cap_def)
qed simp

section \<open>Properties\<close>

text \<open>
  C37.  If the capability block of the device holds records in the documented format, reading it at start-up
  returns, and the table has for each capability the value of its last pair in the records of device
  capabilities, and 0 for a capability that no record has.  Records of other types and indices beyond the table have
  no effect.
\<close>

theorem start_devcaps_last_value:
  assumes "get3DCapsBlock d = Some base" "hwv \<ge> 0x20000" "allocGPUCaps True = Some table"
    and "block_holds (\<lambda>i. fifo d (base + unat i)) 0 (block_words rs)" "list_all wf_record rs"
  shows "\<exists>caps. start_devcaps hwv d table = Some caps \<and> length caps = 84 \<and>
    (\<forall>c < 84. caps ! c = (case map_of (rev (device_caps rs)) (of_nat c) of Some v \<Rightarrow> v | None \<Rightarrow> 0))"
proof -
  have t: "table = replicate 84 0" using assms(3) by (simp add: allocGPUCaps_def)
  let ?caps = "fold (\<lambda>(c, v). store_cap c v) (device_caps rs) table"
  have "start_devcaps hwv d table = Some ?caps"
    using caps_loop_records [OF assms(4,5)] assms(1,2) by (simp add: start_devcaps_def getGPUCaps_def)
  moreover have "length ?caps = 84 \<and> ?caps ! c = (case map_of (rev (device_caps rs)) (of_nat c) of Some v \<Rightarrow> v | None \<Rightarrow> 0)"
    if "c < 84" for c
    using store_caps_nth [OF that, of table "device_caps rs"] that by (simp add: t split: option.split)
  ultimately show ?thesis by (metis zero_less_numeral)
qed

abbreviation demo_records :: "SVGA3dCapsRecord list" where
  "demo_records \<equiv> [(5, [7]), (0x100, [1, 8, 90, 3, 1, 9])]"

definition caps_device :: "unit SVGADevice" where
  "caps_device = (demo_device 1160 4096)\<lparr>fifo := \<lambda>i. if i = 0 then 1160 else (block_words demo_records @ replicate 300 0) ! (i - 32)\<rparr>"

theorem start_devcaps_last_value_witness:
  "\<exists>caps. start_devcaps 0x20001 caps_device (replicate 84 0) = Some caps \<and> caps ! 1 = 9 \<and> caps ! 7 = 0"
proof -
  have "get3DCapsBlock caps_device = Some 32" by (simp add: get3DCapsBlock_def caps_device_def)
  moreover have "block_holds (\<lambda>i. fifo caps_device (32 + unat i)) 0 (block_words demo_records)"
    by (simp add: caps_device_def block_words_def record_words_def)
  ultimately obtain caps where c: "start_devcaps 0x20001 caps_device (replicate 84 0) = Some caps"
      "\<forall>c < 84. caps ! c = (case map_of (rev (device_caps demo_records)) (of_nat c) of Some v \<Rightarrow> v | None \<Rightarrow> 0)"
    using start_devcaps_last_value [of caps_device 32 "0x20001" "replicate 84 0" demo_records]
    by (auto simp: allocGPUCaps_def wf_record_def)
  have "caps ! 1 = 9" "caps ! 7 = 0" using c(2) [rule_format, of 1] c(2) [rule_format, of 7] by (simp_all add: device_caps_def)
  then show ?thesis using c(1) by blast
qed

end
