(* ===== verification/FB_Driver.thy ===== *)
theory FB_Driver
  imports SVGA_Screen
begin

text \<open>
  The framebuffer driver (\<open>src/FB/CEsvga2.cpp\<close>, \<open>CEsvga2.h\<close>, \<open>modes.cpp\<close>, \<open>common_fb.h\<close>): display modes, the
  cursor, EDID blocks, custom modes and the refresh timer, around the device of \<open>SVGA_Device\<close>.
  Calls of the super class and other IOKit services are parameters of the methods that use them.
\<close>

section \<open>State\<close>

record DisplayModeEntry =
  dm_width :: u32
  dm_height :: u32
  dm_flags :: u32

abbreviation (input) NUM_DISPLAY_MODES :: nat where "NUM_DISPLAY_MODES \<equiv> 1"
abbreviation (input) CUSTOM_MODE_ID :: int where "CUSTOM_MODE_ID \<equiv> 1"
abbreviation (input) kDisplayModeDefaultFlag :: u32 where "kDisplayModeDefaultFlag \<equiv> 4"
abbreviation (input) CE1_OPTION_FB_FIFO_INIT :: u32 where "CE1_OPTION_FB_FIFO_INIT \<equiv> 1"
abbreviation (input) CE1_OPTION_FB_REFRESH_TIMER :: u32 where "CE1_OPTION_FB_REFRESH_TIMER \<equiv> 2"
abbreviation (input) CE1_OPTION_FB_ACCEL :: u32 where "CE1_OPTION_FB_ACCEL \<equiv> 4"
abbreviation (input) CE1_OPTION_FB_CURSOR_BYPASS_2 :: u32 where "CE1_OPTION_FB_CURSOR_BYPASS_2 \<equiv> 8"
abbreviation (input) CE1_OPTION_FB_REG_DUMP :: u32 where "CE1_OPTION_FB_REG_DUMP \<equiv> 16"

definition modeList :: "DisplayModeEntry list" where
  "modeList = [\<lparr>dm_width = 1366, dm_height = 768, dm_flags = 1 OR kDisplayModeDefaultFlag\<rparr>]"

text \<open>
  Pointers to kernel objects that are only tested are booleans; \<open>m_vram\<close> is the length of the memory,
  \<open>m_intr\<close> whether a procedure is registered.  \<open>refresh_due\<close> is the delay of the pending
  call of the refresh timer, \<open>restore_due\<close> whether the restore call is pending and \<open>events\<close> the
  number of calls of the registered procedure.
\<close>

record 'h CEsvga2 =
  svga :: "'h SVGADevice"
  m_vram :: "u64 option"
  m_num_active_modes :: nat
  m_display_mode :: int
  m_depth_mode :: int
  m_restore_call :: bool
  m_modes :: "int list"
  m_custom_switch :: u32
  m_custom_mode_switched :: bool
  m_intr :: bool
  m_iolock :: bool
  m_cursor_image :: bool
  m_hotspot_x :: u32
  m_hotspot_y :: u32
  m_intr_enabled :: bool
  m_accel_updates :: bool
  m_refresh_call :: bool
  m_refresh_quantum_ms :: u32
  customMode :: DisplayModeEntry
  m_edid :: "u8 list option"
  options_fb :: u32
  refresh_due :: "u32 option"
  restore_due :: bool
  events :: nat

definition checkOptionFB :: "u32 \<Rightarrow> 'h CEsvga2 \<Rightarrow> bool" where
  "checkOptionFB msk s \<longleftrightarrow> options_fb s AND msk \<noteq> 0"

section \<open>Refresh timer\<close>

definition scheduleRefreshTimer :: "u32 \<Rightarrow> 'h CEsvga2 \<Rightarrow> 'h CEsvga2" where
  "scheduleRefreshTimer milliSeconds s = (if m_refresh_call s then s\<lparr>refresh_due := Some milliSeconds\<rparr> else s)"

definition cancelRefreshTimer :: "'h CEsvga2 \<Rightarrow> 'h CEsvga2" where
  "cancelRefreshTimer s = (if m_refresh_call s then s\<lparr>refresh_due := None\<rparr> else s)"

definition deleteRefreshTimer :: "'h CEsvga2 \<Rightarrow> 'h CEsvga2" where
  "deleteRefreshTimer s = (if m_refresh_call s then s\<lparr>m_refresh_call := False\<rparr> else s)"

text \<open>The timer calls \<open>refreshTimerAction\<close>; the call that fires is no longer pending.\<close>

definition refreshTimerAction :: "'h CEsvga2 \<Rightarrow> 'h CEsvga2 option" where
  "refreshTimerAction s =
     do {
       (_, d) \<leftarrow> UpdateFullscreen (svga s);
       let s = s\<lparr>svga := RingDoorBell d, refresh_due := None\<rparr>;
       Some (if \<not> m_accel_updates s then scheduleRefreshTimer (m_refresh_quantum_ms s) s else s)
     }"

definition FB_Cleanup :: "'h CEsvga2 \<Rightarrow> 'h CEsvga2" where
  "FB_Cleanup s =
     (let s = cancelRefreshTimer s;
          s = (if m_restore_call s then s\<lparr>restore_due := False\<rparr> else s);
          s = deleteRefreshTimer s;
          s = (if HasCapability 0xFFFFFFFF (svga s) then s\<lparr>svga := SVGADevice_Disable (svga s)\<rparr> else s);
          s = s\<lparr>svga := SVGADevice_Cleanup (svga s)\<rparr>
      in s\<lparr>m_restore_call := False, m_cursor_image := False, m_edid := None, m_iolock := False\<rparr>)"

section \<open>Modes\<close>

definition FindDepthMode :: "int \<Rightarrow> u32" where "FindDepthMode depth = (if depth \<noteq> 0 then 0 else 32)"

definition GetDisplayMode :: "int \<Rightarrow> 'h CEsvga2 \<Rightarrow> DisplayModeEntry option" where
  "GetDisplayMode displayMode s =
     (if displayMode = CUSTOM_MODE_ID then Some (customMode s)
      else if displayMode \<ge> 1 \<and> displayMode \<le> int NUM_DISPLAY_MODES then Some (modeList ! nat (displayMode - 1))
      else None)"

definition IOSelectToString :: "u32 \<Rightarrow> u8 list" where
  "IOSelectToString io_select =
     [ucast (drop_bit 24 io_select), ucast (drop_bit 16 io_select), ucast (drop_bit 8 io_select), ucast io_select, 0]"

fun detect_loop :: "nat list \<Rightarrow> u32 \<Rightarrow> u32 \<Rightarrow> int \<Rightarrow> int \<Rightarrow> int" where
  "detect_loop [] w h tableDefault defaultMode = (if tableDefault \<noteq> 0 then tableDefault else defaultMode)"
| "detect_loop (i # is) w h tableDefault defaultMode =
     (if w = dm_width (modeList ! i) \<and> h = dm_height (modeList ! i) then int i + 1
      else detect_loop is w h (if dm_flags (modeList ! i) AND kDisplayModeDefaultFlag \<noteq> 0 then int i + 1 else tableDefault) defaultMode)"

definition TryDetectCurrentDisplayMode :: "int \<Rightarrow> 'h CEsvga2 \<Rightarrow> int" where
  "TryDetectCurrentDisplayMode defaultMode s =
     detect_loop [1..<NUM_DISPLAY_MODES] (m_width (svga s)) (m_height (svga s)) 0 defaultMode"

definition getCurrentDisplayMode :: "'h CEsvga2 \<Rightarrow> IOReturn \<times> int \<times> int" where
  "getCurrentDisplayMode s = (kIOReturnSuccess, m_display_mode s, m_depth_mode s)"

definition getDisplayModes :: "bool \<Rightarrow> 'h CEsvga2 \<Rightarrow> IOReturn \<times> int list" where
  "getDisplayModes allDisplayModes s =
     (if \<not> allDisplayModes then (kIOReturnBadArgument, [])
      else if m_custom_switch s \<noteq> 0 then (kIOReturnSuccess, [CUSTOM_MODE_ID])
      else (kIOReturnSuccess, take (m_num_active_modes s) (m_modes s)))"

definition getDisplayModeCount :: "'h CEsvga2 \<Rightarrow> nat" where
  "getDisplayModeCount s = (if m_custom_switch s \<noteq> 0 then 1 else m_num_active_modes s)"

text \<open>Memory ranges are pairs of offset and size in the video memory.\<close>

definition getVRAMRange :: "'h CEsvga2 \<Rightarrow> (u64 \<times> u64) option" where
  "getVRAMRange s =
     (case m_vram s of None \<Rightarrow> None
      | Some len \<Rightarrow> Some (if ucast (m_vram_size (svga s)) \<ge> len then (0, len) else (0, ucast (m_vram_size (svga s)))))"

definition getApertureRange :: "int \<Rightarrow> 'h CEsvga2 \<Rightarrow> (u64 \<times> u64) option" where
  "getApertureRange aperture s =
     (if aperture \<noteq> 0 then None
      else if m_vram s = None then None
      else Some (ucast (m_fb_offset (svga s)), ucast (m_fb_size (svga s))))"

text \<open>Width, height, refresh rate and flags.\<close>

definition getInformationForDisplayMode :: "int \<Rightarrow> bool \<Rightarrow> 'h CEsvga2 \<Rightarrow> IOReturn \<times> (u32 \<times> u32 \<times> u32 \<times> u32) option" where
  "getInformationForDisplayMode displayMode info s =
     (if \<not> info then (kIOReturnBadArgument, None)
      else case GetDisplayMode displayMode s of None \<Rightarrow> (kIOReturnBadArgument, None)
      | Some dme \<Rightarrow> (kIOReturnSuccess, Some (dm_width dme, dm_height dme, push_bit 16 60, dm_flags dme)))"

text \<open>Width, height, flags and bytes per row; the other fields are constant.\<close>

definition getPixelInformation :: "int \<Rightarrow> int \<Rightarrow> int \<Rightarrow> bool \<Rightarrow> 'h CEsvga2 \<Rightarrow> IOReturn \<times> (u32 \<times> u32 \<times> u32 \<times> u32) option" where
  "getPixelInformation displayMode depth aperture pixelInfo s =
     (if \<not> pixelInfo then (kIOReturnBadArgument, None)
      else if aperture \<noteq> 0 then (kIOReturnUnsupportedMode, None)
      else if depth \<noteq> 0 then (kIOReturnBadArgument, None)
      else case GetDisplayMode displayMode s of None \<Rightarrow> (kIOReturnBadArgument, None)
      | Some dme \<Rightarrow> (kIOReturnSuccess, Some (dm_width dme, dm_height dme, dm_flags dme, (32 * dm_width dme) div 8)))"

definition setDisplayMode :: "int \<Rightarrow> int \<Rightarrow> 'h CEsvga2 \<Rightarrow> (IOReturn \<times> 'h CEsvga2) option" where
  "setDisplayMode displayMode depth s =
     (if depth \<noteq> 0 then Some (kIOReturnBadArgument, s)
      else case GetDisplayMode displayMode s of None \<Rightarrow> Some (kIOReturnBadArgument, s)
      | Some dme \<Rightarrow>
        if m_custom_mode_switched s then
          let s = (if dm_width (customMode s) = dm_width dme \<and> dm_height (customMode s) = dm_height dme
                   then s\<lparr>m_custom_mode_switched := False\<rparr> else s)
          in Some (kIOReturnSuccess, s\<lparr>m_display_mode := displayMode, m_depth_mode := 0\<rparr>)
        else
          let s = (if \<not> m_accel_updates s then cancelRefreshTimer s else s)
          in do {
               d \<leftarrow> SetMode (dm_width dme) (dm_height dme) 32 (svga s);
               let d = (if checkOptionFB CE1_OPTION_FB_REG_DUMP s then snd (RegDump d) else d);
               let s = s\<lparr>svga := d, m_display_mode := displayMode, m_depth_mode := 0\<rparr>;
               Some (kIOReturnSuccess, if \<not> m_accel_updates s then scheduleRefreshTimer 200 s else s) })"

section \<open>Cursor\<close>

definition FB_setCursorState :: "u32 \<Rightarrow> u32 \<Rightarrow> bool \<Rightarrow> 'h CEsvga2 \<Rightarrow> IOReturn \<times> 'h CEsvga2" where
  "FB_setCursorState x y visible s =
     (if \<not> checkOptionFB CE1_OPTION_FB_FIFO_INIT s then (kIOReturnUnsupported, s)
      else
        let x = x + m_hotspot_x s; x = (if sint x < 0 then 0 else x);
            y = y + m_hotspot_y s; y = (if sint y < 0 then 0 else y)
        in (kIOReturnSuccess, s\<lparr>svga := setCursorState (checkOptionFB CE1_OPTION_FB_CURSOR_BYPASS_2 s) x y visible (svga s)\<rparr>))"

text \<open>
  \<open>ConvertAlphaCursor\<close> multiplies the colours of a pixel by its alpha value.  The source has two versions.  The
  scalar one divides by 255.
\<close>

definition premultiply :: "u32 \<Rightarrow> u32" where
  "premultiply pixel =
     (let alpha = drop_bit 24 pixel
      in if alpha = 0 \<or> (ucast alpha :: u8) = 255 then pixel
         else
           let b = (pixel AND 0xFF) * alpha div 255;
               g = (drop_bit 8 pixel AND 0xFF) * alpha div 255;
               r = (drop_bit 16 pixel AND 0xFF) * alpha div 255
           in (pixel AND 0xFF000000) OR push_bit 16 r OR push_bit 8 g OR b)"

text \<open>
  The vector version, which the project builds, works on four 16-bit lanes of an MMX register (lane 0
  first): \<open>punpcklbw\<close> with zero widens the bytes, \<open>pshufw\<close> by 255 broadcasts lane 3, \<open>pmullw\<close> keeps the low
  and \<open>pmulhuw\<close> the high half of the products, \<open>psrlwi\<close> shifts the lanes, \<open>pinsrw\<close> replaces one and
  \<open>packuswb\<close> narrows to bytes with saturation.
\<close>

definition punpcklbw :: "u32 \<Rightarrow> u16 list" where
  "punpcklbw p = map (\<lambda>i. ucast (ucast (drop_bit (8 * i) p) :: u8)) [0, 1, 2, 3]"

definition pshufw_255 :: "u16 list \<Rightarrow> u16 list" where "pshufw_255 v = [v ! 3, v ! 3, v ! 3, v ! 3]"

definition pmullw :: "u16 list \<Rightarrow> u16 list \<Rightarrow> u16 list" where "pmullw v w = map2 (*) v w"

definition pmulhuw :: "u16 list \<Rightarrow> u16 list \<Rightarrow> u16 list" where
  "pmulhuw v w = map2 (\<lambda>x y. ucast (drop_bit 16 (ucast x * ucast y :: u32))) v w"

definition psrlwi :: "u16 list \<Rightarrow> nat \<Rightarrow> u16 list" where "psrlwi v n = map (drop_bit n) v"

definition saturate8 :: "u16 \<Rightarrow> u8" where
  "saturate8 x = (if sint x < 0 then 0 else if 255 < sint x then 255 else ucast x)"

definition packuswb :: "u16 list \<Rightarrow> u8 list" where "packuswb v = map saturate8 v"

definition bytes_dword :: "u8 list \<Rightarrow> u32" where
  "bytes_dword bs = push_bit 24 (ucast (bs ! 3)) OR push_bit 16 (ucast (bs ! 2)) OR push_bit 8 (ucast (bs ! 1)) OR ucast (bs ! 0)"

definition premultiply_mmx :: "u32 \<Rightarrow> u32" where
  "premultiply_mmx pixel =
     (let alpha = drop_bit 24 pixel
      in if alpha = 0 \<or> (ucast alpha :: u8) = 255 then pixel
         else
           let mm0 = punpcklbw pixel;
               datum = [0x8081, 0x8081, 0x8081, 0];
               v = psrlwi (pmulhuw (pmullw (pshufw_255 mm0) mm0) datum) 7
           in bytes_dword (packuswb (v[3 := ucast alpha])))"

definition ConvertAlphaCursor :: "(u32 \<Rightarrow> u32) \<Rightarrow> u32 list \<Rightarrow> u32 \<Rightarrow> u32 \<Rightarrow> u32 list" where
  "ConvertAlphaCursor mul cursor width height =
     (let num_pixels = unat (width * height)
      in map mul (take num_pixels cursor) @ drop num_pixels cursor)"

text \<open>
  \<open>setCursorImage\<close>.  \<open>convert\<close> is the result of \<open>convertCursorImage\<close>, if it succeeds: width, height, pixels
  and hot spot.  Copying into the FIFO fills the command.
\<close>

definition setCursorImage ::
  "bool \<Rightarrow> (u32 \<times> u32 \<times> u32 list \<times> u16 \<times> u16) option \<Rightarrow> 'h CEsvga2 \<Rightarrow> (IOReturn \<times> 'h CEsvga2) option" where
  "setCursorImage alloc_ok convert s =
     (if \<not> checkOptionFB CE1_OPTION_FB_FIFO_INIT s then Some (kIOReturnUnsupported, s)
      else if \<not> m_cursor_image s \<and> \<not> alloc_ok then Some (kIOReturnUnsupported, s)
      else
        let s = s\<lparr>m_cursor_image := True, m_hotspot_x := 0, m_hotspot_y := 0\<rparr>
        in case convert of None \<Rightarrow> Some (kIOReturnUnsupported, s)
           | Some (w, h, pixels, hx, hy) \<Rightarrow>
             if w = 0 \<or> h = 0 then Some (kIOReturnUnsupported, s)
             else
               let s = s\<lparr>m_hotspot_x := ucast hx, m_hotspot_y := ucast hy\<rparr>;
                   pixels = ConvertAlphaCursor premultiply_mmx pixels w h
               in do {
                    (p, d) \<leftarrow> BeginDefineAlphaCursor w h 4 (svga s);
                    case p of None \<Rightarrow> Some (kIOReturnUnsupported, s\<lparr>svga := d\<rparr>)
                    | Some p \<Rightarrow>
                        let d = poke p (take (unat (w * h * 4) div 4) pixels) d;
                            d = snd (EndDefineAlphaCursor w h 4 (m_hotspot_x s) (m_hotspot_y s) d)
                        in Some (kIOReturnSuccess, s\<lparr>svga := d\<rparr>) })"

section \<open>Interrupts and EDID\<close>

definition registerForInterruptType :: "bool \<Rightarrow> bool \<Rightarrow> IOReturn \<Rightarrow> 'h CEsvga2 \<Rightarrow> IOReturn \<times> 'h CEsvga2" where
  "registerForInterruptType mccs connect super_result s =
     (if mccs then (super_result, s)
      else if \<not> connect then (kIOReturnUnsupported, s)
      else (kIOReturnSuccess, s\<lparr>m_intr := True, m_intr_enabled := True\<rparr>))"

definition setInterruptState :: "bool \<Rightarrow> u32 \<Rightarrow> 'h CEsvga2 \<Rightarrow> IOReturn \<times> 'h CEsvga2" where
  "setInterruptState own_ref state s =
     (if \<not> own_ref then (kIOReturnBadArgument, s) else (kIOReturnSuccess, s\<lparr>m_intr_enabled := (state \<noteq> 0)\<rparr>))"

definition unregisterInterrupt :: "bool \<Rightarrow> 'h CEsvga2 \<Rightarrow> IOReturn \<times> 'h CEsvga2" where
  "unregisterInterrupt own_ref s =
     (if \<not> own_ref then (kIOReturnBadArgument, s) else (kIOReturnSuccess, s\<lparr>m_intr := False, m_intr_enabled := False\<rparr>))"

text \<open>
  \<open>getDDCBlock\<close>: \<open>Inl\<close> is the byte range that is copied out of \<open>m_edid\<close>, \<open>Inr\<close> the result of the super class.  \<open>data\<close> and
  \<open>length\<close> are the buffer of the caller and its size.
\<close>

definition getDDCBlock :: "int \<Rightarrow> u32 \<Rightarrow> bool \<Rightarrow> bool \<Rightarrow> u64 option \<Rightarrow> 'r \<Rightarrow> 'h CEsvga2 \<Rightarrow> nat \<times> nat + 'r" where
  "getDDCBlock connectIndex blockNumber edid_type data len super_result s =
     (case (m_edid s, len) of
        (Some edid, Some l) \<Rightarrow>
          if connectIndex = 0 \<and> blockNumber \<noteq> 0 \<and> blockNumber * 128 \<le> of_nat (length edid) \<and> edid_type \<and> data \<and> l \<ge> 128
          then Inl (unat ((blockNumber - 1) * 128), 128) else Inr super_result
      | _ \<Rightarrow> Inr super_result)"

definition hasDDCConnect :: "int \<Rightarrow> bool \<Rightarrow> 'h CEsvga2 \<Rightarrow> bool" where
  "hasDDCConnect connectIndex super_result s = (if connectIndex = 0 \<and> m_edid s \<noteq> None then True else super_result)"

section \<open>Custom modes\<close>

definition CustomSwitchStepSet :: "u32 \<Rightarrow> 'h CEsvga2 \<Rightarrow> 'h CEsvga2" where
  "CustomSwitchStepSet v s = s\<lparr>m_custom_switch := v\<rparr>"

text \<open>
  \<open>CustomSwitchStepWait\<close> blocks until another thread has set the switch: \<open>others\<close> is the state in which that has
  happened, if it ever does.
\<close>

definition CustomSwitchStepWait :: "u32 \<Rightarrow> ('h CEsvga2 \<Rightarrow> 'h CEsvga2 option) \<Rightarrow> 'h CEsvga2 \<Rightarrow> 'h CEsvga2 option" where
  "CustomSwitchStepWait v others s =
     (if m_custom_switch s = v then Some s
      else case others s of None \<Rightarrow> None | Some s \<Rightarrow> if m_custom_switch s = v then Some s else None)"

text \<open>\<open>EmitConnectChangedEvent\<close> sleeps as long as no procedure is registered.\<close>

definition EmitConnectChangedEvent :: "'h CEsvga2 \<Rightarrow> 'h CEsvga2 option" where
  "EmitConnectChangedEvent s =
     (if \<not> m_intr s then None else if \<not> m_intr_enabled s then Some s else Some (s\<lparr>events := events s + 1\<rparr>))"

definition RestoreAllModes :: "'h CEsvga2 \<Rightarrow> 'h CEsvga2 option" where
  "RestoreAllModes s =
     (if m_custom_switch s \<noteq> 2 then Some s
      else case GetDisplayMode CUSTOM_MODE_ID s of None \<Rightarrow> Some s
      | Some dme1 \<Rightarrow>
        (case find (\<lambda>i. case GetDisplayMode (m_modes s ! i) s of None \<Rightarrow> False
                        | Some dme2 \<Rightarrow> dm_width dme2 \<noteq> dm_width dme1 \<or> dm_height dme2 \<noteq> dm_height dme1)
                [0..<m_num_active_modes s] of
           None \<Rightarrow> Some s
         | Some i \<Rightarrow>
             let t = m_modes s ! 0;
                 s = s\<lparr>m_modes := (m_modes s)[0 := m_modes s ! i, i := t], m_custom_mode_switched := True\<rparr>
             in EmitConnectChangedEvent (CustomSwitchStepSet 0 s)))"

text \<open>
  \<open>CustomMode\<close>: \<open>inData\<close> holds flags, width and height; \<open>in_ok\<close> and \<open>out_ok\<close> are the checks of sizes and
  pointers, \<open>version_major\<close> the version of the kernel.
\<close>

definition CustomMode ::
  "(u32 \<times> u32 \<times> u32) option \<Rightarrow> bool \<Rightarrow> bool \<Rightarrow> nat \<Rightarrow> ('h CEsvga2 \<Rightarrow> 'h CEsvga2 option) \<Rightarrow> 'h CEsvga2 \<Rightarrow>
   (IOReturn \<times> (u32 \<times> u32 \<times> u32) option \<times> 'h CEsvga2) option" where
  "CustomMode inData in_ok out_ok version_major others s =
     (if \<not> m_restore_call s then Some (kIOReturnUnsupported, None, s)
      else case inData of None \<Rightarrow> Some (kIOReturnBadArgument, None, s)
      | Some (flags, w, h) \<Rightarrow>
        if \<not> in_ok then Some (kIOReturnBadArgument, None, s)
        else if \<not> out_ok then Some (kIOReturnBadArgument, None, s)
        else if GetDisplayMode (m_display_mode s) s = None then Some (kIOReturnUnsupported, None, s)
        else do {
          s \<leftarrow> (if flags AND 1 \<noteq> 0 then do {
                  let s = s\<lparr>customMode := (customMode s)\<lparr>dm_width := w, dm_height := h\<rparr>\<rparr>;
                  s \<leftarrow> EmitConnectChangedEvent (CustomSwitchStepSet 1 s);
                  if version_major \<ge> 13 then CustomSwitchStepWait 0 others s
                  else do { s \<leftarrow> CustomSwitchStepWait 2 others s; Some (s\<lparr>restore_due := True\<rparr>) } }
                else Some s);
          case GetDisplayMode (m_display_mode s) s of None \<Rightarrow> Some (kIOReturnUnsupported, None, s)
          | Some dme1 \<Rightarrow> Some (kIOReturnSuccess, Some (flags, dm_width dme1, dm_height dme1), s) })"

text \<open>\<open>setAttribute\<close>, behind the call of the super class.\<close>

definition setAttribute :: "bool \<Rightarrow> u64 \<Rightarrow> nat \<Rightarrow> IOReturn \<Rightarrow> 'h CEsvga2 \<Rightarrow> IOReturn \<times> 'h CEsvga2" where
  "setAttribute captured v version_major super_result s =
     (super_result,
      if captured \<and> v = 0 \<and> m_custom_switch s = 1 \<and> m_display_mode s = CUSTOM_MODE_ID
      then CustomSwitchStepSet (if version_major \<ge> 13 then 0 else 2) s else s)"

text \<open>
  Attributes.  The constants of IOKit that the code distinguishes are constructors.  A result of \<open>None\<close> stands for a
  call of the super class with the same arguments.  The first component of the other results is the stored value, if
  the pointer is not null and a value is stored.
\<close>

datatype IOSelect =
  kIOHardwareCursorAttribute | kConnectionSupportsAppleSense | kConnectionDisplayParameterCount
| kConnectionSupportsLLDDCSense | kConnectionDisplayParameters | kConnectionPower | kConnectionPostWake
| kConnectionChanged | kConnectionEnable | kConnectionFlags | kConnectionSupportsHLDDCSense | kConnectionProbe
| other_attribute u32

definition getAttribute :: "IOSelect \<Rightarrow> bool \<Rightarrow> 'h CEsvga2 \<Rightarrow> (u64 option \<times> IOReturn) option" where
  "getAttribute attribute has_value s =
     (if attribute = kIOHardwareCursorAttribute
      then Some (if has_value then Some (if checkOptionFB CE1_OPTION_FB_FIFO_INIT s then 1 else 0) else None, kIOReturnSuccess)
      else None)"

text \<open>The last component says whether the property \<open>IOFBConfig\<close> is removed.\<close>

definition getAttributeForConnection :: "IOSelect \<Rightarrow> bool \<Rightarrow> 'h CEsvga2 \<Rightarrow> (u64 option \<times> IOReturn \<times> bool) option" where
  "getAttributeForConnection attribute has_value s =
     (case attribute of
        kConnectionSupportsAppleSense \<Rightarrow> Some (None, kIOReturnUnsupported, False)
      | kConnectionDisplayParameterCount \<Rightarrow> Some (None, kIOReturnUnsupported, False)
      | kConnectionSupportsLLDDCSense \<Rightarrow> Some (None, kIOReturnUnsupported, False)
      | kConnectionDisplayParameters \<Rightarrow> Some (None, kIOReturnUnsupported, False)
      | kConnectionPower \<Rightarrow> Some (None, kIOReturnUnsupported, False)
      | kConnectionPostWake \<Rightarrow> Some (None, kIOReturnUnsupported, False)
      | kConnectionChanged \<Rightarrow> Some (None, kIOReturnSuccess, has_value)
      | kConnectionEnable \<Rightarrow> Some (if has_value then Some 1 else None, kIOReturnSuccess, False)
      | kConnectionFlags \<Rightarrow> Some (if has_value then Some 0 else None, kIOReturnSuccess, False)
      | kConnectionSupportsHLDDCSense \<Rightarrow>
          Some (None, if m_edid s \<noteq> None then kIOReturnSuccess else kIOReturnUnsupported, False)
      | _ \<Rightarrow> None)"

definition setAttributeForConnection :: "IOSelect \<Rightarrow> IOReturn option" where
  "setAttributeForConnection attribute =
     (if attribute = kConnectionFlags \<or> attribute = kConnectionProbe then Some kIOReturnSuccess else None)"

section \<open>Accelerator support\<close>

definition supportsAccel :: "'h CEsvga2 \<Rightarrow> bool" where
  "supportsAccel s \<longleftrightarrow> checkOptionFB CE1_OPTION_FB_FIFO_INIT s \<and> checkOptionFB CE1_OPTION_FB_ACCEL s"

definition FB_useAccelUpdates :: "bool \<Rightarrow> 'h CEsvga2 \<Rightarrow> 'h CEsvga2 option" where
  "FB_useAccelUpdates state s =
     (if state = m_accel_updates s then Some s
      else
        let s = s\<lparr>m_accel_updates := state\<rparr>
        in if state then
             let s = cancelRefreshTimer s
             in Some (if HasCapability SVGA_CAP_TRACES (svga s) then s\<lparr>svga := WriteReg SVGA_REG_TRACES 0 (svga s)\<rparr> else s)
           else
             let s = scheduleRefreshTimer 200 s
             in if HasCapability SVGA_CAP_TRACES (svga s) then do {
                  (_, d) \<leftarrow> UpdateFullscreen (WriteReg SVGA_REG_TRACES 1 (svga s));
                  Some (s\<lparr>svga := RingDoorBell d\<rparr>) }
                else Some s)"

section \<open>Start and stop\<close>

text \<open>
  What \<open>start\<close> finds: whether the provider is a PCI device and the super class starts, the boot
  arguments, the property \<open>EDID\<close> and whether there is memory for it, the video memory, the resources of the
  device, and which allocations succeed.
\<close>

record fb_env =
  is_pci :: bool
  super_start :: bool
  arg_options :: "u32 option"
  arg_fps :: "u32 option"
  edid_property :: "u8 list option"
  edid_alloc :: bool
  device_memory :: "u64 option"
  device_env :: pci_env
  restore_alloc :: bool
  refresh_alloc :: bool
  lock_alloc :: bool

definition start_edid :: "fb_env \<Rightarrow> 'h CEsvga2 \<Rightarrow> 'h CEsvga2" where
  "start_edid env s =
     (case edid_property env of None \<Rightarrow> s
      | Some bytes \<Rightarrow>
        let l = length bytes; sz = (l + 127) div 128 * 128
        in if 0 < l \<and> l \<le> 256 then
             if edid_alloc env then s\<lparr>m_edid := Some (bytes @ replicate (sz - l) 0)\<rparr> else s\<lparr>m_edid := None\<rparr>
           else s)"

definition start_modes :: "'h CEsvga2 \<Rightarrow> 'h CEsvga2" where
  "start_modes s =
     (let modes = filter (\<lambda>i. dm_width (modeList ! i) \<le> m_max_width (svga s) \<and> dm_height (modeList ! i) \<le> m_max_height (svga s))
                    [0..<NUM_DISPLAY_MODES];
          ids = map (\<lambda>i. int i + 1) modes
      in s\<lparr>m_num_active_modes := length ids, m_modes := ids @ drop (length ids) (m_modes s)\<rparr>)"

text \<open>The end of \<open>start\<close> in three stages: the lock and the current mode, the FIFO, and the list of modes.\<close>

definition start_lock :: "fb_env \<Rightarrow> 'h CEsvga2 \<Rightarrow> bool \<times> 'h CEsvga2" where
  "start_lock env s =
     (if \<not> lock_alloc env then (False, FB_Cleanup s)
      else (True, scheduleRefreshTimer 1000
              (s\<lparr>m_iolock := True, m_display_mode := TryDetectCurrentDisplayMode 3 s, m_depth_mode := 0\<rparr>)))"

definition start_fifo :: "fb_env \<Rightarrow> 'h CEsvga2 \<Rightarrow> bool \<times> 'h CEsvga2" where
  "start_fifo env s =
     (if checkOptionFB CE1_OPTION_FB_FIFO_INIT s then
        case FIFOInit (svga s) of (ok, d) \<Rightarrow>
          let s = s\<lparr>svga := d\<rparr>
          in if \<not> ok then (False, FB_Cleanup s)
             else start_lock env
               (if \<not> HasCapability SVGA_CAP_TRACES (svga s) \<and> checkOptionFB CE1_OPTION_FB_REFRESH_TIMER s
                then s\<lparr>m_refresh_call := refresh_alloc env\<rparr> else s)
      else start_lock env s)"

definition start_rest :: "fb_env \<Rightarrow> 'h CEsvga2 \<Rightarrow> bool \<times> 'h CEsvga2" where
  "start_rest env s =
     (let s = (if checkOptionFB CE1_OPTION_FB_REG_DUMP s then s\<lparr>svga := snd (RegDump (svga s))\<rparr> else s);
          s = start_modes (s\<lparr>customMode := modeList ! 0\<rparr>)
      in if \<not> restore_alloc env then (False, FB_Cleanup s)
         else start_fifo env (s\<lparr>m_restore_call := True, m_custom_switch := 0, m_custom_mode_switched := False\<rparr>))"

definition FB_start :: "fb_env \<Rightarrow> 'h CEsvga2 \<Rightarrow> bool \<times> 'h CEsvga2" where
  "FB_start env s =
     (if \<not> is_pci env then (False, s)
      else if \<not> super_start env then (False, s)
      else
        let s = s\<lparr>options_fb := (case arg_options env of Some v \<Rightarrow> v | None \<Rightarrow> 1 OR 2 OR 4 OR 8 OR 16)\<rparr>;
            s = s\<lparr>m_refresh_quantum_ms := (case arg_fps env of Some v \<Rightarrow> if v \<noteq> 0 \<and> v \<le> 100 then 1000 div v else 50 | None \<Rightarrow> 50)\<rparr>;
            s = start_edid env s;
            s = s\<lparr>m_restore_call := False, m_iolock := False, m_cursor_image := False, m_refresh_call := False,
                  m_intr_enabled := False, m_accel_updates := False, m_vram := device_memory env\<rparr>
        in case SVGADevice_Start (device_env env) (snd (SVGADevice_Init (svga s))) of (ok, d) \<Rightarrow>
             let s = s\<lparr>svga := d\<rparr> in if \<not> ok then (False, FB_Cleanup s) else start_rest env s)"

definition FB_stop :: "'h CEsvga2 \<Rightarrow> 'h CEsvga2" where "FB_stop s = FB_Cleanup s"

section \<open>Properties\<close>

text \<open>The lanes of the vector version divide by 255 exactly.\<close>

lemma div_255: "x \<le> 255 * 255 \<Longrightarrow> x * 32897 div 2 ^ 23 = x div 255" for x :: nat
proof -
  assume "x \<le> 255 * 255"
  define q r where "q = x div 255" and "r = x mod 255"
  have x: "x = 255 * q + r" "r \<le> 254" "q \<le> 255" using \<open>x \<le> 255 * 255\<close> by (auto simp: q_def r_def)
  then have "x * 32897 = q * 2 ^ 23 + (127 * q + 32897 * r)" by simp
  moreover have "127 * q + 32897 * r < 2 ^ 23" using x(2,3) by simp
  ultimately have "x * 32897 div 2 ^ 23 = q" by simp
  then show ?thesis by (simp add: q_def)
qed

definition mmx_lane :: "u16 \<Rightarrow> u16 \<Rightarrow> u16" where
  "mmx_lane a c = drop_bit 7 (ucast (drop_bit 16 (ucast (a * c) * ucast (0x8081 :: u16) :: u32)))"

lemma mmx_lane:
  assumes "unat a \<le> 255" "unat c \<le> 255"
  shows "unat (mmx_lane a c) = unat a * unat c div 255"
proof -
  have p: "unat a * unat c \<le> 255 * 255" using assms by (rule mult_le_mono)
  then have 1: "unat (a * c) = unat a * unat c" by (simp add: unat_word_ariths)
  have "unat (ucast (a * c) * ucast (0x8081 :: u16) :: u32) = unat a * unat c * 32897"
    using p by (simp add: unat_word_ariths unsigned_ucast_eq take_bit_nat_eq_self 1)
  then have "unat (drop_bit 16 (ucast (a * c) * ucast (0x8081 :: u16) :: u32)) = unat a * unat c * 32897 div 2 ^ 16"
    by (simp add: drop_bit_eq_div unat_div_distrib)
  moreover have "unat a * unat c * 32897 div 2 ^ 16 < 2 ^ 16" using p by simp
  ultimately have "unat (mmx_lane a c) = unat a * unat c * 32897 div 2 ^ 16 div 2 ^ 7"
    by (simp add: mmx_lane_def drop_bit_eq_div unat_div_distrib unsigned_ucast_eq take_bit_nat_eq_self)
  also have "\<dots> = unat a * unat c * 32897 div 2 ^ 23" by (simp add: div_mult2_eq [symmetric])
  also have "\<dots> = unat a * unat c div 255" by (rule div_255 [OF p])
  finally show ?thesis .
qed

text \<open>The byte at position \<open>i\<close> of a pixel, as a lane and as the scalar version reads it.\<close>

abbreviation lane :: "nat \<Rightarrow> u32 \<Rightarrow> u16" where "lane i p \<equiv> ucast (ucast (drop_bit (8 * i) p) :: u8)"

lemma lane_byte: "unat (lane i p) = unat (drop_bit (8 * i) p AND 0xFF)" "unat (lane i p) \<le> 255"
proof -
  have "(0xFF :: u32) = mask 8" by (simp add: mask_eq_exp_minus_1)
  then have "drop_bit (8 * i) p AND 0xFF = take_bit 8 (drop_bit (8 * i) p)" by (simp only: take_bit_eq_mask)
  then have e: "unat (drop_bit (8 * i) p AND 0xFF) = take_bit 8 (unat (drop_bit (8 * i) p))" by (simp only: unsigned_take_bit_eq)
  have "unat (lane i p) = unat (ucast (drop_bit (8 * i) p) :: u8)"
    using unsigned_less [of "ucast (drop_bit (8 * i) p) :: u8", where ?'a = nat] by (subst unsigned_ucast_eq) (simp add: take_bit_nat_eq_self)
  also have "\<dots> = take_bit 8 (unat (drop_bit (8 * i) p))" by (simp add: unsigned_ucast_eq)
  finally have l: "unat (lane i p) = take_bit 8 (unat (drop_bit (8 * i) p))" .
  then show "unat (lane i p) = unat (drop_bit (8 * i) p AND 0xFF)" using e by simp
  show "unat (lane i p) \<le> 255" using l take_bit_nat_less_exp [of 8 "unat (drop_bit (8 * i) p)"] by simp
qed

lemma alpha_byte: "unat (lane 3 p) = unat (drop_bit 24 p)"
proof -
  have "drop_bit 24 p AND 0xFF = drop_bit 24 p"
  proof -
    have m: "(0xFF :: u32) = mask 8" by (simp add: mask_eq_exp_minus_1)
    show ?thesis unfolding m by (rule bit_eqI) (auto simp: bit_simps dest: bit_imp_le_length)
  qed
  then show ?thesis using lane_byte(1) [of 3 p] by simp
qed

text \<open>Packing a lane that holds a byte and widening it again.\<close>

lemma pack_byte:
  assumes "unat x \<le> 255"
  shows "unat (ucast (saturate8 x) :: u32) = unat x"
proof -
  have "int (unat x) \<le> 255" using assms by linarith
  then have "uint x \<le> 255" by simp
  then have "uint x < 2 ^ 15" by simp
  moreover have "- (2 ^ 15) \<le> uint x" by (rule order_trans [of _ 0]) simp_all
  ultimately have "signed_take_bit 15 (uint x) = uint x" by (intro signed_take_bit_int_eq_self)
  then have "sint x = uint x" by (simp add: sint_uint)
  then have "saturate8 x = ucast x" using \<open>uint x \<le> 255\<close> by (simp add: saturate8_def)
  moreover have "unat (ucast x :: u8) = unat x" using assms by (simp add: unsigned_ucast_eq take_bit_nat_eq_self)
  moreover have "unat (ucast (ucast x :: u8) :: u32) = unat (ucast x :: u8)"
    using unsigned_less [of "ucast x :: u8", where ?'a = nat] by (subst unsigned_ucast_eq) (simp add: take_bit_nat_eq_self)
  ultimately show ?thesis by simp
qed

lemma channel_eq:
  "ucast (saturate8 (mmx_lane (lane 3 p) (lane i p))) = (drop_bit (8 * i) p AND 0xFF) * drop_bit 24 p div 255"
proof -
  let ?c = "drop_bit (8 * i) p AND 0xFF"
  have c: "unat ?c \<le> 255" "unat (drop_bit 24 p) \<le> 255" using lane_byte [of i p] lane_byte(2) [of 3 p] alpha_byte [of p] by simp_all
  then have m: "unat ?c * unat (drop_bit 24 p) \<le> 255 * 255" by (rule mult_le_mono)
  then have "unat (?c * drop_bit 24 p) = unat ?c * unat (drop_bit 24 p)" by (simp add: unat_word_ariths del: drop_bit_of_1)
  then have r: "unat (?c * drop_bit 24 p div 255) = unat ?c * unat (drop_bit 24 p) div 255" by (simp add: unat_div_distrib)
  have l: "unat (mmx_lane (lane 3 p) (lane i p)) = unat (drop_bit 24 p) * unat ?c div 255"
    using mmx_lane [OF lane_byte(2) lane_byte(2)] by (simp only: lane_byte(1) [of i] alpha_byte)
  also have "\<dots> \<le> 255" using m by (simp add: mult.commute)
  finally have "unat (ucast (saturate8 (mmx_lane (lane 3 p) (lane i p))) :: u32) = unat (drop_bit 24 p) * unat ?c div 255"
    using l by (subst pack_byte) simp_all
  then show ?thesis unfolding word_unat_eq_iff r by (simp only: mult.commute)
qed

lemma alpha_eq: "push_bit 24 (ucast (saturate8 (ucast (drop_bit 24 p)))) = p AND 0xFF000000" for p :: u32
proof -
  have a: "unat (drop_bit 24 p) \<le> 255" using lane_byte(2) [of 3 p] alpha_byte [of p] by simp
  then have u: "unat (ucast (drop_bit 24 p) :: u16) = unat (drop_bit 24 p)" by (simp add: unsigned_ucast_eq take_bit_nat_eq_self)
  then have "unat (ucast (saturate8 (ucast (drop_bit 24 p))) :: u32) = unat (drop_bit 24 p)" using a by (subst pack_byte) simp_all
  then have "ucast (saturate8 (ucast (drop_bit 24 p))) = drop_bit 24 p" by (simp only: word_unat_eq_iff)
  moreover have "(0xFF000000 :: u32) = NOT (mask 24)" by (simp add: mask_eq_exp_minus_1 not_eq_complement)
  moreover have "push_bit 24 (drop_bit 24 p) = p AND NOT (mask 24)" by (rule bit_eqI) (auto simp: bit_simps)
  ultimately show ?thesis by simp
qed

lemma premultiply_mmx_eq: "premultiply_mmx p = premultiply p"
proof -
  have v: "psrlwi (pmulhuw (pmullw (pshufw_255 (punpcklbw p)) (punpcklbw p)) [0x8081, 0x8081, 0x8081, 0]) 7 =
      [mmx_lane (lane 3 p) (lane 0 p), mmx_lane (lane 3 p) (lane 1 p), mmx_lane (lane 3 p) (lane 2 p), 0]"
    unfolding psrlwi_def pmulhuw_def pmullw_def pshufw_255_def punpcklbw_def mmx_lane_def
    by simp
  show ?thesis
    unfolding premultiply_mmx_def premultiply_def Let_def v packuswb_def bytes_dword_def
    by (simp add: alpha_eq channel_eq [of p 0, simplified] channel_eq [of p 1, simplified] channel_eq [of p 2, simplified])
qed

text \<open>
  C38.  The vector version of the cursor conversion, which multiplies by a reciprocal in 16-bit lanes,
  computes for every image exactly what the scalar version with its divisions by 255 computes.
\<close>

theorem ConvertAlphaCursor_mmx:
  "ConvertAlphaCursor premultiply_mmx cursor width height = ConvertAlphaCursor premultiply cursor width height"
proof -
  have "premultiply_mmx = premultiply" by (rule ext) (rule premultiply_mmx_eq)
  then show ?thesis by simp
qed

text \<open>The stored EDID has one or two blocks.\<close>

lemma start_edid_length:
  assumes "m_edid s = None" "m_edid (start_edid env s) = Some edid"
  shows "length edid = 128 \<or> length edid = 256"
proof -
  obtain bytes where b: "edid_property env = Some bytes" "0 < length bytes" "length bytes \<le> 256"
      "edid = bytes @ replicate ((length bytes + 127) div 128 * 128 - length bytes) 0"
    using assms by (auto simp: start_edid_def Let_def split: option.splits if_splits)
  have "length edid = (length bytes + 127) div 128 * 128" by (simp add: b(4))
  moreover have "(length bytes + 127) div 128 = 1 \<or> (length bytes + 127) div 128 = 2" using b(2,3) by linarith
  ultimately show ?thesis by auto
qed

lemma unat_times_128: "unat (x * 128) = unat x mod 2 ^ 25 * 128" for x :: u32
  using mod_mult_mult2 [of "unat x" 128 "2 ^ 25"] by (simp add: unat_word_ariths)

text \<open>
  C39.  The block of the EDID that \<open>getDDCBlock\<close> copies lies inside the stored EDID exactly if the block number is not a
  multiple of \<open>2 ^ 25\<close>: for those the product with 128 wraps to 0, passes the check, and the copy reads
  almost 4 GB behind the buffer.
\<close>

theorem getDDCBlock_range:
  assumes "m_edid s = Some edid" "length edid = 128 \<or> length edid = 256"
    and "getDDCBlock connectIndex blockNumber edid_type data len super_result s = Inl (off, n)"
  shows "off + n \<le> length edid \<longleftrightarrow> unat blockNumber mod 2 ^ 25 \<noteq> 0"
proof -
  define k where "k = unat blockNumber mod 2 ^ 25"
  have c: "blockNumber \<noteq> 0" "blockNumber * 128 \<le> of_nat (length edid)" and o: "off = unat ((blockNumber - 1) * 128)" "n = 128"
    using assms(1,3) by (auto simp: getDDCBlock_def split: option.splits if_splits)
  have "unat (of_nat (length edid) :: u32) = length edid" using assms(2) by auto
  then have le: "k * 128 \<le> length edid" using c(2) unat_times_128 [of blockNumber] by (simp add: word_le_nat_alt k_def)
  have "unat (blockNumber - 1) = unat blockNumber - 1" using c(1) by (simp add: unat_minus_one)
  then have off: "off = (unat blockNumber - 1) mod 2 ^ 25 * 128" by (simp only: o(1) unat_times_128)
  have pos: "0 < unat blockNumber" using c(1) by (simp add: unat_gt_0)
  define q where "q = unat blockNumber div 2 ^ 25"
  have e: "unat blockNumber = q * 2 ^ 25 + k" by (simp add: q_def k_def)
  show ?thesis
  proof (cases "k = 0")
    case True
    then obtain r where "q = Suc r" using e pos by (cases q) auto
    then have "unat blockNumber - 1 = r * 2 ^ 25 + (2 ^ 25 - 1)" using e True by simp
    then have "(unat blockNumber - 1) mod 2 ^ 25 = 2 ^ 25 - 1" by (simp only: mod_mult_self3) simp
    then show ?thesis using off o(2) assms(2) True by (auto simp: k_def)
  next
    case False
    have "k < 2 ^ 25" by (simp add: k_def)
    have "unat blockNumber - 1 = q * 2 ^ 25 + (k - 1)" using e False by simp
    then have "(unat blockNumber - 1) mod 2 ^ 25 = k - 1" using \<open>k < 2 ^ 25\<close> by (simp only: mod_mult_self3) simp
    then have "off + n = k * 128" using off o(2) False by (cases k) simp_all
    then show ?thesis using le False by (simp add: k_def)
  qed
qed

definition demo_fb :: "'h SVGADevice \<Rightarrow> 'h CEsvga2" where
  "demo_fb d =
     \<lparr>svga = d, m_vram = None, m_num_active_modes = 0, m_display_mode = 0, m_depth_mode = 0, m_restore_call = False, m_modes = [0],
      m_custom_switch = 0, m_custom_mode_switched = False, m_intr = False, m_iolock = False, m_cursor_image = False,
      m_hotspot_x = 0, m_hotspot_y = 0, m_intr_enabled = False, m_accel_updates = False, m_refresh_call = False,
      m_refresh_quantum_ms = 0, customMode = modeList ! 0, m_edid = Some (replicate 128 0), options_fb = 0, refresh_due = None,
      restore_due = False, events = 0\<rparr>"

theorem getDDCBlock_range_witness:
  "getDDCBlock 0 0x2000000 True True (Some 128) () (demo_fb boot_device) = Inl (0xFFFFFF80, 128) \<and> \<not> 0xFFFFFF80 + 128 \<le> (128 :: nat) \<and>
   getDDCBlock 0 1 True True (Some 128) () (demo_fb boot_device) = Inl (0, 128)"
proof -
  have g: "getDDCBlock 0 0x2000000 True True (Some 128) () (demo_fb boot_device) = Inl (0xFFFFFF80, 128)"
    "getDDCBlock 0 1 True True (Some 128) () (demo_fb boot_device) = Inl (0, 128)"
    by (simp_all add: getDDCBlock_def demo_fb_def)
  then show ?thesis
    using getDDCBlock_range [OF _ _ g(1), of "replicate 128 0"] by (simp add: demo_fb_def)
qed

text \<open>What \<open>start\<close> leaves behind of the modes.\<close>

lemma schedule_fields:
  "m_display_mode (scheduleRefreshTimer ms s) = m_display_mode s" "m_modes (scheduleRefreshTimer ms s) = m_modes s"
  "m_num_active_modes (scheduleRefreshTimer ms s) = m_num_active_modes s" "m_restore_call (scheduleRefreshTimer ms s) = m_restore_call s"
  by (simp_all add: scheduleRefreshTimer_def)

lemma start_modes_ids: "i < m_num_active_modes (start_modes s) \<Longrightarrow> m_modes (start_modes s) ! i = 1"
  by (auto simp: start_modes_def Let_def split: if_splits)

lemma start_lock_fields:
  assumes "start_lock env s = (True, s')"
  shows "m_display_mode s' = 3 \<and> m_restore_call s' = m_restore_call s \<and> m_modes s' = m_modes s \<and> m_num_active_modes s' = m_num_active_modes s"
  using assms by (auto simp: start_lock_def schedule_fields TryDetectCurrentDisplayMode_def split: if_splits)

lemma start_fifo_fields:
  assumes "start_fifo env s = (True, s')"
  shows "m_display_mode s' = 3 \<and> m_restore_call s' = m_restore_call s \<and> m_modes s' = m_modes s \<and> m_num_active_modes s' = m_num_active_modes s"
  using assms by (auto simp: start_fifo_def Let_def dest!: start_lock_fields split: if_splits prod.splits)

lemma FB_start_fields:
  assumes "FB_start env s = (True, s')"
  shows "m_display_mode s' = 3" "m_restore_call s'" "\<And>i. i < m_num_active_modes s' \<Longrightarrow> m_modes s' ! i = 1"
proof -
  obtain t where "start_rest env t = (True, s')"
    using assms by (auto simp: FB_start_def Let_def split: if_splits prod.splits)
  then obtain u where "start_fifo env ((start_modes u)\<lparr>m_restore_call := True, m_custom_switch := 0, m_custom_mode_switched := False\<rparr>) = (True, s')"
    by (auto simp: start_rest_def Let_def split: if_splits)
  from start_fifo_fields [OF this] show "m_display_mode s' = 3" "m_restore_call s'" "\<And>i. i < m_num_active_modes s' \<Longrightarrow> m_modes s' ! i = 1"
    using start_modes_ids [of _ u] by auto
qed

text \<open>
  C40.  With the one mode of the list, whose identifier is that of the custom mode: after \<open>start\<close> the current mode is 3, which does
  not exist, so that requests for custom modes are refused until a mode is set; and as long as the list of modes is the one
  of \<open>start\<close>, \<open>RestoreAllModes\<close> never finds a mode to restore and leaves the custom switch as it is.
\<close>

theorem FB_start_modes:
  assumes "FB_start env s = (True, s')"
  shows "m_display_mode s' = 3 \<and>
    CustomMode (Some request) True True version_major others s' = Some (kIOReturnUnsupported, None, s') \<and>
    (\<forall>t. m_modes t = m_modes s' \<and> m_num_active_modes t = m_num_active_modes s' \<longrightarrow> RestoreAllModes t = Some t)"
proof -
  note f = FB_start_fields [OF assms]
  have "CustomMode (Some request) True True version_major others s' = Some (kIOReturnUnsupported, None, s')"
    using f(1,2) by (cases request) (simp add: CustomMode_def GetDisplayMode_def)
  moreover have "RestoreAllModes t = Some t" if t: "m_modes t = m_modes s'" "m_num_active_modes t = m_num_active_modes s'" for t
  proof -
    have "find (\<lambda>i. case GetDisplayMode (m_modes t ! i) t of None \<Rightarrow> False
        | Some dme2 \<Rightarrow> dm_width dme2 \<noteq> dm_width (customMode t) \<or> dm_height dme2 \<noteq> dm_height (customMode t)) [0..<m_num_active_modes t] = None"
      unfolding find_None_iff using f(3) by (auto simp: t GetDisplayMode_def)
    then show ?thesis by (simp add: RestoreAllModes_def GetDisplayMode_def)
  qed
  ultimately show ?thesis using f(1) by blast
qed

abbreviation demo_fb_env :: fb_env where
  "demo_fb_env \<equiv> \<lparr>is_pci = True, super_start = True, arg_options = Some 0, arg_fps = None, edid_property = None, edid_alloc = True,
     device_memory = Some 0x1000000, device_env = boot_env, restore_alloc = True, refresh_alloc = True, lock_alloc = True\<rparr>"

theorem FB_start_modes_witness:
  "fst (FB_start demo_fb_env (demo_fb boot_device)) \<and>
   CustomMode (Some (1, 800, 600)) True True 12 Some (snd (FB_start demo_fb_env (demo_fb boot_device))) =
     Some (kIOReturnUnsupported, None, snd (FB_start demo_fb_env (demo_fb boot_device)))"
proof -
  let ?r = "FB_start demo_fb_env (demo_fb boot_device)"
  have "fst (SVGADevice_Start boot_env (snd (SVGADevice_Init boot_device)))"
    by (simp add: SVGADevice_Start_def SVGADevice_Init_def boot_env_def boot_device_def WriteReg_def ReadReg_def
        boot_outl_def boot_inl_def Let_def HasCapability_def read_modes_def read_gmr_limits_def Start_fifo_def FIFOInit_def set_fifo_def)
  then have ok: "fst ?r"
    by (simp add: FB_start_def start_edid_def demo_fb_def case_prod_beta Let_def start_rest_def start_fifo_def start_lock_def
        checkOptionFB_def start_modes_def)
  then have "?r = (True, snd ?r)" by (simp add: prod_eq_iff)
  from FB_start_modes [OF this, of "(1, 800, 600)" 12 Some] ok show ?thesis by blast
qed

end
