(* ===== verification/Spec2Isabelle.thy ===== *)
theory Spec2Isabelle
  imports GL_Device GL_DevCaps FB_Driver
begin

text \<open>
  \<^bold>\<open>CEsvga2: a verification development for the VMware SVGA II driver.\<close>

  The repository is a driver for macOS guests.  Its kernel part has two halves.  The framebuffer half
  (\<open>src/FB\<close>) owns the device: \<open>SVGADevice\<close> programs the registers through two I/O ports and
  sends commands through a ring in memory shared with the host, the command FIFO.  The accelerator
  half (\<open>src/AC\<close>) uses the same device: \<open>SVGA3D\<close> and \<open>SVGAScreen\<close> write 3D and screen commands,
  \<open>CEsvga2Accel\<close> hands out identifiers, surfaces, contexts and guest memory regions to clients, and
  \<open>CEsvga2Allocator\<close> manages the video memory behind the framebuffer.

  \<^bold>\<open>Conventions.\<close>  The configuration is the 64-bit kernel, with the option \<open>FRAGILE\<close> of the allocator.  C
  integers are words of their width (\<open>u8\<close> to \<open>u64\<close>) where wrapping matters; the allocator works on
  naturals with \<open>mod 2 ^ 32\<close> written out (\<open>w32\<close>, \<open>sub32\<close>).  A class is a record
  with the fields of the source, a method a function from the record to the result and the new
  record.  Loops that may wait for the host forever are \<open>partial_function (option)\<close>, so that
  \<open>None\<close> is a call that does not return; results about them say when they return.  The host is
  a parameter: the fields \<open>outl_port\<close>, \<open>inl_port\<close> and \<open>host\<close> of the device are arbitrary functions
  and state, constrained only by \<open>host_wf\<close> (the host reads the ring and moves
  \<open>SVGA_FIFO_STOP\<close>, and leaves the rest of it alone) and, for results of termination,
  \<open>host_progress\<close> (it consumes something after finitely many requests) and \<open>host_idles\<close> (when the busy register is
  polled, it is 0 at some time).  Locks are
  not modelled: a method runs with its lock held, as in the source.

  \<^bold>\<open>Device and FIFO.\<close>
    \<^item> \<open>SVGA_Prelude\<close>, \<open>SVGA_Regs\<close>: word and list lemmas, register numbers, capability bits, command codes
      (\<open>src/ceinclude/svga_reg.h\<close>).
    \<^item> \<open>SVGA_Device\<close>: \<open>src/FB/SVGADevice.cpp\<close>, one definition per method, in its order.
    \<^item> \<open>SVGA_Fifo\<close>: the ring as a queue of words (\<open>ring_queue\<close>), and that reserve and commit implement an
      append to it, in place or over the bounce buffer.
    \<^item> \<open>SVGA_Popcount\<close>, \<open>SVGA_Commands\<close>: the bit count, every command as a transmission of its words, the locale
      \<open>command_channel\<close> for clients that only send whole commands, and the step relation
      \<open>device_step\<close> of driver and host.
    \<^item> \<open>SVGA_Startup\<close>: start-up, a concrete host, and the properties of the device: sending refines the queue and
      returns (C1), the ring stays well formed over all interleavings (C2), commands arrive
      in order (C3), refusals (C4, C5), start-up and its failures
      (C6, C7), escapes (C8), fences (C9,
      C10), synchronisation (C11), the cursor (\<open>DefineAlphaCursor_message\<close>).
    \<^item> \<open>SVGA_Sync\<close>: sequences of messages (\<open>sent_all\<close>), and that \<open>SyncToFence\<close> returns after the fence has passed or the host was
      seen idle (\<open>waited\<close>).
    \<^item> \<open>FB_Driver\<close>: \<open>src/FB/CEsvga2.cpp\<close>, the driver around the device: the vector version of the cursor conversion
      (C38), which EDID bytes are copied (C39), and the modes after start-up (C40).

  \<^bold>\<open>Command layers.\<close>
    \<^item> \<open>SVGA_3D\<close>: \<open>src/AC/SVGA3D.cpp\<close>: each method sends one message, which \<open>command_message\<close> spells out for a datatype of
      commands (C12).
    \<^item> \<open>SVGA_Screen\<close>: \<open>src/AC/SVGAScreen.cpp\<close> (\<open>screen_commands_send\<close>).

  \<^bold>\<open>Allocator.\<close>
    \<^item> \<open>Buddy_Model\<close>: \<open>src/AC/CEsvga2Allocator.cpp\<close>, with the pool as a list of 32-bit words, in which the free
      blocks carry their links, and the bit map of free blocks.
    \<^item> \<open>Buddy_Bitmap\<close>: the bit operations, over the locale \<open>bit_array\<close>, which \<open>Accel_Ids\<close> interprets as
      well.
    \<^item> \<open>Buddy_Pool\<close>, \<open>Buddy_Alloc\<close>, \<open>Buddy_Malloc\<close>, \<open>Buddy_Free\<close>, \<open>Buddy_Ops\<close>: the invariant (\<open>sound\<close>: a
      tiling of the pool by aligned blocks with an owner each, free lists that hold exactly the free ones,
      matching bit map and byte count), and what every operation does to it.
    \<^item> \<open>Buddy_Heap\<close>: the abstract heap of live chunks, the locale \<open>heap_impl\<close> of its laws and the
      interpretation on the allocator.
    \<^item> \<open>Buddy_Props\<close>: the invariant over all histories (C14), what \<open>Malloc\<close>,
      \<open>Free\<close> and \<open>Realloc\<close> do (C15, C16, C18, \<open>Realloc_shrink_in_place\<close>), live
      chunks are disjoint (C17), and the byte that \<open>Release\<close> does not check (C19).

  \<^bold>\<open>Accelerator.\<close>  From \<open>src/AC/CEsvga2Accel.cpp\<close>, unless another file is named.
    \<^item> \<open>Accel_Ids\<close>: the object, the bit searches and the identifiers, over the locale \<open>id_pool\<close> with four
      interpretations (C20, C21, \<open>context_and_stream_ids_distinct\<close>).
    \<^item> \<open>Accel_Ops\<close>: the methods for rectangles, surfaces, contexts, screens, video and the master surface.
    \<^item> \<open>Accel_Surface\<close>: surface and context methods send their command (C22) or drop it
      silently (C23); transfers and presentations with their fences (C13,
      \<open>src/AC/FenceTracker.h\<close>); the master surface, in the driver and on the host (C24).  The messages
      are spelled out dword by dword in \<open>accel_message\<close> and \<open>fenced_message\<close>.
    \<^item> \<open>Accel_Blit\<close>: copies and fills by the processor: which bytes they touch (C25, \<open>clearGFB_inside\<close>),
      and the rows and rectangles they treat wrongly (C26, \<open>clearGFB_right_of_screen\<close>).
    \<^item> \<open>Accel_GMR\<close>: guest memory regions: the descriptor table means to the device what it should (C27), and
      the page list of \<open>createGMR2\<close> (C28).
    \<^item> \<open>Accel_VRAM\<close>: the allocator at work on the mapping of the video memory: clients never get memory of the
      framebuffer (C29, which spans the accelerator, the device and the allocator).
    \<^item> \<open>Accel_VertexArray\<close>: \<open>src/AC/GL/VertexArray.cpp\<close>, a client of surfaces, fences and video
      memory (C30).
    \<^item> \<open>Accel_Transfer\<close>: \<open>src/AC/VendorTransferBuffer.cpp\<close>, client memory that is a memory region while it is transferred
      (C31).
    \<^item> \<open>GL_Shared\<close>: \<open>src/AC/GL/CEsvga2Shared.cpp\<close>, the textures of a task.  They are objects in a store, with a list
      that is linked in both directions, a table of handles, system objects shared with the client, and counted links
      from textures to the textures of client memory that they use.  \<open>GL_TextureList\<close> has the lemmas on the list,
      \<open>GL_Textures\<close> the invariant, \<open>GL_Delete\<close> shows that deleting keeps it, \<open>GL_Create\<close> and \<open>GL_NewTexture\<close> that creating
      does, on every path of failure, and \<open>GL_TextureData\<close> what the new textures hold.
    \<^item> \<open>GL_Device\<close>: the methods of \<open>src/AC/UC/CEsvga2Device.cpp\<close> that create and delete textures for a client
      (C32, C33, C34, C36).  The
      invariant holds for clients that do not delete a texture another one links to; the code does not enforce
      this (C35).
    \<^item> \<open>GL_DevCaps\<close>: \<open>src/AC/GL/DevCaps.c\<close>, the table of 3D capabilities, read from the records of the
      capability block (C37).

  \<^bold>\<open>Bounds.\<close>  Two functions have a bound on their steps.  For \<open>gmr_walk\<close>, C27 shows that the limit the device itself
  reports is enough.  \<open>toFree_loop\<close> of the allocator gets the number of blocks of the range, of which every round
  of the loop consumes at least one.  Identifier results hold for fewer than \<open>2 ^ 31 - 256\<close> requests, after which
  numbers of the source become negative.  C25 assumes mappings that are not at the ends of the 64-bit
  address space.

  \<^bold>\<open>Not modelled.\<close>  The IOKit side of both halves (matching, start and stop of services, user clients, shared
  memory with tasks, notifications), since it consists of calls into the kernel; the interpreter of
  Apple's GL command buffers and the translator of fragment programs; paging of textures; the user-space bundles in \<open>src/GA\<close> and
  \<open>src/GLD\<close>; logging.  Of \<open>CEsvga2Accel\<close>, \<open>RectFillScreen\<close>.
\<close>

end
